(* ===== verification/Prelude.thy ===== *)
theory Prelude
  imports Main "HOL-Library.Char_ord" "HOL-Library.List_Lexorder"
    "HOL-Library.Product_Lexorder"
begin

text \<open>
  Shared vocabulary of the development: results of fallible Rust code, 64-bit
  integers with the overflow behaviour of the release profile
  (\<open>overflow-checks = true\<close> in \<open>Cargo.toml\<close>: an overflowing operator panics),
  the string operations of the standard library the code uses, and the ordered
  map \<open>BTreeMap\<close> as an association list with strictly increasing keys.

  A Rust \<open>String\<close> is the list of its UTF-8 bytes, so \<open>length\<close> is \<open>str::len\<close> and
  the order of lists is the byte order Rust compares strings in.
\<close>

named_theorems result_simps \<open>rewriting the error propagation of fallible code\<close>
named_theorems map_simps \<open>lookup after an update of an ordered map\<close>

section \<open>Results\<close>

text \<open>
  A fallible function returns an error value of the code (\<open>Fail\<close>), panics
  (\<open>Panic\<close>), or returns normally. \<open>bindE\<close> is the operator \<open>?\<close>.
\<close>

datatype 'e fault = Fail 'e | Panic

type_synonym ('e, 'a) result = "'e fault + 'a"

definition bindE :: "('e, 'a) result \<Rightarrow> ('a \<Rightarrow> ('e, 'b) result) \<Rightarrow> ('e, 'b) result" where
  "bindE m f = (case m of Inl e \<Rightarrow> Inl e | Inr a \<Rightarrow> f a)"

lemma bindE_simps [simp, result_simps]:
  "bindE (Inl e) f = Inl e"
  "bindE (Inr a) f = f a"
  by (simp_all add: bindE_def)

lemma bindE_eq_Inr [result_simps]:
  "bindE m f = Inr b \<longleftrightarrow> (\<exists>a. m = Inr a \<and> f a = Inr b)"
  by (cases m) auto

lemma bindE_eq_Inl [result_simps]:
  "bindE m f = Inl e \<longleftrightarrow> m = Inl e \<or> (\<exists>a. m = Inr a \<and> f a = Inl e)"
  by (cases m) auto

lemma bindE_assoc: "bindE (bindE m f) g = bindE m (\<lambda>x. bindE (f x) g)"
  by (cases m) auto

text \<open>The option a caller sees with \<open>.ok()\<close>; the first error of a list of results.\<close>

definition ok_of :: "('e, 'a) result \<Rightarrow> 'a option" where
  "ok_of m = (case m of Inl _ \<Rightarrow> None | Inr a \<Rightarrow> Some a)"

lemma ok_of_simps [simp]: "ok_of (Inl e) = None" "ok_of (Inr a) = Some a"
  by (simp_all add: ok_of_def)

fun sequenceE :: "('e, 'a) result list \<Rightarrow> ('e, 'a list) result" where
  "sequenceE [] = Inr []"
| "sequenceE (m # ms) = bindE m (\<lambda>a. bindE (sequenceE ms) (\<lambda>as. Inr (a # as)))"

lemma sequenceE_map_Inr [simp]: "sequenceE (map Inr xs) = Inr xs"
  by (induction xs) auto

lemma sequenceE_Inr:
  "sequenceE ms = Inr xs \<longleftrightarrow> ms = map Inr xs"
proof (induction ms arbitrary: xs)
  case Nil
  then show ?case by auto
next
  case (Cons m ms)
  then show ?case by (cases xs) (auto simp: bindE_eq_Inr)
qed

lemma sequenceE_map:
  assumes "\<And>x. x \<in> set xs \<Longrightarrow> f x = Inr (g x)"
  shows "sequenceE (map f xs) = Inr (map g xs)"
  using assms by (induction xs) auto

lemma sequenceE_Inl_mem:
  "Inl e \<in> set ms \<Longrightarrow> \<exists>e'. sequenceE ms = Inl e' \<and> Inl e' \<in> set ms"
proof (induction ms)
  case (Cons m ms)
  then show ?case by (cases m) (auto simp: bindE_eq_Inl)
qed simp

fun foldE :: "('a \<Rightarrow> 's \<Rightarrow> ('e, 's) result) \<Rightarrow> 'a list \<Rightarrow> 's \<Rightarrow> ('e, 's) result" where
  "foldE f [] s = Inr s"
| "foldE f (x # xs) s = bindE (f x s) (foldE f xs)"

lemma bindE_return [simp]: "bindE m Inr = m"
  by (cases m) auto

lemma foldE_Nil [simp]: "foldE f [] = Inr"
  by (simp add: fun_eq_iff)

lemma foldE_append:
  "foldE f (xs @ ys) s = bindE (foldE f xs s) (foldE f ys)"
  by (induction xs arbitrary: s) (auto simp: bindE_assoc bindE_def split: sum.splits)

lemma foldE_invariant:
  assumes "foldE f xs s = Inr t" and "P s"
    and "\<And>x s t. x \<in> set xs \<Longrightarrow> P s \<Longrightarrow> f x s = Inr t \<Longrightarrow> P t"
  shows "P t"
  using assms
proof (induction xs arbitrary: s)
  case Nil
  then show ?case by simp
next
  case (Cons x xs)
  then obtain u where u: "f x s = Inr u" "foldE f xs u = Inr t"
    by (auto simp: bindE_eq_Inr)
  with Cons.prems have "P u" by auto
  with u Cons show ?case by auto
qed

section \<open>Machine integers\<close>

definition i64_min :: int where "i64_min = - (2 ^ 63)"
definition i64_max :: int where "i64_max = 2 ^ 63 - 1"

definition in_i64 :: "int \<Rightarrow> bool" where
  "in_i64 v \<longleftrightarrow> i64_min \<le> v \<and> v \<le> i64_max"

text \<open>\<open>v as i64\<close> from a wider type keeps the low 64 bits.\<close>

definition as_i64 :: "int \<Rightarrow> int" where
  "as_i64 v = (v + 2 ^ 63) mod 2 ^ 64 - 2 ^ 63"

text \<open>An operator whose exact result is \<open>v\<close>: a panic when it does not fit.\<close>

definition chk_i64 :: "int \<Rightarrow> ('e, int) result" where
  "chk_i64 v = (if in_i64 v then Inr v else Inl Panic)"

text \<open>\<open>checked_add\<close>, \<open>checked_sub\<close>, \<open>checked_mul\<close> on the exact result.\<close>

definition checked_i64 :: "int \<Rightarrow> int option" where
  "checked_i64 v = (if in_i64 v then Some v else None)"

definition ok_or :: "'a option \<Rightarrow> 'e \<Rightarrow> ('e, 'a) result" where
  "ok_or m e = (case m of None \<Rightarrow> Inl (Fail e) | Some a \<Rightarrow> Inr a)"

lemma ok_or_simps [simp, result_simps]:
  "ok_or None e = Inl (Fail e)" "ok_or (Some a) e = Inr a"
  by (simp_all add: ok_or_def)

lemma ok_or_Inr [result_simps]: "ok_or m e = Inr a \<longleftrightarrow> m = Some a"
  by (cases m) auto

lemma ok_or_not_Panic [simp]: "ok_or m e \<noteq> Inl Panic"
  by (cases m) auto

lemma i64_bounds: "i64_min = - 9223372036854775808" "i64_max = 9223372036854775807"
  by (simp_all add: i64_min_def i64_max_def)

lemma in_i64_alt: "in_i64 v \<longleftrightarrow> - 9223372036854775808 \<le> v \<and> v \<le> 9223372036854775807"
  by (simp add: in_i64_def i64_bounds)

lemma as_i64_id: "in_i64 v \<Longrightarrow> as_i64 v = v"
  by (simp add: as_i64_def in_i64_alt)

lemma in_i64_as_i64 [simp]: "in_i64 (as_i64 v)"
proof -
  have "0 \<le> (v + 2 ^ 63) mod 2 ^ 64" "(v + 2 ^ 63) mod 2 ^ 64 < (2::int) ^ 64"
    by simp_all
  then show ?thesis by (simp add: as_i64_def in_i64_alt)
qed

lemma chk_i64_Inr [result_simps]: "chk_i64 v = Inr w \<longleftrightarrow> in_i64 v \<and> w = v"
  by (auto simp: chk_i64_def)

lemma checked_i64_Some [result_simps]: "checked_i64 v = Some w \<longleftrightarrow> in_i64 v \<and> w = v"
  by (auto simp: checked_i64_def)

definition ceil_div :: "int \<Rightarrow> int \<Rightarrow> int" where
  "ceil_div a b = - ((- a) div b)"

lemma ceil_div_bounds:
  assumes "0 < b"
  shows "a \<le> ceil_div a b * b" and "ceil_div a b * b < a + b"
proof -
  define q where "q = (- a) div b"
  have e: "q * b + (- a) mod b = - a"
    unfolding q_def by (rule div_mult_mod_eq)
  have m: "0 \<le> (- a) mod b" "(- a) mod b < b" using assms by auto
  have c: "ceil_div a b * b = - (q * b)"
    by (simp add: ceil_div_def q_def)
  show "a \<le> ceil_div a b * b" using e m c by linarith
  show "ceil_div a b * b < a + b" using e m c by linarith
qed

text \<open>Signed division of Rust truncates towards zero.\<close>

definition trunc_div :: "int \<Rightarrow> int \<Rightarrow> int" where
  "trunc_div a b = sgn a * sgn b * (\<bar>a\<bar> div \<bar>b\<bar>)"


section \<open>Strings\<close>

text \<open>
  \<open>str::trim\<close> strips the characters with the Unicode property \<open>White_Space\<close>,
  listed here by their UTF-8 bytes. \<open>str::to_lowercase\<close> is modelled on the ASCII
  letters; every other byte is kept, so the model of it is exact on ASCII text.
\<close>

definition bytes :: "nat list \<Rightarrow> string" where
  "bytes ns = map char_of ns"

definition white_space :: "string list" where
  "white_space = map bytes ([[9], [10], [11], [12], [13], [32], [194, 133], [194, 160],
     [225, 154, 128]] @ map (\<lambda>b. [226, 128, b]) [128..<139] @
     [[226, 128, 168], [226, 128, 169], [226, 128, 175], [226, 129, 159], [227, 128, 128]])"

definition starts_with :: "string \<Rightarrow> string \<Rightarrow> bool" where
  "starts_with p s \<longleftrightarrow> take (length p) s = p"

function strip_start :: "string list \<Rightarrow> string \<Rightarrow> string" where
  "strip_start ws s =
     (case find (\<lambda>w. w \<noteq> [] \<and> starts_with w s) ws of
        None \<Rightarrow> s
      | Some w \<Rightarrow> strip_start ws (drop (length w) s))"
  by pat_completeness auto
termination
proof (relation "measure (\<lambda>(ws, s). length s)")
  fix ws s w
  assume "find (\<lambda>w. w \<noteq> [] \<and> starts_with w s) ws = Some w"
  then have "w \<noteq> []" "take (length w) s = w"
    by (auto simp: find_Some_iff starts_with_def)
  then have "0 < length w" "s \<noteq> []" by auto
  then show "((ws, drop (length w) s), ws, s) \<in> measure (\<lambda>(ws, s). length s)"
    by simp
qed simp

declare strip_start.simps [simp del]

definition trim :: "string \<Rightarrow> string" where
  "trim s = rev (strip_start (map rev white_space) (rev (strip_start white_space s)))"

lemma strip_start_stop: "w \<in> set ws \<Longrightarrow> w \<noteq> [] \<Longrightarrow> \<not> starts_with w (strip_start ws s)"
proof (induction ws s rule: strip_start.induct)
  case (1 ws s)
  then show ?case
    by (subst strip_start.simps) (auto simp: find_None_iff split: option.splits)
qed

lemma strip_start_suffix: "\<exists>p. s = p @ strip_start ws s"
proof (induction ws s rule: strip_start.induct)
  case (1 ws s)
  show ?case
  proof (cases "find (\<lambda>w. w \<noteq> [] \<and> starts_with w s) ws")
    case None
    then show ?thesis by (subst strip_start.simps) simp
  next
    case (Some w)
    from "1.IH" [OF Some] obtain p where "drop (length w) s = p @ strip_start ws (drop (length w) s)" by blast
    moreover have "strip_start ws s = strip_start ws (drop (length w) s)"
      using Some by (subst strip_start.simps) simp
    ultimately have "s = (take (length w) s @ p) @ strip_start ws s"
      by (metis append.assoc append_take_drop_id)
    then show ?thesis by blast
  qed
qed

lemma strip_start_id: "\<forall>w \<in> set ws. w \<noteq> [] \<longrightarrow> \<not> starts_with w s \<Longrightarrow> strip_start ws s = s"
  by (subst strip_start.simps) (auto simp: find_Some_iff split: option.splits)

lemma starts_with_append: "starts_with w s \<Longrightarrow> starts_with w (s @ t)"
  by (cases "length w \<le> length s") (auto simp: starts_with_def)

lemma trim_trim [simp]: "trim (trim s) = trim s"
proof -
  let ?a = "strip_start white_space s"
  let ?r = "strip_start (map rev white_space) (rev ?a)"
  have t: "trim s = rev ?r" by (simp add: trim_def)
  obtain p where "rev ?a = p @ ?r" using strip_start_suffix by blast
  then have a: "?a = rev ?r @ rev p" by (metis rev_append rev_rev_ident)
  have "strip_start white_space (rev ?r) = rev ?r"
  proof (intro strip_start_id ballI impI notI)
    fix w assume "w \<in> set white_space" "w \<noteq> []" "starts_with w (rev ?r)"
    with a strip_start_stop [of w white_space s] show False
      using starts_with_append [of w "rev ?r" "rev p"] by simp
  qed
  moreover have "strip_start (map rev white_space) ?r = ?r"
    using strip_start_stop by (intro strip_start_id) blast
  ultimately show ?thesis unfolding t by (simp add: trim_def)
qed

lemma trimmed_end:
  assumes "trim s = s" "w \<in> set white_space" "w \<noteq> []"
  shows "\<not> starts_with (rev w) (rev s)"
proof -
  have "rev s = strip_start (map rev white_space) (rev (strip_start white_space s))"
    using assms(1) by (metis rev_rev_ident trim_def)
  then show ?thesis
    using strip_start_stop [of "rev w" "map rev white_space"] assms(2,3) by simp
qed

lemma trimmedI:
  assumes "\<And>w. w \<in> set white_space \<Longrightarrow> \<not> starts_with w s \<and> \<not> starts_with (rev w) (rev s)"
  shows "trim s = s"
proof -
  have "strip_start white_space s = s" using assms by (intro strip_start_id) blast
  moreover have "strip_start (map rev white_space) (rev s) = rev s"
    using assms by (intro strip_start_id) auto
  ultimately show ?thesis by (simp add: trim_def)
qed

text \<open>A text that begins and ends with a printable ASCII character is trimmed.\<close>

definition printable :: "char \<Rightarrow> bool" where
  "printable c \<longleftrightarrow> 33 \<le> (of_char c :: nat) \<and> (of_char c :: nat) \<le> 126"

lemma white_space_ends: "w \<in> set white_space \<Longrightarrow> w \<noteq> [] \<and> \<not> printable (hd w) \<and> \<not> printable (last w)"
proof -
  have "list_all (\<lambda>w. w \<noteq> [] \<and> \<not> printable (hd w) \<and> \<not> printable (last w)) white_space" by code_simp
  then show "w \<in> set white_space \<Longrightarrow> ?thesis" by (auto simp: list_all_iff)
qed

lemma starts_with_hd: "starts_with w s \<Longrightarrow> w \<noteq> [] \<Longrightarrow> hd s = hd w"
  by (metis append_take_drop_id hd_append2 starts_with_def)

lemma trim_printable: "printable (hd s) \<Longrightarrow> printable (last s) \<Longrightarrow> trim s = s"
  using starts_with_hd [of _ s] starts_with_hd [of _ "rev s"] white_space_ends
  by (intro trimmedI) (metis hd_rev rev_is_Nil_conv)

text \<open>A prefix that no white space begins with or contains keeps a trimmed text trimmed.\<close>

lemma trim_prefixed:
  assumes "trim s = s" "p \<noteq> []"
    and "\<forall>w \<in> set white_space. w \<noteq> [] \<and> hd w \<noteq> hd p \<and> last p \<notin> set w"
  shows "trim (p @ s) = p @ s"
proof (rule trimmedI, intro conjI notI)
  fix w assume w: "w \<in> set white_space"
  with assms(3) have ne: "w \<noteq> []" "hd w \<noteq> hd p" "last p \<notin> set w" by auto
  { assume "starts_with w (p @ s)"
    then have "hd w = hd (p @ s)" using ne(1)
      by (metis hd_append2 append_take_drop_id starts_with_def)
    with ne(2) assms(2) show False by simp }
  { assume a: "starts_with (rev w) (rev (p @ s))"
    show False
    proof (cases "length w \<le> length s")
      case True
      with a have "starts_with (rev w) (rev s)" by (simp add: starts_with_def)
      with trimmed_end [OF assms(1) w ne(1)] show False by simp
    next
      case False
      with a have "rev w = rev s @ take (length w - length s) (rev p)" by (simp add: starts_with_def)
      moreover have "rev p = last p # rev (butlast p)"
        using assms(2) by (metis append_butlast_last_id rev.simps(2) rev_append rev_rev_ident append_Cons append_Nil rev_eq_Cons_iff)
      ultimately have "last p \<in> set (rev w)" using False by (simp add: take_Cons')
      with ne(3) show False by simp
    qed }
qed

definition ascii_lower :: "char \<Rightarrow> char" where
  "ascii_lower c =
     (let n = of_char c :: nat in if 65 \<le> n \<and> n \<le> 90 then char_of (n + 32) else c)"

definition to_lowercase :: "string \<Rightarrow> string" where
  "to_lowercase s = map ascii_lower s"

lemma ascii_lower_idem [simp]: "ascii_lower (ascii_lower c) = ascii_lower c"
  by (auto simp: ascii_lower_def Let_def)

lemma to_lowercase_idem [simp]: "to_lowercase (to_lowercase s) = to_lowercase s"
  by (simp add: to_lowercase_def)

definition contains_str :: "string \<Rightarrow> string \<Rightarrow> bool" where
  "contains_str p s \<longleftrightarrow> (\<exists>i \<in> set [0..<Suc (length s)]. starts_with p (drop i s))"

text \<open>\<open>str::split\<close> on one ASCII character.\<close>

fun split_on :: "char \<Rightarrow> string \<Rightarrow> string list" where
  "split_on d [] = [[]]"
| "split_on d (c # cs) =
     (if c = d then [] # split_on d cs
      else (case split_on d cs of [] \<Rightarrow> [[c]] | w # ws \<Rightarrow> (c # w) # ws))"

fun join :: "string \<Rightarrow> string list \<Rightarrow> string" where
  "join d [] = []"
| "join d [s] = s"
| "join d (s # t # ss) = s @ d @ join d (t # ss)"

lemma split_on_nonempty [simp]: "split_on d s \<noteq> []"
  by (induction s) (auto split: list.splits)

lemma split_on_no_sep: "d \<notin> set s \<Longrightarrow> split_on d s = [s]"
  by (induction s) auto

lemma split_on_append: "d \<notin> set s \<Longrightarrow> split_on d (s @ d # t) = s # split_on d t"
  by (induction s) (auto split: list.splits)

subsection \<open>Decimal numbers\<close>

definition digit_char :: "nat \<Rightarrow> char" where
  "digit_char d = char_of (48 + d)"

definition is_digit :: "char \<Rightarrow> bool" where
  "is_digit c \<longleftrightarrow> 48 \<le> (of_char c :: nat) \<and> (of_char c :: nat) \<le> 57"

definition digit_val :: "char \<Rightarrow> nat" where
  "digit_val c = of_char c - 48"

fun dec_nat :: "nat \<Rightarrow> string" where
  "dec_nat n = (if n < 10 then [digit_char n] else dec_nat (n div 10) @ [digit_char (n mod 10)])"

declare dec_nat.simps [simp del]

definition dec_int :: "int \<Rightarrow> string" where
  "dec_int i = (if i < 0 then CHR ''-'' # dec_nat (nat (- i)) else dec_nat (nat i))"

definition digits_val :: "string \<Rightarrow> nat" where
  "digits_val s = fold (\<lambda>c n. 10 * n + digit_val c) s 0"

text \<open>
  \<open>str::parse\<close> for integers: an optional sign (minus only for signed types), at
  least one digit, nothing else, and the value in the range of the type.
\<close>

definition parse_int :: "bool \<Rightarrow> int \<Rightarrow> int \<Rightarrow> string \<Rightarrow> int option" where
  "parse_int signed lo hi s =
     (let (neg, ds) = (case s of [] \<Rightarrow> (False, [])
                       | c # cs \<Rightarrow> if c = CHR ''+'' then (False, cs)
                                   else if c = CHR ''-'' \<and> signed then (True, cs)
                                   else (False, s));
          v = (if neg then - int (digits_val ds) else int (digits_val ds))
      in if ds \<noteq> [] \<and> list_all is_digit ds \<and> lo \<le> v \<and> v \<le> hi then Some v else None)"

definition parse_i64 :: "string \<Rightarrow> int option" where
  "parse_i64 = parse_int True i64_min i64_max"

lemma of_char_digit [simp]: "d < 10 \<Longrightarrow> (of_char (digit_char d) :: nat) = 48 + d"
  by (simp add: digit_char_def)

lemma digit_val_char [simp]: "d < 10 \<Longrightarrow> digit_val (digit_char d) = d"
  by (simp add: digit_val_def)

lemma is_digit_char [simp]: "d < 10 \<Longrightarrow> is_digit (digit_char d)"
  by (simp add: is_digit_def)

lemma digits_val_snoc: "digits_val (s @ [c]) = 10 * digits_val s + digit_val c"
  by (simp add: digits_val_def)

lemma dec_nat_digits: "list_all is_digit (dec_nat n)"
proof (induction n rule: dec_nat.induct)
  case (1 n)
  then show ?case by (subst dec_nat.simps) (auto simp del: is_digit_def)
qed

lemma dec_nat_nonempty [simp]: "dec_nat n \<noteq> []"
  by (subst dec_nat.simps) simp

lemma digits_val_dec_nat [simp]: "digits_val (dec_nat n) = n"
proof (induction n rule: dec_nat.induct)
  case (1 n)
  show ?case
  proof (cases "n < 10")
    case True
    then show ?thesis by (subst dec_nat.simps) (simp add: digits_val_def)
  next
    case False
    with 1 show ?thesis by (subst dec_nat.simps) (simp add: digits_val_snoc)
  qed
qed

lemma dec_nat_set: "c \<in> set (dec_nat n) \<Longrightarrow> is_digit c"
  using dec_nat_digits [of n] by (simp add: list_all_iff)

lemma not_digit_signs [simp]: "\<not> is_digit (CHR ''+'')" "\<not> is_digit (CHR ''-'')"
  by (simp_all add: is_digit_def)

lemma dec_nat_no_sign: "dec_nat n = c # cs \<Longrightarrow> c \<noteq> CHR ''+'' \<and> c \<noteq> CHR ''-''"
  using dec_nat_set [of c n] by auto

lemma parse_dec_int:
  assumes "lo \<le> v" "v \<le> hi" "v < 0 \<Longrightarrow> signed"
  shows "parse_int signed lo hi (dec_int v) = Some v"
proof (cases "v < 0")
  case True
  with assms dec_nat_digits [of "nat (- v)"] show ?thesis
    by (simp add: parse_int_def dec_int_def)
next
  case False
  obtain c cs where c: "dec_nat (nat v) = c # cs"
    using dec_nat_nonempty [of "nat v"] by (cases "dec_nat (nat v)") auto
  have dv: "digits_val (c # cs) = nat v"
    using digits_val_dec_nat [of "nat v"] c by simp
  have ds: "list_all is_digit (c # cs)"
    using dec_nat_digits [of "nat v"] c by simp
  have "parse_int signed lo hi (c # cs) = Some v"
    unfolding parse_int_def Let_def
    using dec_nat_no_sign [OF c] False assms(1,2) dv ds by simp
  with False c show ?thesis by (simp add: dec_int_def)
qed

lemma dec_nat_inj: "dec_nat m = dec_nat n \<longleftrightarrow> m = n"
  by (metis digits_val_dec_nat)

lemma dec_int_inj: "dec_int a = dec_int b \<longleftrightarrow> a = b"
proof
  assume e: "dec_int a = dec_int b"
  have "parse_int True (min a b) (max a b) (dec_int a) = Some a"
    by (rule parse_dec_int) simp_all
  moreover have "parse_int True (min a b) (max a b) (dec_int b) = Some b"
    by (rule parse_dec_int) simp_all
  ultimately show "a = b" unfolding e by (metis option.inject)
qed simp

end
