(* ===== verification/F64.thy ===== *)
theory F64
  imports Prelude
begin

text \<open>
  IEEE 754 binary64 values as the code's \<open>f64\<close> has them: not-a-number, the two
  infinities, and the finite values \<open>(-1)\<^sup>s * m * 2\<^sup>e\<close> with sign \<open>s\<close>, significand
  \<open>m < 2 ^ 53\<close> and exponent \<open>e\<close>. An operation rounds its exact result to the
  nearest value, ties to the even significand.
\<close>

datatype f64 = NaN | Inf bool | Fin bool nat int

fun nbits :: "nat \<Rightarrow> nat" where
  "nbits n = (if n = 0 then 0 else Suc (nbits (n div 2)))"

declare nbits.simps [simp del]

lemma nbits_numeral [simp]:
  "nbits 0 = 0" "nbits (Suc 0) = 1" "nbits 1 = 1" "nbits (numeral Num.One) = 1"
  "nbits (numeral (Num.Bit0 n)) = Suc (nbits (numeral n))"
  "nbits (numeral (Num.Bit1 n)) = Suc (nbits (numeral n))"
  by (simp_all add: nbits.simps [of 0] nbits.simps [of "Suc 0"] nbits.simps [of "numeral (Num.Bit0 n)"]
      nbits.simps [of "numeral (Num.Bit1 n)"])

text \<open>Drop \<open>k\<close> low bits, rounding to nearest, ties to even.\<close>

definition round_bits :: "nat \<Rightarrow> nat \<Rightarrow> nat" where
  "round_bits m k =
     (let q = m div 2 ^ k; r = m mod 2 ^ k
      in if 2 * r < 2 ^ k then q
         else if 2 * r = 2 ^ k then (if even q then q else Suc q)
         else Suc q)"

definition f64_round :: "bool \<Rightarrow> nat \<Rightarrow> int \<Rightarrow> f64" where
  "f64_round s m e =
     (if m = 0 then Fin s 0 (- 1074)
      else
        let q = max (e + int (nbits m) - 53) (- 1074)
        in if q \<le> e
           then (if 971 < q then Inf s else Fin s (m * 2 ^ nat (e - q)) q)
           else let m' = round_bits m (nat (q - e));
                    (m'', q') = (if m' = 2 ^ 53 then (2 ^ 52, q + 1) else (m', q))
                in if m'' = 0 then Fin s 0 (- 1074)
                   else if 971 < q' then Inf s else Fin s m'' q')"

definition f64_of_int :: "int \<Rightarrow> f64" where
  "f64_of_int i = f64_round (i < 0) (nat \<bar>i\<bar>) 0"

fun f64_is_finite :: "f64 \<Rightarrow> bool" where
  "f64_is_finite (Fin s m e) = True"
| "f64_is_finite _ = False"

text \<open>\<open>f == 0.0\<close>: both zeros are equal to it, a not-a-number is not.\<close>

fun f64_is_zero :: "f64 \<Rightarrow> bool" where
  "f64_is_zero (Fin s m e) = (m = 0)"
| "f64_is_zero _ = False"

text \<open>The integer part of a finite value, towards zero.\<close>

definition fin_trunc :: "bool \<Rightarrow> nat \<Rightarrow> int \<Rightarrow> int" where
  "fin_trunc s m e =
     (let v = (if 0 \<le> e then int m * 2 ^ nat e else int (m div 2 ^ nat (- e)))
      in if s then - v else v)"

text \<open>\<open>f as i64\<close>: truncates, saturates at the bounds, maps not-a-number to 0.\<close>

fun f64_as_i64 :: "f64 \<Rightarrow> int" where
  "f64_as_i64 NaN = 0"
| "f64_as_i64 (Inf s) = (if s then i64_min else i64_max)"
| "f64_as_i64 (Fin s m e) = max i64_min (min i64_max (fin_trunc s m e))"

lemma f64_as_i64_range [simp]: "in_i64 (f64_as_i64 f)"
  by (cases f) (auto simp: in_i64_def i64_bounds)

lemma nbits_bounds: "0 < n \<Longrightarrow> 2 ^ (nbits n - 1) \<le> n \<and> n < 2 ^ nbits n"
proof (induction n rule: nbits.induct)
  case (1 n)
  show ?case
  proof (cases "n div 2 = 0")
    case True
    with 1 have "n = 1" by auto
    then show ?thesis by (simp add: nbits.simps)
  next
    case False
    with 1 have "2 ^ (nbits (n div 2) - 1) \<le> n div 2" "n div 2 < 2 ^ nbits (n div 2)"
      by auto
    moreover have "0 < nbits (n div 2)"
      using False by (simp add: nbits.simps [of "n div 2"])
    ultimately show ?thesis
      using "1.prems" by (subst (1 2) nbits.simps) (cases "nbits (n div 2)", auto)
  qed
qed

text \<open>Integers of at most 53 bits convert exactly, so they survive the way there and back.\<close>

lemma f64_of_int_small:
  assumes "\<bar>i\<bar> < 2 ^ 53" "i \<noteq> 0"
  shows "\<exists>k \<le> 53. f64_of_int i = Fin (i < 0) (nat \<bar>i\<bar> * 2 ^ k) (- int k)"
proof -
  define m where "m = nat \<bar>i\<bar>"
  have m: "0 < m" "m < 2 ^ 53" using assms by (auto simp: m_def)
  have "2 ^ (nbits m - 1) < (2::nat) ^ 53"
    using nbits_bounds [OF m(1)] m(2) by linarith
  then have "nbits m - 1 < 53" by (rule power_less_imp_less_exp [rotated]) simp
  then have n: "nbits m \<le> 53" by simp
  define k where "k = 53 - nbits m"
  have q: "max (0 + int (nbits m) - 53) (- 1074) = - int k"
    using n by (simp add: k_def)
  have "f64_of_int i = Fin (i < 0) (m * 2 ^ k) (- int k)"
    using m(1) unfolding f64_of_int_def f64_round_def Let_def m_def [symmetric] q by simp
  then show ?thesis by (auto simp: m_def k_def)
qed

lemma f64_roundtrip_small: "\<bar>i\<bar> < 2 ^ 53 \<Longrightarrow> f64_as_i64 (f64_of_int i) = i"
proof (cases "i = 0")
  case True
  then show ?thesis by (simp add: f64_of_int_def f64_round_def fin_trunc_def i64_bounds)
next
  case False
  assume a: "\<bar>i\<bar> < 2 ^ 53"
  with False obtain k where
    k: "k \<le> 53" "f64_of_int i = Fin (i < 0) (nat \<bar>i\<bar> * 2 ^ k) (- int k)"
    using f64_of_int_small by blast
  have "fin_trunc (i < 0) (nat \<bar>i\<bar> * 2 ^ k) (- int k) = i"
    by (cases "k = 0") (auto simp: fin_trunc_def Let_def)
  with k a show ?thesis by (simp add: i64_bounds)
qed

section \<open>Arithmetic\<close>

text \<open>
  The quotient \<open>m / n * 2 ^ e\<close> is computed to 120 bits with a sticky bit for the rest,
  more than the 55 that rounding to 53 can look at. A decimal literal is such a quotient.
\<close>

definition f64_quot :: "bool \<Rightarrow> nat \<Rightarrow> nat \<Rightarrow> int \<Rightarrow> f64" where
  "f64_quot s m n e =
     (let q = m * 2 ^ 120 div n; r = m * 2 ^ 120 mod n
      in f64_round s (2 * q + (if r = 0 then 0 else 1)) (e - 121))"

definition f64_lit :: "bool \<Rightarrow> nat \<Rightarrow> nat \<Rightarrow> f64" where
  "f64_lit s m d = f64_quot s m (10 ^ d) 0"

definition signed_mant :: "bool \<Rightarrow> nat \<Rightarrow> int" where
  "signed_mant s m = (if s then - int m else int m)"

fun f64_neg :: "f64 \<Rightarrow> f64" where
  "f64_neg NaN = NaN"
| "f64_neg (Inf s) = Inf (\<not> s)"
| "f64_neg (Fin s m e) = Fin (\<not> s) m e"

fun f64_abs :: "f64 \<Rightarrow> f64" where
  "f64_abs NaN = NaN"
| "f64_abs (Inf s) = Inf False"
| "f64_abs (Fin s m e) = Fin False m e"

text \<open>An exact zero sum is \<open>+0.0\<close> unless both operands are negative.\<close>

fun f64_add :: "f64 \<Rightarrow> f64 \<Rightarrow> f64" where
  "f64_add (Fin s1 m1 e1) (Fin s2 m2 e2) =
     (let e = min e1 e2;
          v = signed_mant s1 m1 * 2 ^ nat (e1 - e) + signed_mant s2 m2 * 2 ^ nat (e2 - e)
      in f64_round (if v = 0 then s1 \<and> s2 else v < 0) (nat \<bar>v\<bar>) e)"
| "f64_add (Inf s1) (Inf s2) = (if s1 = s2 then Inf s1 else NaN)"
| "f64_add (Inf s) (Fin _ _ _) = Inf s"
| "f64_add (Fin _ _ _) (Inf s) = Inf s"
| "f64_add _ _ = NaN"

definition f64_sub :: "f64 \<Rightarrow> f64 \<Rightarrow> f64" where
  "f64_sub a b = f64_add a (f64_neg b)"

fun f64_mul :: "f64 \<Rightarrow> f64 \<Rightarrow> f64" where
  "f64_mul (Fin s1 m1 e1) (Fin s2 m2 e2) = f64_round (s1 \<noteq> s2) (m1 * m2) (e1 + e2)"
| "f64_mul (Inf s1) (Inf s2) = Inf (s1 \<noteq> s2)"
| "f64_mul (Inf s1) (Fin s2 m _) = (if m = 0 then NaN else Inf (s1 \<noteq> s2))"
| "f64_mul (Fin s1 m _) (Inf s2) = (if m = 0 then NaN else Inf (s1 \<noteq> s2))"
| "f64_mul _ _ = NaN"

fun f64_div :: "f64 \<Rightarrow> f64 \<Rightarrow> f64" where
  "f64_div (Fin s1 m1 e1) (Fin s2 m2 e2) =
     (if m2 = 0 then (if m1 = 0 then NaN else Inf (s1 \<noteq> s2))
      else f64_quot (s1 \<noteq> s2) m1 m2 (e1 - e2))"
| "f64_div (Inf s1) (Fin s2 _ _) = Inf (s1 \<noteq> s2)"
| "f64_div (Fin s1 _ _) (Inf s2) = Fin (s1 \<noteq> s2) 0 (- 1074)"
| "f64_div _ _ = NaN"

text \<open>Comparisons are false when an operand is not a number.\<close>

fun f64_lt :: "f64 \<Rightarrow> f64 \<Rightarrow> bool" where
  "f64_lt (Fin s1 m1 e1) (Fin s2 m2 e2) =
     (let e = min e1 e2
      in signed_mant s1 m1 * 2 ^ nat (e1 - e) < signed_mant s2 m2 * 2 ^ nat (e2 - e))"
| "f64_lt (Inf s) (Fin _ _ _) = s"
| "f64_lt (Fin _ _ _) (Inf s) = (\<not> s)"
| "f64_lt (Inf s1) (Inf s2) = (s1 \<and> \<not> s2)"
| "f64_lt _ _ = False"

fun f64_eq :: "f64 \<Rightarrow> f64 \<Rightarrow> bool" where
  "f64_eq (Fin s1 m1 e1) (Fin s2 m2 e2) =
     (let e = min e1 e2
      in signed_mant s1 m1 * 2 ^ nat (e1 - e) = signed_mant s2 m2 * 2 ^ nat (e2 - e))"
| "f64_eq (Inf s1) (Inf s2) = (s1 = s2)"
| "f64_eq _ _ = False"

definition f64_le :: "f64 \<Rightarrow> f64 \<Rightarrow> bool" where
  "f64_le a b \<longleftrightarrow> f64_lt a b \<or> f64_eq a b"

text \<open>\<open>f64::max\<close> and \<open>f64::min\<close> prefer the operand that is a number; \<open>clamp\<close>
  keeps a value that is not a number; its callers pass ordered bounds, on which it cannot
  panic.\<close>

definition f64_max :: "f64 \<Rightarrow> f64 \<Rightarrow> f64" where
  "f64_max a b = (if a = NaN then b else if b = NaN then a else if f64_lt a b then b else a)"

definition f64_min :: "f64 \<Rightarrow> f64 \<Rightarrow> f64" where
  "f64_min a b = (if a = NaN then b else if b = NaN then a else if f64_lt b a then b else a)"

definition f64_clamp :: "f64 \<Rightarrow> f64 \<Rightarrow> f64 \<Rightarrow> f64" where
  "f64_clamp x lo hi = (if f64_lt x lo then lo else if f64_lt hi x then hi else x)"

text \<open>\<open>floor\<close>, \<open>ceil\<close>, \<open>trunc\<close> and \<open>round_ties_even\<close> keep the sign of a zero result.\<close>

definition f64_int_part :: "bool \<Rightarrow> nat \<Rightarrow> int \<Rightarrow> (nat \<Rightarrow> nat \<Rightarrow> nat) \<Rightarrow> f64" where
  "f64_int_part s m e rnd = (if 0 \<le> e then Fin s m e else f64_round s (rnd m (nat (- e))) 0)"

fun f64_floor :: "f64 \<Rightarrow> f64" where
  "f64_floor (Fin s m e) =
     f64_int_part s m e (\<lambda>m k. if s then (m + 2 ^ k - 1) div 2 ^ k else m div 2 ^ k)"
| "f64_floor x = x"

fun f64_ceil :: "f64 \<Rightarrow> f64" where
  "f64_ceil (Fin s m e) =
     f64_int_part s m e (\<lambda>m k. if s then m div 2 ^ k else (m + 2 ^ k - 1) div 2 ^ k)"
| "f64_ceil x = x"

fun f64_trunc :: "f64 \<Rightarrow> f64" where
  "f64_trunc (Fin s m e) = f64_int_part s m e (\<lambda>m k. m div 2 ^ k)"
| "f64_trunc x = x"

fun f64_round_ties_even :: "f64 \<Rightarrow> f64" where
  "f64_round_ties_even (Fin s m e) = f64_int_part s m e round_bits"
| "f64_round_ties_even x = x"

text \<open>
  Python's \<open>round(x, n)\<close> as \<open>py_round\<close> computes it: the decimal with \<open>n\<close> digits nearest to
  the exact value, ties to even, read back as a float.
\<close>

definition div_half_even :: "nat \<Rightarrow> nat \<Rightarrow> nat" where
  "div_half_even a b =
     (let q = a div b; r = a mod b
      in if 2 * r < b then q else if 2 * r = b then (if even q then q else Suc q) else Suc q)"

fun py_round :: "f64 \<Rightarrow> nat \<Rightarrow> f64" where
  "py_round (Fin s m e) n =
     f64_quot s (if 0 \<le> e then m * 2 ^ nat e * 10 ^ n else div_half_even (m * 10 ^ n) (2 ^ nat (- e)))
       (10 ^ n) 0"
| "py_round x n = x"

text \<open>The order of \<open>total_cmp\<close> on the values arithmetic gives, as an integer: minus zero is
  below zero, and what is not a number is above everything.\<close>

fun total_key :: "f64 \<Rightarrow> int" where
  "total_key NaN = 2 ^ 66"
| "total_key (Inf s) = (if s then - (2 ^ 65) else 2 ^ 65)"
| "total_key (Fin s m e) = (let k = (e + 1074) * 2 ^ 53 + int m in if s then - k - 1 else k)"

text \<open>\<open>f as i128\<close>, for the range checks done there: saturates at the bounds of the type.\<close>

fun f64_as_i128 :: "f64 \<Rightarrow> int" where
  "f64_as_i128 NaN = 0"
| "f64_as_i128 (Inf s) = (if s then - (2 ^ 127) else 2 ^ 127 - 1)"
| "f64_as_i128 (Fin s m e) = max (- (2 ^ 127)) (min (2 ^ 127 - 1) (fin_trunc s m e))"

end
