(* ===== verification/OrdMap.thy ===== *)
theory OrdMap
  imports Prelude
begin

text \<open>
  \<open>std::collections::BTreeMap\<close> (and \<open>HashMap\<close> where the code never iterates over
  it): an association list with strictly increasing keys. Iteration is the list
  order, lookup is \<open>map_of\<close>, which is also the abstraction to partial functions.
  The interface is stated as a locale and provided by the list operations.
\<close>

section \<open>Operations\<close>

fun bt_insert :: "'k::linorder \<Rightarrow> 'v \<Rightarrow> ('k \<times> 'v) list \<Rightarrow> ('k \<times> 'v) list" where
  "bt_insert k v [] = [(k, v)]"
| "bt_insert k v ((a, b) # m) =
     (if k < a then (k, v) # (a, b) # m
      else if k = a then (k, v) # m
      else (a, b) # bt_insert k v m)"

definition bt_remove :: "'k \<Rightarrow> ('k \<times> 'v) list \<Rightarrow> ('k \<times> 'v) list" where
  "bt_remove k m = filter (\<lambda>(a, _). a \<noteq> k) m"

text \<open>\<open>entry(k).or_insert(v)\<close>: the first value wins.\<close>

definition bt_or_insert :: "'k::linorder \<Rightarrow> 'v \<Rightarrow> ('k \<times> 'v) list \<Rightarrow> ('k \<times> 'v) list" where
  "bt_or_insert k v m = (case map_of m k of None \<Rightarrow> bt_insert k v m | Some _ \<Rightarrow> m)"

definition bt_get_or :: "'v \<Rightarrow> ('k \<times> 'v) list \<Rightarrow> 'k \<Rightarrow> 'v" where
  "bt_get_or d m k = (case map_of m k of None \<Rightarrow> d | Some v \<Rightarrow> v)"

definition bt_keys :: "('k \<times> 'v) list \<Rightarrow> 'k list" where
  "bt_keys m = map fst m"

definition bt_ok :: "('k::linorder \<times> 'v) list \<Rightarrow> bool" where
  "bt_ok m \<longleftrightarrow> sorted_wrt (<) (map fst m)"

section \<open>Laws\<close>

lemma bt_ok_Nil [simp]: "bt_ok []"
  by (simp add: bt_ok_def)

lemma bt_ok_distinct: "bt_ok m \<Longrightarrow> distinct (map fst m)"
  by (simp add: bt_ok_def strict_sorted_iff)

lemma set_bt_insert_keys: "fst ` set (bt_insert k v m) = insert k (fst ` set m)"
  by (induction k v m rule: bt_insert.induct) auto

lemma bt_ok_insert [simp, intro]: "bt_ok m \<Longrightarrow> bt_ok (bt_insert k v m)"
  unfolding bt_ok_def
proof (induction k v m rule: bt_insert.induct)
  case (2 k v a b m)
  then show ?case
    using set_bt_insert_keys [of k v m] by auto
qed simp

lemma map_of_bt_insert [simp, map_simps]:
  "map_of (bt_insert k v m) = (map_of m)(k \<mapsto> v)"
  by (induction k v m rule: bt_insert.induct) (auto simp: fun_eq_iff)

lemma map_of_bt_remove [simp, map_simps]:
  "map_of (bt_remove k m) = (map_of m)(k := None)"
  by (induction m) (auto simp: bt_remove_def fun_eq_iff)

lemma map_of_bt_or_insert [map_simps]:
  "map_of (bt_or_insert k v m) =
     (case map_of m k of None \<Rightarrow> (map_of m)(k \<mapsto> v) | Some _ \<Rightarrow> map_of m)"
  by (simp add: bt_or_insert_def split: option.splits)

lemma bt_ok_filter: "bt_ok m \<Longrightarrow> bt_ok (filter P m)"
  unfolding bt_ok_def
  by (induction m) auto

lemma bt_ok_remove [simp, intro]: "bt_ok m \<Longrightarrow> bt_ok (bt_remove k m)"
  unfolding bt_remove_def by (rule bt_ok_filter)

lemma bt_ok_or_insert [simp, intro]: "bt_ok m \<Longrightarrow> bt_ok (bt_or_insert k v m)"
  by (auto simp: bt_or_insert_def split: option.splits)

lemma map_of_filter_ok:
  assumes "bt_ok m"
  shows "map_of (filter (\<lambda>(k, v). P k v) m) k =
    (case map_of m k of None \<Rightarrow> None | Some v \<Rightarrow> if P k v then Some v else None)"
  using bt_ok_distinct [OF assms]
proof (induction m)
  case (Cons p m)
  obtain a b where p: "p = (a, b)" by (cases p)
  have "map_of (filter (\<lambda>(k, v). P k v) m) a = None"
    using Cons.prems p by (force simp: map_of_eq_None_iff)
  with Cons p show ?case by (auto split: option.splits)
qed simp

lemma bt_get_or_simps [map_simps]:
  "map_of m k = Some v \<Longrightarrow> bt_get_or d m k = v"
  "map_of m k = None \<Longrightarrow> bt_get_or d m k = d"
  by (simp_all add: bt_get_or_def)

lemma bt_get_or_insert [simp, map_simps]:
  "bt_get_or d (bt_insert k v m) j = (if j = k then v else bt_get_or d m j)"
  by (simp add: bt_get_or_def)

lemma bt_ext:
  fixes m n :: "('k::linorder \<times> 'v) list"
  assumes "bt_ok m" "bt_ok n" "map_of m = map_of n"
  shows "m = n"
proof -
  have s: "set m = set n"
    using assms bt_ok_distinct map_of_inject_set [of m n] by blast
  have "inj_on fst (set m \<union> set n)"
    using bt_ok_distinct [OF assms(1)] s by (simp add: distinct_map)
  then show ?thesis
    using assms(1,2) s unfolding bt_ok_def strict_sorted_iff
    by (intro map_sorted_distinct_set_unique) auto
qed

lemma set_bt_insert_subset: "set (bt_insert k v m) \<subseteq> insert (k, v) (set m)"
  by (induction k v m rule: bt_insert.induct) auto

section \<open>The interface\<close>

text \<open>
  What the clients of an ordered map rely on: an update changes the one key, and
  the keys stay strictly increasing, so that a fold over the list meets every key once.
\<close>

locale ordered_map =
  fixes insert_op :: "'k::linorder \<Rightarrow> 'v \<Rightarrow> 'm \<Rightarrow> 'm"
    and remove_op :: "'k \<Rightarrow> 'm \<Rightarrow> 'm"
    and entries :: "'m \<Rightarrow> ('k \<times> 'v) list"
    and inv :: "'m \<Rightarrow> bool"
  assumes insert_lookup: "inv m \<Longrightarrow> map_of (entries (insert_op k v m)) = (map_of (entries m))(k \<mapsto> v)"
    and remove_lookup: "inv m \<Longrightarrow> map_of (entries (remove_op k m)) = (map_of (entries m))(k := None)"
    and insert_inv: "inv m \<Longrightarrow> inv (insert_op k v m)"
    and remove_inv: "inv m \<Longrightarrow> inv (remove_op k m)"
    and entries_sorted: "inv m \<Longrightarrow> bt_ok (entries m)"
begin

lemma insert_insert_same:
  "inv m \<Longrightarrow> map_of (entries (insert_op k v (insert_op k w m))) = map_of (entries (insert_op k v m))"
  by (simp add: insert_lookup insert_inv)

lemma remove_insert:
  "inv m \<Longrightarrow> map_of (entries (remove_op k (insert_op k v m))) = map_of (entries (remove_op k m))"
  by (simp add: insert_lookup remove_lookup insert_inv)

lemma entries_distinct: "inv m \<Longrightarrow> distinct (map fst (entries m))"
  using entries_sorted bt_ok_distinct by blast

end

interpretation btree: ordered_map bt_insert bt_remove "\<lambda>m. m" bt_ok
  by unfold_locales auto

end
