(* ===== verification/Json.thy ===== *)
theory Json
  imports F64 OrdMap
begin

text \<open>
  JSON values (\<open>serde_json::Value\<close>) and the two serializers of the code:
  \<open>revops_core::canonical::canonical_json\<close> (compact separators, raw UTF-8, floats
  rejected with the path of the offender), whose output feeds idempotency keys, and
  \<open>python_dumps_default\<close> (spaced separators, ASCII escapes), whose output is stored
  in ledger and budget rows. An object is its \<open>BTreeMap\<close>: keys strictly increasing.
\<close>

section \<open>Values\<close>

datatype json =
    JNull
  | JBool bool
  | JInt int
  | JFloat f64
  | JStr string
  | JArr "json list"
  | JObj "(string \<times> json) list"

fun json_get :: "json \<Rightarrow> string \<Rightarrow> json option" where
  "json_get (JObj kvs) k = map_of kvs k"
| "json_get _ k = None"

fun as_str :: "json \<Rightarrow> string option" where
  "as_str (JStr s) = Some s"
| "as_str _ = None"

fun as_int64 :: "json \<Rightarrow> int option" where
  "as_int64 (JInt i) = (if in_i64 i then Some i else None)"
| "as_int64 _ = None"

fun as_bool :: "json \<Rightarrow> bool option" where
  "as_bool (JBool b) = Some b"
| "as_bool _ = None"

fun as_array :: "json \<Rightarrow> json list option" where
  "as_array (JArr xs) = Some xs"
| "as_array _ = None"

fun as_object :: "json \<Rightarrow> (string \<times> json) list option" where
  "as_object (JObj kvs) = Some kvs"
| "as_object _ = None"

text \<open>An object literal (\<open>json!\<close>).\<close>

definition json_object :: "(string \<times> json) list \<Rightarrow> json" where
  "json_object kvs = JObj (foldr (\<lambda>(k, v). bt_insert k v) kvs [])"

text \<open>Values whose objects are maps, and values without a float.\<close>

fun json_wf :: "json \<Rightarrow> bool" where
  "json_wf (JArr xs) = (\<forall>x \<in> set xs. json_wf x)"
| "json_wf (JObj kvs) = (bt_ok kvs \<and> (\<forall>(k, v) \<in> set kvs. json_wf v))"
| "json_wf _ = True"

fun int_only :: "json \<Rightarrow> bool" where
  "int_only (JFloat f) = False"
| "int_only (JArr xs) = (\<forall>x \<in> set xs. int_only x)"
| "int_only (JObj kvs) = (\<forall>(k, v) \<in> set kvs. int_only v)"
| "int_only _ = True"

section \<open>String escaping\<close>

definition hexd :: "nat \<Rightarrow> char" where
  "hexd n = (if n < 10 then char_of (48 + n) else char_of (87 + n))"

definition hex4 :: "nat \<Rightarrow> string" where
  "hex4 n = [hexd (n div 4096 mod 16), hexd (n div 256 mod 16), hexd (n div 16 mod 16),
             hexd (n mod 16)]"

text \<open>The escapes both writers share, by the byte they replace.\<close>

definition short_escape :: "nat \<Rightarrow> string option" where
  "short_escape n =
     (if n = 34 then Some [CHR 0x5C, CHR 0x22]
      else if n = 92 then Some [CHR 0x5C, CHR 0x5C]
      else if n = 10 then Some [CHR 0x5C, CHR ''n'']
      else if n = 9 then Some [CHR 0x5C, CHR ''t'']
      else if n = 13 then Some [CHR 0x5C, CHR ''r'']
      else if n = 8 then Some [CHR 0x5C, CHR ''b'']
      else if n = 12 then Some [CHR 0x5C, CHR ''f'']
      else None)"

definition esc_byte :: "char \<Rightarrow> string" where
  "esc_byte c =
     (case short_escape (of_char c) of
        Some e \<Rightarrow> e
      | None \<Rightarrow> if (of_char c :: nat) < 32 then [CHR 0x5C, CHR ''u''] @ hex4 (of_char c)
                else [c])"

definition write_string :: "string \<Rightarrow> string" where
  "write_string s = CHR 0x22 # concat (map esc_byte s) @ [CHR 0x22]"

text \<open>The characters of a string, decoded from its UTF-8 bytes.\<close>

fun utf8_chars :: "string \<Rightarrow> nat list" where
  "utf8_chars [] = []"
| "utf8_chars (a # s) =
     (let n = of_char a :: nat
      in if n < 128 then n # utf8_chars s
         else if n < 224 then
           (case s of b # t \<Rightarrow> ((n - 192) * 64 + (of_char b - 128)) # utf8_chars t | _ \<Rightarrow> [])
         else if n < 240 then
           (case s of b # c # t \<Rightarrow>
              ((n - 224) * 4096 + (of_char b - 128) * 64 + (of_char c - 128)) # utf8_chars t
            | _ \<Rightarrow> [])
         else
           (case s of b # c # d # t \<Rightarrow>
              ((n - 240) * 262144 + (of_char b - 128) * 4096 + (of_char c - 128) * 64
                + (of_char d - 128)) # utf8_chars t
            | _ \<Rightarrow> []))"

definition write_unicode_escape :: "nat \<Rightarrow> string" where
  "write_unicode_escape cp =
     (if 65535 < cp then
        (let v = cp - 65536; high = 55296 + v div 1024; low = 56320 + v mod 1024
         in [CHR 0x5C, CHR ''u''] @ hex4 high @ [CHR 0x5C, CHR ''u''] @ hex4 low)
      else [CHR 0x5C, CHR ''u''] @ hex4 cp)"

definition esc_char_ascii :: "nat \<Rightarrow> string" where
  "esc_char_ascii cp =
     (case short_escape cp of
        Some e \<Rightarrow> e
      | None \<Rightarrow> if cp < 32 \<or> 127 \<le> cp then write_unicode_escape cp else [char_of cp])"

definition write_string_ascii :: "string \<Rightarrow> string" where
  "write_string_ascii s = CHR 0x22 # concat (map esc_char_ascii (utf8_chars s)) @ [CHR 0x22]"

section \<open>Canonical JSON\<close>

datatype canonical_error = NonIntegerNumber string

definition format_path :: "string list \<Rightarrow> string" where
  "format_path path = (if path = [] then ''/'' else concat (map (\<lambda>seg. CHR ''/'' # seg) path))"

definition field_text :: "string \<Rightarrow> string \<Rightarrow> string \<Rightarrow> string" where
  "field_text colon k v = k @ colon @ v"

lemma size_list_mem: "x \<in> set xs \<Longrightarrow> f x < Suc (size_list f xs)"
  by (induction xs) auto

function (sequential) write_value ::
  "string list \<Rightarrow> json \<Rightarrow> (canonical_error, string) result" where
  "write_value path JNull = Inr ''null''"
| "write_value path (JBool b) = Inr (if b then ''true'' else ''false'')"
| "write_value path (JInt i) = Inr (dec_int i)"
| "write_value path (JFloat f) = Inl (Fail (NonIntegerNumber (format_path path)))"
| "write_value path (JStr s) = Inr (write_string s)"
| "write_value path (JArr items) =
     bindE (sequenceE (map (\<lambda>(i, item). write_value (path @ [dec_nat i]) item)
                           (enumerate 0 items)))
       (\<lambda>ss. Inr (''['' @ join '','' ss @ '']''))"
| "write_value path (JObj kvs) =
     bindE (sequenceE (map (\<lambda>(k, r). bindE r (\<lambda>s. Inr (field_text '':'' (write_string k) s)))
                       (sort_key fst (map (\<lambda>(k, v). (k, write_value (path @ [k]) v)) kvs))))
       (\<lambda>ss. Inr (''{'' @ join '','' ss @ ''}''))"
  by pat_completeness auto

termination
proof (relation "measure (\<lambda>(path, v). size v)", goal_cases)
  case 1
  show ?case by simp
next
  case (2 path items z i item)
  then have "item \<in> set items"
    by (auto simp: in_set_enumerate_eq)
  then have "size item < Suc (size_list size items)" by (rule size_list_mem)
  then show ?case by simp
next
  case (3 path kvs z k v)
  then have "(k, v) \<in> set kvs" by auto
  then have "size_prod (\<lambda>_. 0) size (k, v) < Suc (size_list (size_prod (\<lambda>_. 0) size) kvs)"
    by (rule size_list_mem)
  then show ?case by simp
qed

definition canonical_json :: "json \<Rightarrow> (canonical_error, string) result" where
  "canonical_json v = write_value [] v"


section \<open>The stored form\<close>

text \<open>
  \<open>json.dumps(x, sort_keys=True)\<close> with its default separators. The error a float
  raises differs between the two crates that carry this writer, so it is a parameter.
\<close>

function (sequential) python_dumps :: "'e \<Rightarrow> json \<Rightarrow> ('e, string) result" where
  "python_dumps err JNull = Inr ''null''"
| "python_dumps err (JBool b) = Inr (if b then ''true'' else ''false'')"
| "python_dumps err (JInt i) = Inr (dec_int i)"
| "python_dumps err (JFloat f) = Inl (Fail err)"
| "python_dumps err (JStr s) = Inr (write_string_ascii s)"
| "python_dumps err (JArr items) =
     bindE (sequenceE (map (python_dumps err) items)) (\<lambda>ss. Inr (''['' @ join '', '' ss @ '']''))"
| "python_dumps err (JObj kvs) =
     bindE (sequenceE (map (\<lambda>(k, r). bindE r (\<lambda>s. Inr (field_text '': '' (write_string_ascii k) s)))
                       (sort_key fst (map (\<lambda>(k, v). (k, python_dumps err v)) kvs))))
       (\<lambda>ss. Inr (''{'' @ join '', '' ss @ ''}''))"
  by pat_completeness auto
termination
proof (relation "measure (\<lambda>(err, v). size v)", goal_cases)
  case (2 err items item)
  then have "size item < Suc (size_list size items)" by (rule size_list_mem)
  then show ?case by simp
next
  case (3 err kvs z k v)
  then have "(k, v) \<in> set kvs" by auto
  then have "size_prod (\<lambda>_. 0) size (k, v) < Suc (size_list (size_prod (\<lambda>_. 0) size) kvs)"
    by (rule size_list_mem)
  then show ?case by simp
qed simp

section \<open>The writers on integer-only values\<close>

fun render :: "json \<Rightarrow> string" where
  "render JNull = ''null''"
| "render (JBool b) = (if b then ''true'' else ''false'')"
| "render (JInt i) = dec_int i"
| "render (JFloat f) = []"
| "render (JStr s) = write_string s"
| "render (JArr xs) = ''['' @ join '','' (map render xs) @ '']''"
| "render (JObj kvs) =
     ''{'' @ join '','' (map (\<lambda>(k, v). field_text '':'' (write_string k) (render v)) kvs) @ ''}''"

lemma write_value_obj:
  "bt_ok kvs \<Longrightarrow> write_value path (JObj kvs) =
     bindE (sequenceE (map (\<lambda>(k, v). bindE (write_value (path @ [k]) v)
              (\<lambda>s. Inr (field_text '':'' (write_string k) s))) kvs))
       (\<lambda>ss. Inr (''{'' @ join '','' ss @ ''}''))"
  by (simp add: sort_key_id_if_sorted bt_ok_def strict_sorted_iff comp_def case_prod_unfold)

declare write_value.simps(7) [simp del]

lemma write_value_render:
  "json_wf v \<Longrightarrow> int_only v \<Longrightarrow> write_value path v = Inr (render v)"
proof (induction path v rule: write_value.induct)
  case (6 path items)
  have "sequenceE (map (\<lambda>(i, item). write_value (path @ [dec_nat i]) item) (enumerate 0 items))
      = Inr (map (\<lambda>(i, item). render item) (enumerate 0 items))"
    using 6 by (intro sequenceE_map) (auto simp: in_set_enumerate_eq)
  also have "map (\<lambda>(i, item). render item) (enumerate 0 items) = map render items"
    by (simp add: case_prod_unfold flip: map_map [unfolded comp_def])
  finally show ?case by simp
next
  case (7 path kvs)
  have "sequenceE (map (\<lambda>(k, v). bindE (write_value (path @ [k]) v)
            (\<lambda>s. Inr (field_text '':'' (write_string k) s))) kvs)
      = Inr (map (\<lambda>(k, v). field_text '':'' (write_string k) (render v)) kvs)"
    using 7 by (intro sequenceE_map) (force simp: bindE_def)
  with 7 show ?case by (simp add: write_value_obj)
qed auto

lemma sequenceE_all_Fail:
  assumes "\<And>m. m \<in> set ms \<Longrightarrow> (\<exists>a. m = Inr a) \<or> (\<exists>p. m = Inl (Fail (NonIntegerNumber p)))"
    and "\<exists>m \<in> set ms. \<exists>p. m = Inl (Fail (NonIntegerNumber p))"
  shows "\<exists>p. sequenceE ms = Inl (Fail (NonIntegerNumber p))"
proof -
  from assms(2) obtain e where "Inl e \<in> set ms" by blast
  then obtain e' where "sequenceE ms = Inl e'" "Inl e' \<in> set ms"
    using sequenceE_Inl_mem by blast
  with assms(1) show ?thesis by fastforce
qed

lemma write_value_float:
  "json_wf v \<Longrightarrow> \<not> int_only v \<Longrightarrow> \<exists>p. write_value path v = Inl (Fail (NonIntegerNumber p))"
proof (induction path v rule: write_value.induct)
  case (6 path items)
  let ?f = "\<lambda>(i, item). write_value (path @ [dec_nat i]) item"
  from 6 obtain i where i: "i < length items" "\<not> int_only (items ! i)"
    by (auto simp: in_set_conv_nth)
  then have "(i, items ! i) \<in> set (enumerate 0 items)" by (simp add: in_set_enumerate_eq)
  with 6 i have "\<exists>m \<in> set (map ?f (enumerate 0 items)). \<exists>p. m = Inl (Fail (NonIntegerNumber p))"
    by force
  moreover have "(\<exists>a. m = Inr a) \<or> (\<exists>p. m = Inl (Fail (NonIntegerNumber p)))"
    if m: "m \<in> set (map ?f (enumerate 0 items))" for m
  proof -
    from m obtain j x where j: "(j, x) \<in> set (enumerate 0 items)"
      "m = write_value (path @ [dec_nat j]) x" by auto
    then have "json_wf x" using "6.prems" by (auto simp: in_set_enumerate_eq)
    with j "6.IH" show ?thesis using write_value_render by (cases "int_only x") blast+
  qed
  ultimately have "\<exists>p. sequenceE (map ?f (enumerate 0 items)) = Inl (Fail (NonIntegerNumber p))"
    by (rule sequenceE_all_Fail [rotated])
  then show ?case by auto
next
  case (7 path kvs)
  let ?f = "\<lambda>(k, v). bindE (write_value (path @ [k]) v)
              (\<lambda>s. Inr (field_text '':'' (write_string k) s))"
  from 7 obtain k v where kv: "(k, v) \<in> set kvs" "\<not> int_only v" by auto
  with 7 have "\<exists>m \<in> set (map ?f kvs). \<exists>p. m = Inl (Fail (NonIntegerNumber p))"
    by (force simp: bindE_eq_Inl)
  moreover have "(\<exists>a. m = Inr a) \<or> (\<exists>p. m = Inl (Fail (NonIntegerNumber p)))"
    if m: "m \<in> set (map ?f kvs)" for m
  proof -
    from m obtain j x where j: "(j, x) \<in> set kvs" "m = ?f (j, x)" by auto
    then have "json_wf x" using "7.prems" by auto
    then have "(\<exists>s. write_value (path @ [j]) x = Inr s) \<or>
        (\<exists>p. write_value (path @ [j]) x = Inl (Fail (NonIntegerNumber p)))"
      using j "7.IH" write_value_render by (cases "int_only x") blast+
    with j show ?thesis by auto
  qed
  ultimately have "\<exists>p. sequenceE (map ?f kvs) = Inl (Fail (NonIntegerNumber p))"
    by (rule sequenceE_all_Fail [rotated])
  with 7 show ?case by (auto simp: write_value_obj)
qed auto


section \<open>Reading an escaped string back\<close>

definition hexv :: "char \<Rightarrow> nat" where
  "hexv c = (let n = of_char c in if n < 58 then n - 48 else n - 87)"

definition unescape :: "char \<Rightarrow> char" where
  "unescape c =
     (if c = CHR ''n'' then char_of (10 :: nat) else if c = CHR ''t'' then char_of (9 :: nat)
      else if c = CHR ''r'' then char_of (13 :: nat) else if c = CHR ''b'' then char_of (8 :: nat)
      else if c = CHR ''f'' then char_of (12 :: nat) else c)"

fun read_chars :: "string \<Rightarrow> (string \<times> string) option" where
  "read_chars [] = None"
| "read_chars (c # s) =
     (if c = CHR 0x22 then Some ([], s)
      else if c = CHR 0x5C then
        (case s of
           [] \<Rightarrow> None
         | e # t \<Rightarrow>
             if e = CHR ''u'' then
               (case t of
                  h1 # h2 # h3 # h4 # r \<Rightarrow>
                    map_option (apfst ((#) (char_of (((hexv h1 * 16 + hexv h2) * 16 + hexv h3) * 16 + hexv h4))))
                      (read_chars r)
                | _ \<Rightarrow> None)
             else map_option (apfst ((#) (unescape e))) (read_chars t))
      else map_option (apfst ((#) c)) (read_chars s))"

lemma hexv_hexd [simp]: "n < 16 \<Longrightarrow> hexv (hexd n) = n"
  by (simp add: hexv_def hexd_def Let_def)

lemma of_char_nat: "of_char c = (n :: nat) \<Longrightarrow> c = char_of n"
  by (metis char_of_char)

lemma char_codes:
  "char_of (34::nat) = CHR 0x22" "char_of (92::nat) = CHR 0x5C" "char_of (10::nat) = CHR 0x0A"
  "char_of (9::nat) = CHR 0x09" "char_of (13::nat) = CHR 0x0D" "char_of (8::nat) = CHR 0x08"
  "char_of (12::nat) = CHR 0x0C"
  by (simp_all add: char_of_def bit_iff_odd)

lemma code_iff:
  "of_char c = (34::nat) \<longleftrightarrow> c = CHR 0x22" "of_char c = (92::nat) \<longleftrightarrow> c = CHR 0x5C"
  "of_char c = (10::nat) \<longleftrightarrow> c = CHR 0x0A" "of_char c = (9::nat) \<longleftrightarrow> c = CHR 0x09"
  "of_char c = (13::nat) \<longleftrightarrow> c = CHR 0x0D" "of_char c = (8::nat) \<longleftrightarrow> c = CHR 0x08"
  "of_char c = (12::nat) \<longleftrightarrow> c = CHR 0x0C"
  by (auto simp: char_codes dest: of_char_nat)

definition escaped_chars :: "char list" where
  "escaped_chars =
     [CHR 0x22, CHR 0x5C, CHR 0x0A, CHR 0x09, CHR 0x0D, CHR 0x08, CHR 0x0C]"

lemma short_escape_None: "c \<notin> set escaped_chars \<Longrightarrow> short_escape (of_char c) = None"
  by (simp add: short_escape_def escaped_chars_def code_iff)

lemma read_chars_short:
  "list_all (\<lambda>c. read_chars (esc_byte c @ r) = map_option (apfst ((#) c)) (read_chars r))
     escaped_chars"
  by (simp add: escaped_chars_def esc_byte_def short_escape_def unescape_def char_codes)

lemma read_chars_esc:
  "read_chars (esc_byte c @ r) = map_option (apfst ((#) c)) (read_chars r)"
proof (cases "c \<in> set escaped_chars")
  case True
  with read_chars_short [of r] show ?thesis by (simp add: list_all_iff)
next
  case False
  then have n: "short_escape (of_char c) = None"
    by (rule short_escape_None)
  from False have c: "c \<noteq> CHR 0x22" "c \<noteq> CHR 0x5C"
    by (auto simp: escaped_chars_def)
  show ?thesis
  proof (cases "(of_char c :: nat) < 32")
    case True
    then have "((of_char c div 4096 mod 16 * 16 + of_char c div 256 mod 16) * 16
        + of_char c div 16 mod 16) * 16 + of_char c mod 16 = (of_char c :: nat)"
      by simp
    with n True show ?thesis by (simp add: esc_byte_def hex4_def)
  next
    case False
    with n c show ?thesis by (simp add: esc_byte_def)
  qed
qed

definition read_string :: "string \<Rightarrow> (string \<times> string) option" where
  "read_string s = (case s of [] \<Rightarrow> None | c # t \<Rightarrow> if c = CHR 0x22 then read_chars t else None)"

lemma read_chars_concat:
  "read_chars (concat (map esc_byte s) @ CHR 0x22 # r) = Some (s, r)"
  by (induction s) (simp_all add: read_chars_esc)

lemma read_write_string [simp]: "read_string (write_string s @ r) = Some (s, r)"
  by (simp add: read_string_def write_string_def read_chars_concat)

lemma write_string_prefix: "write_string s @ r = write_string t @ r' \<longleftrightarrow> s = t \<and> r = r'"
  by (metis read_write_string option.inject prod.inject)

section \<open>Canonical text determines the value\<close>

text \<open>What may follow a value inside a larger text.\<close>

definition stop :: "string \<Rightarrow> bool" where
  "stop r \<longleftrightarrow> r = [] \<or> hd r \<in> set '',]}''"

lemma stop_simps [simp]:
  "stop []" "stop (CHR '','' # r)" "stop (CHR '']'' # r)" "stop (CHR ''}'' # r)"
  by (simp_all add: stop_def)

definition num_char :: "char \<Rightarrow> bool" where
  "num_char c \<longleftrightarrow> is_digit c \<or> c = CHR ''-''"

lemma dec_int_num: "c \<in> set (dec_int i) \<Longrightarrow> num_char c"
  using dec_nat_set by (auto simp: dec_int_def num_char_def split: if_splits)

lemma dec_int_nonempty [simp]: "dec_int i \<noteq> []"
  by (simp add: dec_int_def)

lemma takeWhile_dec_int:
  assumes "stop r"
  shows "takeWhile num_char (dec_int i @ r) = dec_int i"
proof -
  have "takeWhile num_char r = []"
    using assms by (cases r) (auto simp: stop_def num_char_def is_digit_def)
  then show ?thesis
    by (simp add: takeWhile_append2 dec_int_num)
qed

lemma dec_int_prefix:
  "stop r \<Longrightarrow> stop r' \<Longrightarrow> dec_int a @ r = dec_int b @ r' \<Longrightarrow> a = b \<and> r = r'"
  by (metis takeWhile_dec_int dec_int_inj same_append_eq)

lemma dec_int_hd: "\<exists>c cs. dec_int i = c # cs \<and> num_char c"
  using dec_int_num [of _ i] by (cases "dec_int i") auto

definition tail_text :: "('a \<Rightarrow> string) \<Rightarrow> 'a list \<Rightarrow> string \<Rightarrow> string" where
  "tail_text f xs r = concat (map (\<lambda>x. CHR '','' # f x) xs) @ r"

lemma join_Cons: "join d (x # xs) = x @ concat (map (\<lambda>y. d @ y) xs)"
  by (induction xs arbitrary: x) auto

lemma join_tail: "join '','' (map f (x # xs)) @ r = f x @ tail_text f xs r"
  by (simp add: join_Cons tail_text_def comp_def)

lemma tail_text_simps [simp]:
  "tail_text f [] r = r" "tail_text f (x # xs) r = CHR '','' # f x @ tail_text f xs r"
  by (simp_all add: tail_text_def)

definition prefix_free_on :: "'a set \<Rightarrow> ('a \<Rightarrow> bool) \<Rightarrow> ('a \<Rightarrow> string) \<Rightarrow> bool" where
  "prefix_free_on A Q f \<longleftrightarrow> (\<forall>x \<in> A. \<forall>y r r'. Q y \<longrightarrow> stop r \<longrightarrow> stop r' \<longrightarrow>
     f x @ r = f y @ r' \<longrightarrow> x = y \<and> r = r')"

lemma tail_text_inj:
  assumes "prefix_free_on (set xs) Q f" "\<And>y. y \<in> set ys \<Longrightarrow> Q y"
    and "tail_text f xs (c # r) = tail_text f ys (c # r')" "c \<in> set '']}''"
  shows "xs = ys \<and> r = r'"
  using assms
proof (induction xs arbitrary: ys)
  case Nil
  then show ?case by (cases ys) auto
next
  case (Cons x xs)
  then obtain y zs where ys: "ys = y # zs" by (cases ys) auto
  have st: "stop (tail_text f ws (c # q))" for ws q
    using Cons.prems(4) by (cases ws) auto
  have pf: "\<And>y a b. Q y \<Longrightarrow> stop a \<Longrightarrow> stop b \<Longrightarrow> f x @ a = f y @ b \<Longrightarrow> x = y \<and> a = b"
    using Cons.prems(1) unfolding prefix_free_on_def by simp
  have "x = y \<and> tail_text f xs (c # r) = tail_text f zs (c # r')"
  proof (rule pf)
    show "Q y" using Cons.prems(2) ys by simp
    show "f x @ tail_text f xs (c # r) = f y @ tail_text f zs (c # r')"
      using Cons.prems(3) ys by simp
  qed (rule st)+
  moreover have "prefix_free_on (set xs) Q f"
    using Cons.prems(1) by (auto simp: prefix_free_on_def)
  ultimately show ?case
    using Cons.IH [of zs] Cons.prems ys by simp
qed

lemma join_inj:
  assumes "prefix_free_on (set xs) Q f" "\<And>y. y \<in> set ys \<Longrightarrow> Q y"
    and "\<And>y. y \<in> set xs \<union> set ys \<Longrightarrow> \<exists>d ds. f y = d # ds \<and> d \<noteq> c"
    and "join '','' (map f xs) @ c # r = join '','' (map f ys) @ c # r'" "c \<in> set '']}''"
  shows "xs = ys \<and> r = r'"
proof (cases xs)
  case Nil
  then show ?thesis using assms(3,4) by (cases ys) (fastforce simp: join_tail [simplified])+
next
  case (Cons x us)
  note xs = this
  then obtain y zs where ys: "ys = y # zs"
    using assms(3,4) by (cases ys) (fastforce simp: join_tail [simplified])+
  have "tail_text f xs (c # r) = tail_text f ys (c # r')"
    using assms(4) unfolding xs ys join_tail by simp
  then show ?thesis using assms(1,2,5) by (intro tail_text_inj)
qed


lemma num_char_distinct [simp]:
  "\<not> num_char (CHR ''n'')" "\<not> num_char (CHR ''t'')" "\<not> num_char (CHR ''f'')"
  "\<not> num_char (CHR 0x22)" "\<not> num_char (CHR ''['')" "\<not> num_char (CHR ''{'')"
  "\<not> num_char (CHR '']'')" "\<not> num_char (CHR ''}'')"
  by (simp_all add: num_char_def is_digit_def)

definition kind_of_first :: "char \<Rightarrow> nat" where
  "kind_of_first c =
     (if num_char c then 0 else if c = CHR ''n'' then 1 else if c = CHR ''t'' then 2
      else if c = CHR ''f'' then 3 else if c = CHR 0x22 then 4 else if c = CHR ''['' then 5
      else if c = CHR ''{'' then 6 else 7)"

lemma kind_of_first_simps [simp]:
  "num_char c \<Longrightarrow> kind_of_first c = 0"
  "kind_of_first (CHR ''n'') = 1" "kind_of_first (CHR ''t'') = 2" "kind_of_first (CHR ''f'') = 3"
  "kind_of_first (CHR 0x22) = 4" "kind_of_first (CHR ''['') = 5" "kind_of_first (CHR ''{'') = 6"
  "kind_of_first (CHR '']'') = 7"
  by (simp_all add: kind_of_first_def)

fun json_kind :: "json \<Rightarrow> nat" where
  "json_kind (JInt i) = 0"
| "json_kind JNull = 1"
| "json_kind (JBool b) = (if b then 2 else 3)"
| "json_kind (JStr s) = 4"
| "json_kind (JArr xs) = 5"
| "json_kind (JObj kvs) = 6"
| "json_kind (JFloat f) = 8"

lemma render_first:
  "int_only v \<Longrightarrow> \<exists>c cs. render v = c # cs \<and> kind_of_first c = json_kind v"
proof (cases v)
  case (JInt i)
  then show ?thesis using dec_int_hd [of i] by auto
qed (auto simp: write_string_def)

lemma render_not_close: "int_only v \<Longrightarrow> \<exists>c. (\<exists>cs. render v = c # cs) \<and> c \<noteq> CHR '']''"
proof -
  assume "int_only v"
  then obtain c cs where "render v = c # cs" "kind_of_first c = json_kind v"
    using render_first by blast
  moreover have "kind_of_first (CHR '']'') \<noteq> json_kind v"
    by (cases v) auto
  ultimately show ?thesis by auto
qed

lemma render_kind:
  assumes "int_only v" "int_only w" "render v @ r = render w @ r'"
  shows "json_kind v = json_kind w"
proof -
  obtain c cs d ds where "render v = c # cs" "kind_of_first c = json_kind v"
    "render w = d # ds" "kind_of_first d = json_kind w"
    using render_first assms(1,2) by meson
  with assms(3) show ?thesis by auto
qed

lemma render_prefix_free:
  assumes "json_wf v" "int_only v" "json_wf w" "int_only w" "stop r" "stop r'"
    and "render v @ r = render w @ r'"
  shows "v = w \<and> r = r'"
  using assms
proof (induction v arbitrary: w r r' rule: render.induct)
  case 1
  with render_kind [OF "1.prems"(2,4,7)] show ?case by (cases w) (auto split: if_splits)
next
  case (2 b)
  with render_kind [OF "2.prems"(2,4,7)] show ?case by (cases w) (auto split: if_splits)
next
  case (3 i)
  with render_kind [OF "3.prems"(2,4,7)] obtain j where "w = JInt j"
    by (cases w) (auto split: if_splits)
  with 3 dec_int_prefix show ?case by auto
next
  case (4 f)
  then show ?case by simp
next
  case (5 s)
  with render_kind [OF "5.prems"(2,4,7)] obtain t where "w = JStr t"
    by (cases w) (auto split: if_splits)
  with 5 show ?case by (simp add: write_string_prefix)
next
  case (6 xs)
  with render_kind [OF "6.prems"(2,4,7)] obtain ys where w: "w = JArr ys"
    by (cases w) (auto split: if_splits)
  let ?Q = "\<lambda>y. json_wf y \<and> int_only y"
  have "prefix_free_on (set xs) ?Q render"
    unfolding prefix_free_on_def using 6 by fastforce
  moreover have "join '','' (map render xs) @ CHR '']'' # r = join '','' (map render ys) @ CHR '']'' # r'"
    using "6.prems"(7) w by simp
  ultimately have "xs = ys \<and> r = r'"
    using "6.prems" w render_not_close by (intro join_inj [of xs ?Q]) auto
  with w show ?case by simp
next
  case (7 kvs)
  with render_kind [OF "7.prems"(2,4,7)] obtain ls where w: "w = JObj ls"
    by (cases w) (auto split: if_splits)
  let ?Q = "\<lambda>(k :: string, y). json_wf y \<and> int_only y"
  let ?f = "\<lambda>(k, v). field_text '':'' (write_string k) (render v)"
  have "prefix_free_on (set kvs) ?Q ?f"
    unfolding prefix_free_on_def
  proof (clarsimp simp: field_text_def write_string_prefix)
    fix k v y a b
    assume kv: "(k, v) \<in> set kvs" and y: "json_wf y" "int_only y" and st: "stop a" "stop b"
      and e: "render v @ a = render y @ b"
    have "json_wf v" "int_only v" using "7.prems"(1,2) kv by auto
    then show "v = y \<and> a = b"
      using "7.IH" [OF kv refl] y st e by blast
  qed
  moreover have "join '','' (map ?f kvs) @ CHR ''}'' # r = join '','' (map ?f ls) @ CHR ''}'' # r'"
    using "7.prems"(7) w by simp
  ultimately have "kvs = ls \<and> r = r'"
    using "7.prems" w
    by (intro join_inj [of kvs ?Q]) (auto simp: field_text_def write_string_def)
  with w show ?case by simp
qed

lemmas json_cases_simps = write_value_obj write_value_render

end
