(* ===== verification/EconTypes.thy ===== *)
theory EconTypes
  imports Json
begin

text \<open>
  Checked money of \<open>revops-econ/src/types.rs\<close>, the directional rounding of
  \<open>revops-core/src/msat.rs\<close> and the channel ids of \<open>revops-core/src/scid.rs\<close>. A
  newtype is a datatype around its integer; its constructor function is the only
  way the code builds one, and \<open>wf_*\<close> is the range that function enforces. An
  \<open>EconError\<close> carries its fixed message text, without the formatted arguments.
\<close>

section \<open>Errors and range checks\<close>

datatype econ_error = EconError string

type_synonym 'a econ_result = "(econ_error, 'a) result"

abbreviation econ_fail :: "string \<Rightarrow> 'a econ_result" where
  "econ_fail msg \<equiv> Inl (Fail (EconError msg))"

definition u63_max :: int where "u63_max = i64_max"

definition check_int :: "int \<Rightarrow> int \<Rightarrow> int \<Rightarrow> string \<Rightarrow> int econ_result" where
  "check_int value low high kind =
     (if value < low \<or> high < value then econ_fail (kind @ '' out of range'')
      else Inr (as_i64 value))"

section \<open>Millisatoshi\<close>

datatype msat = Msat int
datatype signed_msat = SignedMsat int
datatype sat = Sat int

fun msat_value :: "msat \<Rightarrow> int" where "msat_value (Msat v) = v"
fun signed_value :: "signed_msat \<Rightarrow> int" where "signed_value (SignedMsat v) = v"
fun sat_value :: "sat \<Rightarrow> int" where "sat_value (Sat v) = v"

definition msat_from_checked :: "int \<Rightarrow> msat econ_result" where
  "msat_from_checked v = bindE (check_int v 0 u63_max ''Msat'') (\<lambda>w. Inr (Msat w))"

definition msat_new :: "int \<Rightarrow> msat econ_result" where
  "msat_new v = msat_from_checked v"

definition msat_add :: "msat \<Rightarrow> msat \<Rightarrow> msat econ_result" where
  "msat_add a b = msat_from_checked (msat_value a + msat_value b)"

definition msat_sub :: "msat \<Rightarrow> msat \<Rightarrow> msat econ_result" where
  "msat_sub a b =
     (if msat_value a < msat_value b then econ_fail ''Msat.sub underflow''
      else bindE (chk_i64 (msat_value a - msat_value b)) (\<lambda>v. Inr (Msat v)))"

definition msat_diff :: "msat \<Rightarrow> msat \<Rightarrow> signed_msat econ_result" where
  "msat_diff a b = bindE (chk_i64 (msat_value a - msat_value b)) (\<lambda>v. Inr (SignedMsat v))"

text \<open>\<open>(self.0 as u64).div_ceil(1000) as i64\<close> and \<open>self.0 / 1000\<close>.\<close>

definition to_sats_ceil :: "msat \<Rightarrow> sat" where
  "to_sats_ceil m = Sat (as_i64 (ceil_div (msat_value m mod 2 ^ 64) 1000))"

definition to_sats_floor :: "msat \<Rightarrow> sat" where
  "to_sats_floor m = Sat (trunc_div (msat_value m) 1000)"

definition msat_from_sats :: "int \<Rightarrow> msat econ_result" where
  "msat_from_sats sats =
     bindE (check_int sats 0 u63_max ''Msat.from_sats'') (\<lambda>_. msat_from_checked (sats * 1000))"

definition to_sats_toward_zero :: "signed_msat \<Rightarrow> int" where
  "to_sats_toward_zero d = trunc_div (signed_value d) 1000"

definition sat_new :: "int \<Rightarrow> sat econ_result" where
  "sat_new v = bindE (check_int v 0 u63_max ''Sat'') (\<lambda>w. Inr (Sat w))"

definition sat_to_msat :: "sat \<Rightarrow> msat econ_result" where
  "sat_to_msat s = msat_from_checked (sat_value s * 1000)"

section \<open>Rates, ratios and times\<close>

datatype ppm = Ppm int
datatype micro = Micro int
datatype unix_time = UnixTime int

fun ppm_value :: "ppm \<Rightarrow> int" where "ppm_value (Ppm v) = v"
fun micro_value :: "micro \<Rightarrow> int" where "micro_value (Micro v) = v"
fun time_value :: "unix_time \<Rightarrow> int" where "time_value (UnixTime v) = v"

definition ppm_new :: "int \<Rightarrow> ppm econ_result" where
  "ppm_new v = bindE (check_int v 0 10000000 ''Ppm'') (\<lambda>w. Inr (Ppm w))"

text \<open>
  The products are taken in 128 bits, which two values below \<open>2 ^ 63\<close> and \<open>2 ^ 24\<close>
  never leave.
\<close>

definition fee_ceil :: "ppm \<Rightarrow> msat \<Rightarrow> msat econ_result" where
  "fee_ceil p amount = msat_from_checked (ceil_div (msat_value amount * ppm_value p) 1000000)"

definition fee_floor :: "ppm \<Rightarrow> msat \<Rightarrow> msat econ_result" where
  "fee_floor p amount = msat_from_checked (trunc_div (msat_value amount * ppm_value p) 1000000)"

definition micro_new :: "int \<Rightarrow> micro econ_result" where
  "micro_new v = bindE (check_int v 0 1000000 ''Micro'') (\<lambda>w. Inr (Micro w))"

definition time_new :: "int \<Rightarrow> unix_time econ_result" where
  "time_new v = bindE (check_int v 0 u63_max ''UnixTime'') (\<lambda>w. Inr (UnixTime w))"

definition plus_seconds :: "unix_time \<Rightarrow> int \<Rightarrow> unix_time econ_result" where
  "plus_seconds t seconds =
     bindE (check_int seconds 0 u63_max ''UnixTime.plus_seconds'') (\<lambda>_.
     bindE (check_int (time_value t + seconds) 0 u63_max ''UnixTime'') (\<lambda>w. Inr (UnixTime w)))"

section \<open>Identifiers\<close>

datatype channel_id = ChannelId string
datatype peer_id = PeerId string
datatype intent_id = IntentId string

fun channel_id_str :: "channel_id \<Rightarrow> string" where "channel_id_str (ChannelId s) = s"
fun peer_id_str :: "peer_id \<Rightarrow> string" where "peer_id_str (PeerId s) = s"
fun intent_id_str :: "intent_id \<Rightarrow> string" where "intent_id_str (IntentId s) = s"

definition is_lower_hex :: "string \<Rightarrow> bool" where
  "is_lower_hex s \<longleftrightarrow> s \<noteq> [] \<and>
     list_all (\<lambda>b. is_digit b \<or> (97 \<le> (of_char b :: nat) \<and> (of_char b :: nat) \<le> 102)) s"

definition is_digits :: "string \<Rightarrow> bool" where
  "is_digits s \<longleftrightarrow> s \<noteq> [] \<and> list_all is_digit s"

definition channel_id_new :: "string \<Rightarrow> channel_id econ_result" where
  "channel_id_new value =
     (let parts = split_on (CHR ''x'') value
      in if length parts = 3 \<and> list_all is_digits parts then Inr (ChannelId value)
         else econ_fail ''ChannelId invalid'')"

definition peer_id_new :: "string \<Rightarrow> peer_id econ_result" where
  "peer_id_new value =
     (if length value = 66 \<and> (starts_with ''02'' value \<or> starts_with ''03'' value)
         \<and> is_lower_hex value
      then Inr (PeerId value) else econ_fail ''PeerId invalid'')"

definition intent_id_new :: "string \<Rightarrow> intent_id econ_result" where
  "intent_id_new value =
     (if value \<noteq> [] \<and> length value \<le> 64 \<and>
         list_all (\<lambda>b. is_digit b \<or> (97 \<le> (of_char b :: nat) \<and> (of_char b :: nat) \<le> 122)
                      \<or> b = CHR ''-'') value
      then Inr (IntentId value) else econ_fail ''IntentId invalid'')"

section \<open>Base units\<close>

text \<open>\<open>u64\<close> arguments; \<open>sats * 1000\<close> overflows with a panic.\<close>

definition base_to_sats_ceil :: "int \<Rightarrow> int" where
  "base_to_sats_ceil m = ceil_div m 1000"

definition base_to_sats_floor :: "int \<Rightarrow> int" where
  "base_to_sats_floor m = m div 1000"

definition sats_to_base :: "int \<Rightarrow> ('e, int) result" where
  "sats_to_base sats = (if sats * 1000 < 2 ^ 64 then Inr (sats * 1000) else Inl Panic)"

definition strip_suffix :: "string \<Rightarrow> string \<Rightarrow> string option" where
  "strip_suffix suf s =
     (if length suf \<le> length s \<and> drop (length s - length suf) s = suf
      then Some (take (length s - length suf) s) else None)"

fun parse_msat :: "json \<Rightarrow> int" where
  "parse_msat JNull = 0"
| "parse_msat (JBool b) = 0"
| "parse_msat (JInt i) = (if in_i64 i then i else f64_as_i64 (f64_of_int i))"
| "parse_msat (JFloat f) = f64_as_i64 f"
| "parse_msat (JStr s) =
     (let t = trim s;
          t' = (case strip_suffix ''msat'' t of None \<Rightarrow> t | Some u \<Rightarrow> u)
      in case parse_i64 t' of None \<Rightarrow> 0 | Some v \<Rightarrow> v)"
| "parse_msat (JArr xs) = 0"
| "parse_msat (JObj kvs) = 0"

section \<open>Short channel ids\<close>

record scid =
  block :: int
  txindex :: int
  outnum :: int

datatype scid_error = ScidParseError string

definition u32_max :: int where "u32_max = 4294967295"
definition u16_max :: int where "u16_max = 65535"

definition scid_from_str :: "string \<Rightarrow> (scid_error, scid) result" where
  "scid_from_str s =
     (let parts = (if CHR ''x'' \<in> set s then split_on (CHR ''x'') s else split_on (CHR '':'') s)
      in case parts of
           [a, b, c] \<Rightarrow>
             bindE (ok_or (parse_int False 0 u32_max a) (ScidParseError s)) (\<lambda>blk.
             bindE (ok_or (parse_int False 0 u32_max b) (ScidParseError s)) (\<lambda>tx.
             bindE (ok_or (parse_int False 0 u16_max c) (ScidParseError s)) (\<lambda>out.
             Inr \<lparr>block = blk, txindex = tx, outnum = out\<rparr>)))
         | _ \<Rightarrow> Inl (Fail (ScidParseError s)))"

definition scid_display :: "scid \<Rightarrow> string" where
  "scid_display c = dec_int (block c) @ ''x'' @ dec_int (txindex c) @ ''x'' @ dec_int (outnum c)"


section \<open>The ranges the constructors enforce\<close>

definition wf_msat :: "msat \<Rightarrow> bool" where
  "wf_msat m \<longleftrightarrow> 0 \<le> msat_value m \<and> msat_value m \<le> u63_max"

definition wf_sat :: "sat \<Rightarrow> bool" where
  "wf_sat s \<longleftrightarrow> 0 \<le> sat_value s \<and> sat_value s \<le> u63_max"

definition wf_ppm :: "ppm \<Rightarrow> bool" where
  "wf_ppm p \<longleftrightarrow> 0 \<le> ppm_value p \<and> ppm_value p \<le> 10000000"

definition wf_micro :: "micro \<Rightarrow> bool" where
  "wf_micro m \<longleftrightarrow> 0 \<le> micro_value m \<and> micro_value m \<le> 1000000"

definition wf_time :: "unix_time \<Rightarrow> bool" where
  "wf_time t \<longleftrightarrow> 0 \<le> time_value t \<and> time_value t \<le> u63_max"

lemma u63_max_val: "u63_max = 9223372036854775807"
  by (simp add: u63_max_def i64_bounds)

lemma check_int_Inr [result_simps]:
  "i64_min \<le> low \<Longrightarrow> high \<le> i64_max \<Longrightarrow>
   check_int v low high kind = Inr w \<longleftrightarrow> low \<le> v \<and> v \<le> high \<and> w = v"
  by (auto simp: check_int_def as_i64_id in_i64_def)

lemma check_int_not_Panic [simp]: "check_int v low high kind \<noteq> Inl Panic"
  by (simp add: check_int_def)

lemma i64_low_zero [simp]: "i64_min \<le> 0" "u63_max \<le> i64_max" "0 \<le> i64_max" "0 \<le> u63_max"
  "(10000000 :: int) \<le> i64_max" "(1000000 :: int) \<le> i64_max"
  by (simp_all add: u63_max_def i64_bounds)

lemma msat_from_checked_Inr [result_simps]:
  "msat_from_checked v = Inr m \<longleftrightarrow> 0 \<le> v \<and> v \<le> u63_max \<and> m = Msat v"
  by (auto simp: msat_from_checked_def result_simps)

lemma msat_new_Inr [result_simps]:
  "msat_new v = Inr m \<longleftrightarrow> 0 \<le> v \<and> v \<le> u63_max \<and> m = Msat v"
  by (simp add: msat_new_def result_simps)

lemma sat_new_Inr [result_simps]:
  "sat_new v = Inr m \<longleftrightarrow> 0 \<le> v \<and> v \<le> u63_max \<and> m = Sat v"
  by (auto simp: sat_new_def result_simps)

lemma micro_new_Inr [result_simps]:
  "micro_new v = Inr m \<longleftrightarrow> 0 \<le> v \<and> v \<le> 1000000 \<and> m = Micro v"
  by (auto simp: micro_new_def result_simps)

lemma ppm_new_Inr [result_simps]:
  "ppm_new v = Inr m \<longleftrightarrow> 0 \<le> v \<and> v \<le> 10000000 \<and> m = Ppm v"
  by (auto simp: ppm_new_def result_simps)

lemma time_new_Inr [result_simps]:
  "time_new v = Inr m \<longleftrightarrow> 0 \<le> v \<and> v \<le> u63_max \<and> m = UnixTime v"
  by (auto simp: time_new_def result_simps)

lemma msat_sub_Inr [result_simps]:
  "wf_msat a \<Longrightarrow> wf_msat b \<Longrightarrow> msat_sub a b = Inr c \<longleftrightarrow>
     msat_value b \<le> msat_value a \<and> c = Msat (msat_value a - msat_value b)"
  by (auto simp: msat_sub_def wf_msat_def result_simps in_i64_alt u63_max_val)

lemma trunc_div_nonneg: "0 \<le> a \<Longrightarrow> 0 < b \<Longrightarrow> trunc_div a b = a div b"
  by (auto simp: trunc_div_def sgn_if)

lemma to_sats_ceil_value:
  assumes "wf_msat m"
  shows "sat_value (to_sats_ceil m) = ceil_div (msat_value m) 1000"
proof -
  have e: "msat_value m mod 18446744073709551616 = msat_value m"
    using assms by (simp add: wf_msat_def u63_max_val)
  have "in_i64 (ceil_div (msat_value m) 1000)"
    using ceil_div_bounds [of 1000 "msat_value m"] assms
    by (simp add: wf_msat_def u63_max_val in_i64_alt)
  then show ?thesis by (simp add: to_sats_ceil_def e as_i64_id)
qed

lemma to_sats_floor_value:
  "wf_msat m \<Longrightarrow> sat_value (to_sats_floor m) = msat_value m div 1000"
  by (simp add: to_sats_floor_def wf_msat_def trunc_div_nonneg)

section \<open>Properties\<close>

text \<open>Addition of checked millisatoshi never wraps: it returns the exact sum when that
  lies in the unsigned 63-bit range and an error, not a panic, otherwise.\<close>

theorem msat_add_exact:
  "(case msat_add a b of
      Inr c \<Rightarrow> wf_msat c \<and> msat_value c = msat_value a + msat_value b
    | Inl e \<Rightarrow> e \<noteq> Panic \<and> \<not> (0 \<le> msat_value a + msat_value b \<and> msat_value a + msat_value b \<le> u63_max))"
proof (cases "msat_add a b")
  case (Inl e)
  then have "\<not> (\<exists>c. msat_add a b = Inr c)" by simp
  then have "\<not> (0 \<le> msat_value a + msat_value b \<and> msat_value a + msat_value b \<le> u63_max)"
    by (auto simp: msat_add_def result_simps)
  moreover have "e \<noteq> Panic"
    using Inl by (auto simp: msat_add_def msat_from_checked_def result_simps)
  ultimately show ?thesis using Inl by simp
next
  case (Inr c)
  then have "0 \<le> msat_value a + msat_value b" "msat_value a + msat_value b \<le> u63_max"
    "c = Msat (msat_value a + msat_value b)"
    by (simp_all add: msat_add_def result_simps)
  then show ?thesis unfolding Inr by (simp add: wf_msat_def)
qed

text \<open>Directional rounding: floor never overstates and ceiling never understates an
  amount, both are within one satoshi of it, and the ceiling always fits its type.\<close>

theorem sats_rounding_direction:
  assumes "wf_msat m"
  shows "wf_sat (to_sats_floor m) \<and> wf_sat (to_sats_ceil m) \<and>
    sat_value (to_sats_floor m) * 1000 \<le> msat_value m \<and>
    msat_value m < sat_value (to_sats_floor m) * 1000 + 1000 \<and>
    msat_value m \<le> sat_value (to_sats_ceil m) * 1000 \<and>
    sat_value (to_sats_ceil m) * 1000 < msat_value m + 1000"
proof -
  have "0 \<le> msat_value m" "msat_value m \<le> u63_max" using assms by (auto simp: wf_msat_def)
  moreover have "msat_value m \<le> ceil_div (msat_value m) 1000 * 1000"
    "ceil_div (msat_value m) 1000 * 1000 < msat_value m + 1000"
    by (rule ceil_div_bounds, simp)+
  ultimately show ?thesis
    unfolding wf_sat_def to_sats_ceil_value [OF assms] to_sats_floor_value [OF assms]
    by (auto simp: u63_max_val)
qed

theorem sats_rounding_direction_witness:
  "sat_value (to_sats_floor (Msat 1999)) = 1 \<and> sat_value (to_sats_ceil (Msat 1999)) * 1000 < 2999"
proof -
  have wf: "wf_msat (Msat 1999)" by (simp add: wf_msat_def u63_max_val)
  have "sat_value (to_sats_floor (Msat 1999)) = 1"
    by (simp add: to_sats_floor_value [OF wf])
  moreover have "sat_value (to_sats_ceil (Msat 1999)) * 1000 < 2999"
    using sats_rounding_direction [OF wf] by simp
  ultimately show ?thesis by simp
qed

lemma ceil_minus_floor: "0 < b \<Longrightarrow> ceil_div a b - a div b \<le> 1 \<and> a div b \<le> ceil_div a b"
proof -
  assume b: "0 < b"
  have f: "a div b * b \<le> a" "a < a div b * b + b"
    using b by (auto simp: div_mult_mod_eq [symmetric] pos_mod_bound pos_mod_sign
        minus_mod_eq_div_mult [symmetric])
  note c = ceil_div_bounds [OF b, of a]
  have "a div b * b \<le> ceil_div a b * b" using f c by linarith
  moreover have "ceil_div a b * b < (a div b + 2) * b"
    using f c by (simp add: algebra_simps)
  ultimately show ?thesis using b by (simp add: mult_less_cancel_right)
qed

text \<open>A fee rate applied with rounding up and with rounding down brackets the exact fee,
  the two differ by at most one millisatoshi, and both stay checked amounts.\<close>

theorem fee_bracket:
  assumes "wf_ppm p" "wf_msat amount" "fee_ceil p amount = Inr hi"
  shows "\<exists>lo. fee_floor p amount = Inr lo \<and> wf_msat lo \<and> wf_msat hi \<and>
    msat_value lo * 1000000 \<le> msat_value amount * ppm_value p \<and>
    msat_value amount * ppm_value p \<le> msat_value hi * 1000000 \<and>
    msat_value hi - msat_value lo \<le> 1"
proof -
  let ?x = "msat_value amount * ppm_value p"
  have x: "0 \<le> ?x" using assms(1,2) by (simp add: wf_ppm_def wf_msat_def)
  have hi: "hi = Msat (ceil_div ?x 1000000)" "ceil_div ?x 1000000 \<le> u63_max"
    "0 \<le> ceil_div ?x 1000000"
    using assms(3) by (auto simp: fee_ceil_def result_simps)
  have d: "ceil_div ?x 1000000 - ?x div 1000000 \<le> 1 \<and> ?x div 1000000 \<le> ceil_div ?x 1000000"
    by (rule ceil_minus_floor) simp
  have "fee_floor p amount = Inr (Msat (?x div 1000000))"
    using x hi d by (simp add: fee_floor_def trunc_div_nonneg result_simps pos_imp_zdiv_nonneg_iff)
  moreover have "?x \<le> ceil_div ?x 1000000 * 1000000" by (rule ceil_div_bounds) simp
  moreover have "?x div 1000000 * 1000000 \<le> ?x"
    by (simp add: minus_mod_eq_div_mult [symmetric])
  ultimately show ?thesis
    using d hi x by (simp add: wf_msat_def pos_imp_zdiv_nonneg_iff)
qed

theorem fee_bracket_witness:
  "\<exists>lo. fee_floor (Ppm 3) (Msat 7) = Inr lo \<and> 1 - msat_value lo \<le> 1"
proof -
  have wf: "wf_ppm (Ppm 3)" "wf_msat (Msat 7)"
    by (simp_all add: wf_ppm_def wf_msat_def u63_max_val)
  have c: "fee_ceil (Ppm 3) (Msat 7) = Inr (Msat 1)"
    by (simp add: fee_ceil_def ceil_div_def msat_from_checked_def check_int_def u63_max_val as_i64_def)
  show ?thesis using fee_bracket [OF wf c] by auto
qed

text \<open>Printing a short channel id and parsing it back returns the same id.\<close>

theorem scid_roundtrip:
  assumes "0 \<le> block c" "block c \<le> u32_max" "0 \<le> txindex c" "txindex c \<le> u32_max"
    and "0 \<le> outnum c" "outnum c \<le> u16_max"
  shows "scid_from_str (scid_display c) = Inr c"
proof -
  have nox: "CHR ''x'' \<notin> set (dec_int i)" if "0 \<le> i" for i
    using that dec_nat_set [of "CHR ''x''" "nat i"] by (auto simp: dec_int_def is_digit_def)
  have "split_on (CHR ''x'') (scid_display c) =
      [dec_int (block c), dec_int (txindex c), dec_int (outnum c)]"
    using nox assms by (simp add: scid_display_def split_on_append split_on_no_sep)
  moreover have "CHR ''x'' \<in> set (scid_display c)" by (simp add: scid_display_def)
  ultimately show ?thesis
    using assms by (simp add: scid_from_str_def parse_dec_int)
qed

theorem scid_roundtrip_witness:
  "scid_from_str (scid_display \<lparr>block = 931308, txindex = 1256, outnum = 1\<rparr>)
     = Inr \<lparr>block = 931308, txindex = 1256, outnum = 1\<rparr>"
  by (rule scid_roundtrip) (simp_all add: u32_max_def u16_max_def)

end
