(* ===== verification/Reason.thy ===== *)
theory Reason
  imports EconTypes
begin

text \<open>
  The wire-frozen catalog of reason codes (\<open>revops-econ/src/reason.rs\<close>): the codes,
  their wire strings, the layer that owns each and the kind of decision it stands for.
\<close>

datatype code =
    BudgetExhausted
  | AuthorityLevelBlocked
  | Paused
  | IntentStale
  | IntentSuperseded
  | ChannelProtected
  | ContractObligation
  | EvBelowHoldMargin
  | InsufficientConfidence
  | FeeRailClamped
  | CooldownActive
  | ConflictCloseRebalance
  | ConflictDuplicateOpen
  | ConflictRebalanceSwap
  | ExternalCircuitBreaker
  | ExternalOutcomeUnknown
  | ArithmeticOverflow
  | SchemaInvalid

definition ALL_CODES :: "code list" where
  "ALL_CODES =
     [BudgetExhausted,
      AuthorityLevelBlocked,
      Paused,
      IntentStale,
      IntentSuperseded,
      ChannelProtected,
      ContractObligation,
      EvBelowHoldMargin,
      InsufficientConfidence,
      FeeRailClamped,
      CooldownActive,
      ConflictCloseRebalance,
      ConflictDuplicateOpen,
      ConflictRebalanceSwap,
      ExternalCircuitBreaker,
      ExternalOutcomeUnknown,
      ArithmeticOverflow,
      SchemaInvalid]"

fun code_str :: "code \<Rightarrow> string" where
  "code_str BudgetExhausted = ''BUDGET_EXHAUSTED''"
| "code_str AuthorityLevelBlocked = ''AUTHORITY_LEVEL_BLOCKED''"
| "code_str Paused = ''PAUSED''"
| "code_str IntentStale = ''INTENT_STALE''"
| "code_str IntentSuperseded = ''INTENT_SUPERSEDED''"
| "code_str ChannelProtected = ''CHANNEL_PROTECTED''"
| "code_str ContractObligation = ''CONTRACT_OBLIGATION''"
| "code_str EvBelowHoldMargin = ''EV_BELOW_HOLD_MARGIN''"
| "code_str InsufficientConfidence = ''INSUFFICIENT_CONFIDENCE''"
| "code_str FeeRailClamped = ''FEE_RAIL_CLAMPED''"
| "code_str CooldownActive = ''COOLDOWN_ACTIVE''"
| "code_str ConflictCloseRebalance = ''CONFLICT_CLOSE_REBALANCE''"
| "code_str ConflictDuplicateOpen = ''CONFLICT_DUPLICATE_OPEN''"
| "code_str ConflictRebalanceSwap = ''CONFLICT_REBALANCE_SWAP''"
| "code_str ExternalCircuitBreaker = ''EXTERNAL_CIRCUIT_BREAKER''"
| "code_str ExternalOutcomeUnknown = ''EXTERNAL_OUTCOME_UNKNOWN''"
| "code_str ArithmeticOverflow = ''ARITHMETIC_OVERFLOW''"
| "code_str SchemaInvalid = ''SCHEMA_INVALID''"

fun code_layer :: "code \<Rightarrow> string" where
  "code_layer BudgetExhausted = ''governor''"
| "code_layer AuthorityLevelBlocked = ''governor''"
| "code_layer Paused = ''governor''"
| "code_layer IntentStale = ''arbiter''"
| "code_layer IntentSuperseded = ''arbiter''"
| "code_layer ChannelProtected = ''governor''"
| "code_layer ContractObligation = ''arbiter''"
| "code_layer EvBelowHoldMargin = ''policy''"
| "code_layer InsufficientConfidence = ''governor''"
| "code_layer FeeRailClamped = ''policy''"
| "code_layer CooldownActive = ''policy''"
| "code_layer ConflictCloseRebalance = ''arbiter''"
| "code_layer ConflictDuplicateOpen = ''arbiter''"
| "code_layer ConflictRebalanceSwap = ''arbiter''"
| "code_layer ExternalCircuitBreaker = ''executor''"
| "code_layer ExternalOutcomeUnknown = ''reconciliation''"
| "code_layer ArithmeticOverflow = ''any''"
| "code_layer SchemaInvalid = ''any''"

fun code_kind :: "code \<Rightarrow> string" where
  "code_kind BudgetExhausted = ''rejection''"
| "code_kind AuthorityLevelBlocked = ''rejection''"
| "code_kind Paused = ''rejection''"
| "code_kind IntentStale = ''deferral''"
| "code_kind IntentSuperseded = ''rejection''"
| "code_kind ChannelProtected = ''rejection''"
| "code_kind ContractObligation = ''rejection''"
| "code_kind EvBelowHoldMargin = ''hold''"
| "code_kind InsufficientConfidence = ''hold''"
| "code_kind FeeRailClamped = ''clamp''"
| "code_kind CooldownActive = ''hold''"
| "code_kind ConflictCloseRebalance = ''rejection''"
| "code_kind ConflictDuplicateOpen = ''rejection''"
| "code_kind ConflictRebalanceSwap = ''rejection''"
| "code_kind ExternalCircuitBreaker = ''deferral''"
| "code_kind ExternalOutcomeUnknown = ''unknown''"
| "code_kind ArithmeticOverflow = ''failure''"
| "code_kind SchemaInvalid = ''failure''"

definition is_valid_code :: "string \<Rightarrow> bool" where
  "is_valid_code c \<longleftrightarrow> list_ex (\<lambda>k. code_str k = c) ALL_CODES"

lemma ALL_CODES_complete [simp]: "k \<in> set ALL_CODES"
  by (cases k) (simp_all add: ALL_CODES_def)

lemma ALL_CODES_distinct: "distinct (map code_str ALL_CODES)"
  by (simp add: ALL_CODES_def)

lemma code_str_inj: "code_str a = code_str b \<Longrightarrow> a = b"
  using ALL_CODES_distinct by (auto simp: distinct_map dest: inj_onD)

lemma is_valid_code_str [simp]: "is_valid_code (code_str k)"
  by (auto simp: is_valid_code_def list_ex_iff)

lemma is_valid_code_iff: "is_valid_code c \<longleftrightarrow> (\<exists>k. c = code_str k)"
  by (auto simp: is_valid_code_def list_ex_iff)

lemma code_str_nonempty [simp]: "code_str k \<noteq> []"
  by (cases k) simp_all

end
