(* ===== verification/Intents.thy ===== *)
theory Intents
  imports Reason
begin

text \<open>
  Intent envelopes and idempotency keys (\<open>revops-econ/src/intents.rs\<close>). An intent is a
  proposal with checked amounts; its idempotency key is the SHA-256 of the canonical
  JSON of five of its fields. The digest is a third-party crate: \<open>sha\<close> stands for
  \<open>hex::encode(Sha256::digest(bytes))\<close>, and \<open>sha_hex\<close> says what the code relies on,
  that the result is 64 lower-case hexadecimal digits.
\<close>

section \<open>Data\<close>

definition INTENT_TYPES :: "string list" where
  "INTENT_TYPES =
     [''SET_FEE'', ''SET_HTLC_MAX'', ''REBALANCE'', ''OPEN_CHANNEL'', ''CLOSE_CHANNEL'',
      ''SWAP_IN'', ''SWAP_OUT'', ''JOIN_LIQUIDITY_SWAP'', ''MAINTAIN_ONCHAIN_RESERVE'']"

definition SCHEMA_NAME :: string where "SCHEMA_NAME = ''intent''"
definition SCHEMA_VERSION :: int where "SCHEMA_VERSION = 0"

record explanation =
  exp_kind :: string
  components :: "(string \<times> json) list"

record intent_fields =
  intent_type :: string
  snapshot_id :: string
  created_at :: unix_time
  expires_at :: unix_time
  target :: string
  amount_msat :: "msat option"
  expected_benefit_msat :: signed_msat
  max_cost_msat :: msat
  capital_committed_msat :: msat
  confidence_micro :: micro
  reason_codes :: "string list"
  explanation :: explanation
  preconditions :: "string list"
  priority :: int
  budget_bucket :: string
  origin_policy :: string
  reversible :: bool

record intent_envelope = intent_fields +
  intent_id :: intent_id
  idempotency_key :: string
  schema_name :: string
  schema_version :: int

section \<open>Idempotency keys\<close>

fun json_opt_int :: "int option \<Rightarrow> json" where
  "json_opt_int None = JNull"
| "json_opt_int (Some i) = JInt i"

definition idempotency_subset ::
  "string \<Rightarrow> string \<Rightarrow> int option \<Rightarrow> string \<Rightarrow> string \<Rightarrow> json" where
  "idempotency_subset ty tgt amt snap bucket =
     json_object [(''intent_type'', JStr ty), (''target'', JStr tgt),
       (''amount_msat'', json_opt_int amt), (''snapshot_id'', JStr snap),
       (''budget_bucket'', JStr bucket)]"

text \<open>\<open>expect\<close> panics when the writer rejects the subset.\<close>

definition compute_idempotency_key ::
  "(string \<Rightarrow> string) \<Rightarrow> string \<Rightarrow> string \<Rightarrow> int option \<Rightarrow> string \<Rightarrow> string \<Rightarrow> string econ_result" where
  "compute_idempotency_key sha ty tgt amt snap bucket =
     (case canonical_json (idempotency_subset ty tgt amt snap bucket) of
        Inl _ \<Rightarrow> Inl Panic
      | Inr canon \<Rightarrow> Inr (sha canon))"

definition sha_hex :: "(string \<Rightarrow> string) \<Rightarrow> bool" where
  "sha_hex sha \<longleftrightarrow> (\<forall>s. length (sha s) = 64 \<and> is_lower_hex (sha s))"

text \<open>\<open>s.get(..n)\<close> is \<open>None\<close> past the end or inside a character; \<open>&s[..n]\<close> panics there.\<close>

definition is_char_boundary :: "string \<Rightarrow> nat \<Rightarrow> bool" where
  "is_char_boundary s n \<longleftrightarrow>
     n = length s \<or> (n < length s \<and> \<not> (128 \<le> (of_char (s ! n) :: nat) \<and> (of_char (s ! n) :: nat) < 192))"

definition get_to :: "nat \<Rightarrow> string \<Rightarrow> string option" where
  "get_to n s = (if is_char_boundary s n then Some (take n s) else None)"

definition slice_to :: "nat \<Rightarrow> string \<Rightarrow> ('e, string) result" where
  "slice_to n s = (case get_to n s of None \<Rightarrow> Inl Panic | Some t \<Rightarrow> Inr t)"

section \<open>Construction\<close>

definition validate :: "intent_envelope \<Rightarrow> unit econ_result" where
  "validate env =
     (if intent_type env \<notin> set INTENT_TYPES then econ_fail ''unknown intent_type''
      else if snapshot_id env = [] \<or> target env = [] then econ_fail ''snapshot_id and target required''
      else if budget_bucket env = [] \<or> origin_policy env = []
        then econ_fail ''budget_bucket and origin_policy required''
      else if exp_kind (explanation env) = [] then econ_fail ''Explanation.kind must be non-empty''
      else if time_value (expires_at env) \<le> time_value (created_at env)
        then econ_fail ''expires_at must exceed created_at''
      else if \<not> (0 \<le> priority env \<and> priority env \<le> 100) then econ_fail ''priority 0-100''
      else if \<not> list_all is_valid_code (reason_codes env) then econ_fail ''unknown reason code''
      else Inr ())"

definition make_intent ::
  "(string \<Rightarrow> string) \<Rightarrow> intent_fields \<Rightarrow> intent_envelope econ_result" where
  "make_intent sha f =
     bindE (compute_idempotency_key sha (intent_type f) (target f)
              (map_option msat_value (amount_msat f)) (snapshot_id f) (budget_bucket f)) (\<lambda>key.
     bindE (slice_to 16 key) (\<lambda>pre.
     bindE (intent_id_new (''int-'' @ pre)) (\<lambda>iid.
     let env = intent_fields.extend f
           \<lparr>intent_id = iid, idempotency_key = key,
            schema_name = SCHEMA_NAME, schema_version = SCHEMA_VERSION\<rparr>
     in bindE (validate env) (\<lambda>_. Inr env))))"

definition is_expired :: "intent_envelope \<Rightarrow> unix_time \<Rightarrow> bool" where
  "is_expired env now \<longleftrightarrow> time_value (expires_at env) \<le> time_value now"

section \<open>Wire form\<close>

definition to_wire :: "intent_envelope \<Rightarrow> json" where
  "to_wire env = json_object
    [(''schema_name'', JStr (schema_name env)),
     (''schema_version'', JInt (schema_version env)),
     (''intent_id'', JStr (intent_id_str (intent_id env))),
     (''intent_type'', JStr (intent_type env)),
     (''idempotency_key'', JStr (idempotency_key env)),
     (''snapshot_id'', JStr (snapshot_id env)),
     (''created_at'', JInt (time_value (created_at env))),
     (''expires_at'', JInt (time_value (expires_at env))),
     (''target'', JStr (target env)),
     (''amount_msat'', json_opt_int (map_option msat_value (amount_msat env))),
     (''expected_benefit_msat'', JInt (signed_value (expected_benefit_msat env))),
     (''max_cost_msat'', JInt (msat_value (max_cost_msat env))),
     (''capital_committed_msat'', JInt (msat_value (capital_committed_msat env))),
     (''confidence_micro'', JInt (micro_value (confidence_micro env))),
     (''reason_codes'', JArr (map JStr (reason_codes env))),
     (''explanation'', json_object
        [(''kind'', JStr (exp_kind (explanation env))),
         (''components'', JArr (map (\<lambda>(name, value). JArr [JStr name, value])
                                     (components (explanation env))))]),
     (''preconditions'', JArr (map JStr (preconditions env))),
     (''priority'', JInt (priority env)),
     (''budget_bucket'', JStr (budget_bucket env)),
     (''origin_policy'', JStr (origin_policy env)),
     (''reversible'', JBool (reversible env))]"

definition wire_str :: "json \<Rightarrow> string \<Rightarrow> string econ_result" where
  "wire_str d key = ok_or (Option.bind (json_get d key) as_str)
     (EconError (''intent wire: missing/invalid string field '' @ key))"

definition wire_i64 :: "json \<Rightarrow> string \<Rightarrow> int econ_result" where
  "wire_i64 d key = ok_or (Option.bind (json_get d key) as_int64)
     (EconError (''intent wire: missing/invalid integer field '' @ key))"

definition wire_bool :: "json \<Rightarrow> string \<Rightarrow> bool econ_result" where
  "wire_bool d key = ok_or (Option.bind (json_get d key) as_bool)
     (EconError (''intent wire: missing/invalid boolean field '' @ key))"

definition wire_str_array :: "json \<Rightarrow> string \<Rightarrow> string list econ_result" where
  "wire_str_array d key =
     bindE (ok_or (Option.bind (json_get d key) as_array)
              (EconError (''intent wire: missing/invalid array field '' @ key)))
       (\<lambda>vs. sequenceE (map (\<lambda>v. ok_or (as_str v)
          (EconError (''intent wire: entries must be strings '' @ key))) vs))"

definition wire_component :: "json \<Rightarrow> (string \<times> json) econ_result" where
  "wire_component pair =
     bindE (ok_or (as_array pair)
       (EconError ''intent wire: explanation.components entries must be [name, value] pairs''))
     (\<lambda>arr. case arr of
         [name, value] \<Rightarrow>
           bindE (ok_or (as_str name)
             (EconError ''intent wire: explanation.components name must be a string''))
             (\<lambda>n. Inr (n, value))
       | _ \<Rightarrow> econ_fail
           ''intent wire: explanation.components entries must have exactly 2 elements'')"

definition wire_amount :: "json \<Rightarrow> msat option econ_result" where
  "wire_amount d =
     (case json_get d ''amount_msat'' of
        None \<Rightarrow> Inr None
      | Some JNull \<Rightarrow> Inr None
      | Some v \<Rightarrow>
          bindE (ok_or (as_int64 v)
            (EconError ''intent wire: amount_msat must be an integer or null''))
            (\<lambda>raw. bindE (msat_new raw) (\<lambda>m. Inr (Some m))))"

definition i32_try_from :: "int \<Rightarrow> int option" where
  "i32_try_from v = (if - (2 ^ 31) \<le> v \<and> v < 2 ^ 31 then Some v else None)"

definition from_wire :: "json \<Rightarrow> intent_envelope econ_result" where
  "from_wire d =
     (if Option.bind (json_get d ''schema_name'') as_str \<noteq> Some SCHEMA_NAME
         \<or> Option.bind (json_get d ''schema_version'') as_int64 \<noteq> Some SCHEMA_VERSION
      then econ_fail ''intent wire schema mismatch''
      else
      bindE (wire_amount d) (\<lambda>amount.
      bindE (ok_or (json_get d ''explanation'')
               (EconError ''intent wire: missing field explanation'')) (\<lambda>expl.
      bindE (wire_str expl ''kind'') (\<lambda>knd.
      bindE (ok_or (Option.bind (json_get expl ''components'') as_array)
               (EconError ''intent wire: explanation.components must be an array'')) (\<lambda>raw.
      bindE (sequenceE (map wire_component raw)) (\<lambda>comps.
      bindE (wire_i64 d ''priority'') (\<lambda>praw.
      bindE (ok_or (i32_try_from praw) (EconError ''intent wire: priority out of range'')) (\<lambda>prio.
      bindE (wire_str d ''intent_id'') (\<lambda>iid_s. bindE (intent_id_new iid_s) (\<lambda>iid.
      bindE (wire_str d ''intent_type'') (\<lambda>ty.
      bindE (wire_str d ''idempotency_key'') (\<lambda>key.
      bindE (wire_str d ''snapshot_id'') (\<lambda>snap.
      bindE (wire_i64 d ''created_at'') (\<lambda>c_raw. bindE (time_new c_raw) (\<lambda>created.
      bindE (wire_i64 d ''expires_at'') (\<lambda>x_raw. bindE (time_new x_raw) (\<lambda>expires.
      bindE (wire_str d ''target'') (\<lambda>tgt.
      bindE (wire_i64 d ''expected_benefit_msat'') (\<lambda>benefit.
      bindE (wire_i64 d ''max_cost_msat'') (\<lambda>mc_raw. bindE (msat_new mc_raw) (\<lambda>max_cost.
      bindE (wire_i64 d ''capital_committed_msat'') (\<lambda>cc_raw. bindE (msat_new cc_raw) (\<lambda>capital.
      bindE (wire_i64 d ''confidence_micro'') (\<lambda>cf_raw. bindE (micro_new cf_raw) (\<lambda>conf.
      bindE (wire_str_array d ''reason_codes'') (\<lambda>codes.
      bindE (wire_str_array d ''preconditions'') (\<lambda>pre.
      bindE (wire_str d ''budget_bucket'') (\<lambda>bucket.
      bindE (wire_str d ''origin_policy'') (\<lambda>origin.
      bindE (wire_bool d ''reversible'') (\<lambda>rev.
      let env = \<lparr>intent_type = ty, snapshot_id = snap, created_at = created,
            expires_at = expires, target = tgt, amount_msat = amount,
            expected_benefit_msat = SignedMsat benefit, max_cost_msat = max_cost,
            capital_committed_msat = capital, confidence_micro = conf, reason_codes = codes,
            explanation = \<lparr>exp_kind = knd, components = comps\<rparr>, preconditions = pre,
            priority = prio, budget_bucket = bucket, origin_policy = origin, reversible = rev,
            intent_id = iid, idempotency_key = key, schema_name = SCHEMA_NAME,
            schema_version = SCHEMA_VERSION\<rparr>
      in bindE (validate env) (\<lambda>_. Inr env)))))))))))))))))))))))))))))))"


section \<open>Lemmas\<close>

lemma map_of_foldr_insert: "map_of (foldr (\<lambda>(k, v). bt_insert k v) kvs []) = map_of kvs"
  by (induction kvs) auto

lemma json_get_object [simp]: "json_get (json_object kvs) k = map_of kvs k"
  by (simp add: json_object_def map_of_foldr_insert)

lemma bt_ok_foldr_insert: "bt_ok (foldr (\<lambda>(k, v). bt_insert k v) kvs [])"
  by (induction kvs) auto

lemma set_foldr_insert: "set (foldr (\<lambda>(k, v). bt_insert k v) kvs []) \<subseteq> set kvs"
proof (induction kvs)
  case (Cons p kvs)
  obtain k v where "p = (k, v)" by (cases p)
  then show ?case using Cons set_bt_insert_subset by fastforce
qed simp

lemma json_object_wf: "list_all (json_wf \<circ> snd) kvs \<Longrightarrow> json_wf (json_object kvs)"
  using set_foldr_insert [of kvs] bt_ok_foldr_insert [of kvs]
  by (fastforce simp: json_object_def list_all_iff)

lemma json_object_int_only: "list_all (int_only \<circ> snd) kvs \<Longrightarrow> int_only (json_object kvs)"
  using set_foldr_insert [of kvs] by (fastforce simp: json_object_def list_all_iff)

lemma json_opt_int_wf [simp]: "json_wf (json_opt_int a)" "int_only (json_opt_int a)"
  by (cases a; simp)+

lemma json_opt_int_inj: "json_opt_int a = json_opt_int b \<longleftrightarrow> a = b"
  by (cases a; cases b) auto

lemma idempotency_subset_wf [simp]:
  "json_wf (idempotency_subset ty tgt amt snap bucket)"
  "int_only (idempotency_subset ty tgt amt snap bucket)"
  by (simp_all add: idempotency_subset_def json_object_wf json_object_int_only)

lemma canonical_idempotency_subset:
  "canonical_json (idempotency_subset ty tgt amt snap bucket) =
     Inr (render (idempotency_subset ty tgt amt snap bucket))"
  by (simp add: canonical_json_def write_value_render)

lemma idempotency_subset_inj:
  assumes "idempotency_subset ty tgt amt snap bucket = idempotency_subset ty' tgt' amt' snap' bucket'"
  shows "ty = ty' \<and> tgt = tgt' \<and> amt = amt' \<and> snap = snap' \<and> bucket = bucket'"
proof -
  have "json_get (idempotency_subset ty tgt amt snap bucket) k =
      json_get (idempotency_subset ty' tgt' amt' snap' bucket') k" for k
    using assms by simp
  from this [of "''intent_type''"] this [of "''target''"] this [of "''amount_msat''"]
    this [of "''snapshot_id''"] this [of "''budget_bucket''"]
  show ?thesis by (simp add: idempotency_subset_def json_opt_int_inj)
qed

text \<open>The text hashed into an idempotency key determines the five fields it is made of:
  two intents hash the same text exactly when type, target, amount, snapshot and bucket agree.\<close>

theorem idempotency_preimage_injective:
  "canonical_json (idempotency_subset ty tgt amt snap bucket) =
     canonical_json (idempotency_subset ty' tgt' amt' snap' bucket') \<longleftrightarrow>
   ty = ty' \<and> tgt = tgt' \<and> amt = amt' \<and> snap = snap' \<and> bucket = bucket'"
proof
  assume "canonical_json (idempotency_subset ty tgt amt snap bucket) =
     canonical_json (idempotency_subset ty' tgt' amt' snap' bucket')"
  then have e: "render (idempotency_subset ty tgt amt snap bucket) @ [] =
      render (idempotency_subset ty' tgt' amt' snap' bucket') @ []"
    by (simp add: canonical_idempotency_subset)
  have "idempotency_subset ty tgt amt snap bucket =
      idempotency_subset ty' tgt' amt' snap' bucket' \<and> ([] :: string) = []"
    by (rule render_prefix_free [OF _ _ _ _ _ _ e]) simp_all
  then have "idempotency_subset ty tgt amt snap bucket =
      idempotency_subset ty' tgt' amt' snap' bucket'" ..
  then show "ty = ty' \<and> tgt = tgt' \<and> amt = amt' \<and> snap = snap' \<and> bucket = bucket'"
    by (rule idempotency_subset_inj)
qed simp

lemma lower_hex_take:
  assumes "sha_hex sha"
  shows "list_all (\<lambda>b. is_digit b \<or> (97 \<le> (of_char b :: nat) \<and> (of_char b :: nat) \<le> 122)
      \<or> b = CHR ''-'') (take n (sha s))"
proof -
  have "list_all (\<lambda>b. is_digit b \<or> (97 \<le> (of_char b :: nat) \<and> (of_char b :: nat) \<le> 102)) (sha s)"
    using assms by (simp add: sha_hex_def is_lower_hex_def)
  then show ?thesis by (fastforce simp: list_all_iff dest: in_set_takeD)
qed

lemma hex_boundary:
  assumes "sha_hex sha" "n \<le> 64"
  shows "get_to n (sha s) = Some (take n (sha s))"
proof (cases "n = 64")
  case True
  with assms show ?thesis by (simp add: get_to_def is_char_boundary_def sha_hex_def)
next
  case False
  then have n: "n < length (sha s)" using assms by (simp add: sha_hex_def)
  have "list_all (\<lambda>b. is_digit b \<or> (97 \<le> (of_char b :: nat) \<and> (of_char b :: nat) \<le> 102)) (sha s)"
    using assms by (simp add: sha_hex_def is_lower_hex_def)
  then have "(of_char (sha s ! n) :: nat) \<le> 102"
    using n by (auto simp: list_all_length is_digit_def)
  with n show ?thesis by (simp add: get_to_def is_char_boundary_def)
qed

definition intent_key :: "(string \<Rightarrow> string) \<Rightarrow> intent_fields \<Rightarrow> string" where
  "intent_key sha f = sha (render (idempotency_subset (intent_type f) (target f)
     (map_option msat_value (amount_msat f)) (snapshot_id f) (budget_bucket f)))"

definition derived_envelope :: "(string \<Rightarrow> string) \<Rightarrow> intent_fields \<Rightarrow> intent_envelope" where
  "derived_envelope sha f = intent_fields.extend f
     \<lparr>intent_id = IntentId (''int-'' @ take 16 (intent_key sha f)),
      idempotency_key = intent_key sha f,
      schema_name = SCHEMA_NAME, schema_version = SCHEMA_VERSION\<rparr>"

lemma make_intent_derived:
  assumes "sha_hex sha"
  shows "make_intent sha f = bindE (validate (derived_envelope sha f)) (\<lambda>_. Inr (derived_envelope sha f))"
proof -
  have "length (take 16 (intent_key sha f)) = 16"
    using assms by (simp add: intent_key_def sha_hex_def)
  then have "intent_id_new (''int-'' @ take 16 (intent_key sha f)) =
      Inr (IntentId (''int-'' @ take 16 (intent_key sha f)))"
    using lower_hex_take [OF assms, of 16] by (simp add: intent_id_new_def intent_key_def)
  moreover have "(slice_to 16 (intent_key sha f) :: string econ_result) =
      Inr (take 16 (intent_key sha f))"
    using hex_boundary [OF assms] by (simp add: slice_to_def intent_key_def)
  ultimately show ?thesis
    by (simp add: make_intent_def compute_idempotency_key_def canonical_idempotency_subset
        intent_key_def [symmetric] derived_envelope_def Let_def)
qed

lemma validate_not_Panic [simp]: "validate env \<noteq> Inl Panic"
  by (simp add: validate_def)

text \<open>Building an intent never panics: it returns the envelope whose key is the digest of its
  own canonical text and whose id is \<open>int-\<close> and the first 16 digits of that key, exactly
  when that envelope passes validation, and an error otherwise.\<close>

theorem make_intent_total:
  assumes "sha_hex sha"
  shows "make_intent sha f \<noteq> Inl Panic \<and>
    (make_intent sha f = Inr env \<longleftrightarrow> env = derived_envelope sha f \<and> validate env = Inr ())"
proof (cases "validate (derived_envelope sha f)")
  case (Inl e)
  moreover have "e \<noteq> Panic" using Inl validate_not_Panic by metis
  ultimately show ?thesis using make_intent_derived [OF assms] by auto
next
  case (Inr u)
  then show ?thesis using make_intent_derived [OF assms] by auto
qed

definition const_sha :: "string \<Rightarrow> string" where
  "const_sha s = replicate 64 (CHR ''a'')"

lemma const_sha_hex [simp]: "sha_hex const_sha"
  by (simp add: sha_hex_def const_sha_def is_lower_hex_def list_all_iff)

definition sample_fields :: intent_fields where
  "sample_fields = \<lparr>intent_type = ''REBALANCE'', snapshot_id = ''snap-1'',
     created_at = UnixTime 100, expires_at = UnixTime 700, target = ''111x222x0'',
     amount_msat = Some (Msat 400000000), expected_benefit_msat = SignedMsat 0,
     max_cost_msat = Msat 3000000, capital_committed_msat = Msat 400000000,
     confidence_micro = Micro 0, reason_codes = [], explanation = \<lparr>exp_kind = ''k'', components = []\<rparr>,
     preconditions = [], priority = 50, budget_bucket = ''rebalance'',
     origin_policy = ''policy'', reversible = False\<rparr>"

lemma sample_valid: "validate (derived_envelope sha sample_fields) = Inr ()"
  by (simp add: validate_def derived_envelope_def sample_fields_def intent_fields.defs INTENT_TYPES_def)

theorem make_intent_total_witness:
  "make_intent const_sha sample_fields = Inr (derived_envelope const_sha sample_fields)"
  using make_intent_total [OF const_sha_hex, of sample_fields] sample_valid by blast


definition wf_envelope :: "intent_envelope \<Rightarrow> bool" where
  "wf_envelope env \<longleftrightarrow>
     validate env = Inr () \<and> schema_name env = SCHEMA_NAME \<and> schema_version env = SCHEMA_VERSION \<and>
     intent_id_new (intent_id_str (intent_id env)) = Inr (intent_id env) \<and>
     wf_time (created_at env) \<and> wf_time (expires_at env) \<and>
     (case amount_msat env of None \<Rightarrow> True | Some m \<Rightarrow> wf_msat m) \<and>
     in_i64 (signed_value (expected_benefit_msat env)) \<and>
     wf_msat (max_cost_msat env) \<and> wf_msat (capital_committed_msat env) \<and>
     wf_micro (confidence_micro env)"

lemma in_i64_u63: "0 \<le> v \<Longrightarrow> v \<le> u63_max \<Longrightarrow> in_i64 v"
  by (simp add: u63_max_def in_i64_def i64_bounds)

lemma new_value:
  "wf_msat m \<Longrightarrow> msat_new (msat_value m) = Inr m"
  "wf_time t \<Longrightarrow> time_new (time_value t) = Inr t"
  "wf_micro c \<Longrightarrow> micro_new (micro_value c) = Inr c"
  by (cases m, simp add: wf_msat_def result_simps, cases t, simp add: wf_time_def result_simps,
      cases c, simp add: wf_micro_def result_simps)

lemma wf_in_i64:
  "wf_msat m \<Longrightarrow> in_i64 (msat_value m)"
  "wf_time t \<Longrightarrow> in_i64 (time_value t)"
  "wf_micro c \<Longrightarrow> in_i64 (micro_value c)"
  by (auto simp: wf_msat_def wf_time_def wf_micro_def in_i64_u63 u63_max_val in_i64_alt)

lemma wire_components:
  "sequenceE (map (wire_component \<circ> (\<lambda>(name, value). JArr [JStr name, value])) cs) = Inr cs"
proof -
  have "sequenceE (map (wire_component \<circ> (\<lambda>(name, value). JArr [JStr name, value])) cs) = Inr (map id cs)"
    by (rule sequenceE_map) (auto simp: wire_component_def)
  then show ?thesis by simp
qed

lemma wire_strings:
  "sequenceE (map ((\<lambda>v. ok_or (as_str v) e) \<circ> JStr) ss) = Inr ss"
  using sequenceE_map [of ss "(\<lambda>v. ok_or (as_str v) e) \<circ> JStr" id] by simp

lemma wire_amount_opt:
  "(case a of None \<Rightarrow> True | Some m \<Rightarrow> wf_msat m) \<Longrightarrow>
   json_get d ''amount_msat'' = Some (json_opt_int (map_option msat_value a)) \<Longrightarrow>
   wire_amount d = Inr a"
  by (cases a) (simp_all add: wire_amount_def wf_in_i64 new_value)

lemma signed_collapse [simp]: "SignedMsat (signed_value d) = d"
  by (cases d) simp

lemma explanation_collapse [simp]: "\<lparr>exp_kind = exp_kind e, components = components e\<rparr> = e"
  by simp

lemmas wire_read_defs = wire_str_def wire_i64_def wire_bool_def wire_str_array_def

text \<open>C40. Reading back the wire form of a well-formed envelope returns the same envelope.\<close>

theorem wire_roundtrip:
  assumes "wf_envelope env"
  shows "from_wire (to_wire env) = Inr env"
proof -
  note wf = assms [unfolded wf_envelope_def]
  have prio: "0 \<le> priority env" "priority env \<le> 100"
    using wf by (auto simp: validate_def split: if_splits)
  have am: "wire_amount (to_wire env) = Inr (amount_msat env)"
    using wf by (intro wire_amount_opt) (simp_all add: to_wire_def)
  have v: "validate env = Inr ()" using wf by blast
  have "env = \<lparr>intent_type = intent_type env, snapshot_id = snapshot_id env,
      created_at = created_at env, expires_at = expires_at env, target = target env,
      amount_msat = amount_msat env, expected_benefit_msat = expected_benefit_msat env,
      max_cost_msat = max_cost_msat env, capital_committed_msat = capital_committed_msat env,
      confidence_micro = confidence_micro env, reason_codes = reason_codes env,
      explanation = explanation env, preconditions = preconditions env, priority = priority env,
      budget_bucket = budget_bucket env, origin_policy = origin_policy env,
      reversible = reversible env, intent_id = intent_id env,
      idempotency_key = idempotency_key env, schema_name = SCHEMA_NAME,
      schema_version = SCHEMA_VERSION\<rparr>" (is "env = ?e")
    using wf by (cases env) simp
  moreover have "from_wire (to_wire env) = bindE (validate ?e) (\<lambda>_. Inr ?e)"
    using wf prio
    unfolding from_wire_def am
    by (simp add: to_wire_def wire_read_defs wire_components wire_strings i32_try_from_def
        new_value wf_in_i64 Let_def in_i64_alt [of "priority env"] SCHEMA_VERSION_def in_i64_alt [of 0])
  ultimately show ?thesis using v by simp
qed

lemma sample_wf: "wf_envelope (derived_envelope const_sha sample_fields)"
  using sample_valid [of const_sha]
  by (simp add: wf_envelope_def derived_envelope_def sample_fields_def intent_fields.defs
      wf_time_def wf_msat_def wf_micro_def u63_max_val in_i64_alt intent_id_new_def
      intent_key_def const_sha_def is_digit_def list_all_iff)

theorem wire_roundtrip_witness:
  "from_wire (to_wire (derived_envelope const_sha sample_fields))
     = Inr (derived_envelope const_sha sample_fields)"
  by (rule wire_roundtrip [OF sample_wf])

end
