(* ===== verification/Arbiter.thy ===== *)
theory Arbiter
  imports Intents "HOL-Library.Multiset" "HOL-Library.Sublist"
begin

text \<open>
  Batch arbitration and the live registry (\<open>revops-econ/src/arbiter.rs\<close>). The batch
  sorts the candidates by the tie-break ladder and runs six rules over the sorted
  list; the registry decides arrivals one by one against what is active.
\<close>

section \<open>The tie-break ladder\<close>

definition precedence_class :: "intent_fields \<Rightarrow> int" where
  "precedence_class env =
     (let t = intent_type env
      in if t = ''MAINTAIN_ONCHAIN_RESERVE'' then 1
         else if t = ''CLOSE_CHANNEL'' then 3
         else if t = ''SET_FEE'' \<or> t = ''SET_HTLC_MAX'' then 4
         else if t = ''REBALANCE'' \<or> t = ''SWAP_IN'' \<or> t = ''SWAP_OUT'' then 5
         else if t = ''OPEN_CHANNEL'' \<or> t = ''JOIN_LIQUIDITY_SWAP'' then 6
         else 6)"

type_synonym ladder = "int \<times> int \<times> int \<times> int \<times> int \<times> string \<times> string"

definition ladder_key :: "intent_envelope \<Rightarrow> ladder" where
  "ladder_key env =
     (precedence_class (intent_fields.truncate env), - priority env,
      - signed_value (expected_benefit_msat env), - micro_value (confidence_micro env),
      msat_value (capital_committed_msat env), target env, intent_id_str (intent_id env))"

section \<open>Batch arbitration\<close>

type_synonym rejection = "intent_envelope \<times> string \<times> string"

record arbitration_result =
  ordered :: "intent_envelope list"
  rejected :: "rejection list"
  superseded :: "(string \<times> string) list"

abbreviation env_id :: "intent_envelope \<Rightarrow> string" where
  "env_id e \<equiv> intent_id_str (intent_id e)"

text \<open>
  A loop of the form "first intent of a slot wins": \<open>slot\<close> says which slot an intent
  competes for, if any; a later intent of a taken slot is rejected and superseded by
  the winner.
\<close>

fun winner_pass ::
  "(intent_envelope \<Rightarrow> 'k option) \<Rightarrow> string \<Rightarrow> (intent_envelope \<Rightarrow> string) \<Rightarrow>
   ('k \<Rightarrow> intent_envelope option) \<Rightarrow> intent_envelope list \<Rightarrow> (string \<times> string) list \<Rightarrow>
   intent_envelope list \<times> rejection list \<times> (string \<times> string) list" where
  "winner_pass slot rc detail W [] sp = ([], [], sp)"
| "winner_pass slot rc detail W (e # es) sp =
     (case slot e of
        None \<Rightarrow>
          (case winner_pass slot rc detail W es sp of (ks, rs, sp') \<Rightarrow> (e # ks, rs, sp'))
      | Some k \<Rightarrow>
          (case W k of
             Some w \<Rightarrow>
               (case winner_pass slot rc detail W es (bt_insert (env_id e) (env_id w) sp) of
                  (ks, rs, sp') \<Rightarrow> (ks, (e, rc, detail e) # rs, sp'))
           | None \<Rightarrow>
               (case winner_pass slot rc detail (W(k \<mapsto> e)) es sp of
                  (ks, rs, sp') \<Rightarrow> (e # ks, rs, sp'))))"

text \<open>A loop that rejects every rebalance whose target also has an intent of type \<open>ty\<close>.\<close>

definition block_pass ::
  "string \<Rightarrow> string \<Rightarrow> (intent_envelope \<Rightarrow> string) \<Rightarrow> intent_envelope list \<Rightarrow>
   intent_envelope list \<times> rejection list" where
  "block_pass ty rc detail es =
     (let targets = map target (filter (\<lambda>e. intent_type e = ty) es);
          hit = (\<lambda>e. intent_type e = ''REBALANCE'' \<and> target e \<in> set targets)
      in (filter (\<lambda>e. \<not> hit e) es, map (\<lambda>e. (e, rc, detail e)) (filter hit es)))"

definition stale_pass :: "int \<Rightarrow> intent_envelope list \<Rightarrow> intent_envelope list \<times> rejection list" where
  "stale_pass now es =
     (filter (\<lambda>e. \<not> time_value (expires_at e) \<le> now) es,
      map (\<lambda>e. (e, code_str IntentStale, ''expired before arbitration''))
        (filter (\<lambda>e. time_value (expires_at e) \<le> now) es))"

definition dedupe_pass where
  "dedupe_pass = winner_pass (\<lambda>e. Some (idempotency_key e)) (code_str IntentSuperseded)
     (\<lambda>e. ''duplicate idempotency key'') (\<lambda>_. None)"

definition policy_slot :: "intent_envelope \<Rightarrow> (string \<times> string) option" where
  "policy_slot e =
     (if intent_type e = ''SET_FEE'' \<or> intent_type e = ''SET_HTLC_MAX''
      then Some (intent_type e, target e) else None)"

definition policy_pass where
  "policy_pass = winner_pass policy_slot (code_str IntentSuperseded)
     (\<lambda>e. ''conflicting '' @ intent_type e @ '' on '' @ target e) (\<lambda>_. None)"

definition close_pass where
  "close_pass = block_pass ''CLOSE_CHANNEL'' (code_str ConflictCloseRebalance)
     (\<lambda>e. ''target '' @ target e @ '' has a close intent'')"

definition open_slot :: "intent_envelope \<Rightarrow> string option" where
  "open_slot e = (if intent_type e = ''OPEN_CHANNEL'' then Some (target e) else None)"

definition open_pass where
  "open_pass = winner_pass open_slot (code_str ConflictDuplicateOpen)
     (\<lambda>e. ''target '' @ target e @ '' already has an open intent'') (\<lambda>_. None)"

definition swap_pass where
  "swap_pass = block_pass ''SWAP_OUT'' (code_str ConflictRebalanceSwap)
     (\<lambda>e. ''target '' @ target e @ '' has a structural swap intent'')"

definition arbitrate :: "intent_envelope list \<Rightarrow> int \<Rightarrow> bool \<Rightarrow> arbitration_result" where
  "arbitrate intents now extended_rules =
     (let candidates = sort_key ladder_key intents;
          (fresh, r1) = stale_pass now candidates;
          (deduped, r2, s2) = dedupe_pass fresh [];
          (filtered, r3, s3) = policy_pass deduped s2;
          (final, r4) = close_pass filtered
      in if extended_rules then
           (let (step5, r5, s5) = open_pass final s3;
                (final', r6) = swap_pass step5
            in \<lparr>ordered = final', rejected = r1 @ r2 @ r3 @ r4 @ r5 @ r6, superseded = s5\<rparr>)
         else \<lparr>ordered = final, rejected = r1 @ r2 @ r3 @ r4, superseded = s3\<rparr>)"

section \<open>The live registry\<close>

text \<open>
  The registry maps an idempotency key to the active intent. The provider of the
  extended rules is absent, panics, or answers; absent and panicking mean legacy rules.
\<close>

type_synonym registry = "(string \<times> intent_envelope) list"
type_synonym provider = "(unit, bool) result option"

definition extended :: "provider \<Rightarrow> bool" where
  "extended p = (case p of None \<Rightarrow> False | Some (Inl _) \<Rightarrow> False | Some (Inr b) \<Rightarrow> b)"

definition prune :: "int \<Rightarrow> registry \<Rightarrow> registry" where
  "prune now reg = filter (\<lambda>(_, env). now < time_value (expires_at env)) reg"

definition active_on :: "registry \<Rightarrow> string \<Rightarrow> string \<Rightarrow> bool" where
  "active_on reg ty tgt \<longleftrightarrow> list_ex (\<lambda>(_, a). intent_type a = ty \<and> target a = tgt) reg"

definition conflict_code :: "bool \<Rightarrow> registry \<Rightarrow> intent_envelope \<Rightarrow> code option" where
  "conflict_code ext reg env =
     (if map_of reg (idempotency_key env) \<noteq> None then Some IntentSuperseded
      else if intent_type env = ''REBALANCE'' \<and> active_on reg ''CLOSE_CHANNEL'' (target env)
        then Some ConflictCloseRebalance
      else if ext \<and> intent_type env = ''OPEN_CHANNEL'' \<and> active_on reg ''OPEN_CHANNEL'' (target env)
        then Some ConflictDuplicateOpen
      else if ext \<and> (intent_type env = ''REBALANCE'' \<or> intent_type env = ''SWAP_OUT'') \<and>
           active_on reg (if intent_type env = ''REBALANCE'' then ''SWAP_OUT'' else ''REBALANCE'')
             (target env)
        then Some ConflictRebalanceSwap
      else None)"

definition check_and_register ::
  "provider \<Rightarrow> intent_envelope \<Rightarrow> int \<Rightarrow> registry \<Rightarrow> string option \<times> registry" where
  "check_and_register p env now reg =
     (let reg' = prune now reg
      in case conflict_code (extended p) reg' env of
           Some c \<Rightarrow> (Some (code_str c), reg')
         | None \<Rightarrow> (None, bt_insert (idempotency_key env) env reg'))"

definition registry_release :: "string \<Rightarrow> registry \<Rightarrow> registry" where
  "registry_release key reg = bt_remove key reg"

definition active_count :: "int \<Rightarrow> registry \<Rightarrow> nat \<times> registry" where
  "active_count now reg = (let reg' = prune now reg in (length reg', reg'))"


section \<open>What each pass does\<close>

lemma reject_split:
  "mset (filter (\<lambda>e. \<not> P e) es) + mset (map fst (map (\<lambda>e. (e, rc, d e)) (filter P es))) = mset es"
  by (induction es) auto

lemma winner_pass_mset:
  "winner_pass slot rc detail W es sp = (ks, rs, sp') \<Longrightarrow>
   mset ks + mset (map fst rs) = mset es"
  by (induction slot rc detail W es sp arbitrary: ks rs sp' rule: winner_pass.induct)
    (auto split: option.splits prod.splits)

lemma winner_pass_set:
  "winner_pass slot rc detail W es sp = (ks, rs, sp') \<Longrightarrow> set ks \<subseteq> set es"
  by (metis winner_pass_mset mset_subset_eq_add_left set_mset_mono set_mset_mset)

text \<open>The kept intents hold distinct slots, none of them taken before.\<close>

lemma winner_pass_distinct:
  "winner_pass slot rc detail W es sp = (ks, rs, sp') \<Longrightarrow>
   distinct (List.map_filter slot ks) \<and> set (List.map_filter slot ks) \<inter> dom W = {}"
proof (induction slot rc detail W es sp arbitrary: ks rs sp' rule: winner_pass.induct)
  case (2 slot rc detail W e es sp)
  then show ?case
    by (fastforce simp: List.map_filter_simps split: option.splits prod.splits)
qed (simp add: List.map_filter_simps)

lemma winner_pass_sorted:
  "winner_pass slot rc detail W es sp = (ks, rs, sp') \<Longrightarrow> sorted (map f es) \<Longrightarrow> sorted (map f ks)"
proof (induction slot rc detail W es sp arbitrary: ks rs sp' rule: winner_pass.induct)
  case (2 slot rc detail W e es sp)
  then show ?case
    using winner_pass_set by (fastforce split: option.splits prod.splits)
qed simp

lemma block_pass_mset:
  "block_pass ty rc detail es = (ks, rs) \<Longrightarrow> mset ks + mset (map fst rs) = mset es"
  unfolding block_pass_def Let_def by (auto simp only: prod.inject reject_split)

lemma block_pass_set: "block_pass ty rc detail es = (ks, rs) \<Longrightarrow> set ks \<subseteq> set es"
  by (auto simp: block_pass_def Let_def)

lemma block_pass_free:
  "block_pass ty rc detail es = (ks, rs) \<Longrightarrow> a \<in> set ks \<Longrightarrow> intent_type a = ''REBALANCE'' \<Longrightarrow>
   b \<in> set es \<Longrightarrow> intent_type b = ty \<Longrightarrow> target a \<noteq> target b"
  by (auto simp: block_pass_def Let_def)

lemma block_pass_sorted:
  "block_pass ty rc detail es = (ks, rs) \<Longrightarrow> sorted (map f es) \<Longrightarrow> sorted (map f ks)"
  by (auto simp: block_pass_def Let_def sorted_filter)

lemma block_pass_filter:
  "block_pass ty rc detail es = (ks, rs) \<Longrightarrow> \<exists>P. ks = filter P es"
  by (auto simp: block_pass_def Let_def)


lemma stale_pass_mset:
  "stale_pass now es = (ks, rs) \<Longrightarrow> mset ks + mset (map fst rs) = mset es"
  unfolding stale_pass_def by (auto simp only: prod.inject reject_split)

lemma stale_pass_fresh:
  "stale_pass now es = (ks, rs) \<Longrightarrow> e \<in> set ks \<Longrightarrow> now < time_value (expires_at e)"
  by (auto simp: stale_pass_def)

lemma stale_pass_sorted:
  "stale_pass now es = (ks, rs) \<Longrightarrow> sorted (map f es) \<Longrightarrow> sorted (map f ks)"
  by (auto simp: stale_pass_def sorted_filter)

text \<open>The intermediate lists of one arbitration, so that a proof can name them.\<close>

lemma arbitrate_cases:
  assumes "arbitrate intents now ext = r"
  obtains fresh r1 deduped r2 s2 filtered r3 s3 final r4 where
    "stale_pass now (sort_key ladder_key intents) = (fresh, r1)"
    "dedupe_pass fresh [] = (deduped, r2, s2)" "policy_pass deduped s2 = (filtered, r3, s3)"
    "close_pass filtered = (final, r4)"
    "\<not> ext \<Longrightarrow> ordered r = final \<and> rejected r = r1 @ r2 @ r3 @ r4"
    "ext \<Longrightarrow> \<exists>step5 r5 s5 r6. open_pass final s3 = (step5, r5, s5) \<and>
        swap_pass step5 = (ordered r, r6) \<and> rejected r = r1 @ r2 @ r3 @ r4 @ r5 @ r6"
proof -
  obtain fresh r1 where 1: "stale_pass now (sort_key ladder_key intents) = (fresh, r1)"
    by fastforce
  obtain deduped r2 s2 where 2: "dedupe_pass fresh [] = (deduped, r2, s2)"
    by (metis prod_cases3)
  obtain filtered r3 s3 where 3: "policy_pass deduped s2 = (filtered, r3, s3)"
    by (metis prod_cases3)
  obtain final r4 where 4: "close_pass filtered = (final, r4)" by fastforce
  obtain step5 r5 s5 where 5: "open_pass final s3 = (step5, r5, s5)" by (metis prod_cases3)
  obtain final' r6 where 6: "swap_pass step5 = (final', r6)" by fastforce
  show thesis
    by (rule that [OF 1 2 3 4])
      (use assms in \<open>auto simp: arbitrate_def 1 2 3 4 5 6 Let_def\<close>)
qed

lemmas winner_defs = dedupe_pass_def policy_pass_def open_pass_def
lemmas block_defs = close_pass_def swap_pass_def

lemma pass_msets:
  "dedupe_pass es sp = (ks, rs, sp') \<Longrightarrow> mset ks + mset (map fst rs) = mset es"
  "policy_pass es sp = (ks, rs, sp') \<Longrightarrow> mset ks + mset (map fst rs) = mset es"
  "open_pass es sp = (ks, rs, sp') \<Longrightarrow> mset ks + mset (map fst rs) = mset es"
  "close_pass es = (ks, rs) \<Longrightarrow> mset ks + mset (map fst rs) = mset es"
  "swap_pass es = (ks, rs) \<Longrightarrow> mset ks + mset (map fst rs) = mset es"
  by (simp_all only: winner_defs block_defs winner_pass_mset block_pass_mset)

text \<open>Batch arbitration loses no intent and invents none: the survivors and the rejected
  ones together are exactly the candidates, with their multiplicities.\<close>

theorem arbitrate_partition:
  "mset (ordered (arbitrate intents now ext)) + mset (map fst (rejected (arbitrate intents now ext)))
     = mset intents"
proof (rule arbitrate_cases [OF refl, where intents = intents and now = now and ext = ext])
  fix fresh r1 deduped r2 s2 filtered r3 s3 final r4
  let ?r = "arbitrate intents now ext"
  assume 1: "stale_pass now (sort_key ladder_key intents) = (fresh, r1)"
    and 2: "dedupe_pass fresh [] = (deduped, r2, s2)"
    and 3: "policy_pass deduped s2 = (filtered, r3, s3)"
    and 4: "close_pass filtered = (final, r4)"
    and legacy: "\<not> ext \<Longrightarrow> ordered ?r = final \<and> rejected ?r = r1 @ r2 @ r3 @ r4"
    and more: "ext \<Longrightarrow> \<exists>step5 r5 s5 r6. open_pass final s3 = (step5, r5, s5) \<and>
        swap_pass step5 = (ordered ?r, r6) \<and> rejected ?r = r1 @ r2 @ r3 @ r4 @ r5 @ r6"
  have m: "mset fresh + mset (map fst r1) = mset intents"
    "mset deduped + mset (map fst r2) = mset fresh"
    "mset filtered + mset (map fst r3) = mset deduped"
    "mset final + mset (map fst r4) = mset filtered"
    using stale_pass_mset [OF 1] pass_msets(1) [OF 2] pass_msets(2) [OF 3] pass_msets(4) [OF 4]
    by simp_all
  show "mset (ordered ?r) + mset (map fst (rejected ?r)) = mset intents"
  proof (cases ext)
    case False
    with legacy have "ordered ?r = final" "rejected ?r = r1 @ r2 @ r3 @ r4" by auto
    then show ?thesis unfolding m [symmetric] by simp
  next
    case True
    with more obtain step5 r5 s5 r6 where x: "open_pass final s3 = (step5, r5, s5)"
      "swap_pass step5 = (ordered ?r, r6)" "rejected ?r = r1 @ r2 @ r3 @ r4 @ r5 @ r6" by blast
    have "mset step5 + mset (map fst r5) = mset final"
      "mset (ordered ?r) + mset (map fst r6) = mset step5"
      using pass_msets(3) [OF x(1)] pass_msets(5) [OF x(2)] by simp_all
    note y = this
    show ?thesis unfolding m [symmetric] x(3) y [symmetric] by simp
  qed
qed


section \<open>What survives\<close>

lemma winner_pass_subseq:
  "winner_pass slot rc detail W es sp = (ks, rs, sp') \<Longrightarrow> subseq ks es"
  by (induction slot rc detail W es sp arbitrary: ks rs sp' rule: winner_pass.induct)
    (auto split: option.splits prod.splits)

lemma block_pass_subseq: "block_pass ty rc detail es = (ks, rs) \<Longrightarrow> subseq ks es"
  by (auto simp: block_pass_def Let_def)

lemma subseq_map_filter: "subseq xs ys \<Longrightarrow> subseq (List.map_filter f xs) (List.map_filter f ys)"
  by (induction rule: list_emb.induct) (auto split: option.splits)

lemma subseq_distinct: "subseq xs ys \<Longrightarrow> distinct ys \<Longrightarrow> distinct xs"
  by (auto simp: subseq_conv_nths distinct_nthsI)

lemma slots_subseq:
  "subseq xs ys \<Longrightarrow> distinct (List.map_filter f ys) \<Longrightarrow> distinct (List.map_filter f xs)"
  using subseq_map_filter subseq_distinct by blast

lemma subseq_set: "subseq xs ys \<Longrightarrow> set xs \<subseteq> set ys"
  by (auto simp: subseq_conv_nths dest: in_set_nthsD)

lemma pass_subseqs:
  "dedupe_pass es sp = (ks, rs, sp') \<Longrightarrow> subseq ks es"
  "policy_pass es sp = (ks, rs, sp') \<Longrightarrow> subseq ks es"
  "open_pass es sp = (ks, rs, sp') \<Longrightarrow> subseq ks es"
  "close_pass es = (ks, rs) \<Longrightarrow> subseq ks es"
  "swap_pass es = (ks, rs) \<Longrightarrow> subseq ks es"
  by (simp_all only: winner_defs block_defs winner_pass_subseq block_pass_subseq)

definition key_slot :: "intent_envelope \<Rightarrow> string option" where
  "key_slot e = Some (idempotency_key e)"

definition no_rebalance_into :: "string \<Rightarrow> intent_envelope list \<Rightarrow> bool" where
  "no_rebalance_into ty es \<longleftrightarrow>
     (\<forall>a \<in> set es. \<forall>b \<in> set es. intent_type a = ''REBALANCE'' \<longrightarrow> intent_type b = ty \<longrightarrow>
        target a \<noteq> target b)"

text \<open>What a conflict-free decision list is, independently of how it is computed.\<close>

definition conflict_free :: "bool \<Rightarrow> int \<Rightarrow> intent_envelope list \<Rightarrow> bool" where
  "conflict_free ext now es \<longleftrightarrow>
     (\<forall>e \<in> set es. now < time_value (expires_at e)) \<and>
     distinct (map idempotency_key es) \<and>
     distinct (List.map_filter policy_slot es) \<and>
     no_rebalance_into ''CLOSE_CHANNEL'' es \<and>
     (ext \<longrightarrow> distinct (List.map_filter open_slot es) \<and> no_rebalance_into ''SWAP_OUT'' es)"

lemma pass_distinct:
  "dedupe_pass es sp = (ks, rs, sp') \<Longrightarrow> distinct (List.map_filter key_slot ks)"
  "policy_pass es sp = (ks, rs, sp') \<Longrightarrow> distinct (List.map_filter policy_slot ks)"
  "open_pass es sp = (ks, rs, sp') \<Longrightarrow> distinct (List.map_filter open_slot ks)"
  unfolding winner_defs key_slot_def [abs_def] by (drule winner_pass_distinct, simp)+

lemma pass_free:
  "close_pass es = (ks, rs) \<Longrightarrow> no_rebalance_into ''CLOSE_CHANNEL'' ks"
  "swap_pass es = (ks, rs) \<Longrightarrow> no_rebalance_into ''SWAP_OUT'' ks"
  unfolding block_defs no_rebalance_into_def using block_pass_free block_pass_set by blast+

lemma no_rebalance_subset:
  "no_rebalance_into ty es \<Longrightarrow> set ks \<subseteq> set es \<Longrightarrow> no_rebalance_into ty ks"
  by (auto simp: no_rebalance_into_def)

lemma key_slot_map: "List.map_filter key_slot es = map idempotency_key es"
  by (induction es) (auto simp: key_slot_def)

lemma sorted_subseq_map: "subseq ks es \<Longrightarrow> sorted (map f es) \<Longrightarrow> sorted (map f ks)"
  by (metis sorted_nths subseq_conv_nths subseq_map)


text \<open>The survivors of a batch carry no conflict the rules are about: none is expired, no
  idempotency key or fee slot occurs twice, nothing is rebalanced into a channel being closed
  and, under the extended rules, no peer is opened twice and no swapped channel rebalanced;
  they stay in the order of the tie-break ladder.\<close>

theorem arbitrate_conflict_free:
  "conflict_free ext now (ordered (arbitrate intents now ext)) \<and>
   sorted (map ladder_key (ordered (arbitrate intents now ext)))"
proof (rule arbitrate_cases [OF refl, where intents = intents and now = now and ext = ext])
  fix fresh r1 deduped r2 s2 filtered r3 s3 final r4
  let ?r = "arbitrate intents now ext"
  assume 1: "stale_pass now (sort_key ladder_key intents) = (fresh, r1)"
    and 2: "dedupe_pass fresh [] = (deduped, r2, s2)"
    and 3: "policy_pass deduped s2 = (filtered, r3, s3)"
    and 4: "close_pass filtered = (final, r4)"
    and legacy: "\<not> ext \<Longrightarrow> ordered ?r = final \<and> rejected ?r = r1 @ r2 @ r3 @ r4"
    and more: "ext \<Longrightarrow> \<exists>step5 r5 s5 r6. open_pass final s3 = (step5, r5, s5) \<and>
        swap_pass step5 = (ordered ?r, r6) \<and> rejected ?r = r1 @ r2 @ r3 @ r4 @ r5 @ r6"
  have sub: "subseq (ordered ?r) final"
    using legacy more pass_subseqs(3,5) by (cases ext) (auto dest!: pass_subseqs(3,5))
  have sf: "subseq final filtered" "subseq filtered deduped" "subseq deduped fresh"
    using pass_subseqs 2 3 4 by blast+
  have subs: "subseq (ordered ?r) filtered" "subseq (ordered ?r) deduped" "subseq (ordered ?r) fresh"
    using sub sf by (meson subseq_order.trans)+
  have "sorted (map ladder_key fresh)"
    using stale_pass_sorted [OF 1, of ladder_key] by simp
  then have srt: "sorted (map ladder_key (ordered ?r))"
    using subs(3) sorted_subseq_map by blast
  have fr: "\<forall>e \<in> set (ordered ?r). now < time_value (expires_at e)"
    using stale_pass_fresh [OF 1] subseq_set [OF subs(3)] by blast
  have ky: "distinct (map idempotency_key (ordered ?r))"
    using slots_subseq [OF subs(2) pass_distinct(1) [OF 2]] by (simp add: key_slot_map)
  have po: "distinct (List.map_filter policy_slot (ordered ?r))"
    by (rule slots_subseq [OF subs(1) pass_distinct(2) [OF 3]])
  have cl: "no_rebalance_into ''CLOSE_CHANNEL'' (ordered ?r)"
    by (rule no_rebalance_subset [OF pass_free(1) [OF 4] subseq_set [OF sub]])
  have ex: "distinct (List.map_filter open_slot (ordered ?r)) \<and> no_rebalance_into ''SWAP_OUT'' (ordered ?r)"
    if "ext"
  proof -
    from more [OF that] obtain step5 r5 s5 r6 where x: "open_pass final s3 = (step5, r5, s5)"
      "swap_pass step5 = (ordered ?r, r6)" by blast
    show ?thesis
      using slots_subseq [OF pass_subseqs(5) [OF x(2)] pass_distinct(3) [OF x(1)]]
        pass_free(2) [OF x(2)] by blast
  qed
  show "conflict_free ext now (ordered ?r) \<and> sorted (map ladder_key (ordered ?r))"
    using srt fr ky po cl ex by (simp add: conflict_free_def)
qed

text \<open>Batch arbitration does not depend on the order the candidates arrive in, as long as no
  two of them tie on the whole ladder.\<close>

theorem arbitrate_order_independent:
  assumes "mset intents = mset intents'" "inj_on ladder_key (set intents)"
  shows "arbitrate intents now ext = arbitrate intents' now ext"
proof -
  have "sort_key ladder_key intents = sort_key ladder_key intents'"
    using assms by (intro sort_key_inj_key_eq) simp_all
  then show ?thesis by (simp add: arbitrate_def)
qed


definition sample_env :: "string \<Rightarrow> string \<Rightarrow> string \<Rightarrow> int \<Rightarrow> intent_envelope" where
  "sample_env ty tgt key cost =
     intent_fields.extend (sample_fields\<lparr>intent_type := ty, target := tgt, max_cost_msat := Msat cost\<rparr>)
       \<lparr>intent_id = IntentId (''int-'' @ key), idempotency_key = key,
        schema_name = SCHEMA_NAME, schema_version = SCHEMA_VERSION\<rparr>"

lemma sample_env_fields [simp]:
  "intent_type (sample_env ty tgt key cost) = ty" "target (sample_env ty tgt key cost) = tgt"
  "idempotency_key (sample_env ty tgt key cost) = key"
  "intent_id (sample_env ty tgt key cost) = IntentId (''int-'' @ key)"
  "max_cost_msat (sample_env ty tgt key cost) = Msat cost"
  "expires_at (sample_env ty tgt key cost) = UnixTime 700"
  "priority (sample_env ty tgt key cost) = 50"
  "expected_benefit_msat (sample_env ty tgt key cost) = SignedMsat 0"
  "confidence_micro (sample_env ty tgt key cost) = Micro 0"
  "capital_committed_msat (sample_env ty tgt key cost) = Msat 400000000"
  by (simp_all add: sample_env_def sample_fields_def intent_fields.defs)

lemma sample_env_ladder:
  "ladder_key (sample_env ''REBALANCE'' tgt key cost) =
     (5, - 50, 0, 0, 400000000, tgt, ''int-'' @ key)"
  by (simp add: ladder_key_def precedence_class_def intent_fields.defs)

theorem arbitrate_order_independent_witness:
  "arbitrate [sample_env ''REBALANCE'' ''1x1x1'' ''a'' 1, sample_env ''REBALANCE'' ''2x2x2'' ''b'' 1] 200 True
     = arbitrate [sample_env ''REBALANCE'' ''2x2x2'' ''b'' 1, sample_env ''REBALANCE'' ''1x1x1'' ''a'' 1] 200 True"
  by (rule arbitrate_order_independent) (auto simp: sample_env_ladder inj_on_def)

text \<open>
  The ladder does not rank every field: two envelopes of one proposal that differ in
  their cost only tie on it, and then the input order decides which one survives.
\<close>

theorem arbitrate_tie_order_dependent:
  "ordered (arbitrate [sample_env ''REBALANCE'' ''1x1x1'' ''a'' 1, sample_env ''REBALANCE'' ''1x1x1'' ''a'' 9] 200 False)
     = [sample_env ''REBALANCE'' ''1x1x1'' ''a'' 1] \<and>
   ordered (arbitrate [sample_env ''REBALANCE'' ''1x1x1'' ''a'' 9, sample_env ''REBALANCE'' ''1x1x1'' ''a'' 1] 200 False)
     = [sample_env ''REBALANCE'' ''1x1x1'' ''a'' 9]"
  by (auto simp: arbitrate_def stale_pass_def dedupe_pass_def policy_pass_def close_pass_def
      block_pass_def policy_slot_def Let_def sample_env_ladder)

section \<open>The registry as a state machine\<close>

definition registry_ok :: "registry \<Rightarrow> bool" where
  "registry_ok reg \<longleftrightarrow> bt_ok reg \<and> (\<forall>(k, env) \<in> set reg. idempotency_key env = k)"

definition is_active :: "registry \<Rightarrow> string \<Rightarrow> bool" where
  "is_active reg key \<longleftrightarrow> map_of reg key \<noteq> None"

lemma registry_ok_prune: "registry_ok reg \<Longrightarrow> registry_ok (prune now reg)"
  by (auto simp: registry_ok_def prune_def bt_ok_filter)

lemma registry_ok_insert:
  "registry_ok reg \<Longrightarrow> registry_ok (bt_insert (idempotency_key env) env reg)"
  using set_bt_insert_subset [of "idempotency_key env" env reg]
  by (fastforce simp: registry_ok_def)

lemma registry_ok_remove: "registry_ok reg \<Longrightarrow> registry_ok (registry_release key reg)"
  by (auto simp: registry_ok_def registry_release_def bt_remove_def bt_ok_filter)

lemma registry_ok_check: "registry_ok reg \<Longrightarrow> registry_ok (snd (check_and_register p env now reg))"
  by (auto simp: check_and_register_def Let_def registry_ok_prune registry_ok_insert
      split: option.splits)

lemma prune_lookup:
  "registry_ok reg \<Longrightarrow> map_of (prune now reg) k =
     (case map_of reg k of None \<Rightarrow> None
      | Some e \<Rightarrow> if now < time_value (expires_at e) then Some e else None)"
  unfolding prune_def registry_ok_def
  using map_of_filter_ok [of reg "\<lambda>_ env. now < time_value (expires_at env)" k] by simp

lemma check_None:
  "check_and_register p env now reg = (None, reg') \<longleftrightarrow>
     conflict_code (extended p) (prune now reg) env = None \<and>
     reg' = bt_insert (idempotency_key env) env (prune now reg)"
  by (auto simp: check_and_register_def Let_def split: option.splits)

lemma check_Some:
  "check_and_register p env now reg = (Some c, reg') \<longleftrightarrow>
     (\<exists>k. conflict_code (extended p) (prune now reg) env = Some k \<and> c = code_str k) \<and>
     reg' = prune now reg"
  by (auto simp: check_and_register_def Let_def split: option.splits)

inductive registry_reachable :: "provider \<Rightarrow> registry \<Rightarrow> bool" for p where
  empty: "registry_reachable p []"
| arrive: "registry_reachable p reg \<Longrightarrow>
     registry_reachable p (snd (check_and_register p env now reg))"
| released: "registry_reachable p reg \<Longrightarrow> registry_reachable p (registry_release key reg)"
| counted: "registry_reachable p reg \<Longrightarrow> registry_reachable p (snd (active_count now reg))"

text \<open>No two active intents of the two types stand on one channel.\<close>

definition never_both :: "string \<Rightarrow> string \<Rightarrow> registry \<Rightarrow> bool" where
  "never_both t1 t2 reg \<longleftrightarrow>
     (\<forall>k a j b. (k, a) \<in> set reg \<longrightarrow> (j, b) \<in> set reg \<longrightarrow> intent_type a = t1 \<longrightarrow>
        intent_type b = t2 \<longrightarrow> target a = target b \<longrightarrow> k = j)"

definition registry_inv :: "registry \<Rightarrow> bool" where
  "registry_inv reg \<longleftrightarrow> registry_ok reg \<and> never_both ''OPEN_CHANNEL'' ''OPEN_CHANNEL'' reg \<and>
     never_both ''REBALANCE'' ''SWAP_OUT'' reg"

lemma never_both_subset: "never_both t1 t2 reg \<Longrightarrow> set reg' \<subseteq> set reg \<Longrightarrow> never_both t1 t2 reg'"
  unfolding never_both_def subset_iff by iprover

lemma prune_subset: "set (prune now reg) \<subseteq> set reg"
  by (auto simp: prune_def)

lemma registry_inv_prune: "registry_inv reg \<Longrightarrow> registry_inv (prune now reg)"
  unfolding registry_inv_def
  using never_both_subset [OF _ prune_subset] registry_ok_prune by blast

lemma active_on_iff:
  "active_on reg ty tgt \<longleftrightarrow> (\<exists>k a. (k, a) \<in> set reg \<and> intent_type a = ty \<and> target a = tgt)"
  by (auto simp: active_on_def list_ex_iff)

lemma never_both_insert:
  assumes "never_both t1 t2 reg"
    and "intent_type env = t1 \<Longrightarrow> \<not> active_on reg t2 (target env)"
    and "intent_type env = t2 \<Longrightarrow> \<not> active_on reg t1 (target env)"
  shows "never_both t1 t2 (bt_insert key env reg)"
  unfolding never_both_def
proof (intro allI impI)
  fix k a j b
  assume m: "(k, a) \<in> set (bt_insert key env reg)" "(j, b) \<in> set (bt_insert key env reg)"
    and t: "intent_type a = t1" "intent_type b = t2" "target a = target b"
  have "(k, a) = (key, env) \<or> (k, a) \<in> set reg" "(j, b) = (key, env) \<or> (j, b) \<in> set reg"
    using m set_bt_insert_subset [of key env reg] by blast+
  then consider "k = key" "j = key" | "a = env" "(j, b) \<in> set reg" | "b = env" "(k, a) \<in> set reg"
    | "(k, a) \<in> set reg" "(j, b) \<in> set reg" by blast
  then show "k = j"
  proof cases
    case 2
    with t assms(2) show ?thesis unfolding active_on_iff by metis
  next
    case 3
    with t assms(3) show ?thesis unfolding active_on_iff by metis
  next
    case 4
    with t assms(1) show ?thesis unfolding never_both_def by metis
  qed simp
qed

lemma registry_inv_insert:
  assumes "registry_inv reg" "conflict_code True reg env = None"
  shows "registry_inv (bt_insert (idempotency_key env) env reg)"
proof -
  have op: "intent_type env = ''OPEN_CHANNEL'' \<Longrightarrow> \<not> active_on reg ''OPEN_CHANNEL'' (target env)"
    and rb: "intent_type env = ''REBALANCE'' \<Longrightarrow> \<not> active_on reg ''SWAP_OUT'' (target env)"
    and sw: "intent_type env = ''SWAP_OUT'' \<Longrightarrow> \<not> active_on reg ''REBALANCE'' (target env)"
    using assms(2) by (auto simp: conflict_code_def split: if_splits)
  show ?thesis
    using assms(1) op rb sw registry_ok_insert never_both_insert
    by (simp add: registry_inv_def)
qed

lemma registry_inv_check:
  "extended p \<Longrightarrow> registry_inv reg \<Longrightarrow> registry_inv (snd (check_and_register p env now reg))"
  by (auto simp: check_and_register_def Let_def registry_inv_prune registry_inv_insert
      split: option.splits)

text \<open>C39. Under the extended rules no reachable registry holds two active opens of one peer, nor
  a rebalance and a structural swap on one channel, whatever the arrival order.\<close>

theorem registry_reachable_conflict_free:
  assumes "registry_reachable p reg" "extended p"
  shows "never_both ''OPEN_CHANNEL'' ''OPEN_CHANNEL'' reg \<and> never_both ''REBALANCE'' ''SWAP_OUT'' reg"
proof -
  have "registry_inv reg"
    using assms
  proof (induction rule: registry_reachable.induct)
    case empty
    then show ?case by (simp add: registry_inv_def registry_ok_def never_both_def)
  next
    case (arrive reg env now)
    then show ?case by (intro registry_inv_check)
  next
    case (released reg key)
    then have "registry_inv reg" by simp
    then show ?case
      unfolding registry_inv_def
      using registry_ok_remove never_both_subset [of _ _ reg "registry_release key reg"]
      by (auto simp: registry_release_def bt_remove_def)
  next
    case (counted reg now)
    then show ?case by (simp add: active_count_def Let_def registry_inv_prune)
  qed
  then show ?thesis by (simp add: registry_inv_def)
qed

theorem registry_reachable_conflict_free_witness:
  "never_both ''REBALANCE'' ''SWAP_OUT''
     (snd (check_and_register (Some (Inr True)) (sample_env ''SWAP_OUT'' ''1x1x1'' ''b'' 1) 200
       (snd (check_and_register (Some (Inr True)) (sample_env ''REBALANCE'' ''1x1x1'' ''a'' 1) 200 []))))"
  by (rule registry_reachable_conflict_free
      [THEN conjunct2, OF registry_reachable.arrive [OF registry_reachable.arrive [OF registry_reachable.empty]]])
    (simp add: extended_def)


section \<open>The registry as an interface\<close>

text \<open>
  What a client of the registry may rely on. \<open>holds s k\<close> is the expiry of the intent
  active under \<open>k\<close>; a submission first lets everything expired go.
\<close>

definition alive :: "int \<Rightarrow> int option \<Rightarrow> int option" where
  "alive now x = (case x of None \<Rightarrow> None | Some t \<Rightarrow> if now < t then Some t else None)"

datatype 'e registry_op = Submit 'e int | Release string

locale conflict_registry =
  fixes submit :: "'e \<Rightarrow> int \<Rightarrow> 's \<Rightarrow> string option \<times> 's"
    and release :: "string \<Rightarrow> 's \<Rightarrow> 's"
    and key :: "'e \<Rightarrow> string"
    and expiry :: "'e \<Rightarrow> int"
    and holds :: "'s \<Rightarrow> string \<Rightarrow> int option"
    and good :: "'s \<Rightarrow> bool"
  assumes good_submit: "good s \<Longrightarrow> good (snd (submit e now s))"
    and good_release: "good s \<Longrightarrow> good (release k s)"
    and accepted: "good s \<Longrightarrow> fst (submit e now s) = None \<Longrightarrow>
      holds (snd (submit e now s)) k = (if k = key e then Some (expiry e) else alive now (holds s k))"
    and refused: "good s \<Longrightarrow> fst (submit e now s) = Some c \<Longrightarrow>
      holds (snd (submit e now s)) k = alive now (holds s k)"
    and duplicate: "good s \<Longrightarrow> holds s (key e) = Some t \<Longrightarrow> now < t \<Longrightarrow>
      fst (submit e now s) = Some ''INTENT_SUPERSEDED''"
    and released: "good s \<Longrightarrow> holds (release k s) j = (if j = k then None else holds s j)"
begin

definition step :: "'e registry_op \<Rightarrow> 's \<Rightarrow> 's" where
  "step op s = (case op of Submit e now \<Rightarrow> snd (submit e now s) | Release k \<Rightarrow> release k s)"

definition keeps :: "string \<Rightarrow> int \<Rightarrow> 'e registry_op \<Rightarrow> bool" where
  "keeps k t op = (case op of Submit e now \<Rightarrow> now < t | Release j \<Rightarrow> j \<noteq> k)"

lemma good_step: "good s \<Longrightarrow> good (step op s)"
  by (auto simp: step_def good_submit good_release split: registry_op.splits)

lemma holds_step:
  assumes "good s" "holds s k = Some t" "keeps k t op"
  shows "holds (step op s) k = Some t"
proof (cases op)
  case (Submit e now)
  show ?thesis
  proof (cases "fst (submit e now s)")
    case None
    have "key e \<noteq> k" using duplicate [of s e t now] assms Submit None by (auto simp: keeps_def)
    then show ?thesis using accepted [OF assms(1) None, of k] assms Submit
      by (simp add: step_def keeps_def alive_def)
  next
    case (Some c)
    then show ?thesis using refused [OF assms(1) Some, of k] assms Submit
      by (simp add: step_def keeps_def alive_def)
  qed
next
  case (Release j)
  then show ?thesis using assms released [of s j k] by (simp add: step_def keeps_def)
qed

lemma holds_run:
  "good s \<Longrightarrow> holds s k = Some t \<Longrightarrow> \<forall>op \<in> set ops. keeps k t op \<Longrightarrow>
   good (fold step ops s) \<and> holds (fold step ops s) k = Some t"
  by (induction ops arbitrary: s) (simp_all add: good_step holds_step)

lemma single_grant:
  assumes "good s" "fst (submit e now s) = None" "key e' = key e" "later < expiry e"
    and "\<forall>op \<in> set ops. keeps (key e) (expiry e) op"
  shows "fst (submit e' later (fold step ops (snd (submit e now s)))) = Some ''INTENT_SUPERSEDED''"
proof -
  have "holds (snd (submit e now s)) (key e) = Some (expiry e)"
    using accepted [OF assms(1,2), of "key e"] by simp
  from holds_run [OF good_submit [OF assms(1)] this assms(5)]
  show ?thesis using duplicate assms(3,4) by metis
qed

end

definition registry_holds :: "registry \<Rightarrow> string \<Rightarrow> int option" where
  "registry_holds reg k = map_option (\<lambda>env. time_value (expires_at env)) (map_of reg k)"

lemma prune_holds:
  "registry_ok reg \<Longrightarrow> registry_holds (prune now reg) k = alive now (registry_holds reg k)"
  by (simp add: registry_holds_def alive_def prune_lookup split: option.splits)

lemma check_accepted:
  assumes "registry_ok reg" "fst (check_and_register p env now reg) = None"
  shows "registry_holds (snd (check_and_register p env now reg)) k =
    (if k = idempotency_key env then Some (time_value (expires_at env))
     else alive now (registry_holds reg k))"
  using assms prune_holds [OF assms(1), of now k] registry_ok_prune [OF assms(1), of now]
  by (auto simp: check_and_register_def Let_def registry_holds_def registry_ok_def
      map_of_bt_insert split: option.splits)

lemma check_refused:
  assumes "registry_ok reg" "fst (check_and_register p env now reg) = Some c"
  shows "registry_holds (snd (check_and_register p env now reg)) k = alive now (registry_holds reg k)"
  using assms prune_holds [OF assms(1), of now k]
  by (auto simp: check_and_register_def Let_def split: option.splits)

lemma check_duplicate:
  assumes "registry_ok reg" "registry_holds reg (idempotency_key env) = Some t" "now < t"
  shows "fst (check_and_register p env now reg) = Some ''INTENT_SUPERSEDED''"
  using assms by (auto simp: registry_holds_def check_and_register_def Let_def prune_lookup
      conflict_code_def)

lemma release_holds:
  "registry_ok reg \<Longrightarrow>
   registry_holds (registry_release k reg) j = (if j = k then None else registry_holds reg j)"
  by (simp add: registry_holds_def registry_release_def registry_ok_def map_of_bt_remove)

interpretation live: conflict_registry "check_and_register p" registry_release idempotency_key
  "\<lambda>e. time_value (expires_at e)" registry_holds registry_ok for p
  by unfold_locales
    (simp_all add: registry_ok_check registry_ok_remove check_accepted check_refused
      check_duplicate release_holds)

text \<open>What the arrivals and releases of one registry do to it.\<close>

definition registry_step :: "provider \<Rightarrow> intent_envelope registry_op \<Rightarrow> registry \<Rightarrow> registry" where
  "registry_step p op reg =
     (case op of Submit e now \<Rightarrow> snd (check_and_register p e now reg)
      | Release k \<Rightarrow> registry_release k reg)"

definition keeps_key :: "string \<Rightarrow> int \<Rightarrow> intent_envelope registry_op \<Rightarrow> bool" where
  "keeps_key k t op = (case op of Submit e now \<Rightarrow> now < t | Release j \<Rightarrow> j \<noteq> k)"

text \<open>One grant per key: after an intent has been accepted, any run of further arrivals
  before its expiry and of releases of other keys leaves a second intent with its
  idempotency key refused as superseded.\<close>

theorem registry_single_grant:
  assumes "registry_ok reg" "fst (check_and_register p e now reg) = None"
    and "idempotency_key e' = idempotency_key e" "later < time_value (expires_at e)"
    and "\<forall>op \<in> set ops. keeps_key (idempotency_key e) (time_value (expires_at e)) op"
  shows "fst (check_and_register p e' later
           (fold (registry_step p) ops (snd (check_and_register p e now reg))))
         = Some ''INTENT_SUPERSEDED''"
  using live.single_grant [of reg p e now e' later ops] assms
  by (simp add: live.step_def [abs_def] live.keeps_def registry_step_def [abs_def] keeps_key_def)

theorem registry_single_grant_witness:
  "fst (check_and_register None (sample_env ''REBALANCE'' ''1x1x1'' ''a'' 1) 300
     (fold (registry_step None)
       [Submit (sample_env ''SWAP_OUT'' ''1x1x1'' ''b'' 1) 250, Release ''b'']
       (snd (check_and_register None (sample_env ''REBALANCE'' ''1x1x1'' ''a'' 1) 200 []))))
   = Some ''INTENT_SUPERSEDED''"
  by (rule registry_single_grant)
    (simp_all add: registry_ok_def check_and_register_def conflict_code_def active_on_def
      prune_def keeps_key_def)

end
