(* ===== verification/Sqlite.thy ===== *)
theory Sqlite
  imports OrdMap
begin

text \<open>
  The sqlite connection the database code talks to (\<open>rusqlite::Connection\<close>). The engine
  is not part of the repository: every statement takes its reply from a script, which
  is universally quantified in the theorems, and the data it acts on has the
  documented transaction behaviour. An action returns the result of the code together
  with the connection it leaves behind, also when it fails.
\<close>

section \<open>Actions\<close>

type_synonym ('s, 'e, 'a) action = "'s \<Rightarrow> ('e, 'a) result \<times> 's"

definition returnA :: "'a \<Rightarrow> ('s, 'e, 'a) action" where
  "returnA a s = (Inr a, s)"

definition liftA :: "('e, 'a) result \<Rightarrow> ('s, 'e, 'a) action" where
  "liftA r s = (r, s)"

definition failA :: "'e \<Rightarrow> ('s, 'e, 'a) action" where
  "failA e s = (Inl (Fail e), s)"

text \<open>The operator \<open>?\<close> on an action that may fail.\<close>

definition bindA :: "('s, 'e, 'a) action \<Rightarrow> ('a \<Rightarrow> ('s, 'e, 'b) action) \<Rightarrow> ('s, 'e, 'b) action" where
  "bindA m f s = (case m s of (Inl e, t) \<Rightarrow> (Inl e, t) | (Inr a, t) \<Rightarrow> f a t)"

text \<open>A \<open>match\<close> on the result of an action.\<close>

definition handleA ::
  "('s, 'e, 'a) action \<Rightarrow> (('e, 'a) result \<Rightarrow> ('s, 'f, 'b) action) \<Rightarrow> ('s, 'f, 'b) action" where
  "handleA m f s = (case m s of (r, t) \<Rightarrow> f r t)"

definition map_errA :: "('e \<Rightarrow> 'f) \<Rightarrow> ('s, 'e, 'a) action \<Rightarrow> ('s, 'f, 'a) action" where
  "map_errA g m s =
     (case m s of (Inr a, t) \<Rightarrow> (Inr a, t) | (Inl (Fail e), t) \<Rightarrow> (Inl (Fail (g e)), t)
      | (Inl Panic, t) \<Rightarrow> (Inl Panic, t))"

named_theorems action_simps

lemma map_errA_Inr [action_simps]: "map_errA g m s = (Inr a, t) \<longleftrightarrow> m s = (Inr a, t)"
  by (auto simp: map_errA_def split: prod.splits sum.splits fault.splits)

lemma map_errA_cases:
  assumes "map_errA g m s = (r, t)"
  obtains a where "m s = (Inr a, t)" "r = Inr a"
  | e where "m s = (Inl (Fail e), t)" "r = Inl (Fail (g e))"
  | "m s = (Inl Panic, t)" "r = Inl Panic"
  using assms by (auto simp: map_errA_def split: prod.splits sum.splits fault.splits)

lemma map_errA_snd [simp]: "snd (map_errA g m s) = snd (m s)"
  by (auto simp: map_errA_def split: prod.splits sum.splits fault.splits)

lemma action_basic [simp, action_simps]:
  "returnA a s = (Inr a, s)" "liftA r s = (r, s)" "failA e s = (Inl (Fail e), s)"
  by (simp_all add: returnA_def liftA_def failA_def)

lemma bindA_eq_Inr [action_simps]:
  "bindA m f s = (Inr b, u) \<longleftrightarrow> (\<exists>a t. m s = (Inr a, t) \<and> f a t = (Inr b, u))"
  by (auto simp: bindA_def split: prod.splits sum.splits)

lemma bindA_eq_Inl [action_simps]:
  "bindA m f s = (Inl e, u) \<longleftrightarrow>
     m s = (Inl e, u) \<or> (\<exists>a t. m s = (Inr a, t) \<and> f a t = (Inl e, u))"
  by (auto simp: bindA_def split: prod.splits sum.splits)

lemma bindA_assoc: "bindA (bindA m f) g = bindA m (\<lambda>a. bindA (f a) g)"
  by (auto simp: bindA_def fun_eq_iff split: prod.splits sum.splits)

lemma bindA_run:
  "m s = (Inr a, t) \<Longrightarrow> bindA m f s = f a t"
  "m s = (Inl e, t) \<Longrightarrow> bindA m f s = (Inl e, t)"
  by (simp_all add: bindA_def)

section \<open>The connection\<close>

text \<open>
  An engine error says whether it is a busy or locked error, whether the engine rolled
  the open transaction back with it, and its text. A script entry is \<open>None\<close> for a
  statement that goes through; an exhausted script lets every statement through.
\<close>

datatype sql_error = SqlError (is_busy_or_locked: bool) (rolls_back: bool) (sql_text: string)

record 'd conn =
  disk :: 'd
  txn :: "'d option"
  script :: "sql_error option list"

abbreviation sql_plain :: "string \<Rightarrow> sql_error" where
  "sql_plain msg \<equiv> SqlError False False msg"

definition pop :: "'d conn \<Rightarrow> sql_error option \<times> 'd conn" where
  "pop c = (case script c of [] \<Rightarrow> (None, c) | r # rs \<Rightarrow> (r, c\<lparr>script := rs\<rparr>))"

definition current :: "'d conn \<Rightarrow> 'd" where
  "current c = (case txn c of None \<Rightarrow> disk c | Some d \<Rightarrow> d)"

definition store :: "'d \<Rightarrow> 'd conn \<Rightarrow> 'd conn" where
  "store d c = (case txn c of None \<Rightarrow> c\<lparr>disk := d\<rparr> | Some _ \<Rightarrow> c\<lparr>txn := Some d\<rparr>)"

definition engine_fails :: "sql_error \<Rightarrow> 'd conn \<Rightarrow> (sql_error, 'a) result \<times> 'd conn" where
  "engine_fails e c = (Inl (Fail e), if rolls_back e then c\<lparr>txn := None\<rparr> else c)"

text \<open>
  A data statement: it fails without effect, or applies \<open>f\<close> to the data the connection
  sees; \<open>f\<close> itself may refuse (a missing table, an overflow in an aggregate).
\<close>

definition exec :: "('d \<Rightarrow> sql_error + ('a \<times> 'd)) \<Rightarrow> ('d conn, sql_error, 'a) action" where
  "exec f c =
     (case pop c of
        (Some e, c') \<Rightarrow> engine_fails e c'
      | (None, c') \<Rightarrow>
          (case f (current c') of
             Inl e \<Rightarrow> engine_fails e c'
           | Inr (a, d) \<Rightarrow> (Inr a, store d c')))"

definition query :: "('d \<Rightarrow> sql_error + 'a) \<Rightarrow> ('d conn, sql_error, 'a) action" where
  "query f c =
     (case pop c of
        (Some e, c') \<Rightarrow> engine_fails e c'
      | (None, c') \<Rightarrow>
          (case f (current c') of Inl e \<Rightarrow> engine_fails e c' | Inr a \<Rightarrow> (Inr a, c')))"

definition begin_immediate :: "('d conn, sql_error, unit) action" where
  "begin_immediate c =
     (case pop c of
        (Some e, c') \<Rightarrow> engine_fails e c'
      | (None, c') \<Rightarrow>
          (case txn c' of
             Some _ \<Rightarrow> engine_fails (sql_plain ''cannot start a transaction within a transaction'') c'
           | None \<Rightarrow> (Inr (), c'\<lparr>txn := Some (disk c')\<rparr>)))"

definition commit :: "('d conn, sql_error, unit) action" where
  "commit c =
     (case pop c of
        (Some e, c') \<Rightarrow> engine_fails e c'
      | (None, c') \<Rightarrow>
          (case txn c' of
             None \<Rightarrow> engine_fails (sql_plain ''cannot commit - no transaction is active'') c'
           | Some d \<Rightarrow> (Inr (), c'\<lparr>disk := d, txn := None\<rparr>)))"

definition rollback :: "('d conn, sql_error, unit) action" where
  "rollback c =
     (case pop c of
        (Some e, c') \<Rightarrow> engine_fails e c'
      | (None, c') \<Rightarrow>
          (case txn c' of
             None \<Rightarrow> engine_fails (sql_plain ''cannot rollback - no transaction is active'') c'
           | Some _ \<Rightarrow> (Inr (), c'\<lparr>txn := None\<rparr>)))"

section \<open>Laws\<close>

lemma pop_fields [simp]:
  "pop c = (r, c') \<Longrightarrow> disk c' = disk c"
  "pop c = (r, c') \<Longrightarrow> txn c' = txn c"
  by (auto simp: pop_def split: list.splits)

lemma pop_Nil [simp]: "script c = [] \<Longrightarrow> pop c = (None, c)"
  by (simp add: pop_def)

lemma current_store [simp]: "current (store d c) = d"
  by (simp add: current_def store_def split: option.splits)

lemma store_fields [simp]:
  "script (store d c) = script c" "(txn (store d c) = None) = (txn c = None)"
  "txn c \<noteq> None \<Longrightarrow> disk (store d c) = disk c"
  "txn c \<noteq> None \<Longrightarrow> txn (store d c) = Some d"
  by (auto simp: store_def split: option.splits)

lemma engine_fails_fields [simp]:
  "fst (engine_fails e c) = Inl (Fail e)"
  "disk (snd (engine_fails e c)) = disk c"
  "txn (snd (engine_fails e c)) = (if rolls_back e then None else txn c)"
  "engine_fails e c \<noteq> (Inr a, c')"
  by (simp_all add: engine_fails_def)

text \<open>Inside a transaction no statement reaches the disk; a query changes no data.\<close>

lemma exec_in_txn:
  assumes "exec f c = (r, c')" "txn c = Some d"
  shows "disk c' = disk c"
  using assms pop_fields [of c]
  by (auto simp: exec_def engine_fails_def split: prod.splits option.splits sum.splits if_splits)

lemma exec_Inr:
  assumes "exec f c = (Inr a, c')"
  obtains c1 d where "pop c = (None, c1)" "f (current c) = Inr (a, d)" "c' = store d c1"
    "disk c1 = disk c" "txn c1 = txn c"
proof -
  obtain r c1 where p: "pop c = (r, c1)" by fastforce
  have f: "disk c1 = disk c" "txn c1 = txn c" using p by (rule pop_fields)+
  then have "current c1 = current c" by (simp add: current_def split: option.splits)
  then obtain d where "r = None" "f (current c) = Inr (a, d)" "c' = store d c1"
    using assms p by (auto simp: exec_def split: option.splits sum.splits)
  with p f that [of c1 d] show thesis by simp
qed

lemma query_Inr:
  assumes "query f c = (Inr a, c')"
  shows "f (current c) = Inr a" "disk c' = disk c" "txn c' = txn c"
proof -
  obtain r c1 where p: "pop c = (r, c1)" by fastforce
  have f: "disk c1 = disk c" "txn c1 = txn c" using p by (rule pop_fields)+
  then have "current c1 = current c" by (simp add: current_def split: option.splits)
  with assms p f show "f (current c) = Inr a" "disk c' = disk c" "txn c' = txn c"
    by (auto simp: query_def split: option.splits sum.splits)
qed

lemma query_disk: "query f c = (r, c') \<Longrightarrow> disk c' = disk c"
  using pop_fields [of c]
  by (auto simp: query_def engine_fails_def split: prod.splits option.splits sum.splits if_splits)

lemma query_txn_None: "query f c = (r, c') \<Longrightarrow> txn c = None \<Longrightarrow> txn c' = None"
  using pop_fields [of c]
  by (auto simp: query_def engine_fails_def split: prod.splits option.splits sum.splits if_splits)

lemma exec_quiet [simp]:
  "script c = [] \<Longrightarrow> exec f c =
     (case f (current c) of Inl e \<Rightarrow> engine_fails e c | Inr (a, d) \<Rightarrow> (Inr a, store d c))"
  by (simp add: exec_def)

lemma query_quiet [simp]:
  "script c = [] \<Longrightarrow> query f c =
     (case f (current c) of Inl e \<Rightarrow> engine_fails e c | Inr a \<Rightarrow> (Inr a, c))"
  by (simp add: query_def)

lemma begin_Inr:
  assumes "begin_immediate c = (Inr u, c')"
  shows "txn c = None" "txn c' = Some (disk c)" "disk c' = disk c"
  using assms pop_fields [of c]
  by (auto simp: begin_immediate_def engine_fails_def split: prod.splits option.splits)

lemma begin_Inl:
  assumes "begin_immediate c = (Inl e, c')"
  shows "disk c' = disk c"
  using assms pop_fields [of c]
  by (auto simp: begin_immediate_def engine_fails_def split: prod.splits option.splits if_splits)

lemma commit_Inr:
  assumes "commit c = (Inr u, c')"
  shows "txn c = Some (disk c')" "txn c' = None"
  using assms pop_fields [of c]
  by (auto simp: commit_def engine_fails_def split: prod.splits option.splits)

lemma commit_Inl:
  assumes "commit c = (Inl e, c')"
  shows "disk c' = disk c"
  using assms pop_fields [of c]
  by (auto simp: commit_def engine_fails_def split: prod.splits option.splits if_splits)

lemma rollback_disk: "rollback c = (r, c') \<Longrightarrow> disk c' = disk c"
  using pop_fields [of c]
  by (auto simp: rollback_def engine_fails_def split: prod.splits option.splits if_splits)

text \<open>
  Actions that, run inside a transaction, never touch the disk and on success leave the
  transaction open. Every action built from statements with \<open>?\<close> only is one.
\<close>

definition confined :: "('d conn, 'e, 'a) action \<Rightarrow> bool" where
  "confined m \<longleftrightarrow> (\<forall>c r c'. txn c \<noteq> None \<longrightarrow> m c = (r, c') \<longrightarrow>
     disk c' = disk c \<and> (\<forall>a. r = Inr a \<longrightarrow> txn c' \<noteq> None))"

named_theorems confined_intros

lemma confinedD:
  "confined m \<Longrightarrow> txn c \<noteq> None \<Longrightarrow> m c = (r, c') \<Longrightarrow> disk c' = disk c"
  "confined m \<Longrightarrow> txn c \<noteq> None \<Longrightarrow> m c = (Inr a, c') \<Longrightarrow> txn c' \<noteq> None"
  unfolding confined_def by blast+

lemma confined_basic [confined_intros]:
  "confined (returnA a)" "confined (liftA r)" "confined (failA e)"
  by (auto simp: confined_def)

lemma confined_bind [confined_intros]:
  assumes "confined m" "\<And>a. confined (f a)"
  shows "confined (bindA m f)"
  unfolding confined_def
proof (intro allI impI)
  fix c r c' assume t: "txn c \<noteq> None" and b: "bindA m f c = (r, c')"
  obtain r1 c1 where m: "m c = (r1, c1)" by fastforce
  show "disk c' = disk c \<and> (\<forall>a. r = Inr a \<longrightarrow> txn c' \<noteq> None)"
  proof (cases r1)
    case (Inl e)
    with b m confinedD(1) [OF assms(1) t m] show ?thesis by (auto simp: bindA_def)
  next
    case (Inr a)
    with b m have f: "f a c1 = (r, c')" by (simp add: bindA_def)
    have t1: "txn c1 \<noteq> None" by (rule confinedD(2) [OF assms(1) t m [unfolded Inr]])
    have "disk c' = disk c"
      using confinedD(1) [OF assms(2) t1 f] confinedD(1) [OF assms(1) t m] by simp
    moreover have "txn c' \<noteq> None" if "r = Inr b" for b
      using confinedD(2) [OF assms(2) t1 f [unfolded that]] .
    ultimately show ?thesis by blast
  qed
qed

lemma confined_map_err [confined_intros]: "confined m \<Longrightarrow> confined (map_errA g m)"
  unfolding confined_def by (blast elim: map_errA_cases)

lemma confined_query [confined_intros]: "confined (query f)"
  unfolding confined_def
proof (intro allI impI)
  fix c r c' assume t: "txn c \<noteq> None" and q: "query f c = (r, c')"
  show "disk c' = disk c \<and> (\<forall>a. r = Inr a \<longrightarrow> txn c' \<noteq> None)"
    using query_disk [OF q] query_Inr(3) [of f c _ c'] t q by auto
qed

lemma confined_exec [confined_intros]: "confined (exec f)"
  unfolding confined_def
proof (intro allI impI)
  fix c r c' assume t: "txn c \<noteq> None" and e: "exec f c = (r, c')"
  show "disk c' = disk c \<and> (\<forall>a. r = Inr a \<longrightarrow> txn c' \<noteq> None)"
  proof (intro conjI allI impI)
    show "disk c' = disk c" using exec_in_txn [OF e] t by auto
    fix a assume "r = Inr a"
    with e t show "txn c' \<noteq> None" by (auto elim: exec_Inr)
  qed
qed

text \<open>Actions that leave no transaction open when there was none.\<close>

definition stays_out :: "('d conn, 'e, 'a) action \<Rightarrow> bool" where
  "stays_out m \<longleftrightarrow> (\<forall>c r c'. txn c = None \<longrightarrow> m c = (r, c') \<longrightarrow> txn c' = None)"

named_theorems stays_out_intros

lemma stays_outD: "stays_out m \<Longrightarrow> txn c = None \<Longrightarrow> m c = (r, c') \<Longrightarrow> txn c' = None"
  unfolding stays_out_def by blast

lemma stays_out_basic [stays_out_intros]:
  "stays_out (returnA a)" "stays_out (liftA r)" "stays_out (failA e)"
  by (auto simp: stays_out_def)

lemma stays_out_bind [stays_out_intros]:
  assumes "stays_out m" "\<And>a. stays_out (f a)"
  shows "stays_out (bindA m f)"
  unfolding stays_out_def
proof (intro allI impI)
  fix c r c' assume t: "txn c = None" and b: "bindA m f c = (r, c')"
  obtain q c1 where m: "m c = (q, c1)" by fastforce
  note t1 = stays_outD [OF assms(1) t m]
  show "txn c' = None"
  proof (cases q)
    case (Inl e)
    with b m t1 show ?thesis by (auto simp: bindA_def)
  next
    case (Inr a)
    with b m have "f a c1 = (r, c')" by (simp add: bindA_def)
    from stays_outD [OF assms(2) t1 this] show ?thesis .
  qed
qed

lemma stays_out_map_err [stays_out_intros]: "stays_out m \<Longrightarrow> stays_out (map_errA g m)"
  unfolding stays_out_def by (blast elim: map_errA_cases)

lemma stays_out_query [stays_out_intros]: "stays_out (query f)"
  unfolding stays_out_def using query_txn_None by blast

lemma stays_out_exec [stays_out_intros]: "stays_out (exec f)"
  unfolding stays_out_def using pop_fields
  by (fastforce simp: exec_def engine_fails_def store_def
      split: prod.splits option.splits sum.splits if_splits)

lemma rollback_errA_disk: "map_errA g rollback c = (r, c') \<Longrightarrow> disk c' = disk c"
  by (erule map_errA_cases) (auto dest: rollback_disk)

lemma commit_errA_Inl: "map_errA g commit c = (Inl e, c') \<Longrightarrow> disk c' = disk c"
  by (erule map_errA_cases) (auto dest: commit_Inl)

lemma txn_quiet [simp]:
  "script c = [] \<Longrightarrow> txn c = None \<Longrightarrow> begin_immediate c = (Inr (), c\<lparr>txn := Some (disk c)\<rparr>)"
  "script c = [] \<Longrightarrow> txn c = Some d \<Longrightarrow> commit c = (Inr (), c\<lparr>disk := d, txn := None\<rparr>)"
  "script c = [] \<Longrightarrow> txn c = Some d \<Longrightarrow> rollback c = (Inr (), c\<lparr>txn := None\<rparr>)"
  by (simp_all add: begin_immediate_def commit_def rollback_def)

text \<open>\<open>SUM\<close> of the engine over integers: an error when a partial sum leaves the range.\<close>

fun sql_sum :: "int \<Rightarrow> int list \<Rightarrow> sql_error + int" where
  "sql_sum acc [] = Inr acc"
| "sql_sum acc (x # xs) =
     (if in_i64 (acc + x) then sql_sum (acc + x) xs else Inl (sql_plain ''integer overflow''))"

lemma sql_sum_Inr: "sql_sum acc xs = Inr s \<Longrightarrow> s = acc + sum_list xs"
  by (induction acc xs rule: sql_sum.induct) (auto split: if_splits)

text \<open>Rows by primary key: \<open>INSERT OR REPLACE\<close> keeps one row per key.\<close>

definition replace_row :: "('r \<Rightarrow> string) \<Rightarrow> 'r \<Rightarrow> 'r list \<Rightarrow> 'r list" where
  "replace_row key r rs = filter (\<lambda>x. key x \<noteq> key r) rs @ [r]"

definition find_row :: "('r \<Rightarrow> string) \<Rightarrow> string \<Rightarrow> 'r list \<Rightarrow> 'r option" where
  "find_row key k rs = List.find (\<lambda>x. key x = k) rs"

definition update_rows :: "('r \<Rightarrow> bool) \<Rightarrow> ('r \<Rightarrow> 'r) \<Rightarrow> 'r list \<Rightarrow> nat \<times> 'r list" where
  "update_rows P f rs = (length (filter P rs), map (\<lambda>r. if P r then f r else r) rs)"

lemma find_row_Some:
  "find_row key k rs = Some r \<Longrightarrow> r \<in> set rs \<and> key r = k"
  by (auto simp: find_row_def find_Some_iff)

lemma find_row_None: "find_row key k rs = None \<longleftrightarrow> (\<forall>r \<in> set rs. key r \<noteq> k)"
  by (auto simp: find_row_def find_None_iff)

lemma find_row_distinct:
  "distinct (map key rs) \<Longrightarrow> r \<in> set rs \<Longrightarrow> find_row key (key r) rs = Some r"
  by (induction rs) (auto simp: find_row_def)

lemma replace_row_distinct:
  "distinct (map key rs) \<Longrightarrow> distinct (map key (replace_row key r rs))"
  by (auto simp: replace_row_def distinct_map inj_on_def)

lemma update_rows_keys:
  "(\<And>r. key (f r) = key r) \<Longrightarrow> map key (snd (update_rows P f rs)) = map key rs"
  by (simp add: update_rows_def comp_def if_distrib cong: if_cong)

lemma find_replace_row:
  "find_row key k (replace_row key r rs) = (if k = key r then Some r else find_row key k rs)"
  by (induction rs) (auto simp: replace_row_def find_row_def)

end
