(* ===== verification/Ledger.thy ===== *)
theory Ledger
  imports EconTypes Sqlite
begin

text \<open>
  The append-only event ledger (\<open>revops-econ/src/ledger.rs\<close>): rows in sqlite, the
  validated append, the reads, and the replay that rebuilds reservations, spend and
  terminal states. The two \<open>serde_json\<close> readers of the stored columns are parameters.
\<close>

section \<open>Data\<close>

definition EVENT_TYPES :: "string list" where
  "EVENT_TYPES = [''intent_proposed'', ''intent_rejected'', ''intent_deferred'',
     ''intent_authorized'', ''budget_reserved'', ''execution_started'', ''execution_succeeded'',
     ''execution_failed'', ''execution_outcome_unknown'', ''cost_recorded'',
     ''reservation_released'', ''reconciliation_completed'', ''snapshot_created'']"

definition TERMINAL_EVENTS :: "string list" where
  "TERMINAL_EVENTS = [''intent_rejected'', ''intent_deferred'', ''execution_succeeded'',
     ''execution_failed'', ''execution_outcome_unknown'']"

type_synonym amounts = "(string \<times> int) list"

record ledger_event =
  event_id :: int
  event_type :: string
  ev_intent_id :: string
  ev_key :: string
  ev_cycle_id :: string
  ev_at :: int
  ev_amounts :: amounts
  ev_details :: json

record ledger_state =
  reserved_msat :: amounts
  spent_msat :: amounts
  total_spent_msat :: int
  terminal :: "(string \<times> string) list"
  anomalies :: "string list"

text \<open>A row of \<open>econ_ledger_events\<close>, and the table with its autoincrement counter.\<close>

record ledger_row =
  row_id :: int
  row_type :: string
  row_intent :: string
  row_key :: string
  row_cycle :: string
  row_at :: int
  amounts_json :: string
  details_json :: string

record ledger_db =
  rows :: "ledger_row list"
  last_id :: int

type_synonym 'a ledger_action = "(ledger_db conn, econ_error, 'a) action"

section \<open>Append and reads\<close>

definition sql_err :: "sql_error \<Rightarrow> econ_error" where
  "sql_err e = EconError (''econ ledger sqlite error: '' @ sql_text e)"

text \<open>One connection per operation: opened, then its busy timeout set.\<close>

definition connect :: "unit ledger_action" where
  "connect = map_errA sql_err (bindA (query (\<lambda>_. Inr ())) (\<lambda>_. query (\<lambda>_. Inr ())))"

definition json_float_error :: econ_error where
  "json_float_error = EconError ''ledger JSON forbids non-integer numbers''"

definition insert_row :: "ledger_row \<Rightarrow> ledger_db \<Rightarrow> sql_error + (int \<times> ledger_db)" where
  "insert_row r db =
     (if last_id db = i64_max then Inl (sql_plain ''database or disk is full'')
      else Inr (last_id db + 1,
        db\<lparr>rows := rows db @ [r\<lparr>row_id := last_id db + 1\<rparr>], last_id := last_id db + 1\<rparr>))"

definition append_event ::
  "string \<Rightarrow> string \<Rightarrow> string \<Rightarrow> string \<Rightarrow> int \<Rightarrow> amounts \<Rightarrow> json \<Rightarrow> int ledger_action" where
  "append_event ty intent key cycle at_time amounts details =
     (if ty \<notin> set EVENT_TYPES then failA (EconError ''unknown ledger event type'')
      else if intent = [] \<or> key = [] \<or> cycle = []
        then failA (EconError ''intent_id, idempotency_key, cycle_id required'')
      else if at_time < 0 then failA (EconError ''at must be unix seconds'')
      else
        bindA (liftA (python_dumps json_float_error (JObj (map (\<lambda>(k, v). (k, JInt v)) amounts)))) (\<lambda>aj.
        bindA (liftA (python_dumps json_float_error details)) (\<lambda>dj.
        bindA connect (\<lambda>_.
          map_errA sql_err (exec (insert_row
            \<lparr>row_id = 0, row_type = ty, row_intent = intent, row_key = key, row_cycle = cycle,
             row_at = at_time, amounts_json = aj, details_json = dj\<rparr>))))))"

definition count_events :: "string option \<Rightarrow> int ledger_action" where
  "count_events ty =
     bindA connect (\<lambda>_. map_errA sql_err (query (\<lambda>db. Inr (int (length
       (case ty of None \<Rightarrow> rows db | Some t \<Rightarrow> filter (\<lambda>r. row_type r = t) (rows db)))))))"

definition json_err :: econ_error where
  "json_err = EconError ''econ ledger JSON decode error''"

definition decode_row ::
  "(string \<Rightarrow> amounts option) \<Rightarrow> (string \<Rightarrow> json option) \<Rightarrow> ledger_row \<Rightarrow> ledger_event econ_result" where
  "decode_row pa pv r =
     bindE (ok_or (pa (amounts_json r)) json_err) (\<lambda>am.
     bindE (ok_or (pv (details_json r)) json_err) (\<lambda>d.
     Inr \<lparr>event_id = row_id r, event_type = row_type r, ev_intent_id = row_intent r,
          ev_key = row_key r, ev_cycle_id = row_cycle r, ev_at = row_at r,
          ev_amounts = am, ev_details = d\<rparr>))"

definition rows_since :: "int \<Rightarrow> ledger_db \<Rightarrow> ledger_row list" where
  "rows_since since db = sort_key row_id (filter (\<lambda>r. since < row_id r) (rows db))"

definition read_events ::
  "(string \<Rightarrow> amounts option) \<Rightarrow> (string \<Rightarrow> json option) \<Rightarrow> int \<Rightarrow> ledger_event list ledger_action" where
  "read_events pa pv since =
     bindA connect (\<lambda>_.
     bindA (map_errA sql_err (query (\<lambda>_. Inr ()))) (\<lambda>_.
     bindA (map_errA sql_err (query (\<lambda>db. Inr (rows_since since db)))) (\<lambda>rs.
       liftA (sequenceE (map (decode_row pa pv) rs)))))"

section \<open>Replay\<close>

fun is_truthy :: "json \<Rightarrow> bool" where
  "is_truthy JNull = False"
| "is_truthy (JBool b) = b"
| "is_truthy (JInt i) = (i \<noteq> 0)"
| "is_truthy (JFloat f) = (\<not> f64_is_zero f)"
| "is_truthy (JStr s) = (s \<noteq> [])"
| "is_truthy (JArr xs) = (xs \<noteq> [])"
| "is_truthy (JObj kvs) = (kvs \<noteq> [])"

record replay_acc =
  r_reserved :: amounts
  r_spent :: amounts
  r_terminal :: "(string \<times> string) list"
  r_anomalies :: "string list"

definition checked_op :: "int \<Rightarrow> string \<Rightarrow> int econ_result" where
  "checked_op v msg = ok_or (checked_i64 v) (EconError msg)"

definition cost_step :: "ledger_event \<Rightarrow> replay_acc \<Rightarrow> replay_acc econ_result" where
  "cost_step e s =
     (let key = ev_key e;
          cost = bt_get_or 0 (ev_amounts e) ''cost_msat'';
          cur_reserved = bt_get_or 0 (r_reserved s) key;
          an = (if cur_reserved \<le> 0 \<and> map_of (r_spent s) key = None
                then r_anomalies s @ [''cost_recorded without reservation: '' @ key]
                else r_anomalies s);
          cur_spent = bt_get_or 0 (r_spent s) key
      in bindE (checked_op (cur_spent + cost) ''ledger replay: spend accumulation overflow'') (\<lambda>new_spent.
         bindE (checked_op (cur_reserved - cost) ''ledger replay: reservation release overflow'') (\<lambda>new_reserved.
         Inr (s\<lparr>r_reserved := bt_insert key (max new_reserved 0) (r_reserved s),
                r_spent := bt_insert key new_spent (r_spent s),
                r_anomalies := an\<rparr>))))"

definition reconciled_step :: "ledger_event \<Rightarrow> replay_acc \<Rightarrow> replay_acc econ_result" where
  "reconciled_step e s =
     (let key = ev_key e;
          s1 = (case map_of (ev_amounts e) ''reserved_msat'' of
                  None \<Rightarrow> s | Some v \<Rightarrow> s\<lparr>r_reserved := bt_insert key v (r_reserved s)\<rparr>)
      in bindE
           (case map_of (ev_amounts e) ''cost_msat'' of
              None \<Rightarrow> Inr s1
            | Some v \<Rightarrow>
                bindE (checked_op (bt_get_or 0 (r_spent s1) key + v)
                  ''ledger replay: reconciliation_completed spend accumulation overflow'')
                  (\<lambda>n. Inr (s1\<lparr>r_spent := bt_insert key n (r_spent s1)\<rparr>)))
           (\<lambda>s2. Inr
             (if (case json_get (ev_details e) ''terminal'' of None \<Rightarrow> False | Some t \<Rightarrow> is_truthy t)
              then s2\<lparr>r_terminal := bt_or_insert key (event_type e) (r_terminal s2)\<rparr> else s2)))"

definition replay_step :: "ledger_event \<Rightarrow> replay_acc \<Rightarrow> replay_acc econ_result" where
  "replay_step e s =
     (let key = ev_key e; ty = event_type e
      in if ty = ''budget_reserved'' then
           Inr (s\<lparr>r_reserved := bt_insert key (bt_get_or 0 (ev_amounts e) ''reserved_msat'') (r_reserved s)\<rparr>)
         else if ty = ''cost_recorded'' then cost_step e s
         else if ty = ''reservation_released'' then
           Inr (s\<lparr>r_reserved := bt_insert key 0 (r_reserved s)\<rparr>)
         else if ty = ''reconciliation_completed'' then reconciled_step e s
         else if ty \<in> set TERMINAL_EVENTS then
           Inr (s\<lparr>r_terminal := bt_or_insert key ty (r_terminal s)\<rparr>)
         else Inr s)"

definition replay_init :: replay_acc where
  "replay_init = \<lparr>r_reserved = [], r_spent = [], r_terminal = [], r_anomalies = []\<rparr>"

definition replay_finish :: "replay_acc \<Rightarrow> ledger_state econ_result" where
  "replay_finish s =
     bindE (foldE (\<lambda>(_, v) t. checked_op (t + v) ''ledger replay: total_spent_msat accumulation overflow'')
              (r_spent s) 0) (\<lambda>total.
     Inr \<lparr>reserved_msat = filter (\<lambda>(_, v). v \<noteq> 0) (r_reserved s), spent_msat = r_spent s,
          total_spent_msat = total, terminal = r_terminal s, anomalies = r_anomalies s\<rparr>)"

definition replay_events :: "ledger_event list \<Rightarrow> ledger_state econ_result" where
  "replay_events es = bindE (foldE replay_step es replay_init) replay_finish"

definition replay ::
  "(string \<Rightarrow> amounts option) \<Rightarrow> (string \<Rightarrow> json option) \<Rightarrow> ledger_state ledger_action" where
  "replay pa pv = bindA (read_events pa pv 0) (\<lambda>es. liftA (replay_events es))"


section \<open>What one event does\<close>

text \<open>The cost an event books, and whether it ends the life of its key.\<close>

definition cost_of :: "ledger_event \<Rightarrow> int" where
  "cost_of e = (if event_type e = ''cost_recorded'' \<or> event_type e = ''reconciliation_completed''
     then bt_get_or 0 (ev_amounts e) ''cost_msat'' else 0)"

definition ends_key :: "ledger_event \<Rightarrow> bool" where
  "ends_key e \<longleftrightarrow> event_type e \<in> set TERMINAL_EVENTS \<or>
     (event_type e = ''reconciliation_completed'' \<and>
      (case json_get (ev_details e) ''terminal'' of None \<Rightarrow> False | Some t \<Rightarrow> is_truthy t))"

lemma checked_op_Inr [result_simps]: "checked_op v msg = Inr w \<longleftrightarrow> in_i64 v \<and> w = v"
  by (simp add: checked_op_def result_simps)

lemma checked_op_not_Panic [simp]: "checked_op v msg \<noteq> Inl Panic"
  by (simp add: checked_op_def)

definition acc_ok :: "replay_acc \<Rightarrow> bool" where
  "acc_ok s \<longleftrightarrow> bt_ok (r_reserved s) \<and> bt_ok (r_spent s) \<and> bt_ok (r_terminal s)"

lemma acc_ok_init [simp]: "acc_ok replay_init"
  by (simp add: acc_ok_def replay_init_def)

lemma TERMINAL_EVENTS_other [simp]:
  "''budget_reserved'' \<notin> set TERMINAL_EVENTS" "''cost_recorded'' \<notin> set TERMINAL_EVENTS"
  "''reservation_released'' \<notin> set TERMINAL_EVENTS" "''reconciliation_completed'' \<notin> set TERMINAL_EVENTS"
  by (simp_all add: TERMINAL_EVENTS_def)

lemma cost_step_Inr:
  assumes "cost_step e s = Inr t"
  shows "r_spent t = bt_insert (ev_key e) (bt_get_or 0 (r_spent s) (ev_key e)
           + bt_get_or 0 (ev_amounts e) ''cost_msat'') (r_spent s)"
    and "r_reserved t = bt_insert (ev_key e) (max (bt_get_or 0 (r_reserved s) (ev_key e)
           - bt_get_or 0 (ev_amounts e) ''cost_msat'') 0) (r_reserved s)"
    and "r_terminal t = r_terminal s"
  using assms by (auto simp: cost_step_def Let_def result_simps)

lemma reconciled_step_Inr:
  assumes "reconciled_step e s = Inr t"
  shows "r_spent t = (case map_of (ev_amounts e) ''cost_msat'' of None \<Rightarrow> r_spent s
           | Some v \<Rightarrow> bt_insert (ev_key e) (bt_get_or 0 (r_spent s) (ev_key e) + v) (r_spent s))"
    and "r_reserved t = (case map_of (ev_amounts e) ''reserved_msat'' of None \<Rightarrow> r_reserved s
           | Some v \<Rightarrow> bt_insert (ev_key e) v (r_reserved s))"
    and "r_terminal t = (if (case json_get (ev_details e) ''terminal'' of None \<Rightarrow> False | Some t \<Rightarrow> is_truthy t)
           then bt_or_insert (ev_key e) (event_type e) (r_terminal s) else r_terminal s)"
  using assms
  by (auto simp: reconciled_step_def Let_def result_simps split: option.splits)

text \<open>The three projections of an event that goes through.\<close>

lemma step_spent:
  assumes "replay_step e s = Inr t" "acc_ok s"
  shows "bt_get_or 0 (r_spent t) k = bt_get_or 0 (r_spent s) k + (if ev_key e = k then cost_of e else 0)"
proof -
  consider "event_type e = ''cost_recorded''" | "event_type e = ''reconciliation_completed''"
    | "event_type e \<noteq> ''cost_recorded''" "event_type e \<noteq> ''reconciliation_completed''" by blast
  then show ?thesis
  proof cases
    case 1
    then have "cost_step e s = Inr t" using assms by (simp add: replay_step_def)
    from cost_step_Inr(1) [OF this] 1 show ?thesis by (simp add: cost_of_def)
  next
    case 2
    then have "reconciled_step e s = Inr t" using assms by (simp add: replay_step_def)
    from reconciled_step_Inr(1) [OF this] 2 show ?thesis
      by (simp add: cost_of_def bt_get_or_def split: option.splits)
  next
    case 3
    with assms show ?thesis
      by (auto simp: replay_step_def cost_of_def Let_def split: if_splits)
  qed
qed

lemma step_terminal:
  assumes "replay_step e s = Inr t"
  shows "map_of (r_terminal t) k =
    (case map_of (r_terminal s) k of Some v \<Rightarrow> Some v
     | None \<Rightarrow> if ev_key e = k \<and> ends_key e then Some (event_type e) else None)"
proof -
  consider "event_type e = ''cost_recorded''" | "event_type e = ''reconciliation_completed''"
    | "event_type e \<noteq> ''cost_recorded''" "event_type e \<noteq> ''reconciliation_completed''" by blast
  then show ?thesis
  proof cases
    case 1
    then have "cost_step e s = Inr t" using assms by (simp add: replay_step_def)
    from cost_step_Inr(3) [OF this] 1 show ?thesis by (simp add: ends_key_def split: option.splits)
  next
    case 2
    then have "reconciled_step e s = Inr t" using assms by (simp add: replay_step_def)
    from reconciled_step_Inr(3) [OF this] 2 show ?thesis
      by (auto simp: ends_key_def map_of_bt_or_insert split: option.splits if_splits)
  next
    case 3
    then have ends: "ends_key e \<longleftrightarrow> event_type e \<in> set TERMINAL_EVENTS" by (simp add: ends_key_def)
    show ?thesis
    proof (cases "event_type e \<in> set TERMINAL_EVENTS")
      case True
      then have "t = s\<lparr>r_terminal := bt_or_insert (ev_key e) (event_type e) (r_terminal s)\<rparr>"
        using assms 3 by (auto simp: replay_step_def Let_def split: if_splits)
      with True ends show ?thesis by (auto simp: map_of_bt_or_insert split: option.splits)
    next
      case False
      then have "r_terminal t = r_terminal s"
        using assms 3 by (auto simp: replay_step_def Let_def split: if_splits)
      with False ends show ?thesis by (auto split: option.splits)
    qed
  qed
qed

lemma step_acc_ok: "replay_step e s = Inr t \<Longrightarrow> acc_ok s \<Longrightarrow> acc_ok t"
  by (auto simp: replay_step_def Let_def acc_ok_def cost_step_Inr reconciled_step_Inr
      split: if_splits option.splits)

lemma fold_acc_ok: "foldE replay_step es s = Inr t \<Longrightarrow> acc_ok s \<Longrightarrow> acc_ok t"
  using foldE_invariant [of replay_step es s t acc_ok] step_acc_ok by blast

lemma fold_spent:
  "foldE replay_step es s = Inr t \<Longrightarrow> acc_ok s \<Longrightarrow>
   bt_get_or 0 (r_spent t) k =
     bt_get_or 0 (r_spent s) k + sum_list (map cost_of (filter (\<lambda>e. ev_key e = k) es))"
proof (induction es arbitrary: s)
  case (Cons e es)
  then obtain u where u: "replay_step e s = Inr u" "foldE replay_step es u = Inr t"
    by (auto simp: bindE_eq_Inr)
  from Cons.IH [OF u(2) step_acc_ok [OF u(1) Cons.prems(2)]] step_spent [OF u(1) Cons.prems(2), of k]
  show ?case by simp
qed simp

lemma fold_terminal:
  "foldE replay_step es s = Inr t \<Longrightarrow>
   map_of (r_terminal t) k =
     (case map_of (r_terminal s) k of Some v \<Rightarrow> Some v
      | None \<Rightarrow> map_option event_type (List.find (\<lambda>e. ev_key e = k \<and> ends_key e) es))"
proof (induction es arbitrary: s)
  case (Cons e es)
  then obtain u where u: "replay_step e s = Inr u" "foldE replay_step es u = Inr t"
    by (auto simp: bindE_eq_Inr)
  from Cons.IH [OF u(2)] step_terminal [OF u(1), of k]
  show ?case by (auto split: option.splits)
qed (simp split: option.splits)

section \<open>The totals\<close>

definition values_sum :: "amounts \<Rightarrow> int" where
  "values_sum m = sum_list (map snd m)"

lemma values_sum_insert:
  "bt_ok m \<Longrightarrow> values_sum (bt_insert k v m) = values_sum m - bt_get_or 0 m k + v"
proof (induction k v m rule: bt_insert.induct)
  case (2 k v a b m)
  have notin: "map_of m k = None" if "k \<le> a"
  proof -
    have "\<forall>x \<in> set (map fst m). a < x" using 2(2) by (simp add: bt_ok_def)
    with that show ?thesis by (force simp: map_of_eq_None_iff)
  qed
  have "bt_ok m" using 2(2) by (simp add: bt_ok_def)
  with 2 notin show ?case by (auto simp: values_sum_def bt_get_or_def split: if_splits)
qed (simp add: values_sum_def bt_get_or_def)

lemma step_total:
  assumes "replay_step e s = Inr t" "acc_ok s"
  shows "values_sum (r_spent t) = values_sum (r_spent s) + cost_of e"
proof -
  have ok: "bt_ok (r_spent s)" using assms(2) by (simp add: acc_ok_def)
  consider "event_type e = ''cost_recorded''" | "event_type e = ''reconciliation_completed''"
    | "event_type e \<noteq> ''cost_recorded''" "event_type e \<noteq> ''reconciliation_completed''" by blast
  then show ?thesis
  proof cases
    case 1
    then have "cost_step e s = Inr t" using assms by (simp add: replay_step_def)
    from cost_step_Inr(1) [OF this] 1 show ?thesis by (simp add: cost_of_def values_sum_insert [OF ok])
  next
    case 2
    then have "reconciled_step e s = Inr t" using assms by (simp add: replay_step_def)
    from reconciled_step_Inr(1) [OF this] 2 show ?thesis
      by (simp add: cost_of_def bt_get_or_def values_sum_insert [OF ok] split: option.splits)
  next
    case 3
    with assms show ?thesis
      by (auto simp: replay_step_def cost_of_def Let_def split: if_splits)
  qed
qed

lemma fold_total:
  "foldE replay_step es s = Inr t \<Longrightarrow> acc_ok s \<Longrightarrow>
   values_sum (r_spent t) = values_sum (r_spent s) + sum_list (map cost_of es)"
proof (induction es arbitrary: s)
  case (Cons e es)
  then obtain u where u: "replay_step e s = Inr u" "foldE replay_step es u = Inr t"
    by (auto simp: bindE_eq_Inr)
  from Cons.IH [OF u(2) step_acc_ok [OF u(1) Cons.prems(2)]] step_total [OF u(1) Cons.prems(2)]
  show ?case by simp
qed simp

lemma fold_checked_sum:
  "foldE (\<lambda>(_, v) t. checked_op (t + v) msg) m acc = Inr tot \<Longrightarrow> tot = acc + values_sum m"
proof (induction m arbitrary: acc)
  case (Cons p m)
  obtain a b where p: "p = (a, b)" by fastforce
  with Cons.prems have "foldE (\<lambda>(_, v) t. checked_op (t + v) msg) m (acc + b) = Inr tot"
    by (auto simp: result_simps)
  from Cons.IH [OF this] p show ?case by (simp add: values_sum_def)
qed (simp add: values_sum_def)

lemma replay_events_Inr:
  assumes "replay_events es = Inr st"
  obtains t where "foldE replay_step es replay_init = Inr t" "acc_ok t"
    "reserved_msat st = filter (\<lambda>(_, v). v \<noteq> 0) (r_reserved t)" "spent_msat st = r_spent t"
    "terminal st = r_terminal t" "anomalies st = r_anomalies t"
    "total_spent_msat st = values_sum (r_spent t)"
  using assms fold_checked_sum
  by (fastforce simp: replay_events_def replay_finish_def bindE_eq_Inr dest: fold_acc_ok)

text \<open>C37. Replay conserves money: when it succeeds, the spend of every key is the exact sum of
  the costs booked under that key by cost and reconciliation events, and the reported
  total is the exact sum of all costs of the stream, with nothing lost to wrapping.\<close>

theorem replay_conserves_spend:
  assumes "replay_events es = Inr st"
  shows "bt_get_or 0 (spent_msat st) k = sum_list (map cost_of (filter (\<lambda>e. ev_key e = k) es))
    \<and> total_spent_msat st = sum_list (map cost_of es)"
proof -
  obtain t where t: "foldE replay_step es replay_init = Inr t" "spent_msat st = r_spent t"
    "total_spent_msat st = values_sum (r_spent t)"
    by (rule replay_events_Inr [OF assms])
  from fold_spent [OF t(1) acc_ok_init, of k] fold_total [OF t(1) acc_ok_init] t(2,3) show ?thesis
    by (simp add: replay_init_def bt_get_or_def values_sum_def)
qed

definition sample_event :: "string \<Rightarrow> string \<Rightarrow> amounts \<Rightarrow> ledger_event" where
  "sample_event ty key am =
     \<lparr>event_id = 1, event_type = ty, ev_intent_id = ''int-1'', ev_key = key, ev_cycle_id = ''c1'',
      ev_at = 10, ev_amounts = am, ev_details = JObj []\<rparr>"

definition sample_stream :: "ledger_event list" where
  "sample_stream = [sample_event ''budget_reserved'' ''k'' [(''reserved_msat'', 500)],
     sample_event ''cost_recorded'' ''k'' [(''cost_msat'', 200)],
     sample_event ''execution_succeeded'' ''k'' [], sample_event ''execution_failed'' ''k'' []]"

lemma sample_replay:
  "replay_events sample_stream = Inr \<lparr>reserved_msat = [(''k'', 300)], spent_msat = [(''k'', 200)],
     total_spent_msat = 200, terminal = [(''k'', ''execution_succeeded'')], anomalies = []\<rparr>"
  by (simp add: replay_events_def sample_stream_def sample_event_def replay_step_def replay_init_def
      cost_step_def replay_finish_def checked_op_def checked_i64_def in_i64_alt bt_get_or_def Let_def
      bt_or_insert_def TERMINAL_EVENTS_def)

theorem replay_conserves_spend_witness:
  "sum_list (map cost_of (filter (\<lambda>e. ev_key e = ''k'') sample_stream)) = 200"
  using replay_conserves_spend [OF sample_replay, of "''k''"] by (simp add: bt_get_or_def)

text \<open>Terminal states are first-wins: a key's terminal state is the type of the first event
  that ends it, so a duplicate or late callback never overwrites an outcome.\<close>

theorem replay_first_terminal_wins:
  assumes "replay_events es = Inr st"
  shows "map_of (terminal st) k =
    map_option event_type (List.find (\<lambda>e. ev_key e = k \<and> ends_key e) es)"
proof -
  obtain t where t: "foldE replay_step es replay_init = Inr t" "terminal st = r_terminal t"
    by (rule replay_events_Inr [OF assms])
  from fold_terminal [OF t(1), of k] t(2) show ?thesis by (simp add: replay_init_def)
qed

theorem replay_first_terminal_wins_witness:
  "map_option event_type (List.find (\<lambda>e. ev_key e = ''k'' \<and> ends_key e) sample_stream)
     = Some ''execution_succeeded''"
  using replay_first_terminal_wins [OF sample_replay, of "''k''"] by simp


section \<open>Replay of an honest stream returns\<close>

definition honest :: "ledger_event \<Rightarrow> bool" where
  "honest e \<longleftrightarrow> (\<forall>k v. map_of (ev_amounts e) k = Some v \<longrightarrow> 0 \<le> v \<and> in_i64 v)"

definition acc_bounded :: "int \<Rightarrow> replay_acc \<Rightarrow> bool" where
  "acc_bounded b s \<longleftrightarrow> acc_ok s \<and> values_sum (r_spent s) \<le> b \<and>
     (\<forall>k v. map_of (r_spent s) k = Some v \<longrightarrow> 0 \<le> v) \<and>
     (\<forall>k v. map_of (r_reserved s) k = Some v \<longrightarrow> 0 \<le> v \<and> in_i64 v)"

lemma values_sum_ge:
  "bt_ok m \<Longrightarrow> \<forall>k v. map_of m k = Some v \<longrightarrow> 0 \<le> v \<Longrightarrow> bt_get_or 0 m k \<le> values_sum m \<and> 0 \<le> values_sum m"
proof (induction m)
  case (Cons p m)
  obtain a b where p: "p = (a, b)" by fastforce
  have ok: "bt_ok m" "map_of m a = None"
    using Cons.prems(1) p by (auto simp: bt_ok_def map_of_eq_None_iff)
  have b: "0 \<le> b" using Cons.prems(2) [rule_format, of a b] p by simp
  have nn: "\<forall>k v. map_of m k = Some v \<longrightarrow> 0 \<le> v"
  proof (intro allI impI)
    fix k v assume "map_of m k = Some v"
    with ok(2) have "map_of (p # m) k = Some v" using p by auto
    with Cons.prems(2) show "0 \<le> v" by blast
  qed
  from Cons.IH [OF ok(1) nn] b p show ?case by (auto simp: values_sum_def bt_get_or_def)
qed (simp add: values_sum_def bt_get_or_def)

lemma honest_amount: "honest e \<Longrightarrow> 0 \<le> bt_get_or 0 (ev_amounts e) k \<and> in_i64 (bt_get_or 0 (ev_amounts e) k)"
  by (auto simp: honest_def bt_get_or_def in_i64_alt split: option.splits)

lemma acc_bounded_spent:
  "acc_bounded b s \<Longrightarrow> 0 \<le> bt_get_or 0 (r_spent s) k \<and> bt_get_or 0 (r_spent s) k \<le> b"
  using values_sum_ge [of "r_spent s" k]
  by (auto simp: acc_bounded_def acc_ok_def bt_get_or_def split: option.splits)

lemma acc_bounded_reserved:
  "acc_bounded b s \<Longrightarrow> 0 \<le> bt_get_or 0 (r_reserved s) k \<and> in_i64 (bt_get_or 0 (r_reserved s) k)"
  by (auto simp: acc_bounded_def bt_get_or_def in_i64_alt split: option.splits)

lemma cost_of_nonneg: "honest e \<Longrightarrow> 0 \<le> cost_of e"
  by (simp add: cost_of_def honest_amount)

lemma cost_step_total:
  assumes "acc_bounded b s" "honest e" "b + bt_get_or 0 (ev_amounts e) ''cost_msat'' \<le> i64_max"
  shows "\<exists>t. cost_step e s = Inr t"
proof -
  have "in_i64 (bt_get_or 0 (r_spent s) (ev_key e) + bt_get_or 0 (ev_amounts e) ''cost_msat'')"
    using acc_bounded_spent [OF assms(1), of "ev_key e"] honest_amount [OF assms(2), of "''cost_msat''"] assms(3)
    by (simp add: in_i64_def i64_min_def)
  moreover have "in_i64 (bt_get_or 0 (r_reserved s) (ev_key e) - bt_get_or 0 (ev_amounts e) ''cost_msat'')"
    using acc_bounded_reserved [OF assms(1), of "ev_key e"] honest_amount [OF assms(2), of "''cost_msat''"]
    by (auto simp: in_i64_alt)
  ultimately show ?thesis
    by (simp add: cost_step_def Let_def checked_op_def checked_i64_def)
qed

lemma reconciled_step_total:
  assumes "acc_bounded b s" "honest e" "b + bt_get_or 0 (ev_amounts e) ''cost_msat'' \<le> i64_max"
  shows "\<exists>t. reconciled_step e s = Inr t"
proof (cases "map_of (ev_amounts e) ''cost_msat''")
  case None
  then show ?thesis by (simp add: reconciled_step_def Let_def)
next
  case (Some v)
  then have "in_i64 (bt_get_or 0 (r_spent s) (ev_key e) + v)"
    using acc_bounded_spent [OF assms(1), of "ev_key e"] honest_amount [OF assms(2), of "''cost_msat''"] assms(3)
    by (simp add: in_i64_def i64_min_def bt_get_or_def)
  with Some show ?thesis
    by (simp add: reconciled_step_def Let_def checked_op_def checked_i64_def split: option.splits)
qed

lemma replay_step_total:
  assumes "acc_bounded b s" "honest e" "b + cost_of e \<le> i64_max"
  shows "\<exists>t. replay_step e s = Inr t"
  using cost_step_total [OF assms(1,2)] reconciled_step_total [OF assms(1,2)] assms(3)
  by (auto simp: replay_step_def Let_def cost_of_def)

lemma step_reserved_bounded:
  assumes "replay_step e s = Inr t" "acc_bounded b s" "honest e" "map_of (r_reserved t) k = Some v"
  shows "0 \<le> v \<and> in_i64 v"
proof -
  have old: "0 \<le> v \<and> in_i64 v" if "map_of (r_reserved s) k = Some v" for v
    using assms(2) that by (auto simp: acc_bounded_def)
  have am: "0 \<le> bt_get_or 0 (ev_amounts e) a \<and> in_i64 (bt_get_or 0 (ev_amounts e) a)" for a
    by (rule honest_amount [OF assms(3)])
  have le: "in_i64 (max (x - y) 0)" if "in_i64 x" "0 \<le> y" for x y
    using that by (auto simp: in_i64_alt)
  have ra: "0 \<le> bt_get_or 0 (r_reserved s) (ev_key e) \<and> in_i64 (bt_get_or 0 (r_reserved s) (ev_key e))"
    by (rule acc_bounded_reserved [OF assms(2)])
  consider "event_type e = ''cost_recorded''" | "event_type e = ''reconciliation_completed''"
    | "event_type e \<noteq> ''cost_recorded''" "event_type e \<noteq> ''reconciliation_completed''" by blast
  then show ?thesis
  proof cases
    case 1
    then have "cost_step e s = Inr t" using assms by (simp add: replay_step_def)
    from cost_step_Inr(2) [OF this] assms(4) old ra am le show ?thesis
      by (auto split: if_splits)
  next
    case 2
    then have "reconciled_step e s = Inr t" using assms by (simp add: replay_step_def)
    from reconciled_step_Inr(2) [OF this] assms(3,4) old show ?thesis
      by (auto simp: honest_def split: if_splits option.splits)
  next
    case 3
    with assms(1,4) old am show ?thesis
      by (auto simp: replay_step_def Let_def in_i64_alt split: if_splits)
  qed
qed

lemma step_bounded:
  assumes "replay_step e s = Inr t" "acc_bounded b s" "honest e"
  shows "acc_bounded (b + cost_of e) t"
proof -
  have ok: "acc_ok s" using assms(2) by (simp add: acc_bounded_def)
  have "0 \<le> v" if "map_of (r_spent t) k = Some v" for k v
    using step_spent [OF assms(1) ok, of k] that acc_bounded_spent [OF assms(2), of k]
      cost_of_nonneg [OF assms(3)]
    by (auto simp: bt_get_or_def split: if_splits)
  then show ?thesis
    using step_acc_ok [OF assms(1) ok] step_total [OF assms(1) ok] assms(2)
      step_reserved_bounded [OF assms]
    by (auto simp: acc_bounded_def)
qed

lemma fold_replay_total:
  "acc_bounded b s \<Longrightarrow> list_all honest es \<Longrightarrow> b + sum_list (map cost_of es) \<le> i64_max \<Longrightarrow>
   \<exists>t. foldE replay_step es s = Inr t \<and> acc_bounded (b + sum_list (map cost_of es)) t"
proof (induction es arbitrary: b s)
  case (Cons e es)
  have nn: "0 \<le> sum_list (map cost_of es)"
    using Cons.prems(2) by (induction es) (auto simp: cost_of_nonneg)
  obtain u where u: "replay_step e s = Inr u"
    using replay_step_total [OF Cons.prems(1), of e] Cons.prems(2,3) nn by auto
  have "acc_bounded (b + cost_of e) u"
    using step_bounded [OF u Cons.prems(1)] Cons.prems(2) by simp
  from Cons.IH [OF this] Cons.prems(2,3) u show ?case by (simp add: add.assoc)
qed simp

lemma checked_sum_total:
  "0 \<le> acc \<Longrightarrow> \<forall>v \<in> set (map snd m). 0 \<le> v \<Longrightarrow> acc + values_sum m \<le> i64_max \<Longrightarrow>
   \<exists>tot. foldE (\<lambda>(_, v) t. checked_op (t + v) msg) m acc = Inr tot"
proof (induction m arbitrary: acc)
  case (Cons p m)
  obtain a b where p: "p = (a, b)" by fastforce
  have nn: "0 \<le> values_sum m" using Cons.prems(2) unfolding values_sum_def by (intro sum_list_nonneg) auto
  have "\<exists>tot. foldE (\<lambda>(_, v) t. checked_op (t + v) msg) m (acc + b) = Inr tot"
    using Cons.prems p nn by (intro Cons.IH) (auto simp: values_sum_def)
  moreover have "in_i64 (acc + b)"
    using Cons.prems p nn by (auto simp: values_sum_def in_i64_def i64_min_def)
  ultimately show ?case using p by (simp add: checked_op_def checked_i64_def)
qed simp

text \<open>C38. Replay is total on an honest stream: when no amount is negative and the costs add up
  within 63 bits, replay returns a state; it neither fails nor panics.\<close>

theorem replay_returns:
  assumes "list_all honest es" "sum_list (map cost_of es) \<le> i64_max"
  shows "\<exists>st. replay_events es = Inr st"
proof -
  have "acc_bounded 0 replay_init"
    by (simp add: acc_bounded_def replay_init_def acc_ok_def values_sum_def)
  from fold_replay_total [OF this assms(1)] assms(2) obtain t where
    t: "foldE replay_step es replay_init = Inr t" "acc_bounded (sum_list (map cost_of es)) t" by auto
  have "\<forall>v \<in> set (map snd (r_spent t)). 0 \<le> v"
  proof
    fix v assume "v \<in> set (map snd (r_spent t))"
    then obtain k where "(k, v) \<in> set (r_spent t)" by auto
    moreover have "bt_ok (r_spent t)" using t(2) by (simp add: acc_bounded_def acc_ok_def)
    ultimately have "map_of (r_spent t) k = Some v" using bt_ok_distinct by force
    with t(2) show "0 \<le> v" by (auto simp: acc_bounded_def)
  qed
  moreover have "0 + values_sum (r_spent t) \<le> i64_max"
    using t(2) assms(2) by (simp add: acc_bounded_def)
  ultimately show ?thesis
    using checked_sum_total [of 0 "r_spent t"] t(1)
    by (auto simp: replay_events_def replay_finish_def bindE_eq_Inr)
qed

theorem replay_returns_witness: "\<exists>st. replay_events sample_stream = Inr st"
  by (rule replay_returns)
    (simp_all add: sample_stream_def sample_event_def honest_def cost_of_def bt_get_or_def in_i64_alt i64_bounds)


section \<open>Replay is local to a key\<close>

definition key_view :: "string \<Rightarrow> replay_acc \<Rightarrow> int option \<times> int option \<times> string option" where
  "key_view k s = (map_of (r_reserved s) k, map_of (r_spent s) k, map_of (r_terminal s) k)"

lemma key_view_simps [simp]:
  "key_view k s = key_view k t \<longleftrightarrow> map_of (r_reserved s) k = map_of (r_reserved t) k \<and>
     map_of (r_spent s) k = map_of (r_spent t) k \<and> map_of (r_terminal s) k = map_of (r_terminal t) k"
  by (simp add: key_view_def)

lemma step_other_key:
  assumes "replay_step e s = Inr t" "ev_key e \<noteq> k"
  shows "key_view k t = key_view k s"
proof -
  have "key_view k t = key_view k s" if "cost_step e s = Inr t"
    using cost_step_Inr [OF that] assms(2) by simp
  moreover have "key_view k t = key_view k s" if "reconciled_step e s = Inr t"
    using reconciled_step_Inr [OF that] assms(2) by (auto simp: map_of_bt_or_insert split: option.splits)
  ultimately show ?thesis
    using assms by (auto simp: replay_step_def Let_def map_of_bt_or_insert split: if_splits option.splits)
qed

lemma get_or_view:
  "map_of m k = map_of n k \<Longrightarrow> bt_get_or d m k = bt_get_or d n k"
  by (simp add: bt_get_or_def)

lemma cost_step_local:
  assumes "cost_step e s = Inr t" "key_view (ev_key e) s = key_view (ev_key e) s'"
  shows "\<exists>t'. cost_step e s' = Inr t' \<and> key_view (ev_key e) t = key_view (ev_key e) t'"
proof -
  have g: "bt_get_or 0 (r_spent s') (ev_key e) = bt_get_or 0 (r_spent s) (ev_key e)"
    "bt_get_or 0 (r_reserved s') (ev_key e) = bt_get_or 0 (r_reserved s) (ev_key e)"
    using assms(2) by (auto intro!: get_or_view)
  from assms show ?thesis
    by (auto simp: cost_step_def Let_def result_simps g)
qed

lemma reconciled_step_local:
  assumes "reconciled_step e s = Inr t" "key_view (ev_key e) s = key_view (ev_key e) s'"
  shows "\<exists>t'. reconciled_step e s' = Inr t' \<and> key_view (ev_key e) t = key_view (ev_key e) t'"
proof -
  have g: "bt_get_or 0 (r_spent s') (ev_key e) = bt_get_or 0 (r_spent s) (ev_key e)"
    using assms(2) by (auto intro!: get_or_view)
  obtain t' where t': "reconciled_step e s' = Inr t'"
    using assms by (fastforce simp: reconciled_step_def Let_def result_simps g split: option.splits)
  then show ?thesis
    using reconciled_step_Inr [OF assms(1)] reconciled_step_Inr [OF t'] assms(2) g
    by (auto simp: map_of_bt_or_insert split: option.splits)
qed

lemma step_local:
  assumes "replay_step e s = Inr t" "key_view (ev_key e) s = key_view (ev_key e) s'"
  shows "\<exists>t'. replay_step e s' = Inr t' \<and> key_view (ev_key e) t = key_view (ev_key e) t'"
  using assms cost_step_local [OF _ assms(2), of t] reconciled_step_local [OF _ assms(2), of t]
  by (auto simp: replay_step_def Let_def map_of_bt_or_insert split: if_splits option.splits)

lemma fold_local:
  "foldE replay_step es s = Inr t \<Longrightarrow> key_view k s = key_view k s' \<Longrightarrow>
   \<exists>t'. foldE replay_step (filter (\<lambda>e. ev_key e = k) es) s' = Inr t' \<and> key_view k t = key_view k t'"
proof (induction es arbitrary: s s')
  case (Cons e es)
  then obtain u where u: "replay_step e s = Inr u" "foldE replay_step es u = Inr t"
    by (auto simp: bindE_eq_Inr)
  show ?case
  proof (cases "ev_key e = k")
    case True
    with step_local [OF u(1)] Cons.prems(2) obtain u' where
      u': "replay_step e s' = Inr u'" "key_view k u = key_view k u'" by blast
    from Cons.IH [OF u(2) u'(2)] u'(1) True show ?thesis by simp
  next
    case False
    from step_other_key [OF u(1) False] Cons.prems(2) have "key_view k u = key_view k s'" by simp
    from Cons.IH [OF u(2) this] False show ?thesis by simp
  qed
qed auto

lemma step_spent_keys:
  assumes "replay_step e s = Inr t"
  shows "set (map fst (r_spent t)) \<subseteq> insert (ev_key e) (set (map fst (r_spent s)))"
proof -
  have "set (map fst (r_spent t)) \<subseteq> insert (ev_key e) (set (map fst (r_spent s)))"
    if "cost_step e s = Inr t"
    using cost_step_Inr(1) [OF that] by (simp add: set_bt_insert_keys)
  moreover have "set (map fst (r_spent t)) \<subseteq> insert (ev_key e) (set (map fst (r_spent s)))"
    if "reconciled_step e s = Inr t"
    using reconciled_step_Inr(1) [OF that] by (auto simp: set_bt_insert_keys split: option.splits)
  ultimately show ?thesis
    using assms by (auto simp: replay_step_def Let_def split: if_splits)
qed

lemma fold_spent_keys:
  "foldE replay_step es s = Inr t \<Longrightarrow> set (map fst (r_spent t)) \<subseteq> set (map fst (r_spent s)) \<union> ev_key ` set es"
proof (induction es arbitrary: s)
  case (Cons e es)
  then obtain u where u: "replay_step e s = Inr u" "foldE replay_step es u = Inr t"
    by (auto simp: bindE_eq_Inr)
  from Cons.IH [OF u(2)] step_spent_keys [OF u(1)] show ?case by auto
qed simp

lemma step_spent_range:
  assumes "replay_step e s = Inr t" "\<forall>v \<in> snd ` set (r_spent s). in_i64 v"
  shows "\<forall>v \<in> snd ` set (r_spent t). in_i64 v"
proof -
  have ins: "\<forall>v \<in> snd ` set (bt_insert k w (r_spent s)). in_i64 v" if "in_i64 w" for k w
    using set_bt_insert_subset [of k w "r_spent s"] assms(2) that by fastforce
  have c: "\<forall>v \<in> snd ` set (r_spent t). in_i64 v" if "cost_step e s = Inr t"
  proof -
    have "in_i64 (bt_get_or 0 (r_spent s) (ev_key e) + bt_get_or 0 (ev_amounts e) ''cost_msat'')"
      using that by (auto simp: cost_step_def Let_def result_simps)
    then show ?thesis unfolding cost_step_Inr(1) [OF that] by (rule ins)
  qed
  have r: "\<forall>v \<in> snd ` set (r_spent t). in_i64 v" if "reconciled_step e s = Inr t"
  proof (cases "map_of (ev_amounts e) ''cost_msat''")
    case None
    then show ?thesis using reconciled_step_Inr(1) [OF that] assms(2) by simp
  next
    case (Some v)
    then have "in_i64 (bt_get_or 0 (r_spent s) (ev_key e) + v)"
      using that by (auto simp: reconciled_step_def Let_def result_simps split: option.splits)
    then have "\<forall>v \<in> snd ` set (bt_insert (ev_key e) (bt_get_or 0 (r_spent s) (ev_key e) + v) (r_spent s)). in_i64 v"
      by (rule ins)
    with Some show ?thesis using reconciled_step_Inr(1) [OF that] by simp
  qed
  have "r_spent t = r_spent s \<or> cost_step e s = Inr t \<or> reconciled_step e s = Inr t"
    using assms(1) by (auto simp: replay_step_def Let_def split: if_splits)
  then show ?thesis using assms(2) c r by auto
qed

lemma fold_spent_range:
  "foldE replay_step es s = Inr t \<Longrightarrow> \<forall>v \<in> snd ` set (r_spent s). in_i64 v \<Longrightarrow>
   \<forall>v \<in> snd ` set (r_spent t). in_i64 v"
  by (erule foldE_invariant, assumption) (rule step_spent_range)

text \<open>A map whose keys are all \<open>k\<close> holds at most one entry.\<close>

lemma single_key:
  assumes "bt_ok (m :: amounts)" "set (map fst m) \<subseteq> {k}"
  shows "m = [] \<or> (\<exists>v. m = [(k, v)])"
proof (cases m)
  case (Cons p m')
  with assms show ?thesis by (cases p; cases m') (auto simp: bt_ok_def)
qed simp

text \<open>Replay is local to an idempotency key: what the replay of a whole stream holds, has
  spent and calls terminal for a key is what the replay of that key's own events gives.
  Corrupt or foreign events of other keys cannot move its budget.\<close>

theorem replay_key_local:
  assumes "replay_events es = Inr st"
  shows "\<exists>st'. replay_events (filter (\<lambda>e. ev_key e = k) es) = Inr st' \<and>
     map_of (reserved_msat st') k = map_of (reserved_msat st) k \<and>
     map_of (spent_msat st') k = map_of (spent_msat st) k \<and>
     map_of (terminal st') k = map_of (terminal st) k"
proof -
  let ?own = "filter (\<lambda>e. ev_key e = k) es"
  obtain t where t: "foldE replay_step es replay_init = Inr t" "acc_ok t"
    "reserved_msat st = filter (\<lambda>(_, v). v \<noteq> 0) (r_reserved t)" "spent_msat st = r_spent t"
    "terminal st = r_terminal t"
    by (rule replay_events_Inr [OF assms])
  from fold_local [OF t(1) refl, of k] obtain t' where
    t': "foldE replay_step ?own replay_init = Inr t'" and v: "key_view k t = key_view k t'" by blast
  have ok: "acc_ok t'" by (rule fold_acc_ok [OF t' acc_ok_init])
  then have "r_spent t' = [] \<or> (\<exists>v. r_spent t' = [(k, v)])"
    using fold_spent_keys [OF t'] by (intro single_key) (auto simp: acc_ok_def replay_init_def)
  moreover have "\<forall>v \<in> snd ` set (r_spent t'). in_i64 v"
    by (rule fold_spent_range [OF t']) (simp add: replay_init_def)
  ultimately obtain st' where st': "replay_events ?own = Inr st'"
    by (auto simp: replay_events_def replay_finish_def t' checked_op_def checked_i64_def)
  obtain t'' where "foldE replay_step ?own replay_init = Inr t''"
    "reserved_msat st' = filter (\<lambda>(_, v). v \<noteq> 0) (r_reserved t'')" "spent_msat st' = r_spent t''"
    "terminal st' = r_terminal t''"
    by (rule replay_events_Inr [OF st'])
  with t' v t ok st' show ?thesis
    by (auto simp: acc_ok_def map_of_filter_ok)
qed

theorem replay_key_local_witness:
  "\<exists>st'. replay_events (filter (\<lambda>e. ev_key e = ''k'') sample_stream) = Inr st' \<and>
     map_of (reserved_msat st') ''k'' = Some 300 \<and> map_of (spent_msat st') ''k'' = Some 200 \<and>
     map_of (terminal st') ''k'' = Some ''execution_succeeded''"
  using replay_key_local [OF sample_replay, of "''k''"] by simp

text \<open>Re-announcing a reservation is harmless: a \<open>budget_reserved\<close> event delivered twice in
  a row replays as if delivered once, on every stream and whatever it results in.\<close>

theorem replay_reserved_idempotent:
  assumes "event_type e = ''budget_reserved''"
  shows "replay_events (xs @ e # e # ys) = replay_events (xs @ e # ys)"
proof -
  have "bt_insert k v (bt_insert k v m) = bt_insert k v m" for k :: string and v :: int and m
    by (induction k v m rule: bt_insert.induct) auto
  then have "bindE (replay_step e s) (replay_step e) = replay_step e s" for s
    using assms by (simp add: replay_step_def Let_def)
  then have "foldE replay_step (e # e # ys) s = foldE replay_step (e # ys) s" for s
    unfolding foldE.simps bindE_assoc [symmetric] by simp
  then have "foldE replay_step (e # e # ys) = foldE replay_step (e # ys)" by (rule ext)
  then show ?thesis by (simp only: replay_events_def foldE_append)
qed

theorem replay_reserved_idempotent_witness:
  "replay_events ([] @ sample_event ''budget_reserved'' ''k'' [(''reserved_msat'', 500)]
      # sample_event ''budget_reserved'' ''k'' [(''reserved_msat'', 500)] # [])
   = replay_events ([] @ sample_event ''budget_reserved'' ''k'' [(''reserved_msat'', 500)] # [])"
  by (rule replay_reserved_idempotent) (simp add: sample_event_def)


section \<open>The log as an interface\<close>

text \<open>
  An event log gives back, after an append, what it gave before and the new event at
  the end. A projection folded over such a log can be kept up to date one event at a
  time: that is all \<open>replay\<close> relies on.
\<close>

locale event_log =
  fixes add :: "'r \<Rightarrow> 's \<Rightarrow> 's"
    and read :: "'s \<Rightarrow> ('x, 'e list) result"
    and decoded :: "'s \<Rightarrow> 'r \<Rightarrow> 'e option"
    and inv :: "'s \<Rightarrow> bool"
  assumes inv_add: "inv s \<Longrightarrow> inv (add r s)"
    and read_add: "inv s \<Longrightarrow> read s = Inr es \<Longrightarrow> decoded s r = Some e \<Longrightarrow> read (add r s) = Inr (es @ [e])"
begin

lemma project_add:
  assumes "inv s" "read s = Inr es" "decoded s r = Some e"
  shows "bindE (read (add r s)) (\<lambda>es. foldE f es z) = bindE (bindE (read s) (\<lambda>es. foldE f es z)) (f e)"
  using assms by (cases "foldE f es z") (simp_all add: read_add foldE_append)

lemma read_adds:
  "inv s \<Longrightarrow> read s = Inr es \<Longrightarrow> (\<And>r s. r \<in> set rs \<Longrightarrow> decoded s r \<noteq> None) \<Longrightarrow>
   \<exists>more. length more = length rs \<and> read (fold add rs s) = Inr (es @ more)"
proof (induction rs arbitrary: s es)
  case (Cons r rs)
  then obtain e where e: "decoded s r = Some e" by fastforce
  from Cons.IH [OF inv_add [OF Cons.prems(1)] read_add [OF Cons.prems(1,2) e]] Cons.prems(3)
  obtain more where "length more = length rs" "read (fold add rs (add r s)) = Inr ((es @ [e]) @ more)"
    by auto
  then show ?case by (intro exI [of _ "e # more"]) simp
qed simp

end

definition ledger_ok :: "ledger_db \<Rightarrow> bool" where
  "ledger_ok db \<longleftrightarrow> sorted_wrt (<) (map row_id (rows db)) \<and>
     (\<forall>r \<in> set (rows db). 0 < row_id r \<and> row_id r \<le> last_id db) \<and> 0 \<le> last_id db"

definition add_row :: "ledger_row \<Rightarrow> ledger_db \<Rightarrow> ledger_db" where
  "add_row r db = (case insert_row r db of Inl _ \<Rightarrow> db | Inr (_, db') \<Rightarrow> db')"

definition stored_events ::
  "(string \<Rightarrow> amounts option) \<Rightarrow> (string \<Rightarrow> json option) \<Rightarrow> ledger_db \<Rightarrow> ledger_event list econ_result" where
  "stored_events pa pv db = sequenceE (map (decode_row pa pv) (rows_since 0 db))"

definition decoded_row ::
  "(string \<Rightarrow> amounts option) \<Rightarrow> (string \<Rightarrow> json option) \<Rightarrow> ledger_db \<Rightarrow> ledger_row \<Rightarrow> ledger_event option" where
  "decoded_row pa pv db r =
     (if last_id db = i64_max then None
      else ok_of (decode_row pa pv (r\<lparr>row_id := last_id db + 1\<rparr>)))"

lemma rows_since_ok: "ledger_ok db \<Longrightarrow> rows_since 0 db = rows db"
proof -
  assume ok: "ledger_ok db"
  then have "filter (\<lambda>r. 0 < row_id r) (rows db) = rows db" by (simp add: ledger_ok_def)
  with ok show ?thesis
    by (simp add: rows_since_def sort_key_id_if_sorted ledger_ok_def strict_sorted_iff)
qed

lemma ledger_ok_add: "ledger_ok db \<Longrightarrow> ledger_ok (add_row r db)"
  by (fastforce simp: ledger_ok_def add_row_def insert_row_def sorted_wrt_append)

lemma stored_events_add:
  assumes "ledger_ok db" "stored_events pa pv db = Inr es" "decoded_row pa pv db r = Some e"
  shows "stored_events pa pv (add_row r db) = Inr (es @ [e])"
proof -
  have room: "last_id db \<noteq> i64_max" and d: "decode_row pa pv (r\<lparr>row_id := last_id db + 1\<rparr>) = Inr e"
    using assms(3) by (auto simp: decoded_row_def ok_of_def split: if_splits sum.splits)
  have "map (decode_row pa pv) (rows db) = map Inr es"
    using assms(2) rows_since_ok [OF assms(1)] by (simp add: stored_events_def sequenceE_Inr)
  then show ?thesis
    using room d rows_since_ok [OF ledger_ok_add [OF assms(1), of r]]
    by (simp add: stored_events_def sequenceE_Inr add_row_def insert_row_def)
qed

interpretation ledger_log: event_log add_row "stored_events pa pv" "decoded_row pa pv" ledger_ok for pa pv
  by unfold_locales (simp_all add: ledger_ok_add stored_events_add)

lemma connect_disk:
  assumes "connect c = (r, c')"
  shows "disk c' = disk c" "txn c = None \<Longrightarrow> txn c' = None"
proof -
  let ?q = "query (\<lambda>_. Inr ()) :: (ledger_db conn, sql_error, unit) action"
  obtain r1 c1 where 1: "?q c = (r1, c1)" by fastforce
  obtain r2 c2 where 2: "?q c1 = (r2, c2)" by fastforce
  have "c' = snd (bindA ?q (\<lambda>_. ?q) c)"
    using assms by (simp add: connect_def flip: map_errA_snd [of sql_err])
  then have "c' = c1 \<or> c' = c2" using 1 2 by (auto simp: bindA_def split: sum.splits)
  then show "disk c' = disk c" "txn c = None \<Longrightarrow> txn c' = None"
    using query_disk [OF 1] query_disk [OF 2] query_txn_None [OF 1] query_txn_None [OF 2] by auto
qed

lemma exec_outside_txn:
  assumes "exec f c = (r, c')" "txn c = None"
  shows "txn c' = None \<and> (disk c' = disk c \<and> (\<exists>e. r = Inl e) \<or> (\<exists>a. r = Inr a \<and> f (disk c) = Inr (a, disk c')))"
  using assms pop_fields [of c]
  by (auto simp: exec_def engine_fails_def store_def current_def
      split: prod.splits option.splits sum.splits if_splits)

lemma insert_row_Inr:
  "insert_row r db = Inr (i, db') \<Longrightarrow> i = last_id db + 1 \<and> last_id db' = i \<and>
     rows db' = rows db @ [r\<lparr>row_id := i\<rparr>]"
  by (auto simp: insert_row_def split: if_splits)

lemma append_effect:
  assumes "append_event ty intent key cycle at_time amounts details c = (r, c')" "txn c = None"
  shows "case r of
      Inl e \<Rightarrow> disk c' = disk c
    | Inr i \<Rightarrow> i = last_id (disk c) + 1 \<and> last_id (disk c') = i \<and>
        (\<exists>row. rows (disk c') = rows (disk c) @ [row] \<and> row_id row = i \<and> row_type row = ty \<and>
           row_intent row = intent \<and> row_key row = key \<and> row_cycle row = cycle \<and> row_at row = at_time \<and>
           ty \<in> set EVENT_TYPES \<and> intent \<noteq> [] \<and> key \<noteq> [] \<and> cycle \<noteq> [] \<and> 0 \<le> at_time)"
proof -
  let ?v = "ty \<in> set EVENT_TYPES \<and> intent \<noteq> [] \<and> key \<noteq> [] \<and> cycle \<noteq> [] \<and> \<not> at_time < 0"
  show ?thesis
  proof (cases ?v)
    case False
    then show ?thesis using assms(1) by (auto simp: append_event_def split: if_splits)
  next
    case v: True
    show ?thesis
    proof (cases "python_dumps json_float_error (JObj (map (\<lambda>(k, v). (k, JInt v)) amounts))")
      case (Inl e)
      then show ?thesis using assms(1) v by (auto simp: append_event_def bindA_def)
    next
      case aj: (Inr aj)
      show ?thesis
      proof (cases "python_dumps json_float_error details")
        case (Inl e)
        then show ?thesis using assms(1) v aj by (auto simp: append_event_def bindA_def)
      next
        case dj: (Inr dj)
        obtain q c1 where cn: "connect c = (q, c1)" by fastforce
        note same = connect_disk [OF cn]
        let ?ins = "insert_row \<lparr>row_id = 0, row_type = ty, row_intent = intent, row_key = key,
            row_cycle = cycle, row_at = at_time, amounts_json = aj, details_json = dj\<rparr>"
        obtain r2 c2 where x: "exec ?ins c1 = (r2, c2)" by fastforce
        note o = exec_outside_txn [OF x same(2) [OF assms(2)]]
        show ?thesis
        proof (cases q)
          case (Inl e)
          then show ?thesis
            using assms(1) v aj dj cn same(1)
            by (auto simp: append_event_def bindA_def simp del: python_dumps.simps)
        next
          case (Inr u)
          then have rc: "(r, c') = map_errA sql_err (exec ?ins) c1"
            using assms(1) v aj dj cn by (simp add: append_event_def bindA_def del: python_dumps.simps)
          show ?thesis
          proof (cases r2)
            case (Inl e)
            with rc x o same(1) show ?thesis
              by (auto simp: map_errA_def split: fault.splits)
          next
            case (Inr i)
            with rc x have "r = Inr i" "c' = c2" by (simp_all add: map_errA_def)
            moreover have "?ins (disk c) = Inr (i, disk c2)" using o Inr same(1) by auto
            ultimately show ?thesis using insert_row_Inr v by fastforce
          qed
        qed
      qed
    qed
  qed
qed

lemma append_stays_out: "stays_out (append_event ty intent key cycle at_time amounts details)"
  unfolding append_event_def connect_def by (auto intro!: stays_out_intros)

text \<open>The ledger is append-only under every engine behaviour: an append that fails leaves the
  table as it was, and one that succeeds leaves every old row in place and adds exactly
  one row at the end, under a fresh increasing id, with the fields it was given.\<close>

theorem append_event_append_only:
  assumes "append_event ty intent key cycle at_time amounts details c = (r, c')" "txn c = None"
  shows "case r of
      Inl e \<Rightarrow> disk c' = disk c
    | Inr i \<Rightarrow> i = last_id (disk c) + 1 \<and> last_id (disk c') = i \<and>
        (\<exists>row. rows (disk c') = rows (disk c) @ [row] \<and> row_id row = i \<and> row_type row = ty \<and>
           row_intent row = intent \<and> row_key row = key \<and> row_cycle row = cycle \<and> row_at row = at_time \<and>
           ty \<in> set EVENT_TYPES \<and> intent \<noteq> [] \<and> key \<noteq> [] \<and> cycle \<noteq> [] \<and> 0 \<le> at_time)"
  by (rule append_effect [OF assms])

definition empty_ledger :: "ledger_db conn" where
  "empty_ledger = \<lparr>disk = \<lparr>rows = [], last_id = 0\<rparr>, txn = None, script = []\<rparr>"

theorem append_event_append_only_witness:
  "\<exists>row. rows (disk (snd (append_event ''budget_reserved'' ''int-1'' ''k'' ''c1'' 10 [(''reserved_msat'', 5)]
      (JObj []) empty_ledger))) = [row] \<and> row_key row = ''k'' \<and> row_id row = 1"
  using append_event_append_only [of "''budget_reserved''" "''int-1''" "''k''" "''c1''" 10
      "[(''reserved_msat'', 5)]" "JObj []" empty_ledger "Inr 1"
      "snd (append_event ''budget_reserved'' ''int-1'' ''k'' ''c1'' 10 [(''reserved_msat'', 5)]
        (JObj []) empty_ledger)"]
  by (simp add: append_event_def EVENT_TYPES_def empty_ledger_def bindA_def connect_def map_errA_def
      insert_row_def current_def i64_bounds store_def)

end
