(* ===== verification/Budget.thy ===== *)
theory Budget
  imports Json Sqlite
begin

text \<open>
  The budget rail (\<open>revops-db/src/budget.rs\<close>): reservations, their settlement into
  spend events, their release and the stale sweeps, over the production tables. The
  statements run on the connection of theory \<open>Sqlite\<close>, inside and outside the
  \<open>BEGIN IMMEDIATE\<close> transactions the code opens.
\<close>

section \<open>Data\<close>

definition MAX_AMOUNT_SATS :: int where
  "MAX_AMOUNT_SATS = 10000000000"

definition COMMITTED_ONCHAIN_SPEND_CATEGORIES :: "string list" where
  "COMMITTED_ONCHAIN_SPEND_CATEGORIES = [''channel_open'', ''channel_close'', ''boltz'']"

datatype budget_error = BSqlite sql_error | BMetadata string | BInvalidInput string

record reserve_request =
  req_id :: string
  req_amount :: int
  req_category :: string
  req_subcategory :: "string option"
  req_reference :: "string option"
  req_channel :: "string option"
  req_metadata :: "json option"
  effective_budget_sats :: "int option"
  since_timestamp :: "int option"
  weekly_budget_limit :: "int option"
  weekly_since_timestamp :: "int option"

record spend_event =
  se_id :: string
  se_category :: string
  se_amount :: int
  se_subcategory :: "string option"
  se_timestamp :: int
  se_reference :: "string option"
  se_channel :: "string option"
  se_source :: "string option"
  se_metadata :: "json option"

record reservation_state =
  rs_status :: string
  rs_reserved :: int

record clear_stats =
  cleared_count :: int
  released_sats :: int

text \<open>
  The tables. \<open>rebalance_costs\<close> has nullable columns and no key, and
  \<open>rebalance_history\<close>, which only the sweeps read, may be missing.
\<close>

record spend_row =
  s_id :: string
  s_category :: string
  s_subcategory :: "string option"
  s_reserved :: int
  s_at :: int
  s_reference :: "string option"
  s_channel :: "string option"
  s_status :: string
  s_metadata :: "string option"

record legacy_row =
  b_id :: string
  b_reserved :: int
  b_at :: int
  b_channel :: string
  b_status :: string

record event_row =
  e_id :: string
  e_category :: string
  e_subcategory :: "string option"
  e_amount :: int
  e_at :: int
  e_reference :: "string option"
  e_channel :: "string option"
  e_source :: "string option"
  e_metadata :: "string option"

record rail =
  spend_reservations :: "spend_row list"
  budget_reservations :: "legacy_row list"
  spend_events :: "event_row list"
  rebalance_costs :: "(int option \<times> int option) list"
  rebalance_history :: "(int \<times> string) list option"

type_synonym 'a rail_action = "(rail conn, budget_error, 'a) action"

abbreviation sql :: "(rail conn, sql_error, 'a) action \<Rightarrow> 'a rail_action" where
  "sql \<equiv> map_errA BSqlite"

section \<open>Sanitizing and metadata\<close>

definition sanitize_amount :: "int \<Rightarrow> int" where
  "sanitize_amount amount =
     (if MAX_AMOUNT_SATS < \<bar>amount\<bar> then if 0 \<le> amount then MAX_AMOUNT_SATS else - MAX_AMOUNT_SATS
      else amount)"

definition metadata_json :: "json option \<Rightarrow> (budget_error, string option) result" where
  "metadata_json metadata =
     (case metadata of
        None \<Rightarrow> Inr None
      | Some (JObj kvs) \<Rightarrow>
          if kvs = [] then Inr None
          else bindE (python_dumps (BMetadata ''budget metadata forbids non-integer numbers'') (JObj kvs))
                 (\<lambda>s. Inr (Some s))
      | Some other \<Rightarrow> Inl (Fail (BMetadata ''metadata must be a JSON object'')))"

section \<open>Reserving\<close>

definition active_holds :: "rail \<Rightarrow> int list" where
  "active_holds db = map s_reserved (filter (\<lambda>r. s_status r = ''active'') (spend_reservations db))"

definition legacy_holds :: "rail \<Rightarrow> int list" where
  "legacy_holds db = map b_reserved (filter (\<lambda>r. b_status r = ''active'') (budget_reservations db))"

definition costs_since :: "int \<Rightarrow> rail \<Rightarrow> int list" where
  "costs_since since db =
     List.map_filter (\<lambda>(cost, at_time). case at_time of None \<Rightarrow> None
       | Some t \<Rightarrow> if since \<le> t then cost else None) (rebalance_costs db)"

definition events_since :: "int \<Rightarrow> rail \<Rightarrow> int list" where
  "events_since since db = map e_amount (filter (\<lambda>e. since \<le> e_at e) (spend_events db))"

definition sum_of :: "(rail \<Rightarrow> int list) \<Rightarrow> int rail_action" where
  "sum_of f = sql (query (\<lambda>db. sql_sum 0 (f db)))"

definition status_of :: "string \<Rightarrow> string option rail_action" where
  "status_of rid = sql (query (\<lambda>db. Inr (map_option s_status (find_row s_id rid (spend_reservations db)))))"

definition reserved_of :: "string \<Rightarrow> int option rail_action" where
  "reserved_of rid = sql (query (\<lambda>db. Inr (map_option s_reserved (find_row s_id rid (spend_reservations db)))))"

definition insert_reservation :: "spend_row \<Rightarrow> unit rail_action" where
  "insert_reservation r = sql (exec (\<lambda>db.
     Inr ((), db\<lparr>spend_reservations := replace_row s_id r (spend_reservations db)\<rparr>)))"

text \<open>The exact value of an \<open>i64\<close> expression at one of its intermediate steps.\<close>

abbreviation chkA :: "int \<Rightarrow> int rail_action" where
  "chkA v \<equiv> liftA (chk_i64 v)"

definition weekly_check :: "reserve_request \<Rightarrow> int \<Rightarrow> int \<Rightarrow> int \<Rightarrow> int \<Rightarrow> (int + int option) rail_action" where
  "weekly_check req amount gen_reserved reb_reserved existing =
     (case (weekly_budget_limit req, weekly_since_timestamp req) of
        (Some limit, Some since) \<Rightarrow>
          bindA (sum_of (costs_since since)) (\<lambda>weekly_spent.
          bindA (sum_of (events_since since)) (\<lambda>weekly_gen_spent.
          bindA (chkA (weekly_spent + reb_reserved)) (\<lambda>w1.
          bindA (chkA (w1 + gen_reserved)) (\<lambda>w2.
          bindA (chkA (w2 + weekly_gen_spent)) (\<lambda>w3.
          bindA (chkA (w3 - existing)) (\<lambda>weekly_already.
          bindA (chkA (limit - weekly_already)) (\<lambda>remaining.
            if remaining < amount then returnA (Inl remaining)
            else returnA (Inr (Some remaining)))))))))
      | _ \<Rightarrow> returnA (Inr None))"

text \<open>Refusal with what is left of the violated limit, or the headroom of both limits.\<close>

definition budget_check ::
  "reserve_request \<Rightarrow> int \<Rightarrow> int \<Rightarrow> int \<Rightarrow> (int + int \<times> int option) rail_action" where
  "budget_check req amount budget_since existing =
     (case effective_budget_sats req of
        None \<Rightarrow> returnA (Inr (0, None))
      | Some effective_budget \<Rightarrow>
          bindA (sum_of active_holds) (\<lambda>gen_reserved.
          bindA (sum_of legacy_holds) (\<lambda>reb_reserved.
          bindA (sum_of (costs_since budget_since)) (\<lambda>reb_committed.
          bindA (sum_of (events_since budget_since)) (\<lambda>gen_committed.
          bindA (chkA (gen_reserved + reb_reserved)) (\<lambda>a1.
          bindA (chkA (a1 + reb_committed)) (\<lambda>a2.
          bindA (chkA (a2 + gen_committed)) (\<lambda>a3.
          bindA (chkA (a3 - existing)) (\<lambda>already.
          bindA (chkA (effective_budget - already)) (\<lambda>daily_remaining.
            if daily_remaining < amount then returnA (Inl daily_remaining)
            else
              bindA (weekly_check req amount gen_reserved reb_reserved existing) (\<lambda>w.
                case w of Inl remaining \<Rightarrow> returnA (Inl remaining)
                | Inr weekly \<Rightarrow> returnA (Inr (daily_remaining, weekly)))))))))))))"

definition after_grant :: "reserve_request \<Rightarrow> int \<Rightarrow> int \<Rightarrow> int option \<Rightarrow> (bool \<times> int) rail_action" where
  "after_grant req amount daily weekly =
     (if effective_budget_sats req = None then returnA (True, 0)
      else
        bindA (chkA (daily - amount)) (\<lambda>after.
          case weekly of
            None \<Rightarrow> returnA (True, after)
          | Some w \<Rightarrow> bindA (chkA (w - amount)) (\<lambda>wa. returnA (True, min after wa))))"

definition reservation_row :: "reserve_request \<Rightarrow> string \<Rightarrow> string \<Rightarrow> int \<Rightarrow> string option \<Rightarrow> int \<Rightarrow> spend_row" where
  "reservation_row req rid cat amount meta now =
     \<lparr>s_id = rid, s_category = cat, s_subcategory = req_subcategory req,
      s_reserved = amount, s_at = now, s_reference = req_reference req,
      s_channel = req_channel req, s_status = ''active'', s_metadata = meta\<rparr>"

definition reserve_spend_body ::
  "reserve_request \<Rightarrow> string \<Rightarrow> string \<Rightarrow> int \<Rightarrow> string option \<Rightarrow> int \<Rightarrow> int \<Rightarrow> (bool \<times> int) rail_action" where
  "reserve_spend_body req rid cat amount meta budget_since now =
     bindA (status_of rid) (\<lambda>existing.
       if existing = Some ''spent'' \<or> existing = Some ''released'' then returnA (False, 0)
       else
         bindA (if existing = Some ''active''
                then bindA (reserved_of rid) (\<lambda>v. returnA (case v of None \<Rightarrow> 0 | Some x \<Rightarrow> x))
                else returnA 0) (\<lambda>existing_active.
         bindA (budget_check req amount budget_since existing_active) (\<lambda>verdict.
           case verdict of
             Inl remaining \<Rightarrow> returnA (False, remaining)
           | Inr (daily, weekly) \<Rightarrow>
               bindA (insert_reservation (reservation_row req rid cat amount meta now)) (\<lambda>_.
               after_grant req amount daily weekly))))"

definition rollback_quietly :: "unit rail_action" where
  "rollback_quietly = handleA rollback (\<lambda>_. returnA ())"

text \<open>
  The common front of \<open>reserve_spend\<close> and \<open>reserve_spend_in_tx\<close>: sanitize rejects and a
  metadata error come before any statement. The default window start is computed
  eagerly, so its overflow panics even when a window is given.
\<close>

definition reserve_front ::
  "reserve_request \<Rightarrow> int \<Rightarrow>
   (string \<Rightarrow> string \<Rightarrow> int \<Rightarrow> string option \<Rightarrow> int \<Rightarrow> (bool \<times> int) rail_action) \<Rightarrow> (bool \<times> int) rail_action" where
  "reserve_front req now k =
     (let amount = sanitize_amount (req_amount req);
          rid = trim (req_id req);
          cat = to_lowercase (trim (req_category req))
      in if amount \<le> 0 then returnA (False, 0)
         else if rid = [] then returnA (False, 0)
         else if cat = [] then returnA (False, 0)
         else
           bindA (liftA (metadata_json (req_metadata req))) (\<lambda>meta.
           bindA (chkA (now - 24 * 3600)) (\<lambda>default_since.
             k rid cat amount meta
               (case since_timestamp req of None \<Rightarrow> default_since | Some t \<Rightarrow> t))))"

definition reserve_spend_in_tx :: "reserve_request \<Rightarrow> int \<Rightarrow> (bool \<times> int) rail_action" where
  "reserve_spend_in_tx req now =
     reserve_front req now (\<lambda>rid cat amount meta since.
       reserve_spend_body req rid cat amount meta since now)"

definition reserve_spend :: "reserve_request \<Rightarrow> int \<Rightarrow> (bool \<times> int) rail_action" where
  "reserve_spend req now =
     reserve_front req now (\<lambda>rid cat amount meta since.
       bindA (sql begin_immediate) (\<lambda>_.
         handleA (reserve_spend_body req rid cat amount meta since now) (\<lambda>r.
           case r of
             Inr granted \<Rightarrow> bindA (sql commit) (\<lambda>_. returnA granted)
           | Inl (Fail e) \<Rightarrow> bindA rollback_quietly (\<lambda>_. failA e)
           | Inl Panic \<Rightarrow> liftA (Inl Panic))))"

definition reserve_budget ::
  "string \<Rightarrow> int \<Rightarrow> string \<Rightarrow> int \<Rightarrow> int \<Rightarrow> int option \<Rightarrow> int option \<Rightarrow> int \<Rightarrow> (bool \<times> int) rail_action" where
  "reserve_budget rid amount channel budget_limit since weekly_limit weekly_since now =
     reserve_spend
       \<lparr>req_id = rid, req_amount = amount, req_category = ''rebalance'', req_subcategory = None,
        req_reference = None, req_channel = Some channel, req_metadata = None,
        effective_budget_sats = Some budget_limit, since_timestamp = Some since,
        weekly_budget_limit = weekly_limit, weekly_since_timestamp = weekly_since\<rparr> now"

section \<open>Releasing\<close>

definition update_spend :: "(spend_row \<Rightarrow> bool) \<Rightarrow> string \<Rightarrow> rail \<Rightarrow> nat \<times> rail" where
  "update_spend P st db =
     (let (n, rs) = update_rows P (\<lambda>r. r\<lparr>s_status := st\<rparr>) (spend_reservations db)
      in (n, db\<lparr>spend_reservations := rs\<rparr>))"

definition update_legacy :: "(legacy_row \<Rightarrow> bool) \<Rightarrow> string \<Rightarrow> rail \<Rightarrow> nat \<times> rail" where
  "update_legacy P st db =
     (let (n, rs) = update_rows P (\<lambda>r. r\<lparr>b_status := st\<rparr>) (budget_reservations db)
      in (n, db\<lparr>budget_reservations := rs\<rparr>))"

definition release_spend_reservation :: "string \<Rightarrow> bool rail_action" where
  "release_spend_reservation rid =
     bindA (sql (exec (\<lambda>db. Inr (update_spend (\<lambda>r. s_id r = rid \<and> s_status r = ''active'') ''released'' db))))
       (\<lambda>n. returnA (0 < n))"

definition release_budget_reservation :: "string \<Rightarrow> bool rail_action" where
  "release_budget_reservation rid =
     bindA (release_spend_reservation rid) (\<lambda>done.
       if done then returnA True
       else bindA (sql (exec (\<lambda>db. Inr (update_legacy
              (\<lambda>r. b_id r = rid \<and> b_status r = ''active'') ''released'' db)))) (\<lambda>n. returnA (0 < n)))"

section \<open>Settling\<close>

definition insert_event :: "event_row \<Rightarrow> (rail conn, sql_error, unit) action" where
  "insert_event r = exec (\<lambda>db. Inr ((), db\<lparr>spend_events := replace_row e_id r (spend_events db)\<rparr>))"

text \<open>Three attempts on a busy or locked database; any other error is returned at once.\<close>

fun event_attempts :: "nat \<Rightarrow> sql_error option \<Rightarrow> event_row \<Rightarrow> bool rail_action" where
  "event_attempts 0 last_err row =
     (case last_err of None \<Rightarrow> liftA (Inl Panic) | Some e \<Rightarrow> failA (BSqlite e))"
| "event_attempts (Suc n) last_err row =
     handleA (insert_event row) (\<lambda>r.
       case r of
         Inr _ \<Rightarrow> returnA True
       | Inl (Fail e) \<Rightarrow>
           if is_busy_or_locked e then event_attempts n (Some e) row else failA (BSqlite e)
       | Inl Panic \<Rightarrow> liftA (Inl Panic))"

definition record_spend_event_on :: "spend_event \<Rightarrow> bool rail_action" where
  "record_spend_event_on ev =
     (let eid = trim (se_id ev); cat = to_lowercase (trim (se_category ev));
          amount = sanitize_amount (se_amount ev)
      in if eid = [] \<or> cat = [] then returnA False
         else if amount \<le> 0 then returnA False
         else bindA (liftA (metadata_json (se_metadata ev))) (\<lambda>meta.
           event_attempts 3 None
             \<lparr>e_id = eid, e_category = cat, e_subcategory = se_subcategory ev, e_amount = amount,
              e_at = se_timestamp ev, e_reference = se_reference ev, e_channel = se_channel ev,
              e_source = se_source ev, e_metadata = meta\<rparr>))"

definition record_spend_event :: "spend_event \<Rightarrow> unit rail_action" where
  "record_spend_event ev =
     bindA (record_spend_event_on ev) (\<lambda>ok.
       if ok then returnA ()
       else failA (BInvalidInput ''spend event requires non-empty event_id/category and amount > 0''))"

datatype mark_spent_tx = Applied bool | EventRejected

definition mark_spent_in_tx ::
  "string \<Rightarrow> int option \<Rightarrow> string option \<Rightarrow> bool \<Rightarrow> int \<Rightarrow> mark_spent_tx rail_action" where
  "mark_spent_in_tx rid0 actual src record_event now =
     (let rid = trim rid0
      in if rid = [] then returnA (Applied False)
         else
           bindA (sql (query (\<lambda>db. Inr (find_row s_id rid (spend_reservations db))))) (\<lambda>found.
             case found of
               None \<Rightarrow> returnA (Applied False)
             | Some row \<Rightarrow>
                 bindA (sql (exec (\<lambda>db. Inr (update_spend
                   (\<lambda>r. s_id r = rid \<and> s_status r = ''active'') ''spent'' db)))) (\<lambda>n.
                   if 0 < n \<and> record_event then
                     bindA (record_spend_event_on
                       \<lparr>se_id = ''resv:'' @ rid, se_category = s_category row,
                        se_amount = sanitize_amount (case actual of None \<Rightarrow> s_reserved row | Some a \<Rightarrow> a),
                        se_subcategory = s_subcategory row, se_timestamp = now,
                        se_reference = s_reference row, se_channel = s_channel row,
                        se_source = Some (case src of None \<Rightarrow> ''reservation_settlement'' | Some s \<Rightarrow> s),
                        se_metadata = Some (JObj [(''reservation_id'', JStr rid)])\<rparr>) (\<lambda>ok.
                     if ok then returnA (Applied (0 < n)) else returnA EventRejected)
                   else returnA (Applied (0 < n)))))"

definition mark_spend_reservation_spent ::
  "string \<Rightarrow> int option \<Rightarrow> string option \<Rightarrow> bool \<Rightarrow> int \<Rightarrow> bool rail_action" where
  "mark_spend_reservation_spent rid0 actual src record_event now =
     (let rid = trim rid0
      in if rid = [] then returnA False
         else
           bindA (sql begin_immediate) (\<lambda>_.
             handleA (mark_spent_in_tx rid actual src record_event now) (\<lambda>r.
               case r of
                 Inr (Applied changed) \<Rightarrow> bindA (sql commit) (\<lambda>_. returnA changed)
               | Inr EventRejected \<Rightarrow> bindA (sql rollback) (\<lambda>_. returnA False)
               | Inl (Fail e) \<Rightarrow> bindA rollback_quietly (\<lambda>_. failA e)
               | Inl Panic \<Rightarrow> liftA (Inl Panic))))"

definition mark_budget_spent :: "string \<Rightarrow> int \<Rightarrow> bool rail_action" where
  "mark_budget_spent rid actual =
     bindA (mark_spend_reservation_spent rid (Some actual) None False 0) (\<lambda>done.
       if done then returnA True
       else bindA (sql (exec (\<lambda>db. Inr (update_legacy
              (\<lambda>r. b_id r = rid \<and> b_status r = ''active'') ''spent'' db)))) (\<lambda>n. returnA (0 < n)))"

section \<open>Reads\<close>

definition get_spend_reservation_states ::
  "string list option \<Rightarrow> (string \<times> reservation_state) list rail_action" where
  "get_spend_reservation_states ids =
     (let collect = (\<lambda>rs. fold (\<lambda>r. bt_insert (s_id r) \<lparr>rs_status = s_status r, rs_reserved = s_reserved r\<rparr>) rs [])
      in case ids of
           Some xs \<Rightarrow>
             (let wanted = filter (\<lambda>r. trim r \<noteq> []) xs
              in if wanted = [] then returnA []
                 else bindA (sql (query (\<lambda>db. Inr (sort_key s_id
                        (filter (\<lambda>r. s_id r \<in> set wanted) (spend_reservations db)))))) (\<lambda>rs. returnA (collect rs)))
         | None \<Rightarrow>
             bindA (sql (query (\<lambda>db. Inr (take 10000 (sort_key s_id (spend_reservations db))))))
               (\<lambda>rs. returnA (collect rs)))"

definition get_category_spend_sats :: "string \<Rightarrow> string option \<Rightarrow> int \<Rightarrow> int rail_action" where
  "get_category_spend_sats category sub since =
     (let cat = to_lowercase (trim category)
      in sum_of (\<lambda>db. map e_amount (filter (\<lambda>e. e_category e = cat \<and> since \<le> e_at e \<and>
           (case sub of None \<Rightarrow> True | Some s \<Rightarrow> e_subcategory e = Some s)) (spend_events db))))"

section \<open>Sweeps\<close>

definition pending_ids :: "rail \<Rightarrow> sql_error + string set" where
  "pending_ids db =
     (case rebalance_history db of
        None \<Rightarrow> Inl (sql_plain ''no such table: rebalance_history'')
      | Some rows \<Rightarrow> Inr (set (map (\<lambda>(i, _). dec_int i) (filter (\<lambda>(_, st). st = ''pending_settlement'') rows))))"

definition cleanup_stale_reservations :: "int \<Rightarrow> int \<Rightarrow> int rail_action" where
  "cleanup_stale_reservations max_age now =
     bindA (chkA (now - max_age)) (\<lambda>cutoff.
     bindA (sql (exec (\<lambda>db. case pending_ids db of Inl e \<Rightarrow> Inl e | Inr pend \<Rightarrow>
       Inr (update_legacy (\<lambda>r. b_status r = ''active'' \<and> b_at r < cutoff \<and> b_id r \<notin> pend) ''released'' db)))) (\<lambda>n.
       handleA (sql (exec (\<lambda>db. case pending_ids db of Inl e \<Rightarrow> Inl e | Inr pend \<Rightarrow>
         Inr (update_spend (\<lambda>r. s_status r = ''active'' \<and> s_category r = ''rebalance'' \<and> s_at r < cutoff \<and>
           s_id r \<notin> pend) ''released'' db)))) (\<lambda>r.
         case r of
           Inr m \<Rightarrow> chkA (int n + int m)
         | Inl (Fail e) \<Rightarrow> returnA (int n)
         | Inl Panic \<Rightarrow> liftA (Inl Panic))))"

definition cleanup_stale_spend_reservations :: "int \<Rightarrow> string option \<Rightarrow> int \<Rightarrow> int rail_action" where
  "cleanup_stale_spend_reservations max_age category now =
     bindA (chkA (now - max_age)) (\<lambda>cutoff.
     bindA (sql (exec (\<lambda>db. Inr (update_spend (\<lambda>r. s_status r = ''active'' \<and> s_at r < cutoff \<and>
       (case category of
          Some cat \<Rightarrow> s_category r = to_lowercase (trim cat)
        | None \<Rightarrow> s_category r \<notin> set COMMITTED_ONCHAIN_SPEND_CATEGORIES)) ''released'' db)))) (\<lambda>n.
     returnA (int n)))"

definition count_stale_reservations :: "int \<Rightarrow> int \<Rightarrow> int rail_action" where
  "count_stale_reservations max_age now =
     bindA (chkA (now - max_age)) (\<lambda>cutoff.
       sql (query (\<lambda>db. Inr (int (length (filter (\<lambda>r. b_status r = ''active'' \<and> b_at r < cutoff)
         (budget_reservations db)))))))"

definition clear_all_reservations :: "clear_stats rail_action" where
  "clear_all_reservations =
     bindA (sql begin_immediate) (\<lambda>_.
       handleA
         (bindA (sql (query (\<lambda>db. case sql_sum 0 (legacy_holds db) of Inl e \<Rightarrow> Inl e
            | Inr s \<Rightarrow> Inr (int (length (legacy_holds db)), s)))) (\<lambda>(n, s).
          bindA (sql (exec (\<lambda>db. Inr (update_legacy (\<lambda>r. b_status r = ''active'') ''released'' db)))) (\<lambda>_.
          bindA (sql commit) (\<lambda>_. returnA \<lparr>cleared_count = n, released_sats = s\<rparr>)))) (\<lambda>r.
         case r of
           Inr stats \<Rightarrow> returnA stats
         | Inl (Fail e) \<Rightarrow> bindA rollback_quietly (\<lambda>_. failA e)
         | Inl Panic \<Rightarrow> liftA (Inl Panic)))"


section \<open>What is committed\<close>

text \<open>
  The committed total a limit is checked against: everything held now, whatever its
  age, and what was spent since the start of the window.
\<close>

definition held :: "rail \<Rightarrow> int" where
  "held db = sum_list (active_holds db) + sum_list (legacy_holds db)"

definition committed :: "int \<Rightarrow> rail \<Rightarrow> int" where
  "committed since db = held db + sum_list (costs_since since db) + sum_list (events_since since db)"

definition rail_ok :: "rail \<Rightarrow> bool" where
  "rail_ok db \<longleftrightarrow> distinct (map s_id (spend_reservations db)) \<and>
     distinct (map e_id (spend_events db)) \<and> distinct (map b_id (budget_reservations db))"

definition active_amount :: "rail \<Rightarrow> string \<Rightarrow> int" where
  "active_amount db rid =
     (case find_row s_id rid (spend_reservations db) of
        None \<Rightarrow> 0 | Some r \<Rightarrow> if s_status r = ''active'' then s_reserved r else 0)"

definition same :: "'d conn \<Rightarrow> 'd conn \<Rightarrow> bool" where
  "same c c' \<longleftrightarrow> disk c' = disk c \<and> txn c' = txn c"

lemma same_current: "same c c' \<Longrightarrow> current c' = current c"
  by (simp add: same_def current_def split: option.splits)

lemma same_refl [simp]: "same c c" by (simp add: same_def)

lemma same_trans: "same a b \<Longrightarrow> same b c \<Longrightarrow> same a c" by (simp add: same_def)

lemma sql_query_Inr:
  "sql (query f) c = (Inr v, c') \<Longrightarrow> f (current c) = Inr v \<and> same c c'"
  using query_Inr [of f c v c'] by (simp add: map_errA_Inr same_def)

lemma sum_of_Inr: "sum_of f c = (Inr v, c') \<Longrightarrow> v = sum_list (f (current c)) \<and> same c c'"
  unfolding sum_of_def by (drule sql_query_Inr) (auto dest: sql_sum_Inr)

lemma sum_of_from:
  "sum_of f b = (Inr v, c) \<Longrightarrow> same a b \<Longrightarrow> v = sum_list (f (current a)) \<and> same a c"
  using sum_of_Inr [of f b v c] same_current [of a b] same_trans [of a b c] by simp

lemma chkA_Inr: "chkA v c = (Inr w, c') \<longleftrightarrow> in_i64 v \<and> w = v \<and> c' = c"
  by (auto simp: chk_i64_def)

lemma weekly_check_Inr:
  assumes "weekly_check req amount gen reb ex c = (Inr v, c')"
  shows "same c c' \<and>
    (case (weekly_budget_limit req, weekly_since_timestamp req) of
       (Some limit, Some since) \<Rightarrow>
         (let rem = limit - (gen + reb + sum_list (costs_since since (current c))
                + sum_list (events_since since (current c)) - ex)
          in v = (if rem < amount then Inl rem else Inr (Some rem)))
     | _ \<Rightarrow> v = Inr None)"
proof (cases "weekly_budget_limit req = None \<or> weekly_since_timestamp req = None")
  case True
  then show ?thesis using assms by (auto simp: weekly_check_def split: option.splits)
next
  case False
  then obtain limit since where o: "weekly_budget_limit req = Some limit" "weekly_since_timestamp req = Some since"
    by auto
  with assms obtain s1 c1 s2 c2 where
    1: "sum_of (costs_since since) c = (Inr s1, c1)" and 2: "sum_of (events_since since) c1 = (Inr s2, c2)"
    and v: "v = (if limit - (s1 + reb + gen + s2 - ex) < amount then Inl (limit - (s1 + reb + gen + s2 - ex))
               else Inr (Some (limit - (s1 + reb + gen + s2 - ex))))" "c' = c2"
    by (auto simp: weekly_check_def bindA_eq_Inr chkA_Inr simp del: action_basic(2) split: if_splits)
  from sum_of_from [OF 1 same_refl] have e1: "s1 = sum_list (costs_since since (current c))" "same c c1" by auto
  from sum_of_from [OF 2 e1(2)] have e2: "s2 = sum_list (events_since since (current c))" "same c c2" by auto
  show ?thesis using v o e2(2) by (simp add: Let_def e1(1) e2(1) algebra_simps)
qed

lemma budget_check_None:
  "effective_budget_sats req = None \<Longrightarrow> budget_check req amount since ex c = (Inr (Inr (0, None)), c)"
  by (simp add: budget_check_def)

lemma budget_check_Inr:
  assumes "budget_check req amount since ex c = (Inr v, c')" "effective_budget_sats req = Some b"
  shows "same c c'"
    and "\<And>daily weekly. v = Inr (daily, weekly) \<Longrightarrow>
      daily = b - (committed since (current c) - ex) \<and> amount \<le> daily \<and>
      (case (weekly_budget_limit req, weekly_since_timestamp req) of
         (Some limit, Some ws) \<Rightarrow>
           weekly = Some (limit - (committed ws (current c) - ex)) \<and>
           amount \<le> limit - (committed ws (current c) - ex)
       | _ \<Rightarrow> weekly = None)"
    and "\<And>rem. v = Inl rem \<Longrightarrow> rem < amount"
proof -
  from assms obtain g c1 r c2 k c3 e c4 where
    1: "sum_of active_holds c = (Inr g, c1)" and 2: "sum_of legacy_holds c1 = (Inr r, c2)"
    and 3: "sum_of (costs_since since) c2 = (Inr k, c3)"
    and 4: "sum_of (events_since since) c3 = (Inr e, c4)"
    and rest: "(if b - (g + r + k + e - ex) < amount then returnA (Inl (b - (g + r + k + e - ex)))
       else bindA (weekly_check req amount g r ex) (\<lambda>w. case w of Inl rem \<Rightarrow> returnA (Inl rem)
         | Inr weekly \<Rightarrow> returnA (Inr (b - (g + r + k + e - ex), weekly)))) c4 = (Inr v, c')"
    by (auto simp: budget_check_def bindA_eq_Inr chkA_Inr simp del: action_basic(2))
  from sum_of_from [OF 1 same_refl] have e1: "g = sum_list (active_holds (current c))" "same c c1" by auto
  from sum_of_from [OF 2 e1(2)] have e2: "r = sum_list (legacy_holds (current c))" "same c c2" by auto
  from sum_of_from [OF 3 e2(2)] have e3: "k = sum_list (costs_since since (current c))" "same c c3" by auto
  from sum_of_from [OF 4 e3(2)] have e4: "e = sum_list (events_since since (current c))" "same c c4" by auto
  have daily: "b - (g + r + k + e - ex) = b - (committed since (current c) - ex)"
    by (simp add: committed_def held_def e1(1) e2(1) e3(1) e4(1))
  show "same c c'"
  proof (cases "b - (g + r + k + e - ex) < amount")
    case True
    with rest e4(2) show ?thesis by simp
  next
    case False
    with rest obtain w where w: "weekly_check req amount g r ex c4 = (Inr w, c')"
      by (auto simp: bindA_def split: prod.splits sum.splits)
    then have "same c4 c'" using weekly_check_Inr by blast
    with e4(2) show ?thesis by (rule same_trans)
  qed
  {
    fix rem assume v: "v = Inl rem"
    show "rem < amount"
    proof (cases "b - (g + r + k + e - ex) < amount")
      case True
      with rest v show ?thesis by simp
    next
      case False
      with rest v obtain w where w: "weekly_check req amount g r ex c4 = (Inr (Inl rem), c')"
        by (auto simp: bindA_def split: prod.splits sum.splits)
      from weekly_check_Inr [OF this] show ?thesis
        by (cases "weekly_budget_limit req"; cases "weekly_since_timestamp req")
          (auto simp: Let_def split: if_splits)
    qed
  }
  {
    fix d weekly assume v: "v = Inr (d, weekly)"
    then obtain w where w: "weekly_check req amount g r ex c4 = (Inr (Inr w), c')"
      and d: "d = b - (g + r + k + e - ex)" "weekly = w" "amount \<le> d"
      using rest by (auto simp: bindA_def split: if_splits prod.splits sum.splits)
    have cur: "current c4 = current c" by (rule same_current [OF e4(2)])
    note wk = weekly_check_Inr [OF w, unfolded cur]
    have com: "committed ws (current c) - ex = g + r + sum_list (costs_since ws (current c))
         + sum_list (events_since ws (current c)) - ex" for ws
      by (simp add: committed_def held_def e1(1) e2(1))
    show "d = b - (committed since (current c) - ex) \<and> amount \<le> d \<and>
      (case (weekly_budget_limit req, weekly_since_timestamp req) of
         (Some limit, Some ws) \<Rightarrow>
           weekly = Some (limit - (committed ws (current c) - ex)) \<and>
           amount \<le> limit - (committed ws (current c) - ex)
       | _ \<Rightarrow> weekly = None)"
      using wk d daily unfolding com
      by (auto simp: Let_def split: option.splits if_splits)
  }
qed


definition with_row :: "spend_row \<Rightarrow> rail \<Rightarrow> rail" where
  "with_row r db = db\<lparr>spend_reservations := replace_row s_id r (spend_reservations db)\<rparr>"

definition terminal_id :: "rail \<Rightarrow> string \<Rightarrow> bool" where
  "terminal_id db rid \<longleftrightarrow>
     (case find_row s_id rid (spend_reservations db) of None \<Rightarrow> False
      | Some r \<Rightarrow> s_status r = ''spent'' \<or> s_status r = ''released'')"

lemma status_of_Inr:
  "status_of rid c = (Inr v, c') \<Longrightarrow>
   v = map_option s_status (find_row s_id rid (spend_reservations (current c))) \<and> same c c'"
  unfolding status_of_def by (drule sql_query_Inr) auto

lemma reserved_of_Inr:
  "reserved_of rid c = (Inr v, c') \<Longrightarrow>
   v = map_option s_reserved (find_row s_id rid (spend_reservations (current c))) \<and> same c c'"
  unfolding reserved_of_def by (drule sql_query_Inr) auto

lemma insert_reservation_Inr:
  "insert_reservation r c = (Inr u, c') \<Longrightarrow> txn c = Some d \<Longrightarrow>
   disk c' = disk c \<and> txn c' = Some (with_row r d)"
  unfolding insert_reservation_def map_errA_Inr
  by (erule exec_Inr) (simp add: with_row_def current_def)

text \<open>The part of the body that finds what this id already holds.\<close>

lemma body_existing:
  assumes "reserve_spend_body req rid cat amount meta since now c = (Inr (g, rem), c')"
  shows "(terminal_id (current c) rid \<and> \<not> g \<and> rem = 0 \<and> same c c') \<or>
    (\<not> terminal_id (current c) rid \<and> (\<exists>c1. same c c1 \<and>
      bindA (budget_check req amount since (active_amount (current c) rid)) (\<lambda>verdict.
           case verdict of
             Inl remaining \<Rightarrow> returnA (False, remaining)
           | Inr (daily, weekly) \<Rightarrow>
               bindA (insert_reservation (reservation_row req rid cat amount meta now)) (\<lambda>_.
               after_grant req amount daily weekly)) c1 = (Inr (g, rem), c')))"
proof -
  from assms obtain ex c1 where st: "status_of rid c = (Inr ex, c1)"
    by (auto simp: reserve_spend_body_def bindA_eq_Inr)
  let ?row = "find_row s_id rid (spend_reservations (current c))"
  have ex: "ex = map_option s_status ?row" and s1: "same c c1" using status_of_Inr [OF st] by auto
  show ?thesis
  proof (cases "ex = Some ''spent'' \<or> ex = Some ''released''")
    case True
    then have "terminal_id (current c) rid" using ex by (auto simp: terminal_id_def)
    with True assms st s1 show ?thesis by (auto simp: reserve_spend_body_def bindA_def)
  next
    case False
    then have nt: "\<not> terminal_id (current c) rid" using ex by (auto simp: terminal_id_def split: option.splits)
    show ?thesis
    proof (cases "ex = Some ''active''")
      case True
      with assms st obtain v c2 where rv: "reserved_of rid c1 = (Inr v, c2)"
        by (auto simp: reserve_spend_body_def bindA_eq_Inr)
      from reserved_of_Inr [OF this] same_current [OF s1] have v: "v = map_option s_reserved ?row"
        and s2: "same c1 c2" by auto
      have "(case v of None \<Rightarrow> 0 | Some x \<Rightarrow> x) = active_amount (current c) rid"
        using v ex True by (auto simp: active_amount_def split: option.splits)
      with assms st rv True nt same_trans [OF s1 s2] show ?thesis
        by (intro disjI2 conjI exI [of _ c2]) (simp_all add: reserve_spend_body_def bindA_def)
    next
      case na: False
      then have "active_amount (current c) rid = 0"
        using ex by (auto simp: active_amount_def split: option.splits)
      with assms st na False nt s1 show ?thesis
        by (intro disjI2 conjI exI [of _ c1]) (simp_all add: reserve_spend_body_def bindA_def)
    qed
  qed
qed

lemma after_grant_Inr:
  "after_grant req amount daily weekly c = (Inr (g, rem), c') \<Longrightarrow> g \<and> c' = c \<and>
     rem = (if effective_budget_sats req = None then 0
            else case weekly of None \<Rightarrow> daily - amount | Some w \<Rightarrow> min (daily - amount) (w - amount))"
  by (auto simp: after_grant_def bindA_eq_Inr chkA_Inr simp del: action_basic(2) split: if_splits option.splits)

definition within_limits :: "reserve_request \<Rightarrow> int \<Rightarrow> int \<Rightarrow> string \<Rightarrow> rail \<Rightarrow> bool" where
  "within_limits req amount since rid db \<longleftrightarrow>
     (\<forall>b. effective_budget_sats req = Some b \<longrightarrow>
        committed since db - active_amount db rid + amount \<le> b \<and>
        (\<forall>limit ws. weekly_budget_limit req = Some limit \<longrightarrow> weekly_since_timestamp req = Some ws \<longrightarrow>
           committed ws db - active_amount db rid + amount \<le> limit))"

lemma body_Inr:
  assumes "reserve_spend_body req rid cat amount meta since now c = (Inr (g, rem), c')" "txn c = Some d"
  shows "disk c' = disk c"
    and "\<not> g \<Longrightarrow> txn c' = Some d"
    and "g \<Longrightarrow> txn c' = Some (with_row (reservation_row req rid cat amount meta now) d) \<and>
       \<not> terminal_id d rid \<and> within_limits req amount since rid d"
proof -
  have cur: "current c = d" using assms(2) by (simp add: current_def)
  note be = body_existing [OF assms(1), unfolded cur]
  have *: "disk c' = disk c \<and> (\<not> g \<longrightarrow> txn c' = Some d) \<and>
     (g \<longrightarrow> txn c' = Some (with_row (reservation_row req rid cat amount meta now) d) \<and>
        within_limits req amount since rid d)"
  proof (cases "terminal_id d rid")
    case True
    with be assms(2) show ?thesis by (auto simp: same_def)
  next
    case False
    with be obtain c1 v c2 where s1: "same c c1"
      and bc: "budget_check req amount since (active_amount d rid) c1 = (Inr v, c2)"
      and k: "(case v of Inl remaining \<Rightarrow> returnA (False, remaining)
           | Inr (daily, weekly) \<Rightarrow>
               bindA (insert_reservation (reservation_row req rid cat amount meta now)) (\<lambda>_.
               after_grant req amount daily weekly)) c2 = (Inr (g, rem), c')"
      by (auto simp: bindA_eq_Inr)
    have cur1: "current c1 = d" using same_current [OF s1] cur by simp
    have s2: "same c1 c2"
    proof (cases "effective_budget_sats req")
      case None
      then show ?thesis using bc by (simp add: budget_check_None)
    next
      case (Some b)
      then show ?thesis by (rule budget_check_Inr(1) [OF bc])
    qed
    have t2: "txn c2 = Some d" "disk c2 = disk c" using s1 s2 assms(2) by (simp_all add: same_def)
    show ?thesis
    proof (cases v)
      case (Inl rem')
      with k t2 show ?thesis by auto
    next
      case (Inr p)
      obtain daily weekly where p: "p = (daily, weekly)" by (cases p)
      with k Inr obtain u c3 where ins: "insert_reservation (reservation_row req rid cat amount meta now) c2 = (Inr u, c3)"
        and ag: "after_grant req amount daily weekly c3 = (Inr (g, rem), c')"
        by (auto simp: bindA_eq_Inr)
      have "within_limits req amount since rid d"
        unfolding within_limits_def
        using budget_check_Inr(2) [OF bc _ Inr [unfolded p]] cur1
        by (auto split: option.splits)
      with after_grant_Inr [OF ag] insert_reservation_Inr [OF ins t2(1)] t2(2) show ?thesis by auto
    qed
  qed
  have "g \<Longrightarrow> \<not> terminal_id d rid" using be by auto
  with * show "disk c' = disk c" "\<not> g \<Longrightarrow> txn c' = Some d"
    "g \<Longrightarrow> txn c' = Some (with_row (reservation_row req rid cat amount meta now) d) \<and>
       \<not> terminal_id d rid \<and> within_limits req amount since rid d" by auto
qed


section \<open>A grant stays within the limits\<close>

lemma sum_replace_row:
  "distinct (map key rs) \<Longrightarrow>
   sum_list (map f (filter P (replace_row key r rs))) =
     sum_list (map f (filter P rs))
     - (case find_row key (key r) rs of None \<Rightarrow> 0 | Some x \<Rightarrow> if P x then f x else 0)
     + (if P r then f r else (0 :: int))"
proof (induction rs)
  case (Cons x rs)
  have same: "filter (\<lambda>y. key y \<noteq> key r) rs = rs" if "key x = key r"
    using Cons.prems that by (intro filter_True) (simp, metis imageI)
  show ?case
    using Cons same by (cases "P r") (auto simp: replace_row_def find_row_def)
qed (simp add: replace_row_def find_row_def)

lemma committed_with_row:
  assumes "rail_ok db" "s_status r = ''active''"
  shows "committed since (with_row r db) = committed since db - active_amount db (s_id r) + s_reserved r"
proof -
  have "sum_list (active_holds (with_row r db)) =
      sum_list (active_holds db) - active_amount db (s_id r) + s_reserved r"
    using sum_replace_row [of s_id "spend_reservations db" s_reserved "\<lambda>r. s_status r = ''active''" r] assms
    by (simp add: active_holds_def with_row_def rail_ok_def active_amount_def)
  moreover have "legacy_holds (with_row r db) = legacy_holds db"
    "costs_since since (with_row r db) = costs_since since db"
    "events_since since (with_row r db) = events_since since db"
    by (simp_all add: legacy_holds_def costs_since_def events_since_def with_row_def)
  ultimately show ?thesis by (simp add: committed_def held_def)
qed

definition window_start :: "reserve_request \<Rightarrow> int \<Rightarrow> int" where
  "window_start req now = (case since_timestamp req of None \<Rightarrow> now - 24 * 3600 | Some t \<Rightarrow> t)"

definition request_row :: "reserve_request \<Rightarrow> string option \<Rightarrow> int \<Rightarrow> spend_row" where
  "request_row req meta now =
     reservation_row req (trim (req_id req)) (to_lowercase (trim (req_category req)))
       (sanitize_amount (req_amount req)) meta now"

lemma reserve_front_cases:
  assumes "reserve_front req now k c = (r, c')"
  obtains "r \<noteq> Inr (True, 0)" "\<forall>rem. r \<noteq> Inr (True, rem)" "c' = c"
  | meta where "0 < sanitize_amount (req_amount req)" "trim (req_id req) \<noteq> []"
      "metadata_json (req_metadata req) = Inr meta" "in_i64 (now - 24 * 3600)"
      "k (trim (req_id req)) (to_lowercase (trim (req_category req)))
         (sanitize_amount (req_amount req)) meta (window_start req now) c = (r, c')"
proof (cases "sanitize_amount (req_amount req) \<le> 0 \<or> trim (req_id req) = [] \<or>
    to_lowercase (trim (req_category req)) = []")
  case True
  then have "r = Inr (False, 0) \<and> c' = c"
    using assms by (auto simp: reserve_front_def Let_def split: if_splits)
  then show ?thesis by (intro that(1)) auto
next
  case ok: False
  show ?thesis
  proof (cases "metadata_json (req_metadata req)")
    case (Inl e)
    with ok assms have "r = Inl e \<and> c' = c" by (auto simp: reserve_front_def Let_def bindA_def)
    then show ?thesis by (intro that(1)) auto
  next
    case meta: (Inr meta)
    show ?thesis
    proof (cases "in_i64 (now - 24 * 3600)")
      case True
      then have ck: "chk_i64 (now - 24 * 3600) = (Inr (now - 24 * 3600) :: (budget_error, int) result)"
        by (simp add: chk_i64_def)
      have "k (trim (req_id req)) (to_lowercase (trim (req_category req)))
         (sanitize_amount (req_amount req)) meta (window_start req now) c = (r, c')"
        using ok assms meta ck
        by (simp add: reserve_front_def Let_def bindA_def window_start_def split: option.splits)
      with ok meta True show ?thesis by (intro that(2)) auto
    next
      case False
      then have ck: "chk_i64 (now - 24 * 3600) = (Inl Panic :: (budget_error, int) result)"
        by (simp add: chk_i64_def)
      have "r = Inl Panic \<and> c' = c"
        using ok assms meta ck by (simp add: reserve_front_def Let_def bindA_def)
      then show ?thesis by (intro that(1)) auto
    qed
  qed
qed

lemma sql_begin_Inr: "sql begin_immediate c = (Inr u, c') \<Longrightarrow>
   txn c = None \<and> txn c' = Some (disk c) \<and> disk c' = disk c"
  using begin_Inr [of c u c'] by (simp add: map_errA_Inr)

lemma sql_begin_disk: "sql begin_immediate c = (r, c') \<Longrightarrow> disk c' = disk c"
  by (erule map_errA_cases) (auto dest: begin_Inr(3) begin_Inl)

lemma sql_commit_Inr: "sql commit c = (Inr u, c') \<Longrightarrow> txn c = Some (disk c') \<and> txn c' = None"
  using commit_Inr [of c u c'] by (simp add: map_errA_Inr)

lemmas rail_statements =
  status_of_def reserved_of_def insert_reservation_def sum_of_def

lemma confined_statements [confined_intros]:
  "confined (status_of rid)" "confined (reserved_of rid)" "confined (insert_reservation r)"
  "confined (sum_of f)"
  unfolding rail_statements by (intro confined_intros)+

lemma confined_weekly: "confined (weekly_check req amount g r ex)"
  unfolding weekly_check_def
  by (auto intro!: confined_intros split: option.splits)

lemma confined_budget: "confined (budget_check req amount since ex)"
  unfolding budget_check_def
  by (auto intro!: confined_intros confined_weekly split: option.splits sum.splits)

lemma confined_body: "confined (reserve_spend_body req rid cat amount meta since now)"
  unfolding reserve_spend_body_def after_grant_def
  by (auto intro!: confined_intros confined_budget split: option.splits sum.splits)

text \<open>A transaction around a confined body, committed on success and rolled back on failure.\<close>

definition in_transaction :: "'a rail_action \<Rightarrow> 'a rail_action" where
  "in_transaction body =
     bindA (sql begin_immediate) (\<lambda>_.
       handleA body (\<lambda>r.
         case r of
           Inr granted \<Rightarrow> bindA (sql commit) (\<lambda>_. returnA granted)
         | Inl (Fail e) \<Rightarrow> bindA rollback_quietly (\<lambda>_. failA e)
         | Inl Panic \<Rightarrow> liftA (Inl Panic)))"

lemma in_transaction_cases:
  assumes "in_transaction body c = (r, c')" "confined body"
  obtains e where "r = Inl e" "disk c' = disk c"
  | a c1 c2 where "r = Inr a" "txn c1 = Some (disk c)" "disk c1 = disk c" "body c1 = (Inr a, c2)"
      "txn c2 = Some (disk c')" "txn c' = None"
proof -
  obtain rb c1 where b: "sql begin_immediate c = (rb, c1)" by fastforce
  show thesis
  proof (cases rb)
    case (Inl e)
    with b assms(1) sql_begin_disk [OF b] show thesis
      by (intro that(1) [of e]) (auto simp: in_transaction_def bindA_def)
  next
    case (Inr u)
    note t = sql_begin_Inr [OF b [unfolded Inr]]
    obtain ry c2 where y: "body c1 = (ry, c2)" by fastforce
    have d2: "disk c2 = disk c" using confinedD(1) [OF assms(2) _ y] t by simp
    show thesis
    proof (cases ry)
      case (Inr a)
      obtain rc c3 where cm: "sql commit c2 = (rc, c3)" by fastforce
      show thesis
      proof (cases rc)
        case (Inl e)
        with assms(1) b y \<open>rb = Inr u\<close> \<open>ry = Inr a\<close> cm commit_errA_Inl [of BSqlite c2 e c3] d2
        show thesis by (intro that(1) [of e]) (auto simp: in_transaction_def bindA_def handleA_def)
      next
        case (Inr u')
        with assms(1) b y \<open>rb = Inr u\<close> \<open>ry = Inr a\<close> cm have "r = Inr a" "c' = c3"
          by (auto simp: in_transaction_def bindA_def handleA_def)
        with sql_commit_Inr [OF cm [unfolded Inr]] t y \<open>ry = Inr a\<close> show thesis
          by (intro that(2) [of a c1 c2]) auto
      qed
    next
      case (Inl e)
      show thesis
      proof (cases e)
        case (Fail x)
        obtain rr c3 where rb': "rollback c2 = (rr, c3)" by fastforce
        with rollback_disk [OF this] d2 assms(1) b y \<open>rb = Inr u\<close> Inl Fail show thesis
          by (intro that(1) [of "Fail x"])
            (auto simp: in_transaction_def bindA_def handleA_def rollback_quietly_def)
      next
        case Panic
        with d2 assms(1) b y \<open>rb = Inr u\<close> Inl show thesis
          by (intro that(1) [of Panic]) (auto simp: in_transaction_def bindA_def handleA_def)
      qed
    qed
  qed
qed

lemma reserve_spend_tx:
  "reserve_spend req now = reserve_front req now (\<lambda>rid cat amount meta since.
     in_transaction (reserve_spend_body req rid cat amount meta since now))"
  by (simp add: reserve_spend_def in_transaction_def)

lemma reserve_spend_granted:
  assumes "reserve_spend req now c = (Inr (g, rem), c')" "g"
  obtains meta where "disk c' = with_row (request_row req meta now) (disk c)" "txn c' = None"
    "metadata_json (req_metadata req) = Inr meta" "\<not> terminal_id (disk c) (trim (req_id req))"
    "within_limits req (sanitize_amount (req_amount req)) (window_start req now) (trim (req_id req)) (disk c)"
    "0 < sanitize_amount (req_amount req)"
proof -
  from assms obtain meta where pos: "0 < sanitize_amount (req_amount req)"
    and meta: "metadata_json (req_metadata req) = Inr meta"
    and k: "in_transaction (reserve_spend_body req (trim (req_id req)) (to_lowercase (trim (req_category req)))
      (sanitize_amount (req_amount req)) meta (window_start req now) now) c = (Inr (g, rem), c')"
    unfolding reserve_spend_tx by (elim reserve_front_cases) auto
  from k confined_body show thesis
  proof (cases rule: in_transaction_cases)
    case (2 a c1 c2)
    from 2(1,4) have body: "reserve_spend_body req (trim (req_id req)) (to_lowercase (trim (req_category req)))
      (sanitize_amount (req_amount req)) meta (window_start req now) now c1 = (Inr (g, rem), c2)" by simp
    from body_Inr(3) [OF body 2(2) assms(2)] 2 pos meta show thesis
      by (intro that) (auto simp: request_row_def)
  qed simp
qed

text \<open>C28. The budget rail never overspends: when a reservation is granted, whatever the engine
  did on the way, the committed total of the data now on disk (all active holds of both
  tables, whatever their age, and the costs and events of the window) is at most the
  daily budget, and at most the weekly limit over its own window when one is given.\<close>

theorem reserve_spend_within_budget:
  assumes "reserve_spend req now c = (Inr (True, rem), c')" "rail_ok (disk c)"
    and "effective_budget_sats req = Some b"
  shows "committed (window_start req now) (disk c') \<le> b \<and>
    (\<forall>limit ws. weekly_budget_limit req = Some limit \<longrightarrow> weekly_since_timestamp req = Some ws \<longrightarrow>
       committed ws (disk c') \<le> limit)"
proof -
  from assms(1) obtain meta where d: "disk c' = with_row (request_row req meta now) (disk c)"
    and w: "within_limits req (sanitize_amount (req_amount req)) (window_start req now)
      (trim (req_id req)) (disk c)"
    by (rule reserve_spend_granted) simp_all
  have "committed since (disk c') =
      committed since (disk c) - active_amount (disk c) (trim (req_id req)) + sanitize_amount (req_amount req)" for since
    using committed_with_row [OF assms(2)] d by (simp add: request_row_def reservation_row_def)
  then show ?thesis using w assms(3) by (simp add: within_limits_def)
qed

definition sample_request :: reserve_request where
  "sample_request =
     \<lparr>req_id = ''r1'', req_amount = 400, req_category = ''Rebalance'', req_subcategory = None,
      req_reference = None, req_channel = Some ''1x1x1'', req_metadata = None,
      effective_budget_sats = Some 1000, since_timestamp = Some 50,
      weekly_budget_limit = None, weekly_since_timestamp = None\<rparr>"

definition sample_rail :: rail where
  "sample_rail =
     \<lparr>spend_reservations = [], budget_reservations = [\<lparr>b_id = ''old'', b_reserved = 500, b_at = 1,
        b_channel = ''2x2x2'', b_status = ''active''\<rparr>],
      spend_events = [], rebalance_costs = [(Some 70, Some 60), (Some 900, Some 40)],
      rebalance_history = None\<rparr>"

definition quiet :: "'d \<Rightarrow> 'd conn" where
  "quiet d = \<lparr>disk = d, txn = None, script = []\<rparr>"


lemmas lower_eval = to_lowercase_def ascii_lower_def char_of_def bit_iff_odd

lemma trim_sample [simp]: "trim ''r1'' = ''r1''" "to_lowercase (trim ''Rebalance'') = ''rebalance''"
proof -
  show "trim ''r1'' = ''r1''" by (rule trim_printable; simp add: printable_def)
  have "trim ''Rebalance'' = ''Rebalance''" by (rule trim_printable; simp add: printable_def)
  then show "to_lowercase (trim ''Rebalance'') = ''rebalance''" by (simp add: lower_eval)
qed

lemma sample_reserve:
  "reserve_spend sample_request 100 (quiet sample_rail) =
     (Inr (True, 30), quiet (with_row (request_row sample_request None 100) sample_rail))"
  by (simp add: reserve_spend_def reserve_front_def sample_request_def sample_rail_def quiet_def Let_def
      sanitize_amount_def MAX_AMOUNT_SATS_def metadata_json_def bindA_def handleA_def chk_i64_def in_i64_alt
      reserve_spend_body_def status_of_def budget_check_def weekly_check_def sum_of_def active_holds_def
      legacy_holds_def costs_since_def events_since_def List.map_filter_simps after_grant_def
      insert_reservation_def map_errA_def current_def store_def find_row_def replace_row_def
      request_row_def reservation_row_def with_row_def)

theorem reserve_spend_within_budget_witness:
  "committed 50 (with_row (request_row sample_request None 100) sample_rail) \<le> 1000"
  using reserve_spend_within_budget [OF sample_reserve]
  by (simp add: rail_ok_def quiet_def sample_rail_def sample_request_def window_start_def)

lemma reserve_spend_declined:
  assumes "reserve_spend req now c = (Inr (False, rem), c')" "txn c = None"
  shows "disk c' = disk c \<and> txn c' = None"
  using assms(1) unfolding reserve_spend_tx
proof (cases rule: reserve_front_cases)
  case (2 meta)
  from 2(5) confined_body show ?thesis
  proof (cases rule: in_transaction_cases)
    case (2 a c1 c2)
    from body_Inr(2) [OF 2(4) [folded 2(1)] 2(2)] 2 show ?thesis by simp
  qed simp
qed (use assms(2) in simp)

text \<open>A refusal leaves no trace: when \<open>reserve_spend\<close> does not grant, by a limit, a
  terminal id, a rejected argument, an engine error or a panic, the data on disk is
  unchanged; and a reservation id that was settled or released is never granted again.\<close>

theorem reserve_spend_refusal_inert:
  assumes "reserve_spend req now c = (r, c')"
  shows "((\<exists>rem. r = Inr (True, rem)) \<or> disk c' = disk c) \<and>
    (terminal_id (disk c) (trim (req_id req)) \<longrightarrow> (\<forall>rem. r \<noteq> Inr (True, rem)))"
proof (intro conjI impI)
  show "(\<exists>rem. r = Inr (True, rem)) \<or> disk c' = disk c"
    using assms unfolding reserve_spend_tx
  proof (cases rule: reserve_front_cases)
    case (2 meta)
    from 2(5) confined_body show ?thesis
    proof (cases rule: in_transaction_cases)
      case (2 a c1 c2)
      obtain g rem where a: "a = (g, rem)" by (cases a)
      from body_Inr(2) [OF 2(4) [unfolded a] 2(2)] 2 a show ?thesis by (cases g) auto
    qed simp
  qed simp
  assume "terminal_id (disk c) (trim (req_id req))"
  then show "\<forall>rem. r \<noteq> Inr (True, rem)"
    using assms by (auto elim!: reserve_spend_granted)
qed

theorem reserve_spend_refusal_inert_witness:
  "disk (snd (reserve_spend (sample_request\<lparr>req_amount := 431\<rparr>) 100 (quiet sample_rail))) = sample_rail"
proof -
  have "fst (reserve_spend (sample_request\<lparr>req_amount := 431\<rparr>) 100 (quiet sample_rail)) = Inr (False, 430)"
    by (simp add: reserve_spend_def reserve_front_def sample_request_def sample_rail_def quiet_def Let_def
      sanitize_amount_def MAX_AMOUNT_SATS_def metadata_json_def bindA_def handleA_def chk_i64_def in_i64_alt
      reserve_spend_body_def status_of_def budget_check_def weekly_check_def sum_of_def active_holds_def
      legacy_holds_def costs_since_def events_since_def List.map_filter_simps after_grant_def
      insert_reservation_def map_errA_def current_def store_def find_row_def replace_row_def)
  then show ?thesis
    using reserve_spend_refusal_inert [OF prod.collapse [symmetric],
        of "sample_request\<lparr>req_amount := 431\<rparr>" 100 "quiet sample_rail"]
    by (auto simp: quiet_def)
qed


section \<open>Settlement\<close>

definition with_event :: "event_row \<Rightarrow> rail \<Rightarrow> rail" where
  "with_event r db = db\<lparr>spend_events := replace_row e_id r (spend_events db)\<rparr>"

lemma insert_event_cases:
  assumes "insert_event row c = (r, c')"
  obtains "r = Inr ()" "txn c \<noteq> None" "disk c' = disk c" "txn c' = map_option (with_event row) (txn c)"
  | "r = Inr ()" "txn c = None" "txn c' = None" "disk c' = with_event row (disk c)"
  | e where "r = Inl (Fail e)" "disk c' = disk c" "txn c' = txn c \<or> txn c' = None"
  using assms pop_fields [of c]
  by (auto simp: insert_event_def exec_def engine_fails_def store_def current_def with_event_def
      split: prod.splits option.splits if_splits)

text \<open>
  The retries, in or out of a transaction (a statement error may have rolled it back):
  they never touch the reservations, and a transaction still open at the end holds the
  event if they succeeded.
\<close>

lemma event_attempts_frame:
  "event_attempts n last_err row c = (v, c') \<Longrightarrow>
   spend_reservations (disk c') = spend_reservations (disk c) \<and> v \<noteq> Inr False \<and>
   (txn c = None \<longrightarrow> txn c' = None) \<and>
   (\<forall>d d'. txn c = Some d \<longrightarrow> txn c' = Some d' \<longrightarrow> v = Inr True \<longrightarrow> d' = with_event row d)"
proof (induction n last_err row arbitrary: c rule: event_attempts.induct)
  case (1 last_err row)
  then show ?case by (auto split: option.splits)
next
  case (2 n last_err row)
  obtain r c1 where i: "insert_event row c = (r, c1)" by fastforce
  from i show ?case
  proof (cases rule: insert_event_cases)
    case 1
    with 2(2) i show ?thesis by (auto simp: handleA_def)
  next
    case 2
    with 2(2) i "2.prems" show ?thesis by (auto simp: handleA_def with_event_def)
  next
    case (3 e)
    show ?thesis
    proof (cases "is_busy_or_locked e")
      case True
      with "2.prems" i 3 have "event_attempts n (Some e) row c1 = (v, c')" by (simp add: handleA_def)
      from "2.IH" [OF True this] 3 show ?thesis by auto
    next
      case False
      with "2.prems" i 3 show ?thesis by (auto simp: handleA_def)
    qed
  qed
qed


lemma trim_resv: "trim rid = rid \<Longrightarrow> trim (''resv:'' @ rid) = ''resv:'' @ rid"
proof (rule trim_prefixed)
  have "list_all (\<lambda>w. w \<noteq> [] \<and> hd w \<noteq> CHR ''r'' \<and> CHR '':'' \<notin> set w) white_space" by code_simp
  then show "\<forall>w \<in> set white_space. w \<noteq> [] \<and> hd w \<noteq> hd ''resv:'' \<and> last ''resv:'' \<notin> set w"
    by (simp add: list_all_iff)
qed simp_all

definition marks :: "string \<Rightarrow> spend_row \<Rightarrow> bool" where
  "marks rid r \<longleftrightarrow> s_id r = rid \<and> s_status r = ''active''"

lemma record_spend_event_on_cases:
  assumes "record_spend_event_on ev c = (v, c')"
  obtains "v \<noteq> Inr True" "c' = c"
  | row where "event_attempts 3 None row c = (v, c')" "e_id row = trim (se_id ev)"
      "e_amount row = sanitize_amount (se_amount ev)" "e_at row = se_timestamp ev" "0 < e_amount row"
proof (cases "trim (se_id ev) = [] \<or> to_lowercase (trim (se_category ev)) = [] \<or> sanitize_amount (se_amount ev) \<le> 0")
  case True
  with assms show thesis by (intro that(1)) (auto simp: record_spend_event_on_def Let_def split: if_splits)
next
  case False
  show thesis
  proof (cases "metadata_json (se_metadata ev)")
    case (Inl e)
    with False assms show thesis
      by (intro that(1)) (auto simp: record_spend_event_on_def Let_def bindA_def)
  next
    case (Inr meta)
    with False assms show thesis
      by (intro that(2)) (auto simp: record_spend_event_on_def Let_def bindA_def)
  qed
qed

lemma sanitize_idem [simp]: "sanitize_amount (sanitize_amount a) = sanitize_amount a"
  by (simp add: sanitize_amount_def MAX_AMOUNT_SATS_def)

text \<open>The settled data: the reservation spent, its event written.\<close>

definition settles :: "string \<Rightarrow> int option \<Rightarrow> int \<Rightarrow> rail \<Rightarrow> rail \<Rightarrow> bool" where
  "settles rid actual now d d' \<longleftrightarrow>
     (\<exists>row ev. find_row s_id rid (spend_reservations d) = Some row \<and>
        d' = with_event ev (snd (update_spend (marks rid) ''spent'' d)) \<and>
        e_id ev = ''resv:'' @ rid \<and> e_at ev = now \<and> 0 < e_amount ev \<and>
        e_amount ev = sanitize_amount (case actual of None \<Rightarrow> s_reserved row | Some a \<Rightarrow> a)) \<and>
     (\<exists>r \<in> set (spend_reservations d). marks rid r)"

lemma sql_exec_Inr:
  assumes "sql (exec f) c = (Inr a, c')" "txn c = Some d"
  shows "\<exists>d'. f d = Inr (a, d') \<and> txn c' = Some d' \<and> disk c' = disk c"
  using assms unfolding map_errA_Inr by (auto elim!: exec_Inr simp: current_def)

lemma update_spend_count:
  "update_spend P st d = (n, d') \<Longrightarrow> n = length (filter P (spend_reservations d)) \<and>
     d' = d\<lparr>spend_reservations := map (\<lambda>r. if P r then r\<lparr>s_status := st\<rparr> else r) (spend_reservations d)\<rparr>"
  by (auto simp: update_spend_def update_rows_def)

lemma update_spend_none:
  "update_spend P st d = (0, d') \<Longrightarrow> d' = d"
proof -
  assume u: "update_spend P st d = (0, d')"
  then have "\<forall>r \<in> set (spend_reservations d). \<not> P r"
    using update_spend_count [OF u] by (simp add: filter_empty_conv)
  then have "map (\<lambda>r. if P r then r\<lparr>s_status := st\<rparr> else r) (spend_reservations d) = spend_reservations d"
    by (intro map_idI) simp
  with update_spend_count [OF u] show ?thesis by simp
qed

lemma mark_spent_in_tx_outcome:
  assumes "mark_spent_in_tx rid actual src True now c = (v, c')" "txn c = Some d" "trim rid = rid"
  shows "spend_reservations (disk c') = spend_reservations (disk c) \<and>
    (\<forall>d'. txn c' = Some d' \<longrightarrow> v = Inr (Applied True) \<longrightarrow> settles rid actual now d d') \<and>
    (\<forall>d'. txn c' = Some d' \<longrightarrow> v = Inr (Applied False) \<longrightarrow> d' = d)"
proof (cases "rid = []")
  case True
  with assms show ?thesis by (auto simp: mark_spent_in_tx_def Let_def)
next
  case ne: False
  let ?f = "\<lambda>db. Inr (find_row s_id rid (spend_reservations db)) :: sql_error + spend_row option"
  let ?u = "\<lambda>db. Inr (update_spend (marks rid) ''spent'' db) :: sql_error + (nat \<times> rail)"
  note m = assms(1) [unfolded mark_spent_in_tx_def Let_def assms(3), folded marks_def [abs_def]]
  obtain q c1 where q: "sql (query ?f) c = (q, c1)" by fastforce
  have dq: "disk c1 = disk c"
    using confinedD(1) [of "sql (query ?f)" c q c1] q assms(2) by (simp add: confined_intros)
  show ?thesis
  proof (cases q)
    case (Inl e)
    with m ne q dq show ?thesis by (auto simp: bindA_def)
  next
    case (Inr found)
    from sql_query_Inr [OF q [unfolded Inr]] assms(2) have
      f: "found = find_row s_id rid (spend_reservations d)" and t1: "txn c1 = Some d"
      by (auto simp: current_def same_def)
    show ?thesis
    proof (cases found)
      case None
      with m ne q Inr t1 dq show ?thesis by (auto simp: bindA_def)
    next
      case (Some row)
      obtain w c2 where w: "sql (exec ?u) c1 = (w, c2)" by fastforce
      have dw: "disk c2 = disk c1"
        using confinedD(1) [of "sql (exec ?u)" c1 w c2] w t1 by (simp add: confined_intros)
      show ?thesis
      proof (cases w)
        case (Inl e)
        with m ne q \<open>q = Inr found\<close> Some w dq dw show ?thesis
          by (auto simp: bindA_def marks_def [abs_def])
      next
        case wn: (Inr n)
        from sql_exec_Inr [OF w [unfolded wn] t1] obtain d1 where
          u: "update_spend (marks rid) ''spent'' d = (n, d1)" and t2: "txn c2 = Some d1" by auto
        show ?thesis
        proof (cases "0 < n")
          case False
          with m ne q \<open>q = Inr found\<close> Some w wn t2 dq dw u update_spend_none show ?thesis
            by (auto simp: bindA_def marks_def [abs_def])
        next
          case pos: True
          let ?ev = "\<lparr>se_id = ''resv:'' @ rid, se_category = s_category row,
                        se_amount = sanitize_amount (case actual of None \<Rightarrow> s_reserved row | Some a \<Rightarrow> a),
                        se_subcategory = s_subcategory row, se_timestamp = now,
                        se_reference = s_reference row, se_channel = s_channel row,
                        se_source = Some (case src of None \<Rightarrow> ''reservation_settlement'' | Some s \<Rightarrow> s),
                        se_metadata = Some (JObj [(''reservation_id'', JStr rid)])\<rparr>"
          obtain z c3 where z: "record_spend_event_on ?ev c2 = (z, c3)" by fastforce
          have v: "v = (case z of Inl e \<Rightarrow> Inl e | Inr ok \<Rightarrow> Inr (if ok then Applied True else EventRejected))"
            and c3: "c' = c3"
            using m ne q \<open>q = Inr found\<close> Some w wn pos z
            by (auto simp: bindA_def marks_def [abs_def] split: sum.splits if_splits)
          from z show ?thesis
          proof (cases rule: record_spend_event_on_cases)
            case 1
            with v c3 dq dw t2 show ?thesis by (auto split: sum.splits if_splits)
          next
            case (2 er)
            note fr = event_attempts_frame [OF 2(1)]
            have "settles rid actual now d d'" if "txn c3 = Some d'" "z = Inr True" for d'
              unfolding settles_def
            proof (intro conjI exI)
              show "find_row s_id rid (spend_reservations d) = Some row" using f Some by simp
              show "d' = with_event er (snd (update_spend (marks rid) ''spent'' d))"
                using fr t2 that u by auto
              show "e_id er = ''resv:'' @ rid" using 2 trim_resv [OF assms(3)] by simp
              show "\<exists>r \<in> set (spend_reservations d). marks rid r"
                using pos update_spend_count [OF u] by (auto simp: filter_empty_conv)
            qed (use 2 in auto)
            moreover have "z \<noteq> Inr False" using fr by simp
            ultimately show ?thesis using v c3 fr dq dw by (auto split: sum.splits if_splits)
          qed
        qed
      qed
    qed
  qed
qed


lemma settles_reservations:
  "settles rid actual now d d' \<Longrightarrow> spend_reservations d' =
     map (\<lambda>r. if marks rid r then r\<lparr>s_status := ''spent''\<rparr> else r) (spend_reservations d)"
  by (auto simp: settles_def with_event_def update_spend_def update_rows_def)

lemma mark_spent_outcome:
  assumes "mark_spend_reservation_spent rid0 actual src True now c = (r, c')"
  shows "(r \<noteq> Inr True \<and> spend_reservations (disk c') = spend_reservations (disk c)) \<or>
    (r = Inr True \<and> settles (trim rid0) actual now (disk c) (disk c') \<and> txn c' = None)"
proof (cases "trim rid0 = []")
  case True
  with assms show ?thesis by (auto simp: mark_spend_reservation_spent_def)
next
  case ne: False
  let ?body = "mark_spent_in_tx (trim rid0) actual src True now"
  obtain rb c1 where b: "sql begin_immediate c = (rb, c1)" by fastforce
  show ?thesis
  proof (cases rb)
    case (Inl e)
    with b assms ne sql_begin_disk [OF b] show ?thesis
      by (auto simp: mark_spend_reservation_spent_def bindA_def)
  next
    case rb: (Inr u)
    note t = sql_begin_Inr [OF b [unfolded rb]]
    obtain v c2 where y: "?body c1 = (v, c2)" by fastforce
    from t have t1: "txn c1 = Some (disk c)" by simp
    note out = mark_spent_in_tx_outcome [OF y t1 trim_trim]
    have rest: "(case v of
         Inr (Applied changed) \<Rightarrow> bindA (sql commit) (\<lambda>_. returnA changed)
       | Inr EventRejected \<Rightarrow> bindA (sql rollback) (\<lambda>_. returnA False)
       | Inl (Fail e) \<Rightarrow> bindA rollback_quietly (\<lambda>_. failA e)
       | Inl Panic \<Rightarrow> liftA (Inl Panic)) c2 = (r, c')"
      using assms b rb ne y by (simp add: mark_spend_reservation_spent_def bindA_def handleA_def)
    have same: "spend_reservations (disk c2) = spend_reservations (disk c)" using out t by simp
    show ?thesis
    proof (cases v)
      case (Inl e)
      then show ?thesis
        using rest same
        by (auto simp: bindA_def rollback_quietly_def handleA_def rollback_disk
            split: fault.splits prod.splits)
    next
      case v: (Inr w)
      show ?thesis
      proof (cases w)
        case EventRejected
        obtain rr c3 where rl: "sql rollback c2 = (rr, c3)" by fastforce
        with v EventRejected rest have "c' = c3" "r \<noteq> Inr True" by (auto simp: bindA_def split: sum.splits)
        with rollback_errA_disk [OF rl] same show ?thesis by simp
      next
        case (Applied changed)
        obtain rc c3 where cm: "sql commit c2 = (rc, c3)" by fastforce
        show ?thesis
        proof (cases rc)
          case (Inl e)
          with v Applied rest cm same commit_errA_Inl [of BSqlite c2 e c3] show ?thesis
            by (auto simp: bindA_def)
        next
          case (Inr u')
          with v Applied rest cm have r: "r = Inr changed" "c' = c3" by (auto simp: bindA_def)
          from sql_commit_Inr [OF cm [unfolded Inr]] have "txn c2 = Some (disk c3)" "txn c3 = None" by auto
          with out v Applied r t show ?thesis by (cases changed) auto
        qed
      qed
    qed
  qed
qed

text \<open>C29. Settlement is atomic (P2-003): a settle with its event either leaves every reservation
  as it was, whatever failed, or reports success, and then the reservation was active, is
  spent on disk, and the event \<open>resv:id\<close> is on disk with it, at the time of the settlement and
  over the sanitized actual amount, or the reserved one if no actual amount was given, which
  is positive. No reservation ends up spent without its event.\<close>

theorem settle_never_loses_event:
  assumes "mark_spend_reservation_spent rid actual src True now c = (r, c')"
  shows "spend_reservations (disk c') = spend_reservations (disk c) \<and> r \<noteq> Inr True \<or>
    r = Inr True \<and>
    (\<exists>row \<in> set (spend_reservations (disk c)). s_id row = trim rid \<and> s_status row = ''active'') \<and>
    spend_reservations (disk c') =
      map (\<lambda>x. if s_id x = trim rid \<and> s_status x = ''active'' then x\<lparr>s_status := ''spent''\<rparr> else x)
        (spend_reservations (disk c)) \<and>
    (\<exists>row ev. find_row s_id (trim rid) (spend_reservations (disk c)) = Some row \<and>
       ev \<in> set (spend_events (disk c')) \<and> e_id ev = ''resv:'' @ trim rid \<and> e_at ev = now \<and>
       e_amount ev = sanitize_amount (case actual of None \<Rightarrow> s_reserved row | Some a \<Rightarrow> a) \<and> 0 < e_amount ev)"
  using mark_spent_outcome [OF assms]
proof
  assume "r = Inr True \<and> settles (trim rid) actual now (disk c) (disk c') \<and> txn c' = None"
  then have r: "r = Inr True" and s: "settles (trim rid) actual now (disk c) (disk c')" by auto
  obtain row ev where ev: "find_row s_id (trim rid) (spend_reservations (disk c)) = Some row"
    "disk c' = with_event ev (snd (update_spend (marks (trim rid)) ''spent'' (disk c)))"
    "e_id ev = ''resv:'' @ trim rid" "e_at ev = now" "0 < e_amount ev"
    "e_amount ev = sanitize_amount (case actual of None \<Rightarrow> s_reserved row | Some a \<Rightarrow> a)"
    using s by (auto simp: settles_def)
  then have "ev \<in> set (spend_events (disk c'))" by (simp add: with_event_def replace_row_def)
  moreover have "\<exists>row \<in> set (spend_reservations (disk c)). s_id row = trim rid \<and> s_status row = ''active''"
    using s by (auto simp: settles_def marks_def)
  ultimately show ?thesis
    using r settles_reservations [OF s] ev(1,3-6)
    by (simp add: marks_def) (intro exI [of _ ev], simp)
qed auto

lemma sample_texts [simp]:
  "trim ''resv:r1'' = ''resv:r1''" "trim ''rebalance'' = ''rebalance''"
  "to_lowercase ''rebalance'' = ''rebalance''"
  by (rule trim_printable; simp add: printable_def)+ (simp add: lower_eval)

lemma sample_metadata [simp]:
  "metadata_json (Some (JObj [(''reservation_id'', JStr ''r1'')])) =
     Inr (Some (''{'' @ [char_of (34 :: nat)] @ ''reservation_id'' @ [char_of (34 :: nat)] @ '': '' @
       [char_of (34 :: nat)] @ ''r1'' @ [char_of (34 :: nat)] @ ''}''))"
  by code_simp

lemmas rail_eval = mark_spend_reservation_spent_def mark_spent_in_tx_def record_spend_event_on_def
  bindA_def handleA_def map_errA_def begin_immediate_def commit_def rollback_def rollback_quietly_def
  pop_def exec_def query_def current_def store_def engine_fails_def quiet_def with_row_def
  request_row_def reservation_row_def find_row_def replace_row_def update_spend_def update_rows_def
  sample_rail_def sample_request_def insert_event_def sanitize_amount_def MAX_AMOUNT_SATS_def Let_def

theorem settle_never_loses_event_witness:
  "spend_reservations (disk (snd (mark_spend_reservation_spent ''r1'' (Some 350) None True 120
      (quiet (with_row (request_row sample_request None 100) sample_rail)
        \<lparr>script := [None, None, None, Some (SqlError False False ''disk I/O error'')]\<rparr>))))
   = [request_row sample_request None 100]"
proof -
  let ?c = "quiet (with_row (request_row sample_request None 100) sample_rail)
        \<lparr>script := [None, None, None, Some (SqlError False False ''disk I/O error'')]\<rparr>"
  let ?r = "mark_spend_reservation_spent ''r1'' (Some 350) None True 120 ?c"
  have "fst ?r = Inl (Fail (BSqlite (SqlError False False ''disk I/O error'')))"
    by (simp add: rail_eval numeral_3_eq_3)
  moreover obtain r c' where rc: "?r = (r, c')" by fastforce
  ultimately have "r \<noteq> Inr True" by simp
  with settle_never_loses_event [OF rc] rc show ?thesis
    by (simp add: quiet_def with_row_def sample_rail_def replace_row_def)
qed


section \<open>Terminal reservations are immutable\<close>

definition terminal_status :: "string \<Rightarrow> bool" where
  "terminal_status st \<longleftrightarrow> st = ''spent'' \<or> st = ''released''"

text \<open>\<open>keeps d d'\<close>: every settled or released row of \<open>d\<close> is the same row in \<open>d'\<close>.\<close>

definition keeps :: "rail \<Rightarrow> rail \<Rightarrow> bool" where
  "keeps d d' \<longleftrightarrow> (\<forall>rid r. find_row s_id rid (spend_reservations d) = Some r \<longrightarrow>
     terminal_status (s_status r) \<longrightarrow> find_row s_id rid (spend_reservations d') = Some r)"

definition guarded :: "rail conn \<Rightarrow> bool" where
  "guarded c \<longleftrightarrow> (\<forall>d. txn c = Some d \<longrightarrow> keeps (disk c) d)"

text \<open>An action that, from a guarded connection, keeps it guarded and its terminal rows.\<close>

definition moves :: "rail conn \<Rightarrow> rail conn \<Rightarrow> bool" where
  "moves c c' \<longleftrightarrow> (guarded c \<longrightarrow> guarded c' \<and> keeps (disk c) (disk c'))"

definition steady :: "(rail conn, 'e, 'a) action \<Rightarrow> bool" where
  "steady m \<longleftrightarrow> (\<forall>c r c'. m c = (r, c') \<longrightarrow> moves c c')"

named_theorems steady_intros

lemma keeps_refl [simp]: "keeps d d" by (simp add: keeps_def)

lemma keeps_trans: "keeps a b \<Longrightarrow> keeps b c \<Longrightarrow> keeps a c" by (simp add: keeps_def)

lemma keeps_same: "spend_reservations d' = spend_reservations d \<Longrightarrow> keeps d d'"
  by (simp add: keeps_def)

lemma moves_refl [simp]: "moves c c" by (simp add: moves_def)

lemma moves_trans: "moves a b \<Longrightarrow> moves b c \<Longrightarrow> moves a c"
  unfolding moves_def using keeps_trans by blast

lemma moves_closed: "disk c' = disk c \<Longrightarrow> txn c' = txn c \<or> txn c' = None \<Longrightarrow> moves c c'"
  by (auto simp: moves_def guarded_def)

lemma steadyD: "steady m \<Longrightarrow> m c = (r, c') \<Longrightarrow> moves c c'" unfolding steady_def by blast

lemma steady_basic [steady_intros]: "steady (returnA a)" "steady (liftA r)" "steady (failA e)"
  by (auto simp: steady_def)

lemma steady_bind [steady_intros]:
  assumes "steady m" "\<And>a. steady (f a)"
  shows "steady (bindA m f)"
  unfolding steady_def
proof (intro allI impI)
  fix c r c' assume b: "bindA m f c = (r, c')"
  obtain r1 c1 where m: "m c = (r1, c1)" by fastforce
  note m1 = steadyD [OF assms(1) m]
  show "moves c c'"
  proof (cases r1)
    case (Inl e)
    with b m m1 show ?thesis by (simp add: bindA_def)
  next
    case (Inr a)
    with b m have "f a c1 = (r, c')" by (simp add: bindA_def)
    from moves_trans [OF m1 steadyD [OF assms(2) this]] show ?thesis .
  qed
qed

lemma steady_handle [steady_intros]:
  assumes "steady m" "\<And>r. steady (f r)"
  shows "steady (handleA m f)"
  unfolding steady_def
proof (intro allI impI)
  fix c r c' assume b: "handleA m f c = (r, c')"
  obtain r1 c1 where m: "m c = (r1, c1)" by fastforce
  with b have f: "f r1 c1 = (r, c')" by (simp add: handleA_def)
  from moves_trans [OF steadyD [OF assms(1) m] steadyD [OF assms(2) f]] show "moves c c'" .
qed

lemma steady_map_err [steady_intros]: "steady m \<Longrightarrow> steady (map_errA g m)"
  unfolding steady_def by (metis map_errA_snd snd_conv surjective_pairing)

lemma engine_fails_moves: "engine_fails e c = (r, c') \<Longrightarrow> moves c c'"
  by (cases "rolls_back e") (auto simp: engine_fails_def intro!: moves_closed)

lemma pop_moves: "pop c = (r, c') \<Longrightarrow> moves c c'"
  using pop_fields by (blast intro: moves_closed)

lemma steady_query [steady_intros]: "steady (query f)"
  unfolding steady_def
proof (intro allI impI)
  fix c r c' assume q: "query f c = (r, c')"
  obtain p c1 where pp: "pop c = (p, c1)" by fastforce
  have "moves c1 c'"
    using q pp engine_fails_moves by (auto simp: query_def split: option.splits sum.splits)
  with pop_moves [OF pp] show "moves c c'" by (rule moves_trans)
qed

lemma store_moves: "keeps (current c) d \<Longrightarrow> moves c (store d c)"
  by (auto simp: moves_def guarded_def store_def current_def intro: keeps_trans split: option.splits)

lemma steady_exec:
  assumes "\<And>d a d'. f d = Inr (a, d') \<Longrightarrow> keeps d d'"
  shows "steady (exec f)"
  unfolding steady_def
proof (intro allI impI)
  fix c r c' assume e: "exec f c = (r, c')"
  obtain p c1 where pp: "pop c = (p, c1)" by fastforce
  have "moves c1 c'"
    using e pp engine_fails_moves assms store_moves
    by (fastforce simp: exec_def split: option.splits sum.splits)
  with pop_moves [OF pp] show "moves c c'" by (rule moves_trans)
qed

lemma steady_txn [steady_intros]:
  "steady (begin_immediate :: (rail conn, sql_error, unit) action)"
  "steady (commit :: (rail conn, sql_error, unit) action)"
  "steady (rollback :: (rail conn, sql_error, unit) action)"
proof -
  have "moves c c'" if "begin_immediate c = (r, c')" for r and c c' :: "rail conn"
  proof -
    obtain p c1 where pp: "pop c = (p, c1)" by fastforce
    have "moves c1 c'"
    proof (cases "\<exists>e. engine_fails e c1 = (r, c')")
      case True
      then show ?thesis using engine_fails_moves by blast
    next
      case False
      with that pp have "c' = c1\<lparr>txn := Some (disk c1)\<rparr>" by (auto simp: begin_immediate_def split: option.splits)
      then show ?thesis by (auto simp: moves_def guarded_def)
    qed
    with pop_moves [OF pp] show ?thesis by (rule moves_trans)
  qed
  moreover have "moves c c'" if "commit c = (r, c')" for r and c c' :: "rail conn"
  proof -
    obtain p c1 where pp: "pop c = (p, c1)" by fastforce
    have "moves c1 c'"
    proof (cases "\<exists>e. engine_fails e c1 = (r, c')")
      case True
      then show ?thesis using engine_fails_moves by blast
    next
      case False
      with that pp have "\<exists>d. txn c1 = Some d \<and> c' = c1\<lparr>disk := d, txn := None\<rparr>" by (auto simp: commit_def split: option.splits)
      then show ?thesis by (auto simp: moves_def guarded_def)
    qed
    with pop_moves [OF pp] show ?thesis by (rule moves_trans)
  qed
  moreover have "moves c c'" if "rollback c = (r, c')" for r and c c' :: "rail conn"
  proof -
    obtain p c1 where pp: "pop c = (p, c1)" by fastforce
    have "moves c1 c'"
    proof (cases "\<exists>e. engine_fails e c1 = (r, c')")
      case True
      then show ?thesis using engine_fails_moves by blast
    next
      case False
      with that pp have "c' = c1\<lparr>txn := None\<rparr>" by (auto simp: rollback_def split: option.splits)
      then show ?thesis by (auto simp: moves_def guarded_def)
    qed
    with pop_moves [OF pp] show ?thesis by (rule moves_trans)
  qed
  ultimately show "steady (begin_immediate :: (rail conn, sql_error, unit) action)"
    "steady (commit :: (rail conn, sql_error, unit) action)"
    "steady (rollback :: (rail conn, sql_error, unit) action)"
    by (simp_all add: steady_def)
qed


text \<open>The statements of the rail: an update of active rows, an event, the legacy table.\<close>

lemma find_row_map:
  "(\<And>r. key (f r) = key r) \<Longrightarrow> find_row key k (map f rs) = map_option f (find_row key k rs)"
  by (induction rs) (auto simp: find_row_def)

lemma keeps_update:
  assumes "update_spend P st d = (n, d')" "\<And>r. P r \<Longrightarrow> s_status r = ''active''"
  shows "keeps d d'"
proof -
  have "find_row s_id rid (spend_reservations d') = Some r"
    if "find_row s_id rid (spend_reservations d) = Some r" "terminal_status (s_status r)" for rid r
  proof -
    have "\<not> P r" using assms(2) [of r] that(2) by (auto simp: terminal_status_def)
    with that(1) update_spend_count [OF assms(1)] show ?thesis by (simp add: find_row_map)
  qed
  then show ?thesis by (simp add: keeps_def)
qed

lemma keeps_legacy: "update_legacy P st d = (n, d') \<Longrightarrow> keeps d d'"
  by (auto simp: update_legacy_def update_rows_def intro: keeps_same)

lemma steady_insert_event [steady_intros]: "steady (insert_event row)"
  unfolding insert_event_def by (intro steady_exec) (auto intro: keeps_same)

lemma steady_rollback_quietly [steady_intros]: "steady rollback_quietly"
  unfolding rollback_quietly_def by (intro steady_intros)

lemma steady_attempts [steady_intros]: "steady (event_attempts n last_err row)"
proof (induction n last_err row rule: event_attempts.induct)
  case (1 last_err row)
  then show ?case by (auto intro: steady_intros split: option.splits)
next
  case (2 n last_err row)
  then show ?case
    by (auto intro!: steady_intros split: sum.splits fault.splits)
qed

lemma steady_record_event [steady_intros]:
  "steady (record_spend_event_on ev)" "steady (record_spend_event ev)"
  unfolding record_spend_event_on_def record_spend_event_def Let_def
  by (auto intro!: steady_intros)

lemma steady_update_legacy [steady_intros]: "steady (sql (exec (\<lambda>db. Inr (update_legacy P st db))))"
  by (intro steady_intros steady_exec) (auto dest: keeps_legacy)

lemma steady_update_spend:
  "(\<And>r. P r \<Longrightarrow> s_status r = ''active'') \<Longrightarrow> steady (sql (exec (\<lambda>db. Inr (update_spend P st db))))"
  by (intro steady_intros steady_exec) (auto dest: keeps_update)

lemma steady_mark [steady_intros]:
  "steady (mark_spent_in_tx rid actual src ev now)"
  "steady (mark_spend_reservation_spent rid actual src ev now)"
  "steady (mark_budget_spent rid a)"
proof -
  show 1: "steady (mark_spent_in_tx rid actual src ev now)" for rid actual src ev now
    unfolding mark_spent_in_tx_def Let_def
    by (auto intro!: steady_intros steady_update_spend split: option.splits)
  show 2: "steady (mark_spend_reservation_spent rid actual src ev now)" for rid actual src ev now
    unfolding mark_spend_reservation_spent_def Let_def
    by (auto intro!: steady_intros 1 split: sum.splits fault.splits mark_spent_tx.splits)
  show "steady (mark_budget_spent rid a)"
    unfolding mark_budget_spent_def by (auto intro!: steady_intros 2)
qed

lemma steady_release [steady_intros]:
  "steady (release_spend_reservation rid)" "steady (release_budget_reservation rid)"
  unfolding release_spend_reservation_def release_budget_reservation_def
  by (auto intro!: steady_intros steady_update_spend)

lemma steady_sweeps [steady_intros]:
  "steady (cleanup_stale_reservations age now)"
  "steady (cleanup_stale_spend_reservations age cat now)" "steady clear_all_reservations"
proof -
  show "steady (cleanup_stale_reservations age now)"
    unfolding cleanup_stale_reservations_def
    by (auto intro!: steady_intros steady_exec dest: keeps_update keeps_legacy
        split: sum.splits fault.splits)
  show "steady (cleanup_stale_spend_reservations age cat now)"
    unfolding cleanup_stale_spend_reservations_def
    by (auto intro!: steady_intros steady_update_spend)
  show "steady clear_all_reservations"
    unfolding clear_all_reservations_def
    by (auto intro!: steady_intros split: sum.splits fault.splits)
qed

text \<open>The body of a reservation writes only after the terminal guard has passed.\<close>

definition open_id :: "string \<Rightarrow> rail conn \<Rightarrow> bool" where
  "open_id rid c \<longleftrightarrow> \<not> terminal_id (current c) rid"

definition steady_open :: "string \<Rightarrow> 'a rail_action \<Rightarrow> bool" where
  "steady_open rid m \<longleftrightarrow> (\<forall>c r c'. open_id rid c \<longrightarrow> m c = (r, c') \<longrightarrow>
     moves c c' \<and> (\<forall>a. r = Inr a \<longrightarrow> open_id rid c'))"

lemma steady_openD:
  "steady_open rid m \<Longrightarrow> open_id rid c \<Longrightarrow> m c = (r, c') \<Longrightarrow> moves c c'"
  "steady_open rid m \<Longrightarrow> open_id rid c \<Longrightarrow> m c = (Inr a, c') \<Longrightarrow> open_id rid c'"
  unfolding steady_open_def by blast+

named_theorems open_intros

lemma open_basic [open_intros]:
  "steady_open rid (returnA a)" "steady_open rid (liftA r)"
  by (auto simp: steady_open_def)

lemma open_bind [open_intros]:
  assumes "steady_open rid m" "\<And>a. steady_open rid (f a)"
  shows "steady_open rid (bindA m f)"
  unfolding steady_open_def
proof (intro allI impI)
  fix c r c' assume o: "open_id rid c" and b: "bindA m f c = (r, c')"
  obtain r1 c1 where m: "m c = (r1, c1)" by fastforce
  note m1 = steady_openD(1) [OF assms(1) o m]
  show "moves c c' \<and> (\<forall>a. r = Inr a \<longrightarrow> open_id rid c')"
  proof (cases r1)
    case (Inl e)
    with b m m1 show ?thesis by (auto simp: bindA_def)
  next
    case (Inr a)
    with b m have f: "f a c1 = (r, c')" by (simp add: bindA_def)
    have o1: "open_id rid c1" by (rule steady_openD(2) [OF assms(1) o m [unfolded Inr]])
    show ?thesis
      using moves_trans [OF m1 steady_openD(1) [OF assms(2) o1 f]] steady_openD(2) [OF assms(2) o1, of a] f
      by auto
  qed
qed

lemma open_query [open_intros]: "steady_open rid (sql (query f))"
  unfolding steady_open_def
proof (intro allI impI)
  fix c r c' assume o: "open_id rid c" and q: "sql (query f) c = (r, c')"
  have "steady (sql (query f))" by (intro steady_intros)
  from steadyD [OF this q] sql_query_Inr [of f c _ c'] q o
  show "moves c c' \<and> (\<forall>a. r = Inr a \<longrightarrow> open_id rid c')"
    using same_current [of c c'] by (auto simp: open_id_def)
qed

lemma open_insert [open_intros]:
  assumes "s_id row = rid" "s_status row = ''active''"
  shows "steady_open rid (insert_reservation row)"
  unfolding steady_open_def
proof (intro allI impI)
  fix c r c' assume o: "open_id rid c" and i: "insert_reservation row c = (r, c')"
  let ?f = "\<lambda>db. Inr ((), db\<lparr>spend_reservations := replace_row s_id row (spend_reservations db)\<rparr>) :: sql_error + (unit \<times> rail)"
  obtain v where e: "exec ?f c = (v, c')" and rv: "\<And>a. r = Inr a \<Longrightarrow> v = Inr a"
    using i unfolding insert_reservation_def by (elim map_errA_cases) auto
  obtain p c1 where pp: "pop c = (p, c1)" by fastforce
  have cur: "current c1 = current c" using pop_fields [OF pp] by (simp add: current_def split: option.splits)
  have k: "keeps (current c1) (with_row row (current c1))"
    unfolding keeps_def
  proof (intro allI impI)
    fix k x assume f: "find_row s_id k (spend_reservations (current c1)) = Some x" "terminal_status (s_status x)"
    then have "k \<noteq> rid" using o cur by (auto simp: open_id_def terminal_id_def terminal_status_def)
    with f assms show "find_row s_id k (spend_reservations (with_row row (current c1))) = Some x"
      by (simp add: with_row_def find_replace_row)
  qed
  have "(\<exists>x. engine_fails x c1 = (v, c')) \<or> (v = Inr () \<and> c' = store (with_row row (current c1)) c1)"
    using e pp by (auto simp: exec_def with_row_def split: option.splits)
  then show "moves c c' \<and> (\<forall>a. r = Inr a \<longrightarrow> open_id rid c')"
  proof
    assume "\<exists>x. engine_fails x c1 = (v, c')"
    then obtain x where x: "engine_fails x c1 = (v, c')" ..
    then have "\<forall>a. v \<noteq> Inr a" by (auto simp: engine_fails_def)
    with rv have "\<forall>a. r \<noteq> Inr a" by blast
    with moves_trans [OF pop_moves [OF pp] engine_fails_moves [OF x]] show ?thesis by blast
  next
    assume v: "v = Inr () \<and> c' = store (with_row row (current c1)) c1"
    then have "open_id rid c'"
      using assms by (simp add: open_id_def terminal_id_def with_row_def find_replace_row)
    with v moves_trans [OF pop_moves [OF pp] store_moves [OF k]] show ?thesis by blast
  qed
qed

lemma steady_body [steady_intros]: "steady (reserve_spend_body req rid cat amount meta since now)"
  unfolding steady_def
proof (intro allI impI)
  fix c r c' assume b: "reserve_spend_body req rid cat amount meta since now c = (r, c')"
  show "moves c c'"
  proof (cases "open_id rid c")
    case True
    have "steady_open rid (weekly_check req amount g h ex)" for g h ex
      unfolding weekly_check_def rail_statements by (auto intro!: open_intros split: option.splits)
    then have "steady_open rid (budget_check req amount since ex)" for ex
      unfolding budget_check_def rail_statements by (auto intro!: open_intros split: option.splits sum.splits)
    then have "steady_open rid (reserve_spend_body req rid cat amount meta since now)"
      unfolding reserve_spend_body_def after_grant_def status_of_def reserved_of_def
      by (auto intro!: open_intros simp: reservation_row_def split: option.splits sum.splits)
    from steady_openD(1) [OF this True b] show ?thesis .
  next
    case False
    obtain v c1 where st: "status_of rid c = (v, c1)" by fastforce
    have s1: "moves c c1"
      using st steadyD [of "status_of rid" c v c1] by (simp add: status_of_def steady_intros)
    have "c' = c1"
    proof (cases v)
      case (Inl e)
      with b st show ?thesis by (auto simp: reserve_spend_body_def bindA_def)
    next
      case (Inr ex)
      with status_of_Inr [of rid c ex c1] st False have "ex = Some ''spent'' \<or> ex = Some ''released''"
        by (auto simp: open_id_def terminal_id_def split: option.splits)
      with b st Inr show ?thesis by (auto simp: reserve_spend_body_def bindA_def)
    qed
    with s1 show ?thesis by simp
  qed
qed

lemma steady_reserve [steady_intros]:
  "steady (reserve_spend req now)" "steady (reserve_spend_in_tx req now)"
  unfolding reserve_spend_def reserve_spend_in_tx_def reserve_front_def Let_def
  by (auto intro!: steady_intros split: sum.splits fault.splits)







section \<open>What the sweeps leave alone\<close>

lemma exec_disk:
  "exec f c = (r, c') \<Longrightarrow> txn c = None \<Longrightarrow>
   txn c' = None \<and> (disk c' = disk c \<or> (\<exists>a. r = Inr a \<and> f (disk c) = Inr (a, disk c')))"
  using pop_fields [of c]
  by (auto simp: exec_def engine_fails_def store_def current_def
      split: prod.splits option.splits sum.splits if_splits)

lemma sql_exec_disk:
  "sql (exec f) c = (r, c') \<Longrightarrow> txn c = None \<Longrightarrow>
   txn c' = None \<and> (disk c' = disk c \<or> (\<exists>a. f (disk c) = Inr (a, disk c')))"
  by (elim map_errA_cases) (auto dest: exec_disk)

lemma update_spend_mem:
  "update_spend P st d = (n, d') \<Longrightarrow> row \<in> set (spend_reservations d) \<Longrightarrow> \<not> P row \<Longrightarrow>
   row \<in> set (spend_reservations d')"
  using update_spend_count [of P st d n d'] by (force simp: image_iff)

text \<open>The blind sweep never frees committed money: a reservation of a committed on-chain
  category (open, close, boltz), and one that is not older than the cutoff, survives the
  sweep without a category untouched, whatever else it releases.\<close>

theorem blind_sweep_spares_committed:
  assumes "cleanup_stale_spend_reservations age None now c = (r, c')" "txn c = None"
    and "row \<in> set (spend_reservations (disk c))"
    and "s_category row \<in> set COMMITTED_ONCHAIN_SPEND_CATEGORIES \<or> now - age \<le> s_at row"
  shows "row \<in> set (spend_reservations (disk c'))"
proof (cases "in_i64 (now - age)")
  case False
  then have "c' = c"
    using assms(1) by (auto simp: cleanup_stale_spend_reservations_def bindA_def chk_i64_def)
  with assms(3) show ?thesis by simp
next
  case True
  let ?P = "\<lambda>r. s_status r = ''active'' \<and> s_at r < now - age \<and> s_category r \<notin> set COMMITTED_ONCHAIN_SPEND_CATEGORIES"
  let ?f = "\<lambda>db. Inr (update_spend ?P ''released'' db) :: sql_error + (nat \<times> rail)"
  obtain v c1 where e: "sql (exec ?f) c = (v, c1)" by fastforce
  with True assms(1) have "c' = c1"
    by (auto simp: cleanup_stale_spend_reservations_def bindA_def chk_i64_def split: sum.splits)
  with sql_exec_disk [OF e assms(2)] have "disk c' = disk c \<or>
      (\<exists>n. update_spend ?P ''released'' (disk c) = (n, disk c'))" by auto
  moreover have nP: "\<not> ?P row" using assms(4) by auto
  ultimately show ?thesis
  proof (elim disjE exE)
    fix n assume u: "update_spend ?P ''released'' (disk c) = (n, disk c')"
    show ?thesis by (rule update_spend_mem [OF u assms(3) nP])
  qed (simp add: assms(3))
qed

theorem blind_sweep_spares_committed_witness:
  "(request_row sample_request None 100)\<lparr>s_category := ''boltz''\<rparr> \<in>
     set (spend_reservations (disk (snd (cleanup_stale_spend_reservations 10 None 999999
       (quiet (with_row ((request_row sample_request None 100)\<lparr>s_category := ''boltz''\<rparr>) sample_rail))))))"
  by (rule blind_sweep_spares_committed [OF surjective_pairing])
    (simp_all add: quiet_def with_row_def replace_row_def COMMITTED_ONCHAIN_SPEND_CATEGORIES_def)

text \<open>C31. A payment in flight keeps its budget: a reservation whose id is parked as
  \<open>pending_settlement\<close> in the rebalance history survives the stale sweep of both tables.\<close>

theorem stale_sweep_spares_pending:
  assumes "cleanup_stale_reservations age now c = (r, c')" "txn c = None"
    and "pending_ids (disk c) = Inr pend"
  shows "(\<forall>row \<in> set (spend_reservations (disk c)). s_id row \<in> pend \<longrightarrow> row \<in> set (spend_reservations (disk c'))) \<and>
    (\<forall>row \<in> set (budget_reservations (disk c)). b_id row \<in> pend \<longrightarrow> row \<in> set (budget_reservations (disk c')))"
proof (cases "in_i64 (now - age)")
  case False
  then have "c' = c"
    using assms(1) by (auto simp: cleanup_stale_reservations_def bindA_def chk_i64_def)
  then show ?thesis by simp
next
  case True
  let ?P = "\<lambda>pend r. b_status r = ''active'' \<and> b_at r < now - age \<and> b_id r \<notin> pend"
  let ?f = "\<lambda>db. case pending_ids db of Inl e \<Rightarrow> Inl e | Inr pend \<Rightarrow> Inr (update_legacy (?P pend) ''released'' db)"
  let ?Q = "\<lambda>pend r. s_status r = ''active'' \<and> s_category r = ''rebalance'' \<and> s_at r < now - age \<and> s_id r \<notin> pend"
  let ?g = "\<lambda>db. case pending_ids db of Inl e \<Rightarrow> Inl e | Inr pend \<Rightarrow> Inr (update_spend (?Q pend) ''released'' db)"
  let ?safe = "\<lambda>d. pending_ids d = Inr pend \<and>
    (\<forall>row \<in> set (spend_reservations (disk c)). s_id row \<in> pend \<longrightarrow> row \<in> set (spend_reservations d)) \<and>
    (\<forall>row \<in> set (budget_reservations (disk c)). b_id row \<in> pend \<longrightarrow> row \<in> set (budget_reservations d))"
  have leg: "?safe d'" if "?safe d" "?f d = Inr (n, d')" for d d' n
    using that by (force simp: update_legacy_def update_rows_def pending_ids_def image_iff)
  have spd: "?safe d'" if "?safe d" "?g d = Inr (n, d')" for d d' n
    using that by (force simp: update_spend_def update_rows_def pending_ids_def image_iff)
  obtain v c1 where e1: "sql (exec ?f) c = (v, c1)" by fastforce
  obtain w c2 where e2: "sql (exec ?g) c1 = (w, c2)" by fastforce
  have c: "c' = c1 \<or> c' = c2"
    using True assms(1) e1 e2
    by (auto simp: cleanup_stale_reservations_def bindA_def handleA_def chk_i64_def
        split: sum.splits fault.splits)
  have s0: "?safe (disk c)" using assms(3) by simp
  note x1 = sql_exec_disk [OF e1 assms(2)]
  have s1: "?safe (disk c1)"
  proof (cases "disk c1 = disk c")
    case True
    with s0 show ?thesis by simp
  next
    case False
    with x1 obtain n where "?f (disk c) = Inr (n, disk c1)" by blast
    from leg [OF s0 this] show ?thesis .
  qed
  note x2 = sql_exec_disk [OF e2 conjunct1 [OF x1]]
  have s2: "?safe (disk c2)"
  proof (cases "disk c2 = disk c1")
    case True
    with s1 show ?thesis by simp
  next
    case False
    with x2 obtain n where "?g (disk c1) = Inr (n, disk c2)" by blast
    from spd [OF s1 this] show ?thesis .
  qed
  from c show ?thesis
  proof
    assume "c' = c1" with s1 show ?thesis by blast
  next
    assume "c' = c2" with s2 show ?thesis by blast
  qed
qed

definition pending_rail :: rail where
  "pending_rail = (with_row ((request_row sample_request None 100)\<lparr>s_id := ''17''\<rparr>) sample_rail)
     \<lparr>rebalance_history := Some [(17, ''pending_settlement''), (18, ''success'')]\<rparr>"

theorem stale_sweep_spares_pending_witness:
  "\<exists>row \<in> set (spend_reservations (disk (snd (cleanup_stale_reservations 10 999999 (quiet pending_rail))))).
     s_id row = ''17'' \<and> s_status row = ''active''"
proof -
  have "dec_int 17 = ''17''" by code_simp
  then have p: "pending_ids (disk (quiet pending_rail)) = Inr {''17''}"
    by (simp add: pending_ids_def quiet_def pending_rail_def)
  let ?row = "(request_row sample_request None 100)\<lparr>s_id := ''17''\<rparr>"
  have m: "?row \<in> set (spend_reservations (disk (quiet pending_rail)))"
    by (simp add: quiet_def pending_rail_def with_row_def replace_row_def)
  have i: "s_id ?row = ''17''" "s_status ?row = ''active''"
    by (simp_all add: request_row_def reservation_row_def)
  have "txn (quiet pending_rail) = None" by (simp add: quiet_def)
  note stale_sweep_spares_pending [OF surjective_pairing [of "cleanup_stale_reservations 10 999999 (quiet pending_rail)"] this p]
  from bspec [OF conjunct1 [OF this] m] i(1) have
    "?row \<in> set (spend_reservations (disk (snd (cleanup_stale_reservations 10 999999 (quiet pending_rail)))))"
    by blast
  with i show ?thesis by blast
qed


section \<open>A commit that fails\<close>

text \<open>
  \<open>reserve_spend\<close> returns a failed COMMIT to its caller without rolling back, unlike
  \<open>clear_all_reservations\<close>. When the engine kept the transaction open, every later
  reservation on this connection is refused by the engine and a release is written into
  the dead transaction: reported done, and not on disk.
\<close>

definition commit_busy :: "rail conn" where
  "commit_busy = (quiet sample_rail)
     \<lparr>script := [None, None, None, None, None, None, None, Some (SqlError True False ''database is locked'')]\<rparr>"

theorem failed_commit_wedges_rail:
  "let (r1, c1) = reserve_spend sample_request 100 commit_busy;
       (r2, c2) = reserve_spend (sample_request\<lparr>req_id := ''r2''\<rparr>) 101 c1;
       (r3, c3) = release_spend_reservation ''r1'' c1
   in r1 = Inl (Fail (BSqlite (SqlError True False ''database is locked''))) \<and> script c1 = [] \<and>
      r2 = Inl (Fail (BSqlite (sql_plain ''cannot start a transaction within a transaction''))) \<and>
      r3 = Inr True \<and> disk c3 = sample_rail"
proof -
  have "trim ''r2'' = ''r2''" by (rule trim_printable; simp add: printable_def)
  then show ?thesis
    by (simp add: rail_eval commit_busy_def reserve_spend_def reserve_front_def metadata_json_def
      chk_i64_def in_i64_alt reserve_spend_body_def status_of_def budget_check_def weekly_check_def
      sum_of_def active_holds_def legacy_holds_def costs_since_def events_since_def
      List.map_filter_simps after_grant_def insert_reservation_def release_spend_reservation_def)
qed

end
