(* ===== verification/Governor.thy ===== *)
theory Governor
  imports Arbiter Ledger Budget
begin

text \<open>
  The governor facade and the authority ladder (\<open>revops-econ/src/governor.rs\<close>). Every
  dependency is injected: the spend delegate is a pair of functions on its own state,
  the pause flag and the authority gate are the answers they give, and the ledger and
  the registry are those of the other theories, present or not.
\<close>

section \<open>The authority ladder\<close>

definition AUTHORITY_LEVELS :: "(string \<times> int) list" where
  "AUTHORITY_LEVELS = [(''observe'', 0), (''fees'', 1), (''liquidity'', 2), (''capital'', 3)]"

definition authority_level_of :: "string \<Rightarrow> int option" where
  "authority_level_of level = map_of AUTHORITY_LEVELS level"

definition authority_allows :: "string option \<Rightarrow> string \<Rightarrow> bool" where
  "authority_allows configured_level required_level =
     (let configured =
            (case configured_level of None \<Rightarrow> 0
             | Some s \<Rightarrow> (case authority_level_of (to_lowercase (trim s)) of None \<Rightarrow> 0 | Some v \<Rightarrow> v));
          required =
            (case authority_level_of (to_lowercase (trim required_level)) of None \<Rightarrow> 3 | Some v \<Rightarrow> v)
      in required \<le> configured)"

section \<open>The facade\<close>

record authorization_token =
  token_id :: string
  tok_intent_id :: string
  reservation_id :: string
  reserved_total :: int
  tok_bucket :: string
  issued_at :: int
  arbitration_key :: string

record governor_decision =
  authorized :: bool
  token :: "authorization_token option"
  reason_code :: string

definition refused :: "string \<Rightarrow> governor_decision" where
  "refused code = \<lparr>authorized = False, token = None, reason_code = code\<rparr>"

text \<open>What the facade acts on, and what is injected into it.\<close>

record 's world =
  spend :: 's
  ledger :: "ledger_db conn"
  registry :: registry

type_synonym ('s, 'a) governed = "('s world, econ_error, 'a) action"

record 's facade =
  f_reserve :: "string \<Rightarrow> int \<Rightarrow> string \<Rightarrow> ('s, econ_error, bool) action"
  f_release :: "string \<Rightarrow> ('s, econ_error, bool) action"
  f_paused :: bool
  f_authority :: "bool econ_result option"
  f_ledger :: bool
  f_registry :: "provider option"

definition on_spend :: "('s, econ_error, 'a) action \<Rightarrow> ('s, 'a) governed" where
  "on_spend m w = (case m (spend w) of (r, s) \<Rightarrow> (r, w\<lparr>spend := s\<rparr>))"

definition on_ledger :: "'a ledger_action \<Rightarrow> ('s, 'a) governed" where
  "on_ledger m w = (case m (ledger w) of (r, l) \<Rightarrow> (r, w\<lparr>ledger := l\<rparr>))"

definition on_registry :: "(registry \<Rightarrow> 'a \<times> registry) \<Rightarrow> ('s, 'a) governed" where
  "on_registry m w = (case m (registry w) of (a, g) \<Rightarrow> (Inr a, w\<lparr>registry := g\<rparr>))"

definition rejected_details :: "string \<Rightarrow> json" where
  "rejected_details conflict = json_object [(''reason_code'', JStr conflict), (''arbitration'', JBool True)]"

definition effective_id :: "intent_envelope \<Rightarrow> string option \<Rightarrow> string" where
  "effective_id env rid = (case rid of Some s \<Rightarrow> if s = [] then idempotency_key env else s
     | None \<Rightarrow> idempotency_key env)"

definition reserve_sats :: "intent_envelope \<Rightarrow> int" where
  "reserve_sats env = sat_value (to_sats_ceil (max_cost_msat env))"

definition make_token :: "intent_envelope \<Rightarrow> int \<Rightarrow> string option \<Rightarrow> int \<Rightarrow> authorization_token" where
  "make_token env now rid reserved =
     \<lparr>token_id = ''auth-'' @ (case get_to 16 (idempotency_key env) of
        None \<Rightarrow> idempotency_key env | Some s \<Rightarrow> s),
      tok_intent_id = intent_id_str (intent_id env), reservation_id = effective_id env rid,
      reserved_total = reserved, tok_bucket = budget_bucket env, issued_at = now,
      arbitration_key = idempotency_key env\<rparr>"

text \<open>The ledger events of a grant; the first failing append is returned.\<close>

definition record_grant :: "'s facade \<Rightarrow> intent_envelope \<Rightarrow> int \<Rightarrow> authorization_token \<Rightarrow> ('s, unit) governed" where
  "record_grant f env now tok =
     (if \<not> f_ledger f then returnA ()
      else
        bindA (on_ledger (append_event ''intent_authorized'' (intent_id_str (intent_id env))
          (idempotency_key env) (snapshot_id env) now
          [(''max_cost_msat'', msat_value (max_cost_msat env))] (JObj []))) (\<lambda>_.
        if reserved_total tok \<le> 0 then returnA ()
        else
          bindA (on_ledger (append_event ''budget_reserved'' (tok_intent_id tok) (reservation_id tok)
            (snapshot_id env) now [(''reserved_msat'', reserved_total tok)] (JObj []))) (\<lambda>_. returnA ())))"

definition authorize_spend ::
  "'s facade \<Rightarrow> intent_envelope \<Rightarrow> int \<Rightarrow> string option \<Rightarrow> ('s, governor_decision) governed" where
  "authorize_spend f env now rid =
     bindA (if 0 < reserve_sats env
            then on_spend (f_reserve f (effective_id env rid) (reserve_sats env) (budget_bucket env))
            else returnA True) (\<lambda>granted.
       if \<not> granted then returnA (refused (code_str BudgetExhausted))
       else
         bindA (liftA (checked_op (reserve_sats env * 1000)
           ''governor authorize: reserve_sats * 1000 overflow'')) (\<lambda>reserved.
         let tok = make_token env now rid reserved
         in bindA (record_grant f env now tok) (\<lambda>_.
              returnA \<lparr>authorized = True, token = Some tok, reason_code = []\<rparr>)))"

definition register_step ::
  "'s facade \<Rightarrow> intent_envelope \<Rightarrow> int \<Rightarrow> ('s, string option) governed" where
  "register_step f env now =
     (case f_registry f of
        None \<Rightarrow> returnA None
      | Some p \<Rightarrow> on_registry (check_and_register p env now))"

definition authority_ok :: "'s facade \<Rightarrow> (econ_error, bool) result" where
  "authority_ok f =
     (case f_authority f of
        None \<Rightarrow> Inr True
      | Some (Inr b) \<Rightarrow> Inr b
      | Some (Inl (Fail e)) \<Rightarrow> Inr False
      | Some (Inl Panic) \<Rightarrow> Inl Panic)"

text \<open>The best-effort trace of a refusal by the registry: its error is dropped.\<close>

definition log_rejection :: "'s facade \<Rightarrow> intent_envelope \<Rightarrow> int \<Rightarrow> string \<Rightarrow> ('s, unit) governed" where
  "log_rejection f env now c =
     (if f_ledger f
      then handleA (on_ledger (append_event ''intent_rejected'' (intent_id_str (intent_id env))
             (idempotency_key env) (snapshot_id env) now [] (rejected_details c)))
             (\<lambda>r. case r of Inl Panic \<Rightarrow> liftA (Inl Panic) | _ \<Rightarrow> returnA ())
      else returnA ())"

definition authorize ::
  "'s facade \<Rightarrow> intent_envelope \<Rightarrow> int \<Rightarrow> string option \<Rightarrow> ('s, governor_decision) governed" where
  "authorize f env now rid =
     (if f_paused f then returnA (refused (code_str Paused))
      else
        bindA (liftA (authority_ok f)) (\<lambda>allowed.
        if \<not> allowed then returnA (refused (code_str AuthorityLevelBlocked))
        else
          bindA (liftA (time_new now)) (\<lambda>t.
          if is_expired env t then returnA (refused (code_str IntentStale))
          else
            bindA (register_step f env now) (\<lambda>conflict.
            case conflict of
              Some c \<Rightarrow>
                bindA (log_rejection f env now c) (\<lambda>_. returnA (refused c))
            | None \<Rightarrow> authorize_spend f env now rid))))"



section \<open>The decision order\<close>

lemma on_frames [simp]:
  "registry (snd (on_spend m w)) = registry w" "ledger (snd (on_spend m w)) = ledger w"
  "registry (snd (on_ledger l w)) = registry w" "spend (snd (on_ledger l w)) = spend w"
  by (simp_all add: on_spend_def on_ledger_def split: prod.splits)

lemma on_spend_Inr: "on_spend m w = (Inr a, w') \<longleftrightarrow> (\<exists>s. m (spend w) = (Inr a, s) \<and> w' = w\<lparr>spend := s\<rparr>)"
  by (auto simp: on_spend_def split: prod.splits)

lemma on_ledger_Inr: "on_ledger m w = (Inr a, w') \<longleftrightarrow> (\<exists>l. m (ledger w) = (Inr a, l) \<and> w' = w\<lparr>ledger := l\<rparr>)"
  by (auto simp: on_ledger_def split: prod.splits)

definition log_only :: "('s, 'a) governed \<Rightarrow> bool" where
  "log_only m \<longleftrightarrow> (\<forall>w r w'. m w = (r, w') \<longrightarrow> spend w' = spend w \<and> registry w' = registry w)"

lemma log_onlyD: "log_only m \<Longrightarrow> m w = (r, w') \<Longrightarrow> spend w' = spend w \<and> registry w' = registry w"
  unfolding log_only_def by blast

lemma log_only_basic: "log_only (returnA a)" "log_only (on_ledger l)"
  by (auto simp: log_only_def on_ledger_def split: prod.splits)

lemma log_only_bind:
  assumes "log_only m" "\<And>a. log_only (f a)"
  shows "log_only (bindA m f)"
  unfolding log_only_def
proof (intro allI impI)
  fix w r w' assume b: "bindA m f w = (r, w')"
  obtain q w1 where m: "m w = (q, w1)" by fastforce
  show "spend w' = spend w \<and> registry w' = registry w"
  proof (cases q)
    case (Inl e)
    with b m log_onlyD [OF assms(1) m] show ?thesis by (auto simp: bindA_def)
  next
    case (Inr a)
    with b m have "f a w1 = (r, w')" by (simp add: bindA_def)
    from log_onlyD [OF assms(1) m] log_onlyD [OF assms(2) this] show ?thesis by simp
  qed
qed

lemma record_grant_frame:
  "record_grant f env now tok w = (r, w') \<Longrightarrow> spend w' = spend w \<and> registry w' = registry w"
  by (erule log_onlyD [rotated])
    (auto simp: record_grant_def intro!: log_only_bind log_only_basic)

lemma log_only_handle:
  assumes "log_only m" "\<And>a. log_only (f a)"
  shows "log_only (handleA m f)"
  unfolding log_only_def
proof (intro allI impI)
  fix w r w' assume b: "handleA m f w = (r, w')"
  obtain q w1 where m: "m w = (q, w1)" by fastforce
  with b have "f q w1 = (r, w')" by (simp add: handleA_def)
  from log_onlyD [OF assms(1) m] log_onlyD [OF assms(2) this]
  show "spend w' = spend w \<and> registry w' = registry w" by simp
qed

lemma log_rejection_frame:
  "log_rejection f env now c w = (r, w') \<Longrightarrow> spend w' = spend w \<and> registry w' = registry w"
  by (erule log_onlyD [rotated])
    (auto simp: log_rejection_def log_only_def [of "liftA _"]
      intro!: log_only_handle log_only_basic split: sum.splits fault.splits)

lemma authorize_spend_Inr:
  assumes "authorize_spend f env now rid w = (Inr d, w')"
  shows "registry w' = registry w"
    and "authorized d \<Longrightarrow>
      (0 < reserve_sats env \<longrightarrow>
         f_reserve f (effective_id env rid) (reserve_sats env) (budget_bucket env) (spend w) = (Inr True, spend w')) \<and>
      (\<not> 0 < reserve_sats env \<longrightarrow> spend w' = spend w) \<and>
      in_i64 (reserve_sats env * 1000) \<and>
      d = \<lparr>authorized = True, token = Some (make_token env now rid (reserve_sats env * 1000)), reason_code = []\<rparr> \<and>
      (\<exists>w1. ledger w1 = ledger w \<and> record_grant f env now (make_token env now rid (reserve_sats env * 1000)) w1 = (Inr (), w'))"
    and "\<not> authorized d \<Longrightarrow> d = refused (code_str BudgetExhausted) \<and> 0 < reserve_sats env \<and> ledger w' = ledger w \<and>
      f_reserve f (effective_id env rid) (reserve_sats env) (budget_bucket env) (spend w) = (Inr False, spend w')"
proof -
  let ?ask = "if 0 < reserve_sats env
      then on_spend (f_reserve f (effective_id env rid) (reserve_sats env) (budget_bucket env))
      else returnA True"
  from assms obtain g w1 where a: "?ask w = (Inr g, w1)"
    and k: "(if \<not> g then returnA (refused (code_str BudgetExhausted))
       else
         bindA (liftA (checked_op (reserve_sats env * 1000)
           ''governor authorize: reserve_sats * 1000 overflow'')) (\<lambda>reserved.
         let tok = make_token env now rid reserved
         in bindA (record_grant f env now tok) (\<lambda>_.
              returnA \<lparr>authorized = True, token = Some tok, reason_code = []\<rparr>))) w1 = (Inr d, w')"
    by (auto simp: authorize_spend_def bindA_eq_Inr)
  have w1: "registry w1 = registry w" "ledger w1 = ledger w"
    using a by (auto simp: on_spend_Inr split: if_splits)
  have gt: "g \<Longrightarrow> in_i64 (reserve_sats env * 1000) \<and>
      record_grant f env now (make_token env now rid (reserve_sats env * 1000)) w1 = (Inr (), w') \<and>
      d = \<lparr>authorized = True, token = Some (make_token env now rid (reserve_sats env * 1000)), reason_code = []\<rparr>"
    using k by (auto simp: bindA_eq_Inr checked_op_Inr Let_def)
  show "registry w' = registry w"
  proof (cases g)
    case True
    then have "registry w' = registry w1" using gt record_grant_frame by blast
    with w1 show ?thesis by simp
  next
    case False
    with k w1 show ?thesis by simp
  qed
  show "authorized d \<Longrightarrow>
      (0 < reserve_sats env \<longrightarrow>
         f_reserve f (effective_id env rid) (reserve_sats env) (budget_bucket env) (spend w) = (Inr True, spend w')) \<and>
      (\<not> 0 < reserve_sats env \<longrightarrow> spend w' = spend w) \<and>
      in_i64 (reserve_sats env * 1000) \<and>
      d = \<lparr>authorized = True, token = Some (make_token env now rid (reserve_sats env * 1000)), reason_code = []\<rparr> \<and>
      (\<exists>w1. ledger w1 = ledger w \<and> record_grant f env now (make_token env now rid (reserve_sats env * 1000)) w1 = (Inr (), w'))"
  proof -
    assume "authorized d"
    then have g: "g" using k by (cases g) (auto simp: refused_def)
    note x = gt [OF g]
    have "spend w' = spend w1" using record_grant_frame x by blast
    with x a g w1(2) show ?thesis by (auto simp: on_spend_Inr split: if_splits)
  qed
  show "\<not> authorized d \<Longrightarrow> d = refused (code_str BudgetExhausted) \<and> 0 < reserve_sats env \<and> ledger w' = ledger w \<and>
      f_reserve f (effective_id env rid) (reserve_sats env) (budget_bucket env) (spend w) = (Inr False, spend w')"
  proof -
    assume na: "\<not> authorized d"
    then have g: "\<not> g" using gt by auto
    with k a w1(2) show ?thesis by (auto simp: on_spend_Inr split: if_splits)
  qed
qed


lemma authorize_Inr:
  assumes "authorize f env now rid w = (Inr d, w')"
  obtains "f_paused f" "d = refused ''PAUSED''" "w' = w"
  | "\<not> f_paused f" "authority_ok f = Inr False" "d = refused ''AUTHORITY_LEVEL_BLOCKED''" "w' = w"
  | "\<not> f_paused f" "authority_ok f = Inr True" "0 \<le> now" "time_value (expires_at env) \<le> now"
      "d = refused ''INTENT_STALE''" "w' = w"
  | c w1 where "\<not> f_paused f" "authority_ok f = Inr True" "now < time_value (expires_at env)"
      "register_step f env now w = (Inr (Some c), w1)" "d = refused c"
      "spend w' = spend w" "registry w' = registry w1"
  | w1 where "\<not> f_paused f" "authority_ok f = Inr True" "now < time_value (expires_at env)"
      "register_step f env now w = (Inr None, w1)" "authorize_spend f env now rid w1 = (Inr d, w')"
proof (cases "f_paused f")
  case True
  with assms show thesis by (intro that(1)) (auto simp: authorize_def)
next
  case np: False
  from assms np obtain allowed where al: "authority_ok f = Inr allowed"
    by (auto simp: authorize_def bindA_eq_Inr)
  show thesis
  proof (cases allowed)
    case False
    with assms np al show thesis by (intro that(2)) (auto simp: authorize_def bindA_def)
  next
    case True
    with assms np al obtain t where t: "time_new now = Inr t"
      by (auto simp: authorize_def bindA_eq_Inr)
    then have tv: "time_value t = now" "0 \<le> now"
      by (auto simp: time_new_def check_int_def result_simps as_i64_id in_i64_def u63_max_def i64_min_def
          split: if_splits)
    show thesis
    proof (cases "is_expired env t")
      case True
      with assms np al \<open>allowed\<close> t tv show thesis
        by (intro that(3)) (auto simp: authorize_def bindA_def is_expired_def)
    next
      case ne: False
      then have fresh: "now < time_value (expires_at env)" using tv by (simp add: is_expired_def)
      from assms np al \<open>allowed\<close> t ne obtain cf w1 where rs: "register_step f env now w = (Inr cf, w1)"
        by (auto simp: authorize_def bindA_eq_Inr)
      show thesis
      proof (cases cf)
        case None
        with assms np al \<open>allowed\<close> t ne rs have "authorize_spend f env now rid w1 = (Inr d, w')"
          by (simp add: authorize_def bindA_def)
        with np al \<open>allowed\<close> fresh rs None show thesis by (intro that(5)) auto
      next
        case (Some c)
        obtain w2 where lg: "log_rejection f env now c w1 = (Inr (), w2)" and d: "d = refused c" "w' = w2"
          using assms np al \<open>allowed\<close> t ne rs Some
          by (auto simp: authorize_def bindA_def split: prod.splits sum.splits)
        have "spend w2 = spend w1 \<and> registry w2 = registry w1"
          using log_rejection_frame [OF lg] .
        moreover have "spend w1 = spend w"
          using rs by (auto simp: register_step_def on_registry_def split: option.splits prod.splits)
        ultimately show thesis
          using np al \<open>allowed\<close> fresh rs Some d by (intro that(4)) auto
      qed
    qed
  qed
qed


text \<open>What the registry says to an intent, when one is attached.\<close>

definition verdict :: "'s facade \<Rightarrow> intent_envelope \<Rightarrow> int \<Rightarrow> 's world \<Rightarrow> string option" where
  "verdict f env now w = (case f_registry f of None \<Rightarrow> None
     | Some p \<Rightarrow> fst (check_and_register p env now (registry w)))"

definition registered :: "'s facade \<Rightarrow> intent_envelope \<Rightarrow> int \<Rightarrow> 's world \<Rightarrow> registry" where
  "registered f env now w = (case f_registry f of None \<Rightarrow> registry w
     | Some p \<Rightarrow> snd (check_and_register p env now (registry w)))"

lemma register_step_Inr:
  "register_step f env now w = (Inr v, w') \<longleftrightarrow>
     v = verdict f env now w \<and> w' = w\<lparr>registry := registered f env now w\<rparr>"
  by (auto simp: register_step_def on_registry_def verdict_def registered_def
      split: option.splits prod.splits)

text \<open>C26. No grant without every check: when \<open>authorize\<close> grants, the node was not paused, the
  authority gate said yes, the intent had not expired, the registry (when attached)
  accepted it and now holds its slot, and the whole worst-case cost, rounded up to whole
  satoshis, was reserved with the delegate under the effective reservation id; the token
  covers the worst case by less than one satoshi.\<close>

theorem grant_passes_every_check:
  assumes "authorize f env now rid w = (Inr d, w')" "authorized d" "wf_msat (max_cost_msat env)"
  shows "\<not> f_paused f \<and> authority_ok f = Inr True \<and> now < time_value (expires_at env) \<and>
    verdict f env now w = None \<and> registry w' = registered f env now w \<and>
    (0 < msat_value (max_cost_msat env) \<longrightarrow>
       f_reserve f (effective_id env rid) (reserve_sats env) (budget_bucket env) (spend w)
         = (Inr True, spend w')) \<and>
    (\<exists>tok. token d = Some tok \<and> reservation_id tok = effective_id env rid \<and>
       arbitration_key tok = idempotency_key env \<and>
       msat_value (max_cost_msat env) \<le> reserved_total tok \<and>
       reserved_total tok < msat_value (max_cost_msat env) + 1000)"
  using assms(1)
proof (cases rule: authorize_Inr)
  case (5 w1)
  have v: "verdict f env now w = None" "w1 = w\<lparr>registry := registered f env now w\<rparr>"
    using 5(4) by (auto simp: register_step_Inr)
  note sp = authorize_spend_Inr [OF 5(5)]
  have rs: "reserve_sats env = ceil_div (msat_value (max_cost_msat env)) 1000"
    using to_sats_ceil_value [OF assms(3)] by (simp add: reserve_sats_def)
  have pos: "0 < msat_value (max_cost_msat env) \<longrightarrow> 0 < reserve_sats env"
    and br: "msat_value (max_cost_msat env) \<le> reserve_sats env * 1000"
      "reserve_sats env * 1000 < msat_value (max_cost_msat env) + 1000"
    using ceil_div_bounds [of 1000 "msat_value (max_cost_msat env)"] unfolding rs by auto
  show ?thesis using 5 v sp(1) sp(2) [OF assms(2)] pos br by (auto simp: make_token_def)
qed (use assms(2) in \<open>simp_all add: refused_def\<close>)

definition sample_facade :: "bool \<Rightarrow> unit facade" where
  "sample_facade grant = \<lparr>f_reserve = \<lambda>rid n cat. returnA grant, f_release = \<lambda>rid. returnA True,
     f_paused = False, f_authority = Some (Inr True), f_ledger = False, f_registry = Some None\<rparr>"

definition sample_world :: "unit world" where
  "sample_world = \<lparr>spend = (), ledger = empty_ledger, registry = []\<rparr>"

lemma sample_authorize:
  "authorize (sample_facade True) (sample_env ''REBALANCE'' ''1x1x1'' ''a'' 1500) 200 None sample_world =
    (Inr \<lparr>authorized = True,
          token = Some (make_token (sample_env ''REBALANCE'' ''1x1x1'' ''a'' 1500) 200 None 2000),
          reason_code = []\<rparr>,
     sample_world\<lparr>registry := [(''a'', sample_env ''REBALANCE'' ''1x1x1'' ''a'' 1500)]\<rparr>)"
  by (simp add: authorize_def sample_facade_def sample_world_def bindA_def authority_ok_def time_new_def
      check_int_def u63_max_def i64_bounds as_i64_id in_i64_alt is_expired_def register_step_def
      on_registry_def check_and_register_def prune_def conflict_code_def active_on_def
      authorize_spend_def on_spend_def reserve_sats_def to_sats_ceil_def ceil_div_def
      checked_op_def checked_i64_def record_grant_def Let_def)

theorem grant_passes_every_check_witness:
  "verdict (sample_facade True) (sample_env ''REBALANCE'' ''1x1x1'' ''a'' 1500) 200 sample_world = None"
proof -
  have "wf_msat (max_cost_msat (sample_env ''REBALANCE'' ''1x1x1'' ''a'' 1500))"
    by (simp add: wf_msat_def u63_max_def i64_bounds)
  from grant_passes_every_check [OF sample_authorize _ this] show ?thesis by simp
qed

text \<open>The refusal order is fixed: a refusal carries no token and its reason is the first of
  paused, authority, stale, the registry's conflict code, budget that applies; up to the
  budget stage the spend delegate has not been called.\<close>

theorem refusal_order:
  assumes "authorize f env now rid w = (Inr d, w')" "\<not> authorized d"
  shows "token d = None \<and>
    reason_code d = (if f_paused f then ''PAUSED''
      else if authority_ok f = Inr False then ''AUTHORITY_LEVEL_BLOCKED''
      else if time_value (expires_at env) \<le> now then ''INTENT_STALE''
      else case verdict f env now w of Some c \<Rightarrow> c | None \<Rightarrow> ''BUDGET_EXHAUSTED'') \<and>
    (f_paused f \<or> authority_ok f = Inr False \<or> time_value (expires_at env) \<le> now \<or>
       verdict f env now w \<noteq> None \<longrightarrow> spend w' = spend w)"
  using assms(1)
proof (cases rule: authorize_Inr)
  case (4 c w1)
  then have "verdict f env now w = Some c" by (simp add: register_step_Inr)
  with 4 show ?thesis by (auto simp: refused_def)
next
  case (5 w1)
  then have "verdict f env now w = None" by (simp add: register_step_Inr)
  with 5 authorize_spend_Inr(3) [OF 5(5) assms(2)] show ?thesis by (auto simp: refused_def)
qed (simp_all add: refused_def)

theorem refusal_order_witness:
  "reason_code (refused ''PAUSED'') = ''PAUSED''"
proof -
  let ?f = "(sample_facade True)\<lparr>f_paused := True\<rparr>"
  have "authorize ?f (sample_env ''REBALANCE'' ''1x1x1'' ''a'' 1) 200 None sample_world
      = (Inr (refused ''PAUSED''), sample_world)"
    by (simp add: authorize_def)
  from refusal_order [OF this] show ?thesis by (simp add: refused_def)
qed

section \<open>A budget refusal keeps the slot\<close>

text \<open>
  The registry accepts the intent before the budget is asked, and a refusal by the
  budget does not release the slot. The same intent is then refused as superseded, by
  itself, until it expires, even when the budget has room again.
\<close>

theorem budget_refusal_blocks_retry:
  "let env = sample_env ''REBALANCE'' ''1x1x1'' ''a'' 1500;
       (r1, w1) = authorize (sample_facade False) env 200 None sample_world;
       (r2, w2) = authorize (sample_facade True) env 300 None w1
   in r1 = Inr (refused ''BUDGET_EXHAUSTED'') \<and> r2 = Inr (refused ''INTENT_SUPERSEDED'')"
  by (simp add: authorize_def sample_facade_def sample_world_def bindA_def authority_ok_def time_new_def
      check_int_def u63_max_def i64_bounds as_i64_id in_i64_alt is_expired_def register_step_def
      on_registry_def check_and_register_def prune_def conflict_code_def active_on_def
      authorize_spend_def on_spend_def reserve_sats_def to_sats_ceil_def ceil_div_def
      log_rejection_def Let_def)

section \<open>The ladder fails closed\<close>

definition known_level :: "string \<Rightarrow> bool" where
  "known_level s \<longleftrightarrow> authority_level_of (to_lowercase (trim s)) \<noteq> None"

lemma authority_level_of_cases:
  "authority_level_of s = (if s = ''observe'' then Some 0 else if s = ''fees'' then Some 1
     else if s = ''liquidity'' then Some 2 else if s = ''capital'' then Some 3 else None)"
  by (simp add: authority_level_of_def AUTHORITY_LEVELS_def)

text \<open>The authority ladder fails closed: a missing or misspelled configured level satisfies
  nothing but \<open>observe\<close>, and a misspelled requirement is satisfied by \<open>capital\<close> only.\<close>

theorem authority_fails_closed:
  "((configured = None \<or> (\<exists>s. configured = Some s \<and> \<not> known_level s)) \<longrightarrow>
      (authority_allows configured required \<longleftrightarrow> to_lowercase (trim required) = ''observe'')) \<and>
   (\<not> known_level required \<longrightarrow>
      (authority_allows configured required \<longleftrightarrow>
        (\<exists>s. configured = Some s \<and> to_lowercase (trim s) = ''capital'')))"
proof (intro conjI impI)
  assume a: "configured = None \<or> (\<exists>s. configured = Some s \<and> \<not> known_level s)"
  then have "authority_allows configured required \<longleftrightarrow>
      (case authority_level_of (to_lowercase (trim required)) of None \<Rightarrow> 3 | Some v \<Rightarrow> v) \<le> (0 :: int)"
    by (auto simp: authority_allows_def known_level_def)
  then show "authority_allows configured required \<longleftrightarrow> to_lowercase (trim required) = ''observe''"
    by (simp add: authority_level_of_cases)
next
  assume "\<not> known_level required"
  then have "authority_allows configured required \<longleftrightarrow>
      3 \<le> (case configured of None \<Rightarrow> 0
       | Some s \<Rightarrow> (case authority_level_of (to_lowercase (trim s)) of None \<Rightarrow> 0 | Some v \<Rightarrow> v))"
    by (simp add: authority_allows_def known_level_def)
  then show "authority_allows configured required \<longleftrightarrow> (\<exists>s. configured = Some s \<and> to_lowercase (trim s) = ''capital'')"
    by (cases configured) (simp_all add: authority_level_of_cases)
qed

theorem authority_fails_closed_witness:
  "\<not> authority_allows (Some ''typo-level'') ''fees'' \<and> authority_allows (Some ''Capital'') ''typo''"
proof -
  have t: "trim ''typo-level'' = ''typo-level''" "trim ''fees'' = ''fees''" "trim ''typo'' = ''typo''"
    "trim ''Capital'' = ''Capital''"
    by (rule trim_printable; simp add: printable_def)+
  have l: "to_lowercase ''typo-level'' = ''typo-level''" "to_lowercase ''fees'' = ''fees''"
    "to_lowercase ''typo'' = ''typo''" "to_lowercase ''Capital'' = ''capital''"
    by (simp_all add: lower_eval)
  have "\<not> known_level ''typo-level''" "\<not> known_level ''typo''"
    by (simp_all add: known_level_def t l authority_level_of_cases)
  then show ?thesis
    using authority_fails_closed [of "Some ''typo-level''" "''fees''"]
      authority_fails_closed [of "Some ''Capital''" "''typo''"] by (simp add: t l)
qed


section \<open>The spend delegate as an interface\<close>


section \<open>The rail as the delegate\<close>






















end
