(* ===== verification/Reconcile.thy ===== *)
theory Reconcile
  imports Intents Ledger
begin

text \<open>
  The reconciliation of the ledger with the reservation table
  (\<open>revops-econ/src/reconcile.rs\<close>): the sweep that classifies divergences, the
  append-only resolutions, and the cross-check of fee intents. The pure part of the
  sweep works on the events read and the state replayed from them.
\<close>

section \<open>Data\<close>

record db_reservation_state =
  db_status :: string
  db_reserved_sats :: int

record divergence =
  div_kind :: string
  div_key :: string
  div_ledger_msat :: int
  div_db_status :: "string option"
  div_db_sats :: "int option"
  div_resolution :: "json option"
  div_details :: json

record reconciliation_report =
  checked :: nat
  matched :: nat
  divergences :: "divergence list"

type_synonym db_states = "(string \<times> db_reservation_state) list"

definition db_reserved_msat_checked :: "int \<Rightarrow> int econ_result" where
  "db_reserved_msat_checked sats =
     checked_op (sats * 1000) ''reconcile: db reserved_sats * 1000 overflow''"

definition DB_TERMINAL :: "string list" where
  "DB_TERMINAL = [''spent'', ''released'']"

definition STARTED_TERMINAL_EVENTS :: "string list" where
  "STARTED_TERMINAL_EVENTS = [''execution_succeeded'', ''execution_failed'', ''intent_rejected'',
     ''intent_deferred'', ''reconciliation_completed'']"

section \<open>Executions without an outcome\<close>

definition started_step ::
  "ledger_event \<Rightarrow> (string \<times> int) list \<times> string list \<Rightarrow> (string \<times> int) list \<times> string list" where
  "started_step e = (\<lambda>(started, terminal_keys).
     if event_type e = ''execution_started''
     then (bt_insert (ev_key e) (max (bt_get_or (ev_at e) started (ev_key e)) (ev_at e)) started, terminal_keys)
     else if event_type e \<in> set STARTED_TERMINAL_EVENTS then (started, ev_key e # terminal_keys)
     else (started, terminal_keys))"

definition started_events :: "ledger_event list \<Rightarrow> (string \<times> int) list" where
  "started_events es =
     (case fold started_step es ([], []) of
        (started, terminal_keys) \<Rightarrow> filter (\<lambda>(k, _). k \<notin> set terminal_keys) started)"

definition started_without_terminal ::
  "(string \<Rightarrow> amounts option) \<Rightarrow> (string \<Rightarrow> json option) \<Rightarrow> (string \<times> int) list ledger_action" where
  "started_without_terminal pa pv = bindA (read_events pa pv 0) (\<lambda>es. returnA (started_events es))"

section \<open>The sweep\<close>

text \<open>One key: \<open>None\<close> is a match.\<close>

definition classify_key :: "amounts \<Rightarrow> db_states \<Rightarrow> string \<Rightarrow> divergence option econ_result" where
  "classify_key outstanding db key =
     (let ledger_msat = bt_get_or 0 outstanding key
      in case map_of db key of
           None \<Rightarrow> Inr (Some
             \<lparr>div_kind = ''db_missing'', div_key = key, div_ledger_msat = ledger_msat,
              div_db_status = None, div_db_sats = None,
              div_resolution = Some (json_object [(''reserved_msat'', JInt 0)]),
              div_details = json_object [(''note'', JStr ''no spend_reservations row'')]\<rparr>)
         | Some row \<Rightarrow>
             if db_status row \<in> set DB_TERMINAL \<and> 0 < ledger_msat then Inr (Some
               \<lparr>div_kind = ''ledger_stale_reservation'', div_key = key, div_ledger_msat = ledger_msat,
                div_db_status = Some (db_status row), div_db_sats = Some (db_reserved_sats row),
                div_resolution = Some (json_object [(''reserved_msat'', JInt 0)]),
                div_details = json_object [(''db_status'', JStr (db_status row)), (''terminal'', JBool True)]\<rparr>)
             else if db_status row = ''active'' \<and> ledger_msat = 0 then
               bindE (db_reserved_msat_checked (db_reserved_sats row)) (\<lambda>db_msat. Inr (Some
               \<lparr>div_kind = ''ledger_missing_reservation'', div_key = key, div_ledger_msat = 0,
                div_db_status = Some (db_status row), div_db_sats = Some (db_reserved_sats row),
                div_resolution = Some (json_object [(''reserved_msat'', JInt db_msat)]),
                div_details = json_object [(''db_status'', JStr (db_status row))]\<rparr>))
             else if db_status row = ''active'' then
               bindE (db_reserved_msat_checked (db_reserved_sats row)) (\<lambda>db_msat.
               if ledger_msat \<noteq> db_msat then Inr (Some
                 \<lparr>div_kind = ''amount_mismatch'', div_key = key, div_ledger_msat = ledger_msat,
                  div_db_status = Some (db_status row), div_db_sats = Some (db_reserved_sats row),
                  div_resolution = Some (json_object [(''reserved_msat'', JInt db_msat)]),
                  div_details = json_object [(''db_status'', JStr (db_status row))]\<rparr>)
               else Inr None)
             else Inr None)"

definition count_key ::
  "amounts \<Rightarrow> db_states \<Rightarrow> string \<Rightarrow> nat \<times> divergence list \<Rightarrow> (nat \<times> divergence list) econ_result" where
  "count_key outstanding db key = (\<lambda>(m, ds).
     bindE (classify_key outstanding db key) (\<lambda>r.
       Inr (case r of None \<Rightarrow> (m + 1, ds) | Some d \<Rightarrow> (m, ds @ [d]))))"

definition unknown_outcome :: "amounts \<Rightarrow> db_states \<Rightarrow> int \<Rightarrow> string \<times> int \<Rightarrow> divergence" where
  "unknown_outcome outstanding db now = (\<lambda>(key, started_at).
     \<lparr>div_kind = ''unknown_outcome'', div_key = key, div_ledger_msat = bt_get_or 0 outstanding key,
      div_db_status = map_option db_status (map_of db key),
      div_db_sats = map_option db_reserved_sats (map_of db key),
      div_resolution = None,
      div_details = json_object [(''reason_code'', JStr ''EXTERNAL_OUTCOME_UNKNOWN''),
        (''started_at'', JInt started_at), (''age_seconds'', JInt (now - started_at))]\<rparr>)"

definition quarantine_step ::
  "amounts \<Rightarrow> db_states \<Rightarrow> int \<Rightarrow> int \<Rightarrow> string \<times> int \<Rightarrow> divergence list \<Rightarrow> divergence list econ_result" where
  "quarantine_step outstanding db now stale p ds =
     bindE (chk_i64 (now - snd p)) (\<lambda>age.
       Inr (if stale < age then ds @ [unknown_outcome outstanding db now p] else ds))"

definition sweep_keys :: "amounts \<Rightarrow> (string \<times> int) list \<Rightarrow> db_states \<Rightarrow> string list" where
  "sweep_keys outstanding in_flight db =
     filter (\<lambda>k. k \<notin> set (bt_keys in_flight))
       (sort (remdups (bt_keys outstanding @
          map fst (filter (\<lambda>(k, row). db_status row = ''active'') db))))"

definition reconcile_report ::
  "amounts \<Rightarrow> (string \<times> int) list \<Rightarrow> db_states \<Rightarrow> int \<Rightarrow> int \<Rightarrow> reconciliation_report econ_result" where
  "reconcile_report outstanding in_flight db now stale =
     bindE (foldE (count_key outstanding db) (sweep_keys outstanding in_flight db) (0, [])) (\<lambda>(m, ds).
     bindE (foldE (quarantine_step outstanding db now stale) in_flight ds) (\<lambda>ds'.
     Inr \<lparr>checked = length (sweep_keys outstanding in_flight db), matched = m, divergences = ds'\<rparr>))"

definition reconcile ::
  "(string \<Rightarrow> amounts option) \<Rightarrow> (string \<Rightarrow> json option) \<Rightarrow> db_states \<Rightarrow> int \<Rightarrow> int \<Rightarrow>
   reconciliation_report ledger_action" where
  "reconcile pa pv db now stale =
     bindA (replay pa pv) (\<lambda>st.
     bindA (started_without_terminal pa pv) (\<lambda>in_flight.
     liftA (reconcile_report (reserved_msat st) in_flight db now stale)))"

section \<open>Resolutions\<close>

definition value_to_amounts :: "json \<Rightarrow> amounts econ_result" where
  "value_to_amounts v =
     bindE (ok_or (as_object v) (EconError ''reconcile: resolution must be a JSON object'')) (\<lambda>obj.
     foldE (\<lambda>(k, w) out.
       bindE (ok_or (as_int64 w) (EconError ''reconcile: resolution field is not an integer'')) (\<lambda>n.
       Inr (bt_insert k n out))) obj [])"

text \<open>\<open>chars().take(n)\<close>: a character is a byte and the continuation bytes after it.\<close>

definition is_continuation :: "char \<Rightarrow> bool" where
  "is_continuation c \<longleftrightarrow> 128 \<le> (of_char c :: nat) \<and> (of_char c :: nat) < 192"

fun take_chars :: "nat \<Rightarrow> string \<Rightarrow> string" where
  "take_chars n [] = []"
| "take_chars 0 s = []"
| "take_chars (Suc n) (c # cs) =
     c # takeWhile is_continuation cs @ take_chars n (dropWhile is_continuation cs)"

lemma take_chars_Nil [simp]: "take_chars n s = [] \<longleftrightarrow> n = 0 \<or> s = []"
  by (cases n; cases s) auto

definition resolution_details :: "divergence \<Rightarrow> json econ_result" where
  "resolution_details d =
     (case as_object (div_details d) of
        None \<Rightarrow> econ_fail ''reconcile: divergence details is not a JSON object''
      | Some kvs \<Rightarrow> Inr (JObj (bt_insert ''kind'' (JStr (div_kind d)) kvs)))"

definition apply_one :: "int \<Rightarrow> divergence \<Rightarrow> nat ledger_action" where
  "apply_one now d =
     (case div_resolution d of
        None \<Rightarrow> returnA 0
      | Some resolution \<Rightarrow>
          bindA (liftA (resolution_details d)) (\<lambda>details.
          bindA (liftA (value_to_amounts resolution)) (\<lambda>amounts.
          bindA (append_event ''reconciliation_completed'' (take_chars 16 (div_key d)) (div_key d)
                   ''reconcile'' now amounts details) (\<lambda>_.
          returnA 1))))"

fun apply_all :: "int \<Rightarrow> divergence list \<Rightarrow> nat \<Rightarrow> nat ledger_action" where
  "apply_all now [] applied = returnA applied"
| "apply_all now (d # ds) applied =
     bindA (apply_one now d) (\<lambda>n. apply_all now ds (applied + n))"

definition apply_report :: "reconciliation_report \<Rightarrow> int \<Rightarrow> nat ledger_action" where
  "apply_report rep now = apply_all now (divergences rep) 0"

section \<open>Completeness of the fee intents\<close>

text \<open>\<open>rsplit_once\<close>: what follows the last separator.\<close>

definition after_last :: "char \<Rightarrow> string \<Rightarrow> string option" where
  "after_last d s = (if d \<in> set s then Some (rev (takeWhile (\<lambda>c. c \<noteq> d) (rev s))) else None)"

definition fee_intent_ts :: "ledger_event \<Rightarrow> int option" where
  "fee_intent_ts e =
     (if event_type e \<noteq> ''intent_proposed'' then None
      else if \<not> (starts_with ''fee-cycle-'' (ev_cycle_id e) \<or> starts_with ''fee-broadcast-'' (ev_cycle_id e))
      then None
      else (case after_last (CHR ''-'') (ev_cycle_id e) of
              None \<Rightarrow> None | Some ts_str \<Rightarrow> parse_i64 ts_str))"

definition tally :: "int \<Rightarrow> (int \<times> int) list \<Rightarrow> (int \<times> int) list" where
  "tally ts m = bt_insert ts (bt_get_or 0 m ts + 1) m"

definition intents_by_ts :: "ledger_event list \<Rightarrow> (int \<times> int) list" where
  "intents_by_ts es =
     fold (\<lambda>e m. case fee_intent_ts e of None \<Rightarrow> m | Some ts \<Rightarrow> tally ts m) es []"

definition change_ts :: "json \<Rightarrow> int" where
  "change_ts row = (case json_get row ''timestamp'' of None \<Rightarrow> 0
     | Some v \<Rightarrow> (case as_int64 v of None \<Rightarrow> 0 | Some i \<Rightarrow> i))"

definition changes_by_ts :: "json list \<Rightarrow> int \<Rightarrow> (int \<times> int) list" where
  "changes_by_ts fee_changes window_start =
     fold (\<lambda>row m. if window_start \<le> change_ts row then tally (change_ts row) m else m) fee_changes []"

text \<open>A cluster is its first and last timestamp and its number of changes; the list is
  built with the open cluster first.\<close>

definition cluster_step ::
  "int \<Rightarrow> int \<times> int \<Rightarrow> (int \<times> int \<times> int) list \<Rightarrow> (int \<times> int \<times> int) list econ_result" where
  "cluster_step tolerance = (\<lambda>(ts, count) cs.
     case cs of
       [] \<Rightarrow> Inr [(ts, ts, count)]
     | (start, last_ts, n) # rest \<Rightarrow>
         bindE (chk_i64 (ts - last_ts)) (\<lambda>gap.
           Inr (if gap \<le> tolerance then (start, ts, n + count) # rest
                else (ts, ts, count) # (start, last_ts, n) # rest)))"

definition clusters :: "int \<Rightarrow> (int \<times> int) list \<Rightarrow> (int \<times> int \<times> int) list econ_result" where
  "clusters tolerance changes =
     bindE (foldE (cluster_step tolerance) changes []) (\<lambda>cs. Inr (rev cs))"

definition matched_intents :: "int \<Rightarrow> (int \<times> int) list \<Rightarrow> int \<Rightarrow> int \<Rightarrow> int econ_result" where
  "matched_intents tolerance intents start_ts end_ts =
     foldE (\<lambda>(intent_ts, count) acc.
       bindE (chk_i64 (start_ts - tolerance)) (\<lambda>lo.
         if lo \<le> intent_ts
         then bindE (chk_i64 (end_ts + tolerance)) (\<lambda>hi. Inr (if intent_ts \<le> hi then acc + count else acc))
         else Inr acc)) intents 0"

definition mismatch_step ::
  "int \<Rightarrow> (int \<times> int) list \<Rightarrow> int \<times> int \<times> int \<Rightarrow> (string \<times> json) list \<Rightarrow> (string \<times> json) list econ_result" where
  "mismatch_step tolerance intents = (\<lambda>(start_ts, end_ts, change_count) out.
     bindE (matched_intents tolerance intents start_ts end_ts) (\<lambda>n.
       Inr (if n \<noteq> change_count
            then bt_insert (dec_int start_ts)
              (json_object [(''fee_changes'', JInt change_count), (''intents'', JInt n)]) out
            else out)))"

definition fee_intent_completeness_of ::
  "ledger_event list \<Rightarrow> json list \<Rightarrow> int \<Rightarrow> int \<Rightarrow> int \<Rightarrow> json econ_result" where
  "fee_intent_completeness_of es fee_changes now window_seconds tolerance =
     (case intents_by_ts es of
        [] \<Rightarrow> Inr (json_object [(''status'', JStr ''no_intent_data''), (''cycles_checked'', JInt 0),
                 (''complete'', JNull), (''mismatched_cycles'', JObj [])])
      | (min_intent_ts, _) # _ \<Rightarrow>
          bindE (chk_i64 (now - window_seconds)) (\<lambda>from.
          let window_start = max from min_intent_ts
          in bindE (clusters tolerance (changes_by_ts fee_changes window_start)) (\<lambda>cs.
             bindE (foldE (mismatch_step tolerance (intents_by_ts es)) cs []) (\<lambda>mismatched.
             Inr (json_object [(''status'', JStr ''ok''), (''window_start'', JInt window_start),
                    (''cycles_checked'', JInt (int (length cs))), (''complete'', JBool (mismatched = [])),
                    (''mismatched_cycles'', JObj mismatched)])))))"

definition fee_intent_completeness ::
  "(string \<Rightarrow> amounts option) \<Rightarrow> (string \<Rightarrow> json option) \<Rightarrow> json list \<Rightarrow> int \<Rightarrow> int \<Rightarrow> int \<Rightarrow>
   json ledger_action" where
  "fee_intent_completeness pa pv fee_changes now window_seconds tolerance =
     bindA (read_events pa pv 0) (\<lambda>es.
     liftA (fee_intent_completeness_of es fee_changes now window_seconds tolerance))"

section \<open>The classification\<close>

definition resolvable :: "divergence \<Rightarrow> bool" where
  "resolvable d \<longleftrightarrow> div_resolution d \<noteq> None"

definition verdicts :: "amounts \<Rightarrow> db_states \<Rightarrow> string list \<Rightarrow> divergence option list econ_result" where
  "verdicts outstanding db ks = sequenceE (map (classify_key outstanding db) ks)"

definition some_of :: "'a option list \<Rightarrow> 'a list" where
  "some_of = List.map_filter id"

lemma some_of_simps [simp]:
  "some_of [] = []" "some_of (None # xs) = some_of xs" "some_of (Some a # xs) = a # some_of xs"
  by (simp_all add: some_of_def List.map_filter_simps)

lemma set_some_of: "set (some_of xs) = {a. Some a \<in> set xs}"
  by (force simp: some_of_def List.map_filter_def)

lemma length_some_of: "length os = length (filter (\<lambda>r. r = None) os) + length (some_of os)"
proof (induction os)
  case (Cons r os)
  then show ?case by (cases r) auto
qed simp

lemma some_of_replicate [simp]: "some_of (replicate n None) = []"
  by (induction n) simp_all

lemma count_keys_fold:
  "foldE (count_key outstanding db) ks (m, ds) =
     bindE (sequenceE (map (classify_key outstanding db) ks)) (\<lambda>os.
       Inr (m + length (filter (\<lambda>r. r = None) os), ds @ some_of os))"
proof (induction ks arbitrary: m ds)
  case (Cons k ks)
  have "count_key outstanding db k (m, ds) =
      bindE (classify_key outstanding db k) (\<lambda>r.
        Inr (case r of None \<Rightarrow> (m + 1, ds) | Some d \<Rightarrow> (m, ds @ [d])))"
    by (simp add: count_key_def)
  then show ?case
    by (cases "classify_key outstanding db k"; cases "sequenceE (map (classify_key outstanding db) ks)")
      (auto simp: Cons.IH split: option.splits)
qed simp

lemma quarantine_fold:
  "foldE (quarantine_step outstanding db now stale) ps ds = Inr ds' \<Longrightarrow>
   ds' = ds @ map (unknown_outcome outstanding db now) (filter (\<lambda>p. stale < now - snd p) ps)"
proof (induction ps arbitrary: ds)
  case (Cons p ps)
  then obtain ds1 where 1: "quarantine_step outstanding db now stale p ds = Inr ds1"
    and 2: "foldE (quarantine_step outstanding db now stale) ps ds1 = Inr ds'"
    by (auto simp: bindE_eq_Inr)
  from 1 have "ds1 = (if stale < now - snd p then ds @ [unknown_outcome outstanding db now p] else ds)"
    by (auto simp: quarantine_step_def result_simps)
  with Cons.IH [OF 2] show ?case by simp
qed simp

lemma reconcile_report_Inr:
  "reconcile_report outstanding in_flight db now stale = Inr rep \<Longrightarrow>
   \<exists>os. sequenceE (map (classify_key outstanding db) (sweep_keys outstanding in_flight db)) = Inr os \<and>
     checked rep = length os \<and> matched rep = length (filter (\<lambda>r. r = None) os) \<and>
     divergences rep = some_of os @
       map (unknown_outcome outstanding db now) (filter (\<lambda>p. stale < now - snd p) in_flight)"
  by (auto simp: reconcile_report_def count_keys_fold result_simps sequenceE_Inr
      dest!: quarantine_fold) (metis length_map)

text \<open>What the reservation table says is still owed for a key, and when a key needs no
  resolution.\<close>

definition owed :: "db_states \<Rightarrow> string \<Rightarrow> int" where
  "owed db key = (case map_of db key of
     None \<Rightarrow> 0 | Some row \<Rightarrow> if db_status row = ''active'' then db_reserved_sats row * 1000 else 0)"

definition agrees :: "amounts \<Rightarrow> db_states \<Rightarrow> string \<Rightarrow> bool" where
  "agrees outstanding db key \<longleftrightarrow> (case map_of db key of
     None \<Rightarrow> False
   | Some row \<Rightarrow>
       (if db_status row = ''active''
        then bt_get_or 0 outstanding key = db_reserved_sats row * 1000 \<and> bt_get_or 0 outstanding key \<noteq> 0
        else db_status row \<in> set DB_TERMINAL \<longrightarrow> bt_get_or 0 outstanding key \<le> 0))"

lemma terminal_not_active [simp]: "''active'' \<notin> set DB_TERMINAL"
  by (simp add: DB_TERMINAL_def)

lemma classify_key_None: "classify_key outstanding db key = Inr None \<Longrightarrow> agrees outstanding db key"
  by (auto simp: classify_key_def agrees_def Let_def result_simps db_reserved_msat_checked_def
      split: option.splits if_splits)

lemma classify_key_agrees:
  "agrees outstanding db key \<Longrightarrow> in_i64 (bt_get_or 0 outstanding key) \<Longrightarrow>
   classify_key outstanding db key = Inr None"
  by (auto simp: classify_key_def agrees_def Let_def result_simps db_reserved_msat_checked_def
      checked_op_def checked_i64_def split: option.splits if_splits)

lemma classify_key_Some:
  assumes "classify_key outstanding db key = Inr (Some d)"
  shows "div_key d = key \<and> div_ledger_msat d = bt_get_or 0 outstanding key \<and>
    div_resolution d = Some (json_object [(''reserved_msat'', JInt (owed db key))]) \<and>
    in_i64 (owed db key) \<and> (\<exists>kvs. div_details d = json_object kvs)"
  using assms
  by (auto simp: classify_key_def owed_def Let_def result_simps db_reserved_msat_checked_def in_i64_def
      i64_bounds DB_TERMINAL_def split: option.splits if_splits)

lemma classified:
  assumes "reconcile_report outstanding in_flight db now stale = Inr rep"
  shows "d \<in> set (divergences rep) \<Longrightarrow> resolvable d \<Longrightarrow>
      classify_key outstanding db (div_key d) = Inr (Some d) \<and>
      div_key d \<in> set (sweep_keys outstanding in_flight db)"
    and "k \<in> set (sweep_keys outstanding in_flight db) \<Longrightarrow>
      agrees outstanding db k \<or> (\<exists>d \<in> set (divergences rep). resolvable d \<and> div_key d = k)"
    and "filter (\<lambda>d. \<not> resolvable d) (divergences rep) =
      map (unknown_outcome outstanding db now) (filter (\<lambda>p. stale < now - snd p) in_flight)"
    and "checked rep = matched rep + length (filter resolvable (divergences rep))"
proof -
  let ?ks = "sweep_keys outstanding in_flight db"
  from reconcile_report_Inr [OF assms] obtain os where
    os: "map (classify_key outstanding db) ?ks = map Inr os"
    and n: "checked rep = length os" "matched rep = length (filter (\<lambda>r. r = None) os)"
    and ds: "divergences rep = some_of os @
       map (unknown_outcome outstanding db now) (filter (\<lambda>p. stale < now - snd p) in_flight)"
    by (auto simp: sequenceE_Inr)
  have src: "\<exists>k \<in> set ?ks. classify_key outstanding db k = Inr r" if "r \<in> set os" for r
  proof -
    have "Inr r \<in> set (map (classify_key outstanding db) ?ks)" unfolding os using that by simp
    then show ?thesis by auto
  qed
  have yes: "resolvable d" if "d \<in> set (some_of os)" for d
    using that src [of "Some d"] classify_key_Some
    unfolding set_some_of resolvable_def by fastforce
  have no: "\<not> resolvable (unknown_outcome outstanding db now p)" for p
    by (simp add: resolvable_def unknown_outcome_def split: prod.splits)
  show "d \<in> set (divergences rep) \<Longrightarrow> resolvable d \<Longrightarrow>
      classify_key outstanding db (div_key d) = Inr (Some d) \<and> div_key d \<in> set ?ks"
    unfolding ds using no src [of "Some d"] classify_key_Some by (auto simp: set_some_of)
  show "agrees outstanding db k \<or> (\<exists>d \<in> set (divergences rep). resolvable d \<and> div_key d = k)"
    if "k \<in> set ?ks"
  proof -
    have "classify_key outstanding db k \<in> set (map Inr os)" unfolding os [symmetric] using that by simp
    then obtain r where r: "r \<in> set os" "classify_key outstanding db k = Inr r" by auto
    show ?thesis
    proof (cases r)
      case None
      with r classify_key_None show ?thesis by blast
    next
      case (Some d)
      with r have "d \<in> set (some_of os)" by (simp add: set_some_of)
      with yes [OF this] classify_key_Some r Some show ?thesis unfolding ds by auto
    qed
  qed
  have f: "filter resolvable (divergences rep) = some_of os"
    "filter (\<lambda>d. \<not> resolvable d) (divergences rep) =
      map (unknown_outcome outstanding db now) (filter (\<lambda>p. stale < now - snd p) in_flight)"
    unfolding ds using yes no by (auto simp: filter_empty_conv filter_id_conv)
  show "filter (\<lambda>d. \<not> resolvable d) (divergences rep) =
      map (unknown_outcome outstanding db now) (filter (\<lambda>p. stale < now - snd p) in_flight)"
    by (rule f(2))
  have "length os = length (filter (\<lambda>r. r = None) os) + length (some_of os)"
    by (rule length_some_of)
  with n f(1) show "checked rep = matched rep + length (filter resolvable (divergences rep))" by simp
qed

lemma sweep_keys_mem:
  "k \<in> set (sweep_keys outstanding in_flight db) \<longleftrightarrow>
     map_of in_flight k = None \<and>
     (k \<in> fst ` set outstanding \<or> (\<exists>row. (k, row) \<in> set db \<and> db_status row = ''active''))"
  unfolding sweep_keys_def bt_keys_def map_of_eq_None_iff by (auto intro: rev_image_eqI)

text \<open>C36. What a sweep may resolve: a resolvable divergence is never about a key whose execution
  is still without an outcome, and its resolution sets the ledger to what the reservation
  table still owes for the key; the quarantined divergences are exactly the executions
  without an outcome older than the horizon; every key checked is matched or resolvable.\<close>

theorem reconcile_spares_in_flight:
  assumes "reconcile_report outstanding in_flight db now stale = Inr rep"
  shows "(\<forall>d. d \<in> set (divergences rep) \<and> resolvable d \<longrightarrow>
      map_of in_flight (div_key d) = None \<and>
      div_resolution d = Some (json_object [(''reserved_msat'', JInt (owed db (div_key d)))])) \<and>
    map div_key (filter (\<lambda>d. \<not> resolvable d) (divergences rep)) =
      map fst (filter (\<lambda>p. stale < now - snd p) in_flight) \<and>
    checked rep = matched rep + length (filter resolvable (divergences rep))"
proof (intro conjI allI impI)
  show "map_of in_flight (div_key d) = None"
    "div_resolution d = Some (json_object [(''reserved_msat'', JInt (owed db (div_key d)))])"
    if "d \<in> set (divergences rep) \<and> resolvable d" for d
    using that classified(1) [OF assms, of d] classify_key_Some [of outstanding db "div_key d" d]
    by (auto simp: sweep_keys_mem)
  show "map div_key (filter (\<lambda>d. \<not> resolvable d) (divergences rep)) =
      map fst (filter (\<lambda>p. stale < now - snd p) in_flight)"
    unfolding classified(3) [OF assms] by (simp add: unknown_outcome_def split: prod.splits)
  show "checked rep = matched rep + length (filter resolvable (divergences rep))"
    by (rule classified(4) [OF assms])
qed

section \<open>Convergence\<close>

text \<open>The event a resolution leaves in the ledger.\<close>

definition resolution_event :: "int \<Rightarrow> divergence \<Rightarrow> ledger_event" where
  "resolution_event now d =
     \<lparr>event_id = 0, event_type = ''reconciliation_completed'',
      ev_intent_id = take_chars 16 (div_key d), ev_key = div_key d, ev_cycle_id = ''reconcile'',
      ev_at = now,
      ev_amounts = (case div_resolution d of None \<Rightarrow> [] | Some v \<Rightarrow>
        (case value_to_amounts v of Inl _ \<Rightarrow> [] | Inr am \<Rightarrow> am)),
      ev_details = (case resolution_details d of Inl _ \<Rightarrow> JNull | Inr v \<Rightarrow> v)\<rparr>"

definition resolution_events :: "int \<Rightarrow> reconciliation_report \<Rightarrow> ledger_event list" where
  "resolution_events now rep = map (resolution_event now) (filter resolvable (divergences rep))"

definition pays :: "db_states \<Rightarrow> divergence \<Rightarrow> bool" where
  "pays db d \<longleftrightarrow> div_resolution d = Some (json_object [(''reserved_msat'', JInt (owed db (div_key d)))]) \<and>
     in_i64 (owed db (div_key d))"

lemma value_to_amounts_reserved:
  "in_i64 v \<Longrightarrow> value_to_amounts (json_object [(''reserved_msat'', JInt v)]) = Inr [(''reserved_msat'', v)]"
  by (simp add: value_to_amounts_def json_object_def)

lemma resolution_step:
  assumes "pays db d"
  shows "\<exists>t. replay_step (resolution_event now d) s = Inr t \<and> r_spent t = r_spent s \<and>
    r_reserved t = bt_insert (div_key d) (owed db (div_key d)) (r_reserved s)"
proof -
  have "ev_amounts (resolution_event now d) = [(''reserved_msat'', owed db (div_key d))]"
    using assms by (simp add: resolution_event_def pays_def value_to_amounts_reserved)
  then show ?thesis
    by (auto simp: replay_step_def reconciled_step_def Let_def) (auto simp: resolution_event_def)
qed

lemma resolutions_fold:
  assumes "\<forall>d \<in> set ds. pays db d"
  shows "\<exists>t. foldE replay_step (map (resolution_event now) ds) s = Inr t \<and> r_spent t = r_spent s \<and>
    (\<forall>k. map_of (r_reserved t) k = (if k \<in> div_key ` set ds then Some (owed db k) else map_of (r_reserved s) k))"
  using assms
proof (induction ds arbitrary: s)
  case (Cons d ds)
  then obtain u where u: "replay_step (resolution_event now d) s = Inr u" "r_spent u = r_spent s"
    "r_reserved u = bt_insert (div_key d) (owed db (div_key d)) (r_reserved s)"
    using resolution_step by (metis list.set_intros(1))
  from Cons obtain t where "foldE replay_step (map (resolution_event now) ds) u = Inr t" "r_spent t = r_spent u"
    "\<forall>k. map_of (r_reserved t) k = (if k \<in> div_key ` set ds then Some (owed db k) else map_of (r_reserved u) k)"
    by (metis list.set_intros(2))
  with u show ?case by auto
qed simp

lemma started_fold_resolutions:
  "fold started_step (map (resolution_event now) ds) (st, tk) = (st, rev (map div_key ds) @ tk)"
  by (induction ds arbitrary: tk)
    (auto simp: started_step_def resolution_event_def STARTED_TERMINAL_EVENTS_def)

lemma started_with_resolutions:
  assumes "\<forall>d \<in> set ds. map_of (started_events es) (div_key d) = None"
  shows "started_events (es @ map (resolution_event now) ds) = started_events es"
proof -
  obtain st tk where f: "fold started_step es ([], []) = (st, tk)" by fastforce
  have "k \<notin> div_key ` set ds" if "(k, v) \<in> set (filter (\<lambda>(k, _). k \<notin> set tk) st)" for k v
    using assms that f by (force simp: started_events_def map_of_eq_None_iff)
  then have "filter (\<lambda>(k, _). k \<notin> set (rev (map div_key ds) @ tk)) st = filter (\<lambda>(k, _). k \<notin> set tk) st"
    by (intro filter_cong) auto
  then show ?thesis
    by (simp add: started_events_def f started_fold_resolutions)
qed

lemma nonzero_get: "bt_ok m \<Longrightarrow> bt_get_or 0 (filter (\<lambda>(_, v). v \<noteq> (0::int)) m) k = bt_get_or 0 m k"
  using map_of_filter_ok [of m "\<lambda>_ v. v \<noteq> 0" k] by (auto simp: bt_get_or_def split: option.splits)

lemma nonzero_keys: "bt_ok m \<Longrightarrow> k \<in> fst ` set (filter (\<lambda>(_, v). v \<noteq> (0::int)) m) \<longleftrightarrow> bt_get_or 0 m k \<noteq> 0"
  using map_of_filter_ok [of m "\<lambda>_ v. v \<noteq> 0" k] map_of_eq_None_iff [of "filter (\<lambda>(_, v). v \<noteq> 0) m" k]
  by (auto simp: bt_get_or_def split: option.splits if_splits)

text \<open>The replay after the resolutions: the owed amounts, everything else as it was.\<close>

lemma replay_resolutions:
  assumes "replay_events es = Inr st" "\<forall>d \<in> set ds. pays db d"
  obtains st' where "replay_events (es @ map (resolution_event now) ds) = Inr st'"
    "spent_msat st' = spent_msat st" "total_spent_msat st' = total_spent_msat st"
    "\<And>k. bt_get_or 0 (reserved_msat st') k =
       (if k \<in> div_key ` set ds then owed db k else bt_get_or 0 (reserved_msat st) k)"
    "\<And>k. k \<in> fst ` set (reserved_msat st') \<longleftrightarrow> bt_get_or 0 (reserved_msat st') k \<noteq> 0"
    "\<And>k. k \<in> fst ` set (reserved_msat st) \<longleftrightarrow> bt_get_or 0 (reserved_msat st) k \<noteq> 0"
proof -
  from assms(1) obtain s where s: "foldE replay_step es replay_init = Inr s" "replay_finish s = Inr st"
    by (auto simp: replay_events_def bindE_eq_Inr)
  from resolutions_fold [OF assms(2)] obtain t where
    t: "foldE replay_step (map (resolution_event now) ds) s = Inr t" "r_spent t = r_spent s"
      "\<forall>k. map_of (r_reserved t) k = (if k \<in> div_key ` set ds then Some (owed db k) else map_of (r_reserved s) k)"
    by blast
  have ok: "acc_ok s" "acc_ok t" using fold_acc_ok [OF s(1)] fold_acc_ok [OF t(1)] by auto
  from s(2) have fin: "st = \<lparr>reserved_msat = filter (\<lambda>(_, v). v \<noteq> 0) (r_reserved s), spent_msat = r_spent s,
      total_spent_msat = total_spent_msat st, terminal = r_terminal s, anomalies = r_anomalies s\<rparr>"
    by (auto simp: replay_finish_def bindE_eq_Inr)
  define st' where "st' = \<lparr>reserved_msat = filter (\<lambda>(_, v). v \<noteq> 0) (r_reserved t), spent_msat = r_spent t,
      total_spent_msat = total_spent_msat st, terminal = r_terminal t, anomalies = r_anomalies t\<rparr>"
  have "replay_finish t = Inr st'"
    using s(2) t(2) by (auto simp: replay_finish_def bindE_eq_Inr st'_def)
  then have "replay_events (es @ map (resolution_event now) ds) = Inr st'"
    using s(1) t(1) by (simp add: replay_events_def foldE_append)
  moreover have "spent_msat st' = spent_msat st" using fin t(2) by (metis ledger_state.select_convs(2) st'_def)
  moreover have r: "reserved_msat st = filter (\<lambda>(_, v). v \<noteq> 0) (r_reserved s)"
    by (subst fin) simp
  moreover have "bt_get_or 0 (reserved_msat st') k =
       (if k \<in> div_key ` set ds then owed db k else bt_get_or 0 (reserved_msat st) k)" for k
    using ok t(3) nonzero_get [of "r_reserved s" k] nonzero_get [of "r_reserved t" k]
    unfolding r st'_def acc_ok_def by (simp add: bt_get_or_def)
  moreover have "k \<in> fst ` set (reserved_msat st') \<longleftrightarrow> bt_get_or 0 (reserved_msat st') k \<noteq> 0" for k
    using ok nonzero_keys [of "r_reserved t" k] nonzero_get [of "r_reserved t" k]
    unfolding st'_def acc_ok_def by simp
  moreover have "k \<in> fst ` set (reserved_msat st) \<longleftrightarrow> bt_get_or 0 (reserved_msat st) k \<noteq> 0" for k
    using ok nonzero_keys [of "r_reserved s" k] nonzero_get [of "r_reserved s" k]
    unfolding r acc_ok_def by simp
  ultimately show thesis by (intro that [of st']) (simp_all add: st'_def)
qed

lemma classify_key_cong:
  "bt_get_or 0 m k = bt_get_or 0 n k \<Longrightarrow> classify_key m db k = classify_key n db k"
  by (simp add: classify_key_def)

lemma agrees_classified:
  assumes "classify_key outstanding db key = Inr r" "agrees outstanding db key"
  shows "r = None"
  using assms by (auto simp: classify_key_def agrees_def Let_def result_simps db_reserved_msat_checked_def
      split: option.splits if_splits)

lemma report_resolution_free:
  assumes "\<forall>k \<in> set (sweep_keys outstanding in_flight db). classify_key outstanding db k = Inr None"
    and "foldE (quarantine_step outstanding db now stale) in_flight [] = Inr ds"
  shows "reconcile_report outstanding in_flight db now stale =
    Inr \<lparr>checked = length (sweep_keys outstanding in_flight db),
      matched = length (sweep_keys outstanding in_flight db), divergences = ds\<rparr>"
proof -
  let ?ks = "sweep_keys outstanding in_flight db"
  have "map (classify_key outstanding db) ?ks = map Inr (replicate (length ?ks) None)"
    using assms(1) by (simp add: map_replicate_const [symmetric] cong: map_cong)
  then have "sequenceE (map (classify_key outstanding db) ?ks) = Inr (replicate (length ?ks) None)"
    by (simp only: sequenceE_map_Inr)
  then show ?thesis using assms(2) by (simp add: reconcile_report_def count_keys_fold)
qed

lemma quarantine_again:
  "foldE (quarantine_step outstanding db now stale) ps ds = Inr ds' \<Longrightarrow>
   foldE (quarantine_step outstanding' db now stale) ps ds2 =
     Inr (ds2 @ map (unknown_outcome outstanding' db now) (filter (\<lambda>p. stale < now - snd p) ps))"
proof (induction ps arbitrary: ds ds2)
  case (Cons p ps)
  then obtain ds1 where 1: "quarantine_step outstanding db now stale p ds = Inr ds1"
    and 2: "foldE (quarantine_step outstanding db now stale) ps ds1 = Inr ds'"
    by (auto simp: bindE_eq_Inr)
  from 1 have "in_i64 (now - snd p)" by (auto simp: quarantine_step_def result_simps)
  then have "quarantine_step outstanding' db now stale p ds2 =
      Inr (if stale < now - snd p then ds2 @ [unknown_outcome outstanding' db now p] else ds2)"
    by (simp add: quarantine_step_def chk_i64_def)
  with Cons.IH [OF 2] show ?case by simp
qed simp

definition active_rows_hold :: "db_states \<Rightarrow> bool" where
  "active_rows_hold db \<longleftrightarrow> bt_ok db \<and> list_all (\<lambda>(_, row). db_status row = ''active'' \<longrightarrow> db_reserved_sats row \<noteq> 0) db"

lemma active_row_listed:
  "active_rows_hold db \<Longrightarrow> (k, row) \<in> set db \<Longrightarrow> map_of db k = Some row \<and> (db_status row = ''active'' \<longrightarrow> db_reserved_sats row \<noteq> 0)"
  using bt_ok_distinct by (auto simp: active_rows_hold_def list_all_iff)

lemma settled_agrees:
  assumes "active_rows_hold db" "bt_get_or 0 n k = owed db k"
    and "bt_get_or 0 n k \<noteq> 0 \<or> (\<exists>row. (k, row) \<in> set db \<and> db_status row = ''active'')"
  shows "agrees n db k"
proof (cases "map_of db k")
  case None
  with assms active_row_listed [OF assms(1)] show ?thesis by (auto simp: owed_def)
next
  case (Some row)
  then have "(k, row) \<in> set db" by (rule map_of_SomeD)
  from active_row_listed [OF assms(1) this] Some assms(2) show ?thesis
    by (auto simp: agrees_def owed_def split: if_splits)
qed

text \<open>C35. Reconciliation converges in one sweep: once the resolutions of a sweep are in the
  ledger, the replay still succeeds with the same spend, the executions without an
  outcome are the same, and the next sweep against the same table finds nothing to
  resolve and the same quarantined divergences, provided active rows hold an amount.\<close>

theorem reconcile_converges:
  assumes "replay_events es = Inr st"
    and "reconcile_report (reserved_msat st) (started_events es) db now stale = Inr rep"
    and "active_rows_hold db"
  shows "\<exists>st' rep'. replay_events (es @ resolution_events t rep) = Inr st' \<and>
    spent_msat st' = spent_msat st \<and> total_spent_msat st' = total_spent_msat st \<and>
    started_events (es @ resolution_events t rep) = started_events es \<and>
    reconcile_report (reserved_msat st') (started_events (es @ resolution_events t rep)) db now stale = Inr rep' \<and>
    matched rep' = checked rep' \<and>
    divergences rep' = filter (\<lambda>d. \<not> resolvable d) (divergences rep)"
proof -
  let ?ds = "filter resolvable (divergences rep)"
  let ?fl = "started_events es"
  note cl = classified [OF assms(2)]
  have pays: "\<forall>d \<in> set ?ds. pays db d"
    using cl(1) classify_key_Some [of "reserved_msat st" db] by (auto simp: pays_def)
  have free: "map_of ?fl (div_key d) = None" if "d \<in> set ?ds" for d
    using cl(1) [of d] that by (simp add: sweep_keys_mem)
  then have fl: "started_events (es @ map (resolution_event t) ?ds) = ?fl"
    by (intro started_with_resolutions) blast
  obtain st' where st': "replay_events (es @ map (resolution_event t) ?ds) = Inr st'"
      "spent_msat st' = spent_msat st" "total_spent_msat st' = total_spent_msat st"
    and get: "\<And>k. bt_get_or 0 (reserved_msat st') k =
       (if k \<in> div_key ` set ?ds then owed db k else bt_get_or 0 (reserved_msat st) k)"
    and keys: "\<And>k. k \<in> fst ` set (reserved_msat st') \<longleftrightarrow> bt_get_or 0 (reserved_msat st') k \<noteq> 0"
      "\<And>k. k \<in> fst ` set (reserved_msat st) \<longleftrightarrow> bt_get_or 0 (reserved_msat st) k \<noteq> 0"
    by (rule replay_resolutions [where now = t, OF assms(1) pays]) blast
  have ok: "classify_key (reserved_msat st') db k = Inr None"
    if k: "k \<in> set (sweep_keys (reserved_msat st') ?fl db)" for k
  proof (cases "k \<in> div_key ` set ?ds")
    case True
    then have o: "in_i64 (owed db k)" using pays by (auto simp: pays_def)
    have "agrees (reserved_msat st') db k"
      using k True get keys(1) by (intro settled_agrees [OF assms(3)]) (auto simp: sweep_keys_mem)
    then show ?thesis using o True get by (intro classify_key_agrees) simp_all
  next
    case False
    then have same: "bt_get_or 0 (reserved_msat st') k = bt_get_or 0 (reserved_msat st) k" using get by simp
    have "k \<in> set (sweep_keys (reserved_msat st) ?fl db)"
      using k same keys by (simp add: sweep_keys_mem)
    moreover from cl(2) [OF this] False have "agrees (reserved_msat st) db k" by auto
    moreover obtain os where "map (classify_key (reserved_msat st) db) (sweep_keys (reserved_msat st) ?fl db) = map Inr os"
      using reconcile_report_Inr [OF assms(2)] by (auto simp: sequenceE_Inr)
    ultimately obtain r where "classify_key (reserved_msat st) db k = Inr r"
      by (metis (no_types, lifting) imageE list.set_map imageI)
    with agrees_classified [OF this \<open>agrees (reserved_msat st) db k\<close>] classify_key_cong [OF same] show ?thesis by simp
  qed
  from assms(2) obtain ds0 ds1 where "foldE (quarantine_step (reserved_msat st) db now stale) ?fl ds0 = Inr ds1"
    by (auto simp: reconcile_report_def bindE_eq_Inr)
  note q = quarantine_again [OF this, of "reserved_msat st'" "[]"]
  have "unknown_outcome (reserved_msat st') db now p = unknown_outcome (reserved_msat st) db now p" if "p \<in> set ?fl" for p
  proof -
    have "fst p \<notin> div_key ` set ?ds" using free that by (force simp: map_of_eq_None_iff)
    then show ?thesis using get by (cases p) (simp add: unknown_outcome_def)
  qed
  then have "map (unknown_outcome (reserved_msat st') db now) (filter (\<lambda>p. stale < now - snd p) ?fl)
      = filter (\<lambda>d. \<not> resolvable d) (divergences rep)"
    unfolding cl(3) by (intro map_cong) auto
  with q st' fl report_resolution_free [of "reserved_msat st'" ?fl db, OF _ q] ok show ?thesis
    by (simp add: resolution_events_def)
qed

section \<open>Applying a report\<close>

definition resolution_row :: "int \<Rightarrow> divergence \<Rightarrow> ledger_row \<Rightarrow> bool" where
  "resolution_row now d r \<longleftrightarrow> row_type r = ''reconciliation_completed'' \<and> row_key r = div_key d \<and>
     row_intent r = take_chars 16 (div_key d) \<and> row_cycle r = ''reconcile'' \<and> row_at r = now"

lemma apply_one_effect:
  assumes "apply_one now d c = (r, c')" "txn c = None"
  shows "txn c' = None \<and>
    (case r of Inl e \<Rightarrow> rows (disk c') = rows (disk c) \<and> resolvable d
     | Inr n \<Rightarrow> if resolvable d then n = 1 \<and> (\<exists>row. resolution_row now d row \<and> rows (disk c') = rows (disk c) @ [row])
               else n = 0 \<and> rows (disk c') = rows (disk c))"
proof (cases "div_resolution d")
  case None
  with assms show ?thesis by (auto simp: apply_one_def resolvable_def)
next
  case (Some v)
  show ?thesis
  proof (cases "resolution_details d")
    case (Inl e)
    with assms Some show ?thesis by (auto simp: apply_one_def resolvable_def bindA_def)
  next
    case dt: (Inr dt)
    show ?thesis
    proof (cases "value_to_amounts v")
      case (Inl e)
      with assms Some dt show ?thesis by (auto simp: apply_one_def resolvable_def bindA_def)
    next
      case am: (Inr am)
      let ?app = "append_event ''reconciliation_completed'' (take_chars 16 (div_key d)) (div_key d)
                   ''reconcile'' now am dt"
      obtain q c1 where a: "?app c = (q, c1)" by fastforce
      have "txn c1 = None" by (rule stays_outD [OF append_stays_out assms(2) a])
      then show ?thesis
        using append_effect [OF a assms(2)] a assms(1) Some dt am
        by (cases q) (auto simp: apply_one_def resolvable_def resolution_row_def bindA_def)
    qed
  qed
qed

lemma apply_all_effect:
  "apply_all now ds n c = (r, c') \<Longrightarrow> txn c = None \<Longrightarrow>
   \<exists>done rs. rows (disk c') = rows (disk c) @ rs \<and> list_all2 (resolution_row now) done rs \<and> txn c' = None \<and>
     (\<exists>rest. filter resolvable ds = done @ rest \<and>
       (case r of Inl e \<Rightarrow> rest \<noteq> [] | Inr m \<Rightarrow> rest = [] \<and> m = n + length done))"
proof (induction ds arbitrary: n c)
  case (Cons d ds)
  obtain q c1 where 1: "apply_one now d c = (q, c1)" by fastforce
  note eff = apply_one_effect [OF 1 Cons.prems(2)]
  show ?case
  proof (cases q)
    case (Inl e)
    with 1 Cons.prems(1) have "r = Inl e" "c' = c1" by (simp_all add: bindA_def)
    with eff Inl show ?thesis by (intro exI [of _ "[]"]) auto
  next
    case (Inr m)
    with 1 Cons.prems(1) have all: "apply_all now ds (n + m) c1 = (r, c')" by (simp add: bindA_def)
    from eff have "txn c1 = None" by simp
    from Cons.IH [OF all this] obtain dn rs rest where
      ih: "rows (disk c') = rows (disk c1) @ rs" "list_all2 (resolution_row now) dn rs" "txn c' = None"
        "filter resolvable ds = dn @ rest"
        "case r of Inl e \<Rightarrow> rest \<noteq> [] | Inr m' \<Rightarrow> rest = [] \<and> m' = n + m + length dn" by blast
    show ?thesis
    proof (cases "resolvable d")
      case True
      with eff Inr obtain row where "m = 1" "resolution_row now d row" "rows (disk c1) = rows (disk c) @ [row]" by auto
      with ih True show ?thesis
        by (intro exI [of _ "d # dn"] exI [of _ "row # rs"]) (auto split: sum.splits)
    next
      case False
      with eff Inr ih show ?thesis by (intro exI [of _ dn] exI [of _ rs]) (auto split: sum.splits)
    qed
  qed
qed (auto split: sum.splits)

text \<open>Applying a report is append-only and resumable under every engine behaviour: the rows
  added are resolutions of the resolvable divergences in report order, all of them when it
  succeeds (with their number as the result) and a proper prefix of them when it fails.\<close>

theorem apply_report_prefix:
  assumes "apply_report rep now c = (r, c')" "txn c = None"
  shows "\<exists>resolved rest rs. filter resolvable (divergences rep) = resolved @ rest \<and>
    rows (disk c') = rows (disk c) @ rs \<and> list_all2 (resolution_row now) resolved rs \<and> txn c' = None \<and>
    (case r of Inl e \<Rightarrow> rest \<noteq> [] | Inr n \<Rightarrow> rest = [] \<and> n = length rs)"
proof -
  from apply_all_effect [OF assms(1) [unfolded apply_report_def] assms(2)] obtain dn rs rest where
    "rows (disk c') = rows (disk c) @ rs" "list_all2 (resolution_row now) dn rs" "txn c' = None"
    "filter resolvable (divergences rep) = dn @ rest"
    "case r of Inl e \<Rightarrow> rest \<noteq> [] | Inr m \<Rightarrow> rest = [] \<and> m = 0 + length dn" by blast
  then show ?thesis
    by (intro exI [of _ dn] exI [of _ rest] exI [of _ rs])
      (auto split: sum.splits dest: list_all2_lengthD)
qed

subsection \<open>An example\<close>

text \<open>A released row the ledger still holds, an active row it does not know, an execution
  that never reported.\<close>

definition drifted_events :: "ledger_event list" where
  "drifted_events =
     [sample_event ''budget_reserved'' ''a'' [(''reserved_msat'', 5000)],
      sample_event ''budget_reserved'' ''c'' [(''reserved_msat'', 7000)],
      sample_event ''execution_started'' ''c'' []]"

definition drifted_rows :: db_states where
  "drifted_rows = [(''a'', \<lparr>db_status = ''released'', db_reserved_sats = 5\<rparr>),
     (''b'', \<lparr>db_status = ''active'', db_reserved_sats = 9\<rparr>),
     (''c'', \<lparr>db_status = ''active'', db_reserved_sats = 8\<rparr>)]"

lemma drifted_replay:
  "replay_events drifted_events = Inr \<lparr>reserved_msat = [(''a'', 5000), (''c'', 7000)], spent_msat = [],
     total_spent_msat = 0, terminal = [], anomalies = []\<rparr>"
  by (simp add: replay_events_def drifted_events_def replay_init_def replay_step_def replay_finish_def
      sample_event_def bt_get_or_def TERMINAL_EVENTS_def Let_def)

lemma drifted_report:
  "\<exists>rep. reconcile_report [(''a'', 5000), (''c'', 7000)] (started_events drifted_events) drifted_rows 9000 3600
    = Inr rep \<and> map div_key (filter resolvable (divergences rep)) = [''a'', ''b'']"
  by (simp add: reconcile_report_def started_events_def started_step_def drifted_events_def sample_event_def
      drifted_rows_def sweep_keys_def bt_keys_def bt_get_or_def count_key_def classify_key_def DB_TERMINAL_def
      db_reserved_msat_checked_def checked_op_def checked_i64_def quarantine_step_def chk_i64_def in_i64_alt
      unknown_outcome_def resolvable_def STARTED_TERMINAL_EVENTS_def Let_def)

theorem reconcile_spares_in_flight_witness:
  "\<exists>rep. reconcile_report [(''a'', 5000), (''c'', 7000)] (started_events drifted_events) drifted_rows 9000 3600
    = Inr rep \<and> checked rep = matched rep + 2"
proof (rule exE [OF drifted_report], elim conjE, intro exI conjI)
  fix rep assume r: "reconcile_report [(''a'', 5000), (''c'', 7000)] (started_events drifted_events) drifted_rows 9000 3600
    = Inr rep" and k: "map div_key (filter resolvable (divergences rep)) = [''a'', ''b'']"
  show "reconcile_report [(''a'', 5000), (''c'', 7000)] (started_events drifted_events) drifted_rows 9000 3600
    = Inr rep" by (rule r)
  have "length (filter resolvable (divergences rep)) = 2" using arg_cong [OF k, of length] by simp
  then show "checked rep = matched rep + 2" by (simp only: reconcile_spares_in_flight [OF r])
qed

theorem reconcile_converges_witness:
  "\<exists>rep st'. replay_events (drifted_events @ resolution_events 9001 rep) = Inr st' \<and>
     map div_key (filter resolvable (divergences rep)) = [''a'', ''b''] \<and> spent_msat st' = []"
proof (rule exE [OF drifted_report], elim conjE)
  fix rep assume r: "reconcile_report [(''a'', 5000), (''c'', 7000)] (started_events drifted_events) drifted_rows 9000 3600
    = Inr rep" and k: "map div_key (filter resolvable (divergences rep)) = [''a'', ''b'']"
  have "active_rows_hold drifted_rows" by (simp add: active_rows_hold_def drifted_rows_def bt_ok_def)
  note c = reconcile_converges [OF drifted_replay _ this, unfolded ledger_state.select_convs, OF r, of 9001]
  then show ?thesis
    by (elim exE conjE, intro exI conjI) (assumption | rule k)+
qed

definition orphan :: divergence where
  "orphan = \<lparr>div_kind = ''db_missing'', div_key = ''a'', div_ledger_msat = 5000, div_db_status = None,
     div_db_sats = None, div_resolution = Some (json_object [(''reserved_msat'', JInt 0)]),
     div_details = json_object [(''note'', JStr ''no spend_reservations row'')]\<rparr>"

theorem apply_report_prefix_witness:
  "\<exists>row. rows (disk (snd (apply_report \<lparr>checked = 1, matched = 0, divergences = [orphan]\<rparr> 5 empty_ledger))) = [row] \<and>
     resolution_row 5 orphan row"
proof -
  let ?rep = "\<lparr>checked = 1, matched = 0, divergences = [orphan]\<rparr>"
  have "fst (apply_report ?rep 5 empty_ledger) = Inr 1"
    by (simp add: apply_report_def apply_one_def orphan_def json_object_def resolution_details_def
        value_to_amounts_def in_i64_alt append_event_def EVENT_TYPES_def empty_ledger_def bindA_def connect_def
        map_errA_def insert_row_def current_def i64_bounds store_def)
  then obtain c' where r: "apply_report ?rep 5 empty_ledger = (Inr 1, c')" by (metis prod.collapse)
  have "filter resolvable [orphan] = [orphan]" by (simp add: resolvable_def orphan_def)
  with apply_report_prefix [OF r] r show ?thesis
    by (auto simp: empty_ledger_def list_all2_Cons1)
qed

end
