(* ===== verification/RebalanceTypes.thy ===== *)
theory RebalanceTypes
  imports Json
begin

text \<open>
  The shared vocabulary of the rebalance crate (\<open>revops-rebalance/src/types.rs\<close>,
  \<open>errors.rs\<close>, \<open>modes.rs\<close>): the error-string contracts and their two classifiers, the
  cooldown table, the execution result and the table of rebalance modes.
\<close>

section \<open>Error strings\<close>

definition LOCAL_BUDGET_BLOCK :: string where "LOCAL_BUDGET_BLOCK = ''local_budget_block''"
definition ZERO_BUDGET_BLOCKS_AUTO_REBALANCE :: string where
  "ZERO_BUDGET_BLOCKS_AUTO_REBALANCE = ''zero_budget_blocks_auto_rebalance''"
definition ENGINE_BUSY :: string where "ENGINE_BUSY = ''engine_busy''"
definition DEST_INFLIGHT :: string where "DEST_INFLIGHT = ''dest_inflight''"
definition CYCLE_ALREADY_RUNNING :: string where "CYCLE_ALREADY_RUNNING = ''cycle_already_running''"
definition ROUTE_PRICING_FAILED_PREFIX :: string where "ROUTE_PRICING_FAILED_PREFIX = ''route_pricing_failed: ''"
definition NATIVE_ROUTE_INVALID_PREFIX :: string where "NATIVE_ROUTE_INVALID_PREFIX = ''native_route_invalid: ''"
definition NATIVE_ROUTE_OVER_BUDGET_PREFIX :: string where
  "NATIVE_ROUTE_OVER_BUDGET_PREFIX = ''native_route_over_budget: ''"
definition NATIVE_SENDPAY_ERROR_PREFIX :: string where "NATIVE_SENDPAY_ERROR_PREFIX = ''native_sendpay_error: ''"
definition PAYMENT_PENDING_TIMEOUT_PREFIX :: string where
  "PAYMENT_PENDING_TIMEOUT_PREFIX = ''payment_pending_timeout: ''"
definition NO_ROUTE :: string where "NO_ROUTE = ''no_route''"
definition TEMPORARY_CHANNEL_FAILURE :: string where "TEMPORARY_CHANNEL_FAILURE = ''temporary_channel_failure''"
definition FEE_INSUFFICIENT :: string where "FEE_INSUFFICIENT = ''fee_insufficient''"
definition INCORRECT_CLTV_EXPIRY :: string where "INCORRECT_CLTV_EXPIRY = ''incorrect_cltv_expiry''"
definition PERMANENT_FAILURE :: string where "PERMANENT_FAILURE = ''permanent_failure''"
definition GOVERNOR_BLOCK_PREFIX :: string where "GOVERNOR_BLOCK_PREFIX = ''governor_block:''"

datatype failure_kind =
  TemporaryChannelFailure | FeeInsufficient | IncorrectCltv | Permanent | PaymentPendingTimeout | LocalOrOther

definition classify_failure :: "string \<Rightarrow> failure_kind" where
  "classify_failure error =
     (let e = to_lowercase error
      in if contains_str TEMPORARY_CHANNEL_FAILURE e then TemporaryChannelFailure
         else if contains_str ''noroutes'' e \<or> contains_str ''no_routes'' e \<or> contains_str ''no route'' e
                 \<or> contains_str NO_ROUTE e then TemporaryChannelFailure
         else if contains_str FEE_INSUFFICIENT e then FeeInsufficient
         else if contains_str INCORRECT_CLTV_EXPIRY e then IncorrectCltv
         else if contains_str PERMANENT_FAILURE e then Permanent
         else if contains_str ''payment_pending_timeout'' e then PaymentPendingTimeout
         else LocalOrOther)"

fun cooldown_base_secs :: "failure_kind \<Rightarrow> int" where
  "cooldown_base_secs TemporaryChannelFailure = 300"
| "cooldown_base_secs FeeInsufficient = 1800"
| "cooldown_base_secs IncorrectCltv = 3600"
| "cooldown_base_secs Permanent = 21600"
| "cooldown_base_secs PaymentPendingTimeout = 3600"
| "cooldown_base_secs LocalOrOther = 600"

definition stable_failure_reason :: "string \<Rightarrow> string" where
  "stable_failure_reason error =
     (let n = to_lowercase (trim error)
      in if n = [] then ''local_execution_failed''
         else if n = ''route_over_budget'' \<or> starts_with ''route_over_budget:'' n
                 \<or> starts_with ''native_route_over_budget:'' n then ''route_segment_exhausted''
         else if starts_with ''native_route_invalid:'' n then ''local_policy_block''
         else if contains_str ''temporary_channel_failure'' n \<or> contains_str ''fee_insufficient'' n
         then ''shared_conflict_changed''
         else if contains_str ''incorrect_cltv_expiry'' n then ''shared_conflict_changed''
         else if contains_str ''timeout'' n \<or> n = ''payment_pending_timeout'' then ''executor_timeout''
         else if starts_with ''retriable_failure:'' n then ''local_execution_failed''
         else ''local_execution_failed'')"

section \<open>Shared records\<close>

record execution_result =
  success :: bool
  attempts :: int
  fee_sats :: int
  fee_msat :: int
  fee_ppm :: int
  hops :: int
  parts :: int
  error :: "string option"
  amount_sats :: int
  payment_pending :: bool
  payment_hash :: "string option"
  excluded_channels :: "string list"
  route_type :: string
  failure_data :: json

record skip_record =
  skip_channel :: string
  skip_reason :: string
  skip_class :: string
  skip_budget :: int
  skip_detail :: "string option"

definition skip_new :: "string \<Rightarrow> string \<Rightarrow> skip_record" where
  "skip_new cid reason = \<lparr>skip_channel = cid, skip_reason = reason, skip_class = ''neutral'',
     skip_budget = 0, skip_detail = None\<rparr>"

record drain_demand =
  drain_channel :: string
  drain_peer :: string
  excess_sats :: int
  drain_score :: f64
  drain_class :: string

section \<open>Modes\<close>

record mode_row =
  mode_priority :: int
  mode_bucket :: string
  reserve_on_rail :: bool
  account_costs :: bool
  deadline_secs :: int
  accounting_owner :: string

definition NORMAL :: mode_row where
  "NORMAL = \<lparr>mode_priority = 50, mode_bucket = ''maintenance'', reserve_on_rail = True, account_costs = True,
     deadline_secs = 3600, accounting_owner = ''engine''\<rparr>"
definition HOT_PROTECTION :: mode_row where
  "HOT_PROTECTION = \<lparr>mode_priority = 90, mode_bucket = ''revenue_protection'', reserve_on_rail = True,
     account_costs = True, deadline_secs = 900, accounting_owner = ''engine''\<rparr>"
definition STRUCTURAL_DRAIN :: mode_row where
  "STRUCTURAL_DRAIN = \<lparr>mode_priority = 20, mode_bucket = ''structural'', reserve_on_rail = True,
     account_costs = True, deadline_secs = 21600, accounting_owner = ''engine''\<rparr>"
definition MANUAL :: mode_row where
  "MANUAL = \<lparr>mode_priority = 100, mode_bucket = ''operator_explicit'', reserve_on_rail = False,
     account_costs = False, deadline_secs = 0, accounting_owner = ''caller''\<rparr>"
definition DIAGNOSTIC :: mode_row where
  "DIAGNOSTIC = \<lparr>mode_priority = 10, mode_bucket = ''diagnostic'', reserve_on_rail = True,
     account_costs = True, deadline_secs = i64_max, accounting_owner = ''engine''\<rparr>"

definition deadline_secs_for_class :: "string \<Rightarrow> (unit, int) result" where
  "deadline_secs_for_class c =
     (if c = ''immediate'' then Inr 0 else if c = ''short'' then Inr 900 else if c = ''normal'' then Inr 3600
      else if c = ''long'' then Inr 21600 else if c = ''none'' then Inr i64_max else Inl Panic)"

definition mode_of :: "string \<Rightarrow> mode_row option" where
  "mode_of name =
     (if name = ''normal'' then Some NORMAL else if name = ''hot_protection'' then Some HOT_PROTECTION
      else if name = ''structural_drain'' then Some STRUCTURAL_DRAIN else if name = ''manual'' then Some MANUAL
      else if name = ''diagnostic'' then Some DIAGNOSTIC else None)"

record engine_kwargs =
  reserve_budget :: bool
  account_kwarg :: bool

definition engine_kwargs_of :: "string \<Rightarrow> (unit, engine_kwargs) result" where
  "engine_kwargs_of name =
     (case mode_of name of None \<Rightarrow> Inl Panic
      | Some m \<Rightarrow> Inr \<lparr>reserve_budget = reserve_on_rail m, account_kwarg = account_costs m\<rparr>)"

end
