(* ===== verification/Pyjson.thy ===== *)
theory Pyjson
  imports Json
begin

text \<open>
  The order-preserving JSON tree of persisted state (\<open>revops-fees/src/pyjson.rs\<close>) and its
  coercions. An object is the list of its entries in insertion order.
\<close>

datatype ovalue =
    ONull
  | OBool bool
  | OInt int
  | OFloat f64
  | OStr string
  | OArr "ovalue list"
  | OObj "(string \<times> ovalue) list"

fun oas_obj :: "ovalue \<Rightarrow> (string \<times> ovalue) list option" where
  "oas_obj (OObj kvs) = Some kvs"
| "oas_obj _ = None"

fun oas_arr :: "ovalue \<Rightarrow> ovalue list option" where
  "oas_arr (OArr xs) = Some xs"
| "oas_arr _ = None"

fun oas_str :: "ovalue \<Rightarrow> string option" where
  "oas_str (OStr s) = Some s"
| "oas_str _ = None"

fun oas_f64 :: "ovalue \<Rightarrow> f64 option" where
  "oas_f64 (OInt i) = Some (f64_of_int i)"
| "oas_f64 (OFloat f) = Some f"
| "oas_f64 _ = None"

fun oas_i64 :: "ovalue \<Rightarrow> int option" where
  "oas_i64 (OInt i) = Some i"
| "oas_i64 (OFloat f) = (if f64_is_finite f then Some (f64_as_i64 f) else None)"
| "oas_i64 (OBool b) = Some (if b then 1 else 0)"
| "oas_i64 _ = None"

fun oget :: "ovalue \<Rightarrow> string \<Rightarrow> ovalue option" where
  "oget (OObj kvs) k = map_of kvs k"
| "oget _ k = None"

fun ois_null :: "ovalue \<Rightarrow> bool" where
  "ois_null ONull = True"
| "ois_null _ = False"

fun to_serde_json :: "ovalue \<Rightarrow> json" where
  "to_serde_json ONull = JNull"
| "to_serde_json (OBool b) = JBool b"
| "to_serde_json (OInt i) = JInt i"
| "to_serde_json (OFloat f) = (if f64_is_finite f then JFloat f else JNull)"
| "to_serde_json (OStr s) = JStr s"
| "to_serde_json (OArr xs) = JArr (map to_serde_json xs)"
| "to_serde_json (OObj kvs) =
     JObj (fold (\<lambda>(k, v). bt_insert k v) (map (\<lambda>(k, v). (k, to_serde_json v)) kvs) [])"

end
