(* ===== verification/Segstore.thy ===== *)
theory Segstore
  imports Pyjson
begin

text \<open>
  The ring of failure observations of route segments
  (\<open>revops-rebalance/src/segstore.rs\<close>). The mutex is the atomicity of one operation; the
  sequence number is a \<open>u64\<close> that starts at 1 and counts records, so it cannot overflow.
\<close>

section \<open>Data\<close>

definition DEFAULT_TTL_SECONDS :: int where "DEFAULT_TTL_SECONDS = 900"
definition DEFAULT_MAX_OBSERVATIONS :: int where "DEFAULT_MAX_OBSERVATIONS = 200"

definition BUCKETS :: "int list" where
  "BUCKETS = [50000, 100000, 250000, 500000, 1000000, 2000000, 5000000, 10000000]"

definition VALID_FAILURE_CLASSES :: "string list" where
  "VALID_FAILURE_CLASSES = [''liquidity'', ''fee'', ''timeout'', ''unknown'']"

fun bucket_scan :: "int \<Rightarrow> int list \<Rightarrow> int \<Rightarrow> int" where
  "bucket_scan amount [] bucket = bucket"
| "bucket_scan amount (c # cs) bucket = (if amount < c then bucket else bucket_scan amount cs c)"

definition bucket_amount_sats :: "int \<Rightarrow> int" where
  "bucket_amount_sats amount = (if amount \<le> 0 then 0 else bucket_scan amount BUCKETS (hd BUCKETS))"

record seg_observation =
  observation_id :: string
  seg_scid :: string
  seg_direction :: int
  amount_bucket_sats :: int
  seg_outcome :: string
  seg_failure_class :: string
  seg_confidence :: f64
  observed_at :: int
  seg_source :: string
  seg_dest :: string
  seg_route_policy :: string
  seg_router_kind :: string
  seg_correlation :: string

definition observation_to_ovalue :: "seg_observation \<Rightarrow> ovalue" where
  "observation_to_ovalue ob = OObj
     [(''observation_id'', OStr (observation_id ob)), (''short_channel_id'', OStr (seg_scid ob)),
      (''direction'', OInt (seg_direction ob)), (''amount_bucket_sats'', OInt (amount_bucket_sats ob)),
      (''outcome'', OStr (seg_outcome ob)), (''failure_class'', OStr (seg_failure_class ob)),
      (''confidence'', OFloat (seg_confidence ob)), (''observed_at'', OInt (observed_at ob)),
      (''source_channel_id'', OStr (seg_source ob)), (''dest_channel_id'', OStr (seg_dest ob)),
      (''route_policy'', OStr (seg_route_policy ob)), (''router_kind'', OStr (seg_router_kind ob)),
      (''correlation_id'', OStr (seg_correlation ob))]"

record segstore =
  ttl_seconds :: int
  max_observations :: nat
  observations :: "seg_observation list"
  next_observation_id :: int

section \<open>Operations\<close>

definition seg_new :: "int \<Rightarrow> int \<Rightarrow> segstore" where
  "seg_new ttl cap = \<lparr>ttl_seconds = max ttl 60, max_observations = nat (max cap 1),
     observations = [], next_observation_id = 1\<rparr>"

definition seg_with_defaults :: segstore where
  "seg_with_defaults = seg_new DEFAULT_TTL_SECONDS DEFAULT_MAX_OBSERVATIONS"

definition seg_entry :: "string \<Rightarrow> int \<Rightarrow> int \<Rightarrow> string \<Rightarrow> f64 \<Rightarrow> int \<Rightarrow> int \<Rightarrow> seg_observation" where
  "seg_entry scid direction bucket fclass confidence now seq =
     \<lparr>observation_id = ''obs-'' @ dec_int now @ ''-'' @ dec_int seq, seg_scid = scid,
      seg_direction = direction, amount_bucket_sats = bucket, seg_outcome = ''failure'',
      seg_failure_class = fclass, seg_confidence = confidence, observed_at = now, seg_source = [],
      seg_dest = [], seg_route_policy = [], seg_router_kind = [], seg_correlation = []\<rparr>"

text \<open>The oldest entries leave from the front while the ring is over its bound.\<close>

definition seg_record ::
  "string \<Rightarrow> int \<Rightarrow> int \<Rightarrow> string \<Rightarrow> f64 \<Rightarrow> int \<Rightarrow> segstore \<Rightarrow> seg_observation option \<times> segstore" where
  "seg_record scid direction amount fclass confidence now st =
     (let bucket = bucket_amount_sats amount
      in if bucket \<le> 0 then (None, st)
         else
           (let entry = seg_entry scid direction bucket fclass confidence now (next_observation_id st);
                ring = observations st @ [entry]
            in (Some entry,
                st\<lparr>observations := drop (length ring - max_observations st) ring,
                   next_observation_id := next_observation_id st + 1\<rparr>)))"

definition normal_class :: "string \<Rightarrow> string" where
  "normal_class c = (let t = trim c in if t = [] then ''unknown''
     else if t \<in> set VALID_FAILURE_CLASSES then t else ''unknown'')"

definition normalized :: "seg_observation \<Rightarrow> seg_observation" where
  "normalized ob =
     \<lparr>observation_id = trim (observation_id ob), seg_scid = trim (seg_scid ob),
      seg_direction = seg_direction ob, amount_bucket_sats = amount_bucket_sats ob,
      seg_outcome = ''failure'', seg_failure_class = normal_class (seg_failure_class ob),
      seg_confidence = f64_clamp (seg_confidence ob) (f64_of_int 0) (f64_of_int 1),
      observed_at = observed_at ob, seg_source = trim (seg_source ob), seg_dest = trim (seg_dest ob),
      seg_route_policy = trim (seg_route_policy ob), seg_router_kind = trim (seg_router_kind ob),
      seg_correlation = trim (seg_correlation ob)\<rparr>"

definition valid_observation :: "segstore \<Rightarrow> int \<Rightarrow> seg_observation \<Rightarrow> (unit, seg_observation option) result" where
  "valid_observation st now ob =
     (if trim (seg_scid ob) = [] \<or> (seg_direction ob \<noteq> 0 \<and> seg_direction ob \<noteq> 1) then Inr None
      else if amount_bucket_sats ob \<le> 0 then Inr None
      else if observed_at ob \<le> 0 then Inr None
      else bindE (chk_i64 (now - observed_at ob)) (\<lambda>age.
             if ttl_seconds st < age then Inr None
             else if trim (observation_id ob) = [] then Inr None
             else Inr (Some (normalized ob))))"

definition SEG_SCHEMA_VERSION :: int where "SEG_SCHEMA_VERSION = 1"

definition valid_sorted :: "segstore \<Rightarrow> int \<Rightarrow> (unit, seg_observation list) result" where
  "valid_sorted st now =
     bindE (sequenceE (map (valid_observation st now) (observations st))) (\<lambda>os.
     Inr (sort_key (\<lambda>ob. - observed_at ob) (List.map_filter id os)))"

definition export_snapshot :: "int \<Rightarrow> segstore \<Rightarrow> (unit, ovalue \<times> segstore) result" where
  "export_snapshot now st =
     bindE (valid_sorted st now) (\<lambda>full.
     Inr (OObj [(''generated_at'', OInt now), (''ttl_seconds'', OInt (ttl_seconds st)),
                (''schema_version'', OInt SEG_SCHEMA_VERSION),
                (''segment_observations'', OArr (map observation_to_ovalue full))],
          st\<lparr>observations := drop (length full - max_observations st) full\<rparr>))"

section \<open>Buckets\<close>

lemma bucket_scan_spec:
  "bucket_scan amount cs b = last (b # takeWhile (\<lambda>c. c \<le> amount) cs)"
  by (induction cs arbitrary: b) auto

lemma bucket_range: "bucket_amount_sats amount = 0 \<or> bucket_amount_sats amount \<in> set BUCKETS"
proof -
  have "last (hd BUCKETS # takeWhile (\<lambda>c. c \<le> amount) BUCKETS) \<in> set (hd BUCKETS # takeWhile (\<lambda>c. c \<le> amount) BUCKETS)"
    by (rule last_in_set) simp
  then have "bucket_scan amount BUCKETS (hd BUCKETS) \<in> set BUCKETS"
    unfolding bucket_scan_spec using set_takeWhileD by (fastforce simp: BUCKETS_def)
  then show ?thesis by (simp add: bucket_amount_sats_def)
qed

lemma bucket_positive: "0 < amount \<Longrightarrow> 0 < bucket_amount_sats amount"
  using bucket_range [of amount]
  by (auto simp: bucket_amount_sats_def BUCKETS_def split: if_splits)

section \<open>The ring\<close>

definition seg_ok :: "segstore \<Rightarrow> bool" where
  "seg_ok st \<longleftrightarrow> 60 \<le> ttl_seconds st \<and> 1 \<le> max_observations st \<and>
     length (observations st) \<le> max_observations st"

inductive seg_reachable :: "segstore \<Rightarrow> bool" where
  seg_start: "seg_reachable (seg_new ttl cap)"
| seg_recorded: "seg_reachable st \<Longrightarrow> seg_reachable (snd (seg_record scid direction amount fclass confidence now st))"
| seg_exported: "seg_reachable st \<Longrightarrow> export_snapshot now st = Inr (v, st') \<Longrightarrow> seg_reachable st'"

lemma seg_ok_record: "seg_ok st \<Longrightarrow> seg_ok (snd (seg_record scid direction amount fclass confidence now st))"
  by (auto simp: seg_record_def seg_ok_def Let_def)

lemma seg_ok_export: "seg_ok st \<Longrightarrow> export_snapshot now st = Inr (v, st') \<Longrightarrow> seg_ok st'"
  by (auto simp: export_snapshot_def seg_ok_def result_simps)

lemma seg_reachable_ok: "seg_reachable st \<Longrightarrow> seg_ok st"
  by (induction rule: seg_reachable.induct)
    (auto simp: seg_ok_record seg_ok_export, simp add: seg_new_def seg_ok_def)

lemma valid_observation_Some:
  "valid_observation st now ob = Inr (Some ob') \<Longrightarrow>
   ob' = normalized ob \<and> 0 < observed_at ob \<and> now - observed_at ob \<le> ttl_seconds st \<and>
   seg_direction ob \<in> {0, 1} \<and> 0 < amount_bucket_sats ob \<and> seg_scid ob' \<noteq> []"
  by (auto simp: valid_observation_def result_simps normalized_def split: if_splits)

lemma normal_class_valid: "normal_class c \<in> set VALID_FAILURE_CLASSES"
  by (auto simp: normal_class_def VALID_FAILURE_CLASSES_def Let_def)

lemma valid_sorted_Inr:
  assumes "valid_sorted st now = Inr full"
  shows "sorted (map (\<lambda>ob. - observed_at ob) full)" "length full \<le> length (observations st)"
    and "ob \<in> set full \<Longrightarrow> 0 < observed_at ob \<and> now - observed_at ob \<le> ttl_seconds st \<and>
      seg_direction ob \<in> {0, 1} \<and> 0 < amount_bucket_sats ob \<and> seg_scid ob \<noteq> [] \<and>
      seg_failure_class ob \<in> set VALID_FAILURE_CLASSES"
proof -
  from assms obtain os where os: "map (valid_observation st now) (observations st) = map Inr os"
    and full: "full = sort_key (\<lambda>ob. - observed_at ob) (List.map_filter id os)"
    by (auto simp: valid_sorted_def result_simps sequenceE_Inr)
  show "sorted (map (\<lambda>ob. - observed_at ob) full)" unfolding full by (rule sorted_sort_key)
  have "length os = length (observations st)" using os by (metis length_map)
  then show "length full \<le> length (observations st)"
    unfolding full by (simp add: List.map_filter_def) (metis length_filter_le)
  show "0 < observed_at ob \<and> now - observed_at ob \<le> ttl_seconds st \<and>
      seg_direction ob \<in> {0, 1} \<and> 0 < amount_bucket_sats ob \<and> seg_scid ob \<noteq> [] \<and>
      seg_failure_class ob \<in> set VALID_FAILURE_CLASSES" if "ob \<in> set full"
  proof -
    from that have "Some ob \<in> set os" unfolding full by (auto simp: List.map_filter_def)
    then have "Inr (Some ob) \<in> set (map (valid_observation st now) (observations st))" unfolding os by simp
    then obtain ob0 where v: "valid_observation st now ob0 = Inr (Some ob)" by auto
    from valid_observation_Some [OF v] show ?thesis by (auto simp: normalized_def normal_class_valid)
  qed
qed

text \<open>What a snapshot of segment observations shows: in every state the store can reach the
  ring is within its bound, and an export returns, newest first, only observations no older
  than the time to live, with a direction of 0 or 1, a positive amount bucket and one of the
  four failure classes; the ring keeps exactly the observations returned.\<close>

theorem export_snapshot_fresh:
  assumes "seg_reachable st" "export_snapshot now st = Inr (v, st')"
  shows "\<exists>full. oget v ''segment_observations'' = Some (OArr (map observation_to_ovalue full)) \<and>
    observations st' = full \<and> length full \<le> max_observations st \<and>
    sorted (map (\<lambda>ob. - observed_at ob) full) \<and>
    list_all (\<lambda>ob. 0 < observed_at ob \<and> now - observed_at ob \<le> ttl_seconds st \<and>
      seg_direction ob \<in> {0, 1} \<and> 0 < amount_bucket_sats ob \<and>
      seg_failure_class ob \<in> set VALID_FAILURE_CLASSES) full"
proof -
  from assms(2) obtain full where f: "valid_sorted st now = Inr full"
    and v: "v = OObj [(''generated_at'', OInt now), (''ttl_seconds'', OInt (ttl_seconds st)),
                (''schema_version'', OInt SEG_SCHEMA_VERSION),
                (''segment_observations'', OArr (map observation_to_ovalue full))]"
    and st': "st' = st\<lparr>observations := drop (length full - max_observations st) full\<rparr>"
    by (auto simp: export_snapshot_def result_simps)
  note full = valid_sorted_Inr [OF f]
  have "length full \<le> max_observations st"
    using full(2) seg_reachable_ok [OF assms(1)] by (simp add: seg_ok_def)
  with full v st' show ?thesis by (intro exI [of _ full]) (auto simp: list_all_iff)
qed

definition half :: f64 where "half = f64_lit False 5 1"

definition two_obs :: segstore where
  "two_obs = snd (seg_record ''b'' 1 60000 ''fee'' half 200
     (snd (seg_record ''a'' 0 60000 ''liquidity'' half 100 (seg_new 900 2))))"

lemma two_obs_ring: "map seg_scid (observations two_obs) = [''a'', ''b'']"
  by (simp add: two_obs_def seg_record_def seg_new_def bucket_amount_sats_def BUCKETS_def seg_entry_def Let_def)

lemma two_obs_valid:
  "valid_sorted two_obs 250 = Inr
     [(normalized (seg_entry ''b'' 1 50000 ''fee'' half 200 2)),
      (normalized (seg_entry ''a'' 0 50000 ''liquidity'' half 100 1))]"
proof -
  have t: "trim ''a'' = ''a''" "trim ''b'' = ''b''"
    by (rule trim_printable; simp add: printable_def)+
  have p: "trim (''obs-'' @ dec_int n @ ''-'' @ dec_int k) \<noteq> []" if k0: "0 \<le> k" for n k
  proof -
    have "last (dec_nat (nat k)) \<in> set (dec_nat (nat k))" by (rule last_in_set) simp
    then obtain ds where ds: "dec_int k = ds" "ds \<noteq> []" "is_digit (last ds)"
      using k0 dec_nat_set [of "last (dec_nat (nat k))" "nat k"] by (auto simp: dec_int_def)
    then have "trim (''obs-'' @ dec_int n @ ''-'' @ dec_int k) = ''obs-'' @ dec_int n @ ''-'' @ dec_int k"
      by (intro trim_printable) (auto simp: printable_def is_digit_def)
    then show ?thesis by simp
  qed
  show ?thesis using p [of 2 200] p [of 1 100]
    by (simp add: two_obs_def valid_sorted_def seg_record_def seg_new_def bucket_amount_sats_def BUCKETS_def
        seg_entry_def valid_observation_def t chk_i64_def in_i64_alt normalized_def List.map_filter_simps Let_def)
qed

theorem export_snapshot_fresh_witness:
  "\<exists>v st'. export_snapshot 250 two_obs = Inr (v, st') \<and> length (observations st') \<le> max_observations two_obs"
proof -
  have r: "seg_reachable two_obs"
    unfolding two_obs_def by (intro seg_recorded seg_start)
  obtain v st' where e: "export_snapshot 250 two_obs = Inr (v, st')"
    by (simp add: export_snapshot_def two_obs_valid)
  from export_snapshot_fresh [OF r e] e show ?thesis by blast
qed

section \<open>What an export does to the order of eviction\<close>

text \<open>
  The ring evicts from the front, where the oldest observation is as long as only
  records happened. An export leaves the ring newest first, so the next record over the
  bound evicts the newest of the observations kept and leaves an older one.
\<close>

theorem export_then_evicts_newest:
  "case export_snapshot 250 two_obs of
     Inl _ \<Rightarrow> False
   | Inr (_, st) \<Rightarrow>
       map (\<lambda>ob. (seg_scid ob, observed_at ob))
         (observations (snd (seg_record ''c'' 0 60000 ''fee'' half 300 st))) = [(''a'', 100), (''c'', 300)]"
proof -
  have t: "trim ''a'' = ''a''" "trim ''b'' = ''b''"
    by (rule trim_printable; simp add: printable_def)+
  have "max_observations two_obs = 2"
    by (simp add: two_obs_def seg_record_def seg_new_def Let_def)
  then show ?thesis
    by (simp add: export_snapshot_def two_obs_valid seg_record_def bucket_amount_sats_def BUCKETS_def
        seg_entry_def normalized_def t Let_def)
qed

end
