(* ===== verification/Executor.thy ===== *)
theory Executor
  imports RebalanceTypes Segstore Sqlite
begin

text \<open>
  The native route executor (\<open>revops-rebalance/src/executor.rs\<close>): strict validation of a
  priced route, the gate of the dry-run mode, the payment, and what follows from its
  outcome. The payment RPC is the node's: every reply is a function of the calls made
  so far and the call, over which the theorems quantify, and the calls made are part of
  the state. The \<open>serde_json\<close> reader and writer of values are parameters too.
\<close>

section \<open>Data\<close>

record sendpay_hop =
  hop_id :: string
  hop_channel :: string
  hop_direction :: int
  hop_delay :: int
  hop_amount_msat :: int

datatype rpc_call =
    Invoice int string int
  | Sendpay "sendpay_hop list" string string string
  | Waitsendpay string int
  | Delpay string string
  | Delinvoice string string

datatype payment_mode = DryRun | Live

record execute_request =
  route :: "sendpay_hop list"
  req_amount_sats :: int
  source_channel_id :: string
  dest_channel_id :: string
  max_fee_sats :: int
  our_id :: string
  now_ms :: int

record exec_env =
  reply :: "rpc_call list \<Rightarrow> rpc_call \<Rightarrow> string + json"
  parse_value :: "string \<Rightarrow> json option"
  value_text :: "json \<Rightarrow> string"
  exec_mode :: payment_mode

record exec_world =
  calls :: "rpc_call list"
  segs :: segstore

type_synonym 'a exec = "(exec_world, unit, 'a) action"

definition INVOICE_EXPIRY_SEC :: int where "INVOICE_EXPIRY_SEC = 300"
definition SENDPAY_TIMEOUT_SEC :: int where "SENDPAY_TIMEOUT_SEC = 60"
definition ATTRIBUTED_CONFIDENCE :: f64 where "ATTRIBUTED_CONFIDENCE = f64_lit False 85 2"
definition INFERRED_CONFIDENCE_FLOOR :: f64 where "INFERRED_CONFIDENCE_FLOOR = f64_lit False 2 1"
definition DRYRUN_GATE_SENDPAY_DISABLED :: string where
  "DRYRUN_GATE_SENDPAY_DISABLED = ''dryrun_gate: sendpay_disabled''"
definition NATIVE_INVOICE_ERROR_PREFIX :: string where
  "NATIVE_INVOICE_ERROR_PREFIX = ''native_invoice_error: ''"
definition MALFORMED_INVOICE_MARKER :: string where
  "MALFORMED_INVOICE_MARKER = CHR 0x00 # ''malformed_invoice:''"

section \<open>Pure helpers\<close>

definition sats_ceil :: "int \<Rightarrow> (unit, int) result" where
  "sats_ceil base = bindE (chk_i64 (base + 999)) (\<lambda>v. Inr (trunc_div v 1000))"

definition strip_suffix :: "string \<Rightarrow> string \<Rightarrow> string" where
  "strip_suffix p s = (if p = drop (length s - length p) s \<and> length p \<le> length s
     then take (length s - length p) s else s)"

fun exec_parse_msat :: "json \<Rightarrow> int" where
  "exec_parse_msat (JInt i) = (if in_i64 i then i else f64_as_i64 (f64_of_int i))"
| "exec_parse_msat (JFloat f) = f64_as_i64 f"
| "exec_parse_msat (JStr s) =
     (case parse_i64 (strip_suffix ''msat'' (trim s)) of None \<Rightarrow> 0 | Some v \<Rightarrow> v)"
| "exec_parse_msat _ = 0"

definition hop_summary :: "nat \<times> sendpay_hop \<Rightarrow> json" where
  "hop_summary = (\<lambda>(i, h). json_object
     [(''index'', JInt (int i)), (''channel'', JStr (hop_channel h)), (''direction'', JInt (hop_direction h)),
      (''id'', JStr (hop_id h)), (''amount_msat'', JInt (hop_amount_msat h)), (''delay'', JInt (hop_delay h))])"

definition route_summary :: "sendpay_hop list \<Rightarrow> json" where
  "route_summary hs = JArr (map hop_summary (zip [0..<length hs] hs))"

definition failure_class :: "string \<Rightarrow> string" where
  "failure_class error_text =
     (let n = to_lowercase error_text
      in if contains_str ''temporary_channel_failure'' n then ''liquidity''
         else if contains_str ''fee_insufficient'' n \<or> contains_str ''incorrect_cltv_expiry'' n then ''fee''
         else if contains_str ''timeout'' n \<or> contains_str ''deadline'' n then ''timeout''
         else ''unknown'')"

type_synonym details = "(string \<times> json) list"

definition copy_keys :: "string list \<Rightarrow> details \<Rightarrow> details \<Rightarrow> details" where
  "copy_keys ks src d =
     fold (\<lambda>k d. case map_of src k of None \<Rightarrow> d | Some v \<Rightarrow> bt_insert k v d) ks d"

definition DATA_KEYS :: "string list" where
  "DATA_KEYS = [''erring_channel'', ''erring_direction'', ''erring_node'', ''erring_index'',
     ''failcode'', ''failcodename'', ''failcode_name'']"

definition error_details :: "exec_env \<Rightarrow> string \<Rightarrow> string \<times> details" where
  "error_details env message =
     (case parse_value env message of
        Some (JObj err) \<Rightarrow>
          (let d1 = copy_keys [''code'', ''message''] err [];
               d2 = (case map_of err ''data'' of Some (JObj dat) \<Rightarrow> copy_keys DATA_KEYS dat d1 | _ \<Rightarrow> d1);
               text = (case map_of err ''message'' of
                         Some (JStr msg) \<Rightarrow> if msg \<noteq> [] then msg else message
                       | _ \<Rightarrow> message)
           in (text, d2))
      | _ \<Rightarrow> (message, []))"

definition SUFFIX_KEYS :: "string list" where
  "SUFFIX_KEYS = [''failcodename'', ''failcode_name'', ''failcode'', ''erring_channel'',
     ''erring_direction'', ''erring_index'', ''erring_node'']"

definition suffix_part :: "exec_env \<Rightarrow> details \<Rightarrow> string \<Rightarrow> string option" where
  "suffix_part env d k =
     (case map_of d k of
        None \<Rightarrow> None
      | Some JNull \<Rightarrow> None
      | Some (JStr s) \<Rightarrow> if s = [] then None else Some (k @ ''='' @ s)
      | Some v \<Rightarrow> Some (k @ ''='' @ value_text env v))"

definition compact_detail_suffix :: "exec_env \<Rightarrow> details \<Rightarrow> string" where
  "compact_detail_suffix env d =
     (let parts = List.map_filter (suffix_part env d) SUFFIX_KEYS
      in if parts = [] then [] else '' ('' @ join '', '' parts @ '')'')"

definition direction_as_bit :: "json option \<Rightarrow> int option" where
  "direction_as_bit v =
     (case v of
        Some (JInt i) \<Rightarrow> if i = 0 then Some 0 else if i = 1 then Some 1 else None
      | Some (JStr s) \<Rightarrow> if s = ''0'' then Some 0 else if s = ''1'' then Some 1 else None
      | _ \<Rightarrow> None)"

definition str_field :: "details \<Rightarrow> string \<Rightarrow> string" where
  "str_field d k = (case map_of d k of Some (JStr s) \<Rightarrow> s | _ \<Rightarrow> [])"

definition middle_exclusions :: "sendpay_hop list \<Rightarrow> string list" where
  "middle_exclusions hs =
     fold (\<lambda>h ex. let scid = trim (hop_channel h); entry = scid @ ''/'' @ dec_int (hop_direction h)
                  in if scid = [] \<or> entry \<in> set ex then ex else ex @ [entry])
       (if 2 < length hs then butlast (tl hs) else []) []"

definition exclude_from_failure :: "sendpay_hop list \<Rightarrow> details \<Rightarrow> string \<Rightarrow> string list" where
  "exclude_from_failure hs d error_text =
     (let channel = trim (str_field d ''erring_channel'')
      in if channel \<noteq> [] then
           (case direction_as_bit (map_of d ''erring_direction'') of
              Some b \<Rightarrow> [channel @ ''/'' @ dec_int b] | None \<Rightarrow> [channel])
         else if failure_class error_text \<notin> {''liquidity'', ''fee''} then []
         else middle_exclusions hs)"

definition is_payment_unresolved :: "bool \<Rightarrow> string \<Rightarrow> string \<Rightarrow> details \<Rightarrow> bool" where
  "is_payment_unresolved attempted raw error_text d \<longleftrightarrow>
     attempted \<and>
     (map_of d ''code'' = Some (JInt 200) \<or> contains_str ''rpc timeout'' (to_lowercase raw) \<or>
      contains_str ''waitsendpay_status=pending'' error_text)"

section \<open>Validation\<close>

type_synonym invalid = "string \<times> int"

text \<open>The hop loop: the first bad amount in route order.\<close>

fun check_hops :: "nat \<Rightarrow> int option \<Rightarrow> sendpay_hop list \<Rightarrow> invalid option" where
  "check_hops i prev [] = None"
| "check_hops i prev (h # hs) =
     (if hop_amount_msat h \<le> 0 then Some (''hop_'' @ dec_nat i @ ''_invalid_amount'', 0)
      else if (case prev of None \<Rightarrow> False | Some p \<Rightarrow> p < hop_amount_msat h)
      then Some (''increasing_route_amount'', 0)
      else check_hops (Suc i) (Some (hop_amount_msat h)) hs)"

definition validate_route :: "execute_request \<Rightarrow> (invalid, int) result" where
  "validate_route req =
     (if req_amount_sats req \<le> 0 then Inl (Fail (''invalid_amount'', 0))
      else if route req = [] then Inl (Fail (''missing_route'', 0))
      else
        let first = hd (route req); last_hop = last (route req)
        in if hop_channel first \<noteq> source_channel_id req then Inl (Fail (''first_hop_not_source_channel'', 0))
           else if hop_channel last_hop \<noteq> dest_channel_id req then Inl (Fail (''final_hop_not_dest_channel'', 0))
           else if hop_id last_hop \<noteq> our_id req then Inl (Fail (''final_hop_not_our_node'', 0))
           else
             bindE (chk_i64 (req_amount_sats req * 1000)) (\<lambda>expected.
             if hop_amount_msat last_hop \<noteq> expected then Inl (Fail (''final_amount_mismatch'', 0))
             else
               (case check_hops 0 None (route req) of
                  Some e \<Rightarrow> Inl (Fail e)
                | None \<Rightarrow>
                    bindE (chk_i64 (hop_amount_msat first - expected)) (\<lambda>diff.
                    let fee = max diff 0
                    in bindE (chk_i64 (max (max_fee_sats req) 0 * 1000)) (\<lambda>max_fee_msat.
                       if max_fee_msat < fee then
                         bindE (chk_i64 (fee + 999)) (\<lambda>v.
                         Inl (Fail (''route_over_budget: '' @ dec_int (trunc_div v 1000) @ '' > ''
                                    @ dec_int (max_fee_sats req), fee)))
                       else Inr fee)))))"

section \<open>The payment attempt\<close>

record failure =
  raw_message :: string
  error_text :: string
  fail_details :: details

definition from_rpc :: "exec_env \<Rightarrow> string \<Rightarrow> failure" where
  "from_rpc env message =
     (case error_details env message of (text, d) \<Rightarrow>
        \<lparr>raw_message = message, error_text = text, fail_details = d\<rparr>)"

definition internal_failure :: "string \<Rightarrow> failure" where
  "internal_failure text = \<lparr>raw_message = text, error_text = text, fail_details = []\<rparr>"

definition rpc :: "exec_env \<Rightarrow> rpc_call \<Rightarrow> (string + json) exec" where
  "rpc env c w = (Inr (reply env (calls w) c), w\<lparr>calls := calls w @ [c]\<rparr>)"

text \<open>The status of a \<open>waitsendpay\<close> reply: absent, null and complete are fine.\<close>

definition paid_status :: "exec_env \<Rightarrow> json \<Rightarrow> failure + json" where
  "paid_status env paid =
     (case paid of
        JObj obj \<Rightarrow>
          (case map_of obj ''status'' of
             None \<Rightarrow> Inr paid
           | Some JNull \<Rightarrow> Inr paid
           | Some (JStr s) \<Rightarrow> if s = ''complete'' then Inr paid
               else Inl (internal_failure (''waitsendpay_status='' @ s))
           | Some v \<Rightarrow> Inl (internal_failure (''waitsendpay_status='' @ value_text env v)))
      | _ \<Rightarrow> Inr paid)"

text \<open>
  The result is the payment hash and whether the payment was attempted, as the code
  leaves them in its two out-parameters, and the failure or the payment.
\<close>

type_synonym attempt = "string \<times> bool \<times> (failure + json)"

definition send_and_wait :: "exec_env \<Rightarrow> execute_request \<Rightarrow> string \<Rightarrow> details \<Rightarrow> attempt exec" where
  "send_and_wait env req hash ivc =
     bindA (rpc env (Sendpay (route req) hash (str_field ivc ''bolt11'') (str_field ivc ''payment_secret''))) (\<lambda>r.
     case r of
       Inl msg \<Rightarrow> returnA (hash, True, Inl (from_rpc env msg))
     | Inr _ \<Rightarrow>
         bindA (rpc env (Waitsendpay hash SENDPAY_TIMEOUT_SEC)) (\<lambda>r.
         case r of
           Inl msg \<Rightarrow> returnA (hash, True, Inl (from_rpc env msg))
         | Inr paid \<Rightarrow> returnA (hash, True, paid_status env paid)))"

definition attempt_payment :: "exec_env \<Rightarrow> execute_request \<Rightarrow> string \<Rightarrow> attempt exec" where
  "attempt_payment env req label =
     bindA (liftA (chk_i64 (req_amount_sats req * 1000))) (\<lambda>amount.
     bindA (rpc env (Invoice amount label INVOICE_EXPIRY_SEC)) (\<lambda>r.
     case r of
       Inl msg \<Rightarrow> returnA ([], False, Inl (from_rpc env msg))
     | Inr v \<Rightarrow>
         (case as_object v of
            None \<Rightarrow> returnA ([], False, Inl (internal_failure (MALFORMED_INVOICE_MARKER @ ''unexpected response'')))
          | Some ivc \<Rightarrow>
              (let hash = str_field ivc ''payment_hash''
               in if hash = []
                  then returnA ([], False, Inl (internal_failure (MALFORMED_INVOICE_MARKER @ ''missing payment_hash'')))
                  else send_and_wait env req hash ivc))))"

section \<open>After the attempt\<close>

definition cleanup_failed_payment :: "exec_env \<Rightarrow> string \<Rightarrow> string \<Rightarrow> unit exec" where
  "cleanup_failed_payment env hash label =
     bindA (if hash = [] then returnA () else bindA (rpc env (Delpay hash ''failed'')) (\<lambda>_. returnA ())) (\<lambda>_.
     if label = [] then returnA () else bindA (rpc env (Delinvoice label ''unpaid'')) (\<lambda>_. returnA ()))"

definition split_once :: "char \<Rightarrow> string \<Rightarrow> (string \<times> string) option" where
  "split_once d s = (if d \<in> set s
     then Some (takeWhile (\<lambda>c. c \<noteq> d) s, drop (Suc (length (takeWhile (\<lambda>c. c \<noteq> d) s))) s) else None)"

definition directed_entry :: "string \<Rightarrow> (string \<times> int) option" where
  "directed_entry entry =
     (case split_once (CHR ''/'') entry of
        None \<Rightarrow> None
      | Some (scid, dir) \<Rightarrow>
          if scid = [] then None
          else (case parse_i64 dir of None \<Rightarrow> None
                | Some d \<Rightarrow> if 0 \<le> d \<and> d \<le> 255 then Some (scid, d) else None))"

text \<open>Whom to blame, and how sure: the channel the node named, or every middle hop.\<close>

definition blame_targets :: "details \<Rightarrow> string list \<Rightarrow> (string \<times> int \<times> f64) list" where
  "blame_targets fd excluded =
     (let channel = trim (str_field fd ''erring_channel'')
      in if channel \<noteq> [] then
           (case direction_as_bit (map_of fd ''erring_direction'') of
              Some b \<Rightarrow> [(channel, b, ATTRIBUTED_CONFIDENCE)]
            | None \<Rightarrow> map (\<lambda>b. (channel, b, f64_div ATTRIBUTED_CONFIDENCE (f64_of_int 2))) [0, 1])
         else
           (let directed = List.map_filter directed_entry excluded;
                confidence = f64_max (f64_div ATTRIBUTED_CONFIDENCE (f64_of_int (int (length directed))))
                               INFERRED_CONFIDENCE_FLOOR
            in map (\<lambda>(scid, b). (scid, b, confidence)) directed))"

definition record_failure_observations :: "execution_result \<Rightarrow> execute_request \<Rightarrow> unit exec" where
  "record_failure_observations res req w =
     (if success res then (Inr (), w)
      else case failure_data res of
        JObj fd \<Rightarrow>
          (let class = (if str_field fd ''failure_class'' = [] then ''unknown'' else str_field fd ''failure_class'')
           in (Inr (), w\<lparr>segs := fold (\<lambda>(scid, b, confidence) st.
                 snd (seg_record scid b (req_amount_sats req) class confidence (trunc_div (now_ms req) 1000) st))
               (blame_targets fd (excluded_channels res)) (segs w)\<rparr>))
      | _ \<Rightarrow> (Inr (), w))"

definition initial_result :: "execute_request \<Rightarrow> execution_result" where
  "initial_result req =
     \<lparr>success = False, attempts = 1, fee_sats = 0, fee_msat = 0, fee_ppm = 0,
      hops = int (length (route req)), parts = 1, error = None, amount_sats = req_amount_sats req,
      payment_pending = False, payment_hash = None, excluded_channels = [], route_type = ''native'',
      failure_data = json_object [(''route_summary'', route_summary (route req))]\<rparr>"

definition invoice_label :: "execute_request \<Rightarrow> string" where
  "invoice_label req = ''rebal-native-'' @ dec_int (now_ms req) @ ''-'' @ dest_channel_id req"

definition rejected_result :: "execute_request \<Rightarrow> invalid \<Rightarrow> (unit, execution_result) result" where
  "rejected_result req = (\<lambda>(reason, fee).
     bindE (if fee \<noteq> 0 then sats_ceil fee else Inr 0) (\<lambda>sats.
     Inr ((initial_result req)
       \<lparr>error := Some ((if starts_with ''route_over_budget'' reason
                         then NATIVE_ROUTE_OVER_BUDGET_PREFIX else NATIVE_ROUTE_INVALID_PREFIX) @ reason),
        fee_msat := fee, fee_sats := sats\<rparr>)))"

definition success_result :: "execute_request \<Rightarrow> json \<Rightarrow> (unit, execution_result) result" where
  "success_result req paid =
     (let actual = (case paid of
              JObj obj \<Rightarrow> exec_parse_msat (case map_of obj ''amount_sent_msat'' of None \<Rightarrow> JNull | Some v \<Rightarrow> v)
            | _ \<Rightarrow> 0);
          sent = (if actual \<noteq> 0 then actual
                  else case route req of [] \<Rightarrow> 0 | h # _ \<Rightarrow> hop_amount_msat h)
      in bindE (chk_i64 (req_amount_sats req * 1000)) (\<lambda>amount.
         bindE (chk_i64 (sent - amount)) (\<lambda>diff.
         let fee = max diff 0
         in bindE (sats_ceil fee) (\<lambda>sats.
            bindE (if 0 < req_amount_sats req
                   then bindE (chk_i64 (fee * 1000000)) (\<lambda>n. Inr (trunc_div n amount)) else Inr 0) (\<lambda>ppm.
            Inr ((initial_result req)
              \<lparr>success := True, fee_msat := fee, fee_sats := sats, fee_ppm := ppm\<rparr>))))))"

definition pending_result ::
  "execute_request \<Rightarrow> int \<Rightarrow> string \<Rightarrow> string \<Rightarrow> failure \<Rightarrow> (unit, execution_result) result" where
  "pending_result req planned hash label fl =
     bindE (sats_ceil planned) (\<lambda>sats.
     Inr ((initial_result req)
       \<lparr>payment_pending := True, error := Some (PAYMENT_PENDING_TIMEOUT_PREFIX @ error_text fl),
        fee_msat := planned, fee_sats := sats,
        failure_data := json_object [(''failure_class'', JStr ''pending''), (''payment_hash'', JStr hash),
          (''invoice_label'', JStr label), (''route_summary'', route_summary (route req))],
        payment_hash := Some hash\<rparr>))"

definition malformed_result :: "execute_request \<Rightarrow> string \<Rightarrow> execution_result" where
  "malformed_result req reason =
     (let text = NATIVE_INVOICE_ERROR_PREFIX @ reason
      in (initial_result req)
        \<lparr>error := Some text,
         failure_data := json_object [(''failure_class'', JStr (failure_class text)),
           (''route_summary'', route_summary (route req))]\<rparr>)"

definition terminal_result :: "exec_env \<Rightarrow> execute_request \<Rightarrow> failure \<Rightarrow> execution_result" where
  "terminal_result env req fl =
     (let fd = bt_insert ''route_summary'' (route_summary (route req))
                 (bt_insert ''failure_class'' (JStr (failure_class (error_text fl))) (fail_details fl))
      in (initial_result req)
        \<lparr>excluded_channels := exclude_from_failure (route req) (fail_details fl) (error_text fl),
         error := Some (NATIVE_SENDPAY_ERROR_PREFIX @ error_text fl @ compact_detail_suffix env fd),
         failure_data := JObj fd\<rparr>)"

definition settle_failure ::
  "exec_env \<Rightarrow> execute_request \<Rightarrow> int \<Rightarrow> string \<Rightarrow> string \<Rightarrow> bool \<Rightarrow> failure \<Rightarrow> execution_result exec" where
  "settle_failure env req planned label hash attempted fl =
     (if is_payment_unresolved attempted (raw_message fl) (error_text fl) (fail_details fl)
      then liftA (pending_result req planned hash label fl)
      else if starts_with MALFORMED_INVOICE_MARKER (raw_message fl)
      then bindA (cleanup_failed_payment env [] label) (\<lambda>_.
             returnA (malformed_result req (drop (length MALFORMED_INVOICE_MARKER) (raw_message fl))))
      else bindA (cleanup_failed_payment env hash label) (\<lambda>_.
             bindA (record_failure_observations (terminal_result env req fl) req) (\<lambda>_.
             returnA (terminal_result env req fl))))"

definition execute :: "exec_env \<Rightarrow> execute_request \<Rightarrow> execution_result exec" where
  "execute env req =
     (case validate_route req of
        Inl Panic \<Rightarrow> liftA (Inl Panic)
      | Inl (Fail e) \<Rightarrow> liftA (rejected_result req e)
      | Inr planned \<Rightarrow>
          if exec_mode env = DryRun
          then liftA (bindE (sats_ceil planned) (\<lambda>sats.
                 Inr ((initial_result req)\<lparr>error := Some DRYRUN_GATE_SENDPAY_DISABLED,
                   fee_msat := planned, fee_sats := sats\<rparr>)))
          else
            bindA (attempt_payment env req (invoice_label req)) (\<lambda>(hash, attempted, outcome).
            case outcome of
              Inr paid \<Rightarrow> liftA (success_result req paid)
            | Inl fl \<Rightarrow> settle_failure env req planned (invoice_label req) hash attempted fl))"

section \<open>The calls of an execution\<close>

lemma rpc_run [simp]: "rpc env c w = (Inr (reply env (calls w) c), w\<lparr>calls := calls w @ [c]\<rparr>)"
  by (simp add: rpc_def)

lemma bind_run [simp]:
  "bindA (rpc env c) f w = f (reply env (calls w) c) (w\<lparr>calls := calls w @ [c]\<rparr>)"
  "bindA (returnA a) g s = g a s"
  "bindA (liftA (Inr b)) h t = h b t"
  by (simp_all add: bindA_def)

lemma cleanup_run:
  "cleanup_failed_payment env hash label w =
    (Inr (), w\<lparr>calls := calls w @ (if hash = [] then [] else [Delpay hash ''failed'']) @
       (if label = [] then [] else [Delinvoice label ''unpaid''])\<rparr>)"
  by (simp add: cleanup_failed_payment_def bindA_def)

lemma observations_run:
  "\<exists>st. record_failure_observations res req w = (Inr (), w\<lparr>segs := st\<rparr>)"
  by (auto simp: record_failure_observations_def Let_def split: json.splits)
    (metis exec_world.surjective exec_world.update_convs(2))+

lemma invoice_label_nonempty [simp]: "invoice_label req \<noteq> []"
  by (simp add: invoice_label_def)

text \<open>An error text of the node does not begin with the
  marker the executor uses internally, a zero byte.\<close>

definition honest_errors :: "exec_env \<Rightarrow> bool" where
  "honest_errors env \<longleftrightarrow> (\<forall>cs c msg. reply env cs c = Inl msg \<longrightarrow> \<not> starts_with MALFORMED_INVOICE_MARKER msg)"

lemma internal_not_marked: "\<not> starts_with MALFORMED_INVOICE_MARKER (CHR ''w'' # s)"
  by (simp add: starts_with_def MALFORMED_INVOICE_MARKER_def)

lemma from_rpc_raw [simp]: "raw_message (from_rpc env msg) = msg"
  by (simp add: from_rpc_def split: prod.splits)

lemma paid_status_raw: "paid_status env paid = Inl fl \<Longrightarrow> \<not> starts_with MALFORMED_INVOICE_MARKER (raw_message fl)"
  by (auto simp: paid_status_def internal_failure_def internal_not_marked split: json.splits option.splits if_splits)

lemma attempt_returns: "in_i64 (req_amount_sats req * 1000) \<Longrightarrow> \<exists>t. fst (attempt_payment env req label w) = Inr t"
  by (auto simp: attempt_payment_def chk_i64_def send_and_wait_def Let_def split: sum.splits option.splits)

text \<open>How far an attempt got.\<close>

lemma attempt_cases:
  assumes "attempt_payment env req label w = (Inr (hash, attempted, out), w')"
  obtains fl where "calls w' = calls w @ [Invoice (req_amount_sats req * 1000) label 300]"
      "segs w' = segs w" "hash = []" "\<not> attempted" "out = Inl fl"
  | bolt11 secret fl where "calls w' = calls w @ [Invoice (req_amount_sats req * 1000) label 300,
        Sendpay (route req) hash bolt11 secret]"
      "segs w' = segs w" "hash \<noteq> []" "attempted" "out = Inl fl"
      "honest_errors env \<Longrightarrow> \<not> starts_with MALFORMED_INVOICE_MARKER (raw_message fl)"
  | bolt11 secret where "calls w' = calls w @ [Invoice (req_amount_sats req * 1000) label 300,
        Sendpay (route req) hash bolt11 secret, Waitsendpay hash 60]"
      "segs w' = segs w" "hash \<noteq> []" "attempted"
      "\<And>fl. honest_errors env \<Longrightarrow> out = Inl fl \<Longrightarrow> \<not> starts_with MALFORMED_INVOICE_MARKER (raw_message fl)"
proof -
  let ?c1 = "Invoice (req_amount_sats req * 1000) label 300"
  let ?w1 = "w\<lparr>calls := calls w @ [?c1]\<rparr>"
  have ok: "in_i64 (req_amount_sats req * 1000)"
    using assms by (auto simp: attempt_payment_def bindA_eq_Inr result_simps)
  then have run: "(case reply env (calls w) ?c1 of
       Inl msg \<Rightarrow> returnA ([], False, Inl (from_rpc env msg))
     | Inr v \<Rightarrow>
         (case as_object v of
            None \<Rightarrow> returnA ([], False, Inl (internal_failure (MALFORMED_INVOICE_MARKER @ ''unexpected response'')))
          | Some ivc \<Rightarrow>
              (let hash = str_field ivc ''payment_hash''
               in if hash = []
                  then returnA ([], False, Inl (internal_failure (MALFORMED_INVOICE_MARKER @ ''missing payment_hash'')))
                  else send_and_wait env req hash ivc))) ?w1 = (Inr (hash, attempted, out), w')"
    using assms by (simp add: attempt_payment_def chk_i64_def INVOICE_EXPIRY_SEC_def)
  show thesis
  proof (cases "reply env (calls w) ?c1")
    case (Inl msg)
    with run show thesis by (intro that(1)) auto
  next
    case (Inr v)
    show thesis
    proof (cases "as_object v")
      case None
      with run Inr show thesis by (intro that(1)) auto
    next
      case (Some ivc)
      let ?h = "str_field ivc ''payment_hash''"
      show thesis
      proof (cases "?h = []")
        case True
        with run Inr Some show thesis by (intro that(1)) (auto simp: Let_def)
      next
        case False
        then have sw: "send_and_wait env req ?h ivc ?w1 = (Inr (hash, attempted, out), w')"
          using run Inr Some by (simp add: Let_def)
        let ?c2 = "Sendpay (route req) ?h (str_field ivc ''bolt11'') (str_field ivc ''payment_secret'')"
        show thesis
        proof (cases "reply env (calls w @ [?c1]) ?c2")
          case (Inl msg)
          with sw False show thesis by (intro that(2)) (auto simp: send_and_wait_def honest_errors_def)
        next
          case (Inr x)
          with sw False show thesis
            by (intro that(3) [of "str_field ivc ''bolt11''" "str_field ivc ''payment_secret''"])
              (auto simp: send_and_wait_def SENDPAY_TIMEOUT_SEC_def honest_errors_def dest: paid_status_raw split: sum.splits)
        qed
      qed
    qed
  qed
qed

fun is_sendpay :: "rpc_call \<Rightarrow> bool" where
  "is_sendpay (Sendpay hs h b s) = True"
| "is_sendpay _ = False"

fun is_delete :: "rpc_call \<Rightarrow> bool" where
  "is_delete (Delpay h s) = True"
| "is_delete (Delinvoice l s) = True"
| "is_delete _ = False"

text \<open>What each way of ending leaves behind.\<close>

definition paying :: "execute_request \<Rightarrow> string \<Rightarrow> rpc_call list \<Rightarrow> bool" where
  "paying req hash pay \<longleftrightarrow> hash \<noteq> [] \<and> (\<exists>bolt11 secret. pay = [Sendpay (route req) hash bolt11 secret] \<or>
     pay = [Sendpay (route req) hash bolt11 secret, Waitsendpay hash 60])"

lemma check_hops_None:
  "check_hops i prev hs = None \<longleftrightarrow> list_all (\<lambda>h. 0 < hop_amount_msat h) hs \<and>
     sorted_wrt (\<ge>) ((case prev of None \<Rightarrow> [] | Some p \<Rightarrow> [p]) @ map hop_amount_msat hs)"
proof (induction hs arbitrary: i prev)
  case (Cons h hs)
  show ?case by (cases prev) (auto simp: Cons.IH)
qed (simp split: option.splits)

text \<open>A route worth paying for.\<close>

definition route_ok :: "execute_request \<Rightarrow> bool" where
  "route_ok req \<longleftrightarrow> 0 < req_amount_sats req \<and> route req \<noteq> [] \<and>
     hop_channel (hd (route req)) = source_channel_id req \<and>
     hop_channel (last (route req)) = dest_channel_id req \<and> hop_id (last (route req)) = our_id req \<and>
     hop_amount_msat (last (route req)) = req_amount_sats req * 1000 \<and>
     sorted_wrt (\<ge>) (map hop_amount_msat (route req)) \<and>
     hop_amount_msat (hd (route req)) - req_amount_sats req * 1000 \<le> max (max_fee_sats req) 0 * 1000"

lemma validate_route_Inr:
  assumes "validate_route req = Inr planned"
  shows "route_ok req" "in_i64 (req_amount_sats req * 1000)"
    "planned = hop_amount_msat (hd (route req)) - req_amount_sats req * 1000" "0 \<le> planned"
proof -
  have ok: "0 < req_amount_sats req" "route req \<noteq> []" "hop_channel (hd (route req)) = source_channel_id req"
    "hop_channel (last (route req)) = dest_channel_id req" "hop_id (last (route req)) = our_id req"
    "in_i64 (req_amount_sats req * 1000)" "hop_amount_msat (last (route req)) = req_amount_sats req * 1000"
    "check_hops 0 None (route req) = None"
    "max (hop_amount_msat (hd (route req)) - req_amount_sats req * 1000) 0 \<le> max (max_fee_sats req) 0 * 1000"
    "planned = max (hop_amount_msat (hd (route req)) - req_amount_sats req * 1000) 0"
    using assms by (auto simp: validate_route_def Let_def result_simps split: if_splits option.splits)
  have s: "sorted_wrt (\<ge>) (map hop_amount_msat (route req))"
    using ok(8) by (simp add: check_hops_None)
  have "hop_amount_msat (last (route req)) \<le> hop_amount_msat (hd (route req))"
    using s ok(2) by (cases "route req") (auto simp: last_ConsR)
  then show "planned = hop_amount_msat (hd (route req)) - req_amount_sats req * 1000" "0 \<le> planned"
    using ok by auto
  show "route_ok req" "in_i64 (req_amount_sats req * 1000)" using ok s by (auto simp: route_ok_def)
qed

lemma execute_cases:
  assumes "execute env req w = (r, w')"
  obtains "w' = w" "\<And>res. r = Inr res \<Longrightarrow> \<not> success res \<and> \<not> payment_pending res"
  | planned paid hash pay where "validate_route req = Inr planned" "exec_mode env = Live"
      "r = success_result req paid" "segs w' = segs w" "paying req hash pay"
      "calls w' = calls w @ Invoice (req_amount_sats req * 1000) (invoice_label req) 300 # pay"
  | planned fl hash pay where "validate_route req = Inr planned" "exec_mode env = Live"
      "r = pending_result req planned hash (invoice_label req) fl" "segs w' = segs w" "paying req hash pay"
      "calls w' = calls w @ Invoice (req_amount_sats req * 1000) (invoice_label req) 300 # pay"
  | planned res hash pay dels where "validate_route req = Inr planned" "exec_mode env = Live" "r = Inr res"
      "\<not> success res" "\<not> payment_pending res" "list_all is_delete dels"
      "calls w' = calls w @ Invoice (req_amount_sats req * 1000) (invoice_label req) 300 # pay @ dels"
      "pay = [] \<or> paying req hash pay"
      "honest_errors env \<Longrightarrow> paying req hash pay \<Longrightarrow>
         dels = [Delpay hash ''failed'', Delinvoice (invoice_label req) ''unpaid'']"
proof (cases "validate_route req")
  case (Inl e)
  with assms show thesis
    by (intro that(1)) (auto simp: execute_def rejected_result_def initial_result_def result_simps split: fault.splits)
next
  case planned: (Inr planned)
  show thesis
  proof (cases "exec_mode env")
    case DryRun
    with assms planned show thesis
      by (intro that(1)) (auto simp: execute_def initial_result_def result_simps)
  next
    case Live
    obtain q w1 where at: "attempt_payment env req (invoice_label req) w = (q, w1)" by fastforce
    have "\<exists>t. q = Inr t" using attempt_returns [OF validate_route_Inr(2) [OF planned], of env "invoice_label req" w] at by auto
    then obtain hash attempted outcome where q: "q = Inr (hash, attempted, outcome)" by auto
    note at = at [unfolded q]
    have ex: "(case outcome of Inr paid \<Rightarrow> liftA (success_result req paid)
        | Inl fl \<Rightarrow> settle_failure env req planned (invoice_label req) hash attempted fl) w1 = (r, w')"
      using assms planned Live at by (simp add: execute_def bindA_def)
    note ends = that
    have got: thesis
      if c: "calls w1 = calls w @ Invoice (req_amount_sats req * 1000) (invoice_label req) 300 # pay"
        and sg: "segs w1 = segs w"
        and pay: "pay = [] \<and> hash = [] \<and> \<not> attempted \<and> (\<exists>fl. outcome = Inl fl) \<or> attempted \<and> paying req hash pay"
        and hon: "\<And>fl. honest_errors env \<Longrightarrow> attempted \<Longrightarrow> outcome = Inl fl \<Longrightarrow>
          \<not> starts_with MALFORMED_INVOICE_MARKER (raw_message fl)"
      for pay
    proof (cases outcome)
      case (Inr paid)
      with ex pay c sg planned Live show thesis by (intro ends(2)) auto
    next
      case (Inl fl)
      show thesis
      proof (cases "is_payment_unresolved attempted (raw_message fl) (error_text fl) (fail_details fl)")
        case True
        then have "attempted" by (simp add: is_payment_unresolved_def)
        with True Inl ex pay c sg planned Live show thesis
          by (intro ends(3)) (auto simp: settle_failure_def)
      next
        case unres: False
        show thesis
        proof (cases "starts_with MALFORMED_INVOICE_MARKER (raw_message fl)")
          case True
          with unres Inl ex have
            "r = Inr (malformed_result req (drop (length MALFORMED_INVOICE_MARKER) (raw_message fl)))"
            "calls w' = calls w1 @ [Delinvoice (invoice_label req) ''unpaid'']"
            by (auto simp: settle_failure_def bindA_def cleanup_run)
          with c pay hon [OF _ _ Inl] True planned Live show thesis
            by (intro ends(4) [of planned _ "[Delinvoice (invoice_label req) ''unpaid'']" pay hash])
              (auto simp: malformed_result_def initial_result_def paying_def Let_def)
        next
          case False
          obtain st where "record_failure_observations (terminal_result env req fl) req
              (w1\<lparr>calls := calls w1 @ (if hash = [] then [] else [Delpay hash ''failed'']) @
                 [Delinvoice (invoice_label req) ''unpaid'']\<rparr>) = (Inr (),
              w1\<lparr>calls := calls w1 @ (if hash = [] then [] else [Delpay hash ''failed'']) @
                 [Delinvoice (invoice_label req) ''unpaid'']\<rparr>\<lparr>segs := st\<rparr>)"
            using observations_run by blast
          with False unres Inl ex have "r = Inr (terminal_result env req fl)"
            "calls w' = calls w1 @ (if hash = [] then [] else [Delpay hash ''failed'']) @ [Delinvoice (invoice_label req) ''unpaid'']"
            by (auto simp: settle_failure_def bindA_def cleanup_run)
          with c pay planned Live show thesis
            by (intro ends(4) [of planned _ "(if hash = [] then [] else [Delpay hash ''failed'']) @
                  [Delinvoice (invoice_label req) ''unpaid'']" pay hash])
              (auto simp: terminal_result_def initial_result_def paying_def Let_def)
        qed
      qed
    qed
    from at show thesis
    proof (cases rule: attempt_cases)
      case (1 fl)
      then show thesis by (intro got [of "[]"]) auto
    next
      case (2 bolt11 secret fl)
      then show thesis by (intro got [of "[Sendpay (route req) hash bolt11 secret]"]) (auto simp: paying_def)
    next
      case (3 bolt11 secret)
      then show thesis
        by (intro got [of "[Sendpay (route req) hash bolt11 secret, Waitsendpay hash 60]"]) (auto simp: paying_def)
    qed
  qed
qed

section \<open>Properties of an execution\<close>

definition new_calls :: "exec_world \<Rightarrow> exec_world \<Rightarrow> rpc_call list" where
  "new_calls w w' = drop (length (calls w)) (calls w')"

lemma new_calls_simps [simp]:
  "new_calls w w = []" "calls w' = calls w @ cs \<Longrightarrow> new_calls w w' = cs"
  by (simp_all add: new_calls_def)

lemma paying_sendpays: "paying req hash pay \<Longrightarrow> \<exists>b s. filter is_sendpay pay = [Sendpay (route req) hash b s]"
  by (auto simp: paying_def)

lemma paying_deletes: "paying req hash pay \<Longrightarrow> filter is_delete pay = []"
  by (auto simp: paying_def)

lemma deletes_only: "list_all is_delete dels \<Longrightarrow> filter is_sendpay dels = [] \<and> filter is_delete dels = dels"
proof (induction dels)
  case (Cons c cs)
  then show ?case by (cases c) auto
qed simp

lemma result_flags:
  "success_result req paid = Inr res \<Longrightarrow> success res \<and> \<not> payment_pending res"
  "pending_result req planned hash label fl = Inr res' \<Longrightarrow>
     payment_pending res' \<and> \<not> success res' \<and> payment_hash res' = Some hash \<and>
     excluded_channels res' = [] \<and> fee_msat res' = planned"
  by (auto simp: success_result_def pending_result_def initial_result_def result_simps Let_def
      split: if_splits)

text \<open>The dry-run gate is silent: in dry-run mode an execution makes no call to the node and
  records nothing, whatever the request, and never reports success or a pending payment.\<close>

theorem dry_run_is_silent:
  assumes "exec_mode env = DryRun"
  shows "snd (execute env req w) = w \<and>
    (\<forall>res. fst (execute env req w) = Inr res \<longrightarrow> \<not> success res \<and> \<not> payment_pending res)"
proof -
  obtain r w' where e: "execute env req w = (r, w')" by fastforce
  from e show ?thesis by (cases rule: execute_cases) (use assms e in auto)
qed

text \<open>C2. Money moves only on a valid route: an execution sends at most one payment, and only in
  live mode, on exactly the requested route, when that starts at the source channel, ends at
  the destination channel at our own node with the requested amount, never increases on the
  way, and costs at most the fee limit of the request.\<close>

theorem pays_only_valid_routes:
  assumes "execute env req w = (r, w')"
  shows "filter is_sendpay (new_calls w w') = [] \<or>
    (exec_mode env = Live \<and> route_ok req \<and>
     (\<exists>hash b s. filter is_sendpay (new_calls w w') = [Sendpay (route req) hash b s]))"
  using assms
proof (cases rule: execute_cases)
  case (2 planned paid hash pay)
  with validate_route_Inr(1) [OF 2(1)] paying_sendpays [OF 2(5)] show ?thesis by auto
next
  case (3 planned fl hash pay)
  with validate_route_Inr(1) [OF 3(1)] paying_sendpays [OF 3(5)] show ?thesis by auto
next
  case (4 planned res hash pay dels)
  then show ?thesis
    using validate_route_Inr(1) [OF 4(1)] paying_sendpays [of req hash pay] deletes_only [OF 4(6)] by auto
qed simp

text \<open>C1. An unresolved payment is abandoned, never cancelled: when the result is pending, the one
  payment sent carries the reported hash, neither the payment nor the invoice is deleted,
  no channel is excluded, no failure is recorded against a route segment, and the reported
  fee is the planned one, so that the budget stays held.\<close>

theorem pending_payment_is_kept:
  assumes "execute env req w = (Inr res, w')" "payment_pending res"
  shows "\<exists>hash b s. payment_hash res = Some hash \<and> hash \<noteq> [] \<and>
    filter is_sendpay (new_calls w w') = [Sendpay (route req) hash b s] \<and>
    filter is_delete (new_calls w w') = [] \<and> excluded_channels res = [] \<and> segs w' = segs w \<and>
    \<not> success res \<and>
    fee_msat res = hop_amount_msat (hd (route req)) - req_amount_sats req * 1000"
  using assms(1)
proof (cases rule: execute_cases)
  case (2 planned paid hash pay)
  then show ?thesis using result_flags(1) assms(2) by metis
next
  case (3 planned fl hash pay)
  from 3(3) have "pending_result req planned hash (invoice_label req) fl = Inr res" by simp
  note f = result_flags(2) [OF this]
  from paying_sendpays [OF 3(5)] obtain b s where "filter is_sendpay pay = [Sendpay (route req) hash b s]" by blast
  then show ?thesis
    using f 3 validate_route_Inr(3) [OF 3(1)] paying_deletes [OF 3(5)]
    by (intro exI [of _ hash] exI [of _ b] exI [of _ s]) (auto simp: paying_def)
qed (use assms(2) in auto)

text \<open>C3. A failed payment is cleaned up, and only a failed one: when a payment was sent and the
  result is neither success nor pending, the failed payment and then the unpaid invoice are
  deleted, as the last calls; on success nothing is deleted. Error texts of the node are
  assumed not to begin with the marker of the executor.\<close>

theorem failed_payment_is_cleaned_up:
  assumes "execute env req w = (Inr res, w')" "honest_errors env"
    and "filter is_sendpay (new_calls w w') = [Sendpay hs hash b s]" "\<not> payment_pending res"
  shows "if success res then filter is_delete (new_calls w w') = []
    else \<exists>before. new_calls w w' = before @ [Delpay hash ''failed'', Delinvoice (invoice_label req) ''unpaid''] \<and>
      filter is_delete before = []"
  using assms(1)
proof (cases rule: execute_cases)
  case (2 planned paid hash pay)
  then show ?thesis using result_flags(1) [of req paid res] paying_deletes by auto
next
  case (3 planned fl hash pay)
  then show ?thesis using result_flags(2) [of req planned hash "invoice_label req" fl res] assms(4) by auto
next
  case (4 planned res' hash' pay dels)
  have p: "paying req hash' pay" using 4(6,7,8) assms(3) deletes_only [OF 4(6)] by auto
  from paying_sendpays [OF this] 4(6,7) assms(3) have "hash' = hash" using deletes_only [OF 4(6)] by auto
  with 4(9) [OF assms(2) p] have "new_calls w w' = (Invoice (req_amount_sats req * 1000) (invoice_label req) 300 # pay) @
      [Delpay hash ''failed'', Delinvoice (invoice_label req) ''unpaid'']" using 4(7) by simp
  then show ?thesis using 4(3,4) paying_deletes [OF p] by auto
qed (use assms(3) in auto)

subsection \<open>An example\<close>

definition sample_hops :: "sendpay_hop list" where
  "sample_hops = [\<lparr>hop_id = ''n1'', hop_channel = ''1x1x1'', hop_direction = 0, hop_delay = 20, hop_amount_msat = 100100\<rparr>,
     \<lparr>hop_id = ''us'', hop_channel = ''2x2x2'', hop_direction = 1, hop_delay = 10, hop_amount_msat = 100000\<rparr>]"

definition sample_exec_request :: execute_request where
  "sample_exec_request = \<lparr>route = sample_hops, req_amount_sats = 100, source_channel_id = ''1x1x1'',
     dest_channel_id = ''2x2x2'', max_fee_sats = 1, our_id = ''us'', now_ms = 5000\<rparr>"

text \<open>A node that issues the invoice, accepts the payment and answers the wait with an error.\<close>

definition failing_node :: "string \<Rightarrow> rpc_call list \<Rightarrow> rpc_call \<Rightarrow> string + json" where
  "failing_node msg cs c = (case c of
     Invoice a l t \<Rightarrow> Inr (JObj [(''payment_hash'', JStr ''h'')])
   | Waitsendpay h t \<Rightarrow> Inl msg
   | _ \<Rightarrow> Inr JNull)"

definition sample_exec_env :: "string \<Rightarrow> payment_mode \<Rightarrow> exec_env" where
  "sample_exec_env msg mode = \<lparr>reply = failing_node msg, parse_value = (\<lambda>_. None),
     value_text = (\<lambda>_. []), exec_mode = mode\<rparr>"

definition sample_exec_world :: exec_world where
  "sample_exec_world = \<lparr>calls = [], segs = seg_with_defaults\<rparr>"

lemma sample_validated: "validate_route sample_exec_request = Inr 100"
  by (simp add: validate_route_def sample_exec_request_def sample_hops_def chk_i64_def in_i64_alt Let_def)

lemma sample_attempt:
  "attempt_payment (sample_exec_env msg mode) sample_exec_request label sample_exec_world =
    (Inr (''h'', True, Inl \<lparr>raw_message = msg, error_text = msg, fail_details = []\<rparr>),
     sample_exec_world\<lparr>calls := [Invoice 100000 label 300, Sendpay sample_hops ''h'' [] [], Waitsendpay ''h'' 60]\<rparr>)"
  by (simp add: attempt_payment_def sample_exec_env_def sample_exec_request_def sample_exec_world_def
      failing_node_def chk_i64_def in_i64_alt str_field_def send_and_wait_def from_rpc_def error_details_def
      INVOICE_EXPIRY_SEC_def SENDPAY_TIMEOUT_SEC_def Let_def)

lemma timeout_texts:
  "contains_str ''rpc timeout'' (to_lowercase ''RPC timeout'')"
  "\<not> contains_str ''rpc timeout'' (to_lowercase ''boom'')"
  "\<not> contains_str ''waitsendpay_status=pending'' ''boom''"
  by code_simp+

definition sample_failure :: "string \<Rightarrow> failure" where
  "sample_failure msg = \<lparr>raw_message = msg, error_text = msg, fail_details = []\<rparr>"

definition sample_sent :: exec_world where
  "sample_sent = sample_exec_world\<lparr>calls := [Invoice 100000 (invoice_label sample_exec_request) 300,
     Sendpay sample_hops ''h'' [] [], Waitsendpay ''h'' 60]\<rparr>"

lemma sample_execute:
  "execute (sample_exec_env msg Live) sample_exec_request sample_exec_world =
     settle_failure (sample_exec_env msg Live) sample_exec_request 100 (invoice_label sample_exec_request)
       ''h'' True (sample_failure msg) sample_sent"
proof -
  have "exec_mode (sample_exec_env msg Live) = Live" by (simp add: sample_exec_env_def)
  then show ?thesis
    by (simp add: execute_def sample_validated sample_attempt bindA_def sample_failure_def sample_sent_def)
qed

lemma sample_pending:
  "\<exists>res. execute (sample_exec_env ''RPC timeout'' Live) sample_exec_request sample_exec_world = (Inr res, sample_sent) \<and>
     payment_pending res"
  unfolding sample_execute using timeout_texts(1)
  by (simp add: settle_failure_def is_payment_unresolved_def sample_failure_def pending_result_def sats_ceil_def
      chk_i64_def in_i64_alt)

theorem pending_payment_is_kept_witness:
  "\<exists>res. fst (execute (sample_exec_env ''RPC timeout'' Live) sample_exec_request sample_exec_world) = Inr res \<and>
     fee_msat res = 100 \<and> payment_hash res \<noteq> None"
proof -
  obtain res where e: "execute (sample_exec_env ''RPC timeout'' Live) sample_exec_request sample_exec_world = (Inr res, sample_sent)"
    and p: "payment_pending res" using sample_pending by blast
  from pending_payment_is_kept [OF e p] have "fee_msat res = 100" "payment_hash res \<noteq> None"
    by (auto simp: sample_exec_request_def sample_hops_def)
  with e show ?thesis by auto
qed

theorem dry_run_is_silent_witness:
  "calls (snd (execute (sample_exec_env ''boom'' DryRun) sample_exec_request sample_exec_world)) = []"
  using dry_run_is_silent [of "sample_exec_env ''boom'' DryRun" sample_exec_request sample_exec_world]
  by (simp add: sample_exec_env_def sample_exec_world_def)

theorem pays_only_valid_routes_witness:
  "route_ok sample_exec_request"
proof -
  obtain res where e: "execute (sample_exec_env ''RPC timeout'' Live) sample_exec_request sample_exec_world = (Inr res, sample_sent)"
    using sample_pending by blast
  have "filter is_sendpay (new_calls sample_exec_world sample_sent) \<noteq> []"
    by (simp add: new_calls_def sample_sent_def sample_exec_world_def)
  with pays_only_valid_routes [OF e] show ?thesis by blast
qed

lemma sample_failed:
  "\<exists>res w'. execute (sample_exec_env ''boom'' Live) sample_exec_request sample_exec_world = (Inr res, w') \<and>
     \<not> payment_pending res \<and> \<not> success res \<and>
     filter is_sendpay (new_calls sample_exec_world w') = [Sendpay sample_hops ''h'' [] []]"
proof -
  let ?env = "sample_exec_env ''boom'' Live"
  let ?w = "sample_sent\<lparr>calls := calls sample_sent @ [Delpay ''h'' ''failed'',
      Delinvoice (invoice_label sample_exec_request) ''unpaid'']\<rparr>"
  let ?res = "terminal_result ?env sample_exec_request (sample_failure ''boom'')"
  obtain st where "record_failure_observations ?res sample_exec_request ?w = (Inr (), ?w\<lparr>segs := st\<rparr>)"
    using observations_run by blast
  moreover have "\<not> starts_with MALFORMED_INVOICE_MARKER ''boom''"
    by (simp add: starts_with_def MALFORMED_INVOICE_MARKER_def)
  ultimately have "execute ?env sample_exec_request sample_exec_world = (Inr ?res, ?w\<lparr>segs := st\<rparr>)"
    unfolding sample_execute using timeout_texts(2,3)
    by (simp add: settle_failure_def is_payment_unresolved_def sample_failure_def bindA_def cleanup_run)
  moreover have "\<not> payment_pending ?res \<and> \<not> success ?res"
    by (simp add: terminal_result_def initial_result_def Let_def)
  moreover have "filter is_sendpay (new_calls sample_exec_world (?w\<lparr>segs := st\<rparr>)) = [Sendpay sample_hops ''h'' [] []]"
    by (simp add: new_calls_def sample_sent_def sample_exec_world_def)
  ultimately show ?thesis by blast
qed

theorem failed_payment_is_cleaned_up_witness:
  "filter is_delete (new_calls sample_exec_world
     (snd (execute (sample_exec_env ''boom'' Live) sample_exec_request sample_exec_world))) =
   [Delpay ''h'' ''failed'', Delinvoice (invoice_label sample_exec_request) ''unpaid'']"
proof -
  obtain res w' where e: "execute (sample_exec_env ''boom'' Live) sample_exec_request sample_exec_world = (Inr res, w')"
    and f: "\<not> payment_pending res" "\<not> success res"
      "filter is_sendpay (new_calls sample_exec_world w') = [Sendpay sample_hops ''h'' [] []]"
    using sample_failed by (elim exE conjE) (rule that)
  have "honest_errors (sample_exec_env ''boom'' Live)"
    by (auto simp: honest_errors_def sample_exec_env_def failing_node_def starts_with_def
        MALFORMED_INVOICE_MARKER_def split: rpc_call.splits)
  from failed_payment_is_cleaned_up [OF e this f(3,1)] f(2) e show ?thesis by auto
qed

end
