(* ===== verification/F64Facts.thy ===== *)
theory F64Facts
  imports Complex_Main F64
begin

text \<open>
  What the proofs over binary64 arithmetic rest on. A finite value denotes the real
  \<open>fval\<close>; an operation rounds the exact real result to \<open>rounded\<close>, which is monotone and
  keeps every representable value, so comparisons between results follow from
  comparisons between the exact values.
\<close>

named_theorems fval_simps \<open>exact values of finite floats\<close>

fun fval :: "f64 \<Rightarrow> real" where
  "fval (Fin s m e) = (if s then - 1 else 1) * real m * 2 powi e"
| "fval _ = 0"

fun f64_wf :: "f64 \<Rightarrow> bool" where
  "f64_wf (Fin s m e) \<longleftrightarrow> m < 2 ^ 53 \<and> - 1074 \<le> e \<and> e \<le> 971"
| "f64_wf _ \<longleftrightarrow> True"

section \<open>Powers of two\<close>

lemma pw_add: "(2::real) powi (a + b) = 2 powi a * 2 powi b"
  by (simp add: power_int_add)

lemma pw_pos [simp]: "0 < (2::real) powi a" by simp

lemma pw_nat: "0 \<le> a \<Longrightarrow> (2::real) powi a = 2 ^ nat a"
  by (simp add: power_int_def)

lemma pw_diff: "b \<le> a \<Longrightarrow> (2::real) powi a = 2 ^ nat (a - b) * 2 powi b"
  using pw_add [of "a - b" b] by (simp add: pw_nat)

lemma pw_mono: "a \<le> b \<Longrightarrow> (2::real) powi a \<le> 2 powi b"
  by (simp add: power_int_increasing)

section \<open>Rounding to a given exponent\<close>

lemma round_bits_near:
  "2 * (round_bits m k * 2 ^ k) \<le> 2 * m + 2 ^ k" "2 * m \<le> 2 * (round_bits m k * 2 ^ k) + 2 ^ k"
  "2 * (round_bits m k * 2 ^ k) = 2 * m + 2 ^ k \<or> 2 * m = 2 * (round_bits m k * 2 ^ k) + 2 ^ k \<Longrightarrow>
     even (round_bits m k)"
proof -
  define q r where "q = m div 2 ^ k" and "r = m mod 2 ^ k"
  have m: "m = q * 2 ^ k + r" unfolding q_def r_def by (rule div_mult_mod_eq [symmetric])
  have r: "r < 2 ^ k" by (simp add: r_def)
  have rb: "round_bits m k = (if 2 * r < 2 ^ k then q else if 2 * r = 2 ^ k then (if even q then q else Suc q) else Suc q)"
    by (simp add: round_bits_def q_def r_def Let_def)
  define b where "b = round_bits m k"
  have m2: "2 * m = 2 * (q * 2 ^ k) + 2 * r" using m by simp
  have sq: "Suc q * 2 ^ k = q * 2 ^ k + 2 ^ k" by simp
  have b: "b = q \<and> 2 * r < 2 ^ k \<or> b = q \<and> 2 * r = 2 ^ k \<and> even q \<or>
      b = Suc q \<and> 2 * r = 2 ^ k \<and> odd q \<or> b = Suc q \<and> 2 ^ k < 2 * r"
    using rb unfolding b_def [symmetric] by (auto split: if_splits)
  have "2 * (b * 2 ^ k) \<le> 2 * m + 2 ^ k \<and> 2 * m \<le> 2 * (b * 2 ^ k) + 2 ^ k \<and>
      (2 * (b * 2 ^ k) = 2 * m + 2 ^ k \<or> 2 * m = 2 * (b * 2 ^ k) + 2 ^ k \<longrightarrow> even b)"
    using b
  proof (elim disjE conjE)
    assume "b = q" "2 * r < 2 ^ k" then show ?thesis using m2 by simp
  next
    assume "b = q" "2 * r = 2 ^ k" "even q" then show ?thesis using m2 by simp
  next
    assume "b = Suc q" "2 * r = 2 ^ k" "odd q" then show ?thesis using m2 sq r by simp
  next
    assume "b = Suc q" "2 ^ k < 2 * r" then show ?thesis using m2 sq r by simp
  qed
  then show "2 * (round_bits m k * 2 ^ k) \<le> 2 * m + 2 ^ k" "2 * m \<le> 2 * (round_bits m k * 2 ^ k) + 2 ^ k"
    "2 * (round_bits m k * 2 ^ k) = 2 * m + 2 ^ k \<or> 2 * m = 2 * (round_bits m k * 2 ^ k) + 2 ^ k \<Longrightarrow>
     even (round_bits m k)"
    unfolding b_def by blast+
qed

definition rne_at :: "nat \<Rightarrow> int \<Rightarrow> int \<Rightarrow> nat" where
  "rne_at m e q = (if q \<le> e then m * 2 ^ nat (e - q) else round_bits m (nat (q - e)))"

lemma rne_at_near:
  "\<bar>real (rne_at m e q) * 2 powi q - real m * 2 powi e\<bar> \<le> 2 powi q / 2"
  "\<bar>real (rne_at m e q) * 2 powi q - real m * 2 powi e\<bar> = 2 powi q / 2 \<Longrightarrow> even (rne_at m e q)"
proof -
  define P :: real where "P = 2 powi q"
  have P: "0 < P" by (simp add: P_def)
  have both: "\<bar>real (rne_at m e q) * P - real m * 2 powi e\<bar> \<le> P / 2 \<and>
    (\<bar>real (rne_at m e q) * P - real m * 2 powi e\<bar> = P / 2 \<longrightarrow> even (rne_at m e q))"
  proof (cases "q \<le> e")
    case True
    then have "real (rne_at m e q) * P = real m * 2 powi e"
      by (simp add: rne_at_def P_def pw_diff [of q e])
    with P show ?thesis by simp
  next
    case False
    define k where "k = nat (q - e)"
    define E :: real where "E = 2 powi e"
    have E: "0 < E" by (simp add: E_def)
    have PE: "P = 2 ^ k * E" using False pw_diff [of e q] by (simp add: k_def E_def P_def)
    define r where "r = round_bits m k"
    have rn: "rne_at m e q = r" using False by (simp add: rne_at_def k_def r_def)
    have n1: "2 * (real r * 2 ^ k) \<le> 2 * real m + 2 ^ k"
      using round_bits_near(1) [of m k] unfolding r_def [symmetric]
      by (metis (mono_tags) of_nat_add of_nat_le_iff of_nat_mult of_nat_numeral of_nat_power)
    have n2: "2 * real m \<le> 2 * (real r * 2 ^ k) + 2 ^ k"
      using round_bits_near(2) [of m k] unfolding r_def [symmetric]
      by (metis (mono_tags) of_nat_add of_nat_le_iff of_nat_mult of_nat_numeral of_nat_power)
    define x where "x = real r * 2 ^ k - real m"
    have x: "real r * P - real m * E = x * E" by (simp add: x_def PE algebra_simps)
    have ax: "\<bar>x\<bar> \<le> 2 ^ k / 2" using n1 n2 unfolding x_def by linarith
    have tie: "\<bar>x\<bar> = 2 ^ k / 2 \<Longrightarrow> even r"
    proof -
      assume "\<bar>x\<bar> = 2 ^ k / 2"
      then have "2 * (real r * 2 ^ k) = 2 * real m + 2 ^ k \<or> 2 * real m = 2 * (real r * 2 ^ k) + 2 ^ k"
        by (auto simp: x_def abs_if split: if_splits)
      then have "real (2 * (r * 2 ^ k)) = real (2 * m + 2 ^ k) \<or> real (2 * m) = real (2 * (r * 2 ^ k) + 2 ^ k)"
        by simp
      then show "even r" using round_bits_near(3) [of m k] unfolding r_def [symmetric] of_nat_eq_iff by blast
    qed
    have "\<bar>x * E\<bar> = \<bar>x\<bar> * E" using E by (simp add: abs_mult)
    moreover have "P / 2 = (2 ^ k / 2) * E" by (simp add: PE)
    ultimately have "\<bar>real r * P - real m * E\<bar> = \<bar>x\<bar> * E" "P / 2 = 2 ^ k / 2 * E"
      unfolding x by simp_all
    moreover have "\<bar>x\<bar> * E \<le> 2 ^ k / 2 * E" using ax E by (intro mult_right_mono) simp_all
    moreover have "\<bar>x\<bar> * E = 2 ^ k / 2 * E \<Longrightarrow> even r" using tie E by simp
    ultimately show ?thesis unfolding rn E_def [symmetric] by metis
  qed
  then show "\<bar>real (rne_at m e q) * 2 powi q - real m * 2 powi e\<bar> \<le> 2 powi q / 2"
    "\<bar>real (rne_at m e q) * 2 powi q - real m * 2 powi e\<bar> = 2 powi q / 2 \<Longrightarrow> even (rne_at m e q)"
    by (auto simp: P_def)
qed

lemma rne_at_mono:
  assumes "real m1 * 2 powi e1 \<le> real m2 * 2 powi e2"
  shows "rne_at m1 e1 q \<le> rne_at m2 e2 q"
proof (rule ccontr)
  define P :: real where "P = 2 powi q"
  have P: "0 < P" by (simp add: P_def)
  define r1 r2 where "r1 = rne_at m1 e1 q" and "r2 = rne_at m2 e2 q"
  define x y where "x = real m1 * 2 powi e1" and "y = real m2 * 2 powi e2"
  note n1 = rne_at_near [of m1 e1 q, folded r1_def x_def P_def]
  note n2 = rne_at_near [of m2 e2 q, folded r2_def y_def P_def]
  assume "\<not> rne_at m1 e1 q \<le> rne_at m2 e2 q"
  then have "r2 + 1 \<le> r1" by (simp add: r1_def r2_def)
  then have le: "real r2 * P + P \<le> real r1 * P"
    using P by (metis distrib_right mult_1 mult_le_cancel_right_pos of_nat_1 of_nat_add of_nat_le_iff)
  have xy: "x \<le> y" using assms by (simp add: x_def y_def)
  have a: "real r1 * P - x \<le> P / 2" "y - real r2 * P \<le> P / 2"
    using n1(1) n2(1) by linarith+
  have eqs: "real r1 * P - x = P / 2" "y - real r2 * P = P / 2" "real r1 * P = real r2 * P + P"
    using a le xy by linarith+
  have "even r1" using n1(2) eqs(1) P by simp
  moreover have "even r2"
  proof -
    have "\<bar>real r2 * P - y\<bar> = P / 2" using eqs(2) P by (simp add: abs_if)
    then show ?thesis by (rule n2(2))
  qed
  moreover have "real r1 = real r2 + 1" using eqs(3) P
    by (metis distrib_right mult_1 mult_right_cancel less_irrefl)
  then have "r1 = r2 + 1" by linarith
  ultimately show False by simp
qed

section \<open>Rounding to binary64\<close>

definition unit_exp :: "nat \<Rightarrow> int \<Rightarrow> int" where
  "unit_exp m e = max (e + int (nbits m) - 53) (- 1074)"

definition rounded :: "nat \<Rightarrow> int \<Rightarrow> real" where
  "rounded m e = (if m = 0 then 0 else real (rne_at m e (unit_exp m e)) * 2 powi unit_exp m e)"

lemma value_below: "0 < m \<Longrightarrow> real m * 2 powi e < 2 powi (unit_exp m e + 53)"
proof -
  assume m: "0 < m"
  have "real m < 2 ^ nbits m"
    using nbits_bounds [OF m] by (metis of_nat_less_iff of_nat_numeral of_nat_power)
  then have "real m * 2 powi e < 2 powi (int (nbits m)) * 2 powi e" by (simp add: pw_nat)
  also have "\<dots> = 2 powi (int (nbits m) + e)" by (simp add: pw_add)
  also have "\<dots> \<le> 2 powi (unit_exp m e + 53)" by (intro pw_mono) (simp add: unit_exp_def)
  finally show ?thesis .
qed

lemma value_above:
  "0 < m \<Longrightarrow> - 1074 < unit_exp m e \<Longrightarrow> 2 powi (unit_exp m e + 52) \<le> real m * 2 powi e"
proof -
  assume m: "0 < m" and u: "- 1074 < unit_exp m e"
  have nb: "0 < nbits m" using m by (simp add: nbits.simps [of m])
  have "unit_exp m e + 52 = int (nbits m - 1) + e" using u nb by (simp add: unit_exp_def)
  then have "2 powi (unit_exp m e + 52) = (2::real) ^ (nbits m - 1) * 2 powi e"
    by (simp only: pw_add) (simp add: pw_nat)
  moreover have "(2::real) ^ (nbits m - 1) \<le> real m"
    using nbits_bounds [OF m] by (metis of_nat_le_iff of_nat_numeral of_nat_power)
  ultimately show ?thesis by (simp add: mult_right_mono)
qed

lemma rne_top: "0 < m \<Longrightarrow> rne_at m e (unit_exp m e) \<le> 2 ^ 53"
proof -
  assume m: "0 < m"
  define u where "u = unit_exp m e"
  have "real m * 2 powi e \<le> real (2 ^ 53) * 2 powi u"
    using value_below [OF m, of e] by (simp add: u_def pw_add pw_nat mult.commute)
  then have "rne_at m e u \<le> rne_at (2 ^ 53) u u" by (rule rne_at_mono)
  then show ?thesis by (simp add: rne_at_def u_def)
qed

lemma rne_bottom: "0 < m \<Longrightarrow> - 1074 < unit_exp m e \<Longrightarrow> 2 ^ 52 \<le> rne_at m e (unit_exp m e)"
proof -
  assume m: "0 < m" "- 1074 < unit_exp m e"
  define u where "u = unit_exp m e"
  have "real (2 ^ 52) * 2 powi u \<le> real m * 2 powi e"
    using value_above [OF m] by (simp add: u_def pw_add pw_nat mult.commute)
  then have "rne_at (2 ^ 52) u u \<le> rne_at m e u" by (rule rne_at_mono)
  then show ?thesis by (simp add: rne_at_def u_def)
qed

lemma rounded_nonneg: "0 \<le> rounded m e"
  by (simp add: rounded_def)

theorem rounded_mono:
  assumes "real m1 * 2 powi e1 \<le> real m2 * 2 powi e2"
  shows "rounded m1 e1 \<le> rounded m2 e2"
proof (cases "m1 = 0")
  case True
  then show ?thesis using rounded_nonneg [of m2 e2] by (simp add: rounded_def)
next
  case False
  then have p: "0 < m1" by simp
  have p2: "0 < m2"
  proof (rule ccontr)
    assume "\<not> 0 < m2"
    with assms have "real m1 * 2 powi e1 \<le> 0" by simp
    moreover have "0 < real m1 * 2 powi e1" using p by simp
    ultimately show False by simp
  qed
  define u1 u2 where "u1 = unit_exp m1 e1" and "u2 = unit_exp m2 e2"
  have r: "rounded m1 e1 = real (rne_at m1 e1 u1) * 2 powi u1" "rounded m2 e2 = real (rne_at m2 e2 u2) * 2 powi u2"
    using p p2 by (simp_all add: rounded_def u1_def u2_def)
  consider (eq) "u1 = u2" | (lt) "u1 < u2" | (gt) "u2 < u1" by linarith
  then show ?thesis
  proof cases
    case eq
    then show ?thesis using rne_at_mono [OF assms] unfolding r by simp
  next
    case lt
    have "unit_exp m1 e1 \<ge> - 1074" by (simp add: unit_exp_def)
    with lt have u2: "- 1074 < unit_exp m2 e2" by (simp add: u1_def u2_def)
    have "real (rne_at m1 e1 u1) \<le> 2 ^ 53"
      using rne_top [OF p, of e1] by (metis of_nat_le_iff of_nat_numeral of_nat_power u1_def)
    then have "rounded m1 e1 \<le> 2 ^ 53 * 2 powi u1" unfolding r by (simp add: mult_right_mono)
    also have "\<dots> = 2 powi (53 + u1)" by (simp only: pw_add) (simp add: pw_nat)
    also have "\<dots> \<le> 2 powi (52 + u2)" using lt by (intro pw_mono) simp
    also have "\<dots> = 2 ^ 52 * 2 powi u2" by (simp only: pw_add) (simp add: pw_nat)
    also have "\<dots> \<le> rounded m2 e2"
    proof -
      have "(2::real) ^ 52 \<le> real (rne_at m2 e2 u2)"
        using rne_bottom [OF p2 u2] by (metis of_nat_le_iff of_nat_numeral of_nat_power u2_def)
      then show ?thesis unfolding r by (simp add: mult_right_mono)
    qed
    finally show ?thesis .
  next
    case gt
    have "unit_exp m2 e2 \<ge> - 1074" by (simp add: unit_exp_def)
    with gt have "- 1074 < unit_exp m1 e1" by (simp add: u1_def u2_def)
    then have "2 powi (u1 + 52) \<le> real m1 * 2 powi e1" using value_above [OF p] by (simp add: u1_def)
    moreover have "real m2 * 2 powi e2 < 2 powi (u2 + 53)" using value_below [OF p2] by (simp add: u2_def)
    moreover have "(2::real) powi (u2 + 53) \<le> 2 powi (u1 + 52)" using gt by (intro pw_mono) simp
    ultimately show ?thesis using assms by linarith
  qed
qed

lemma nbits_le: "m < 2 ^ k \<Longrightarrow> nbits m \<le> k"
proof (cases "m = 0")
  case False
  assume "m < 2 ^ k"
  with nbits_bounds [of m] False have "2 ^ (nbits m - 1) < (2::nat) ^ k" by linarith
  then have "nbits m - 1 < k" by (rule power_less_imp_less_exp [rotated]) simp
  then show ?thesis by simp
qed simp

lemma rounded_exact: "m < 2 ^ 53 \<Longrightarrow> - 1074 \<le> e \<Longrightarrow> rounded m e = real m * 2 powi e"
proof -
  assume a: "m < 2 ^ 53" "- 1074 \<le> e"
  have "unit_exp m e \<le> e" using nbits_le [OF a(1)] a(2) by (simp add: unit_exp_def)
  then show ?thesis by (simp add: rounded_def rne_at_def pw_diff [of "unit_exp m e" e])
qed

section \<open>The results of operations\<close>

definition sval :: "bool \<Rightarrow> real \<Rightarrow> real" where
  "sval s x = (if s then - x else x)"

lemma fval_Fin: "fval (Fin s m e) = sval s (real m * 2 powi e)"
  by (simp add: sval_def)

definition f64_limit :: real where "f64_limit = 2 powi 1024"

lemma f64_limit_pos [simp]: "0 < f64_limit" "0 \<le> f64_limit" "f64_limit \<noteq> 0"
  by (simp_all add: f64_limit_def)

lemma overflow_big:
  assumes "2 ^ 52 \<le> n" "971 < q"
  shows "f64_limit \<le> real n * 2 powi q"
proof -
  have "(2::real) ^ 52 \<le> real n"
    using assms(1) by (metis of_nat_le_iff of_nat_numeral of_nat_power)
  moreover have "(2::real) powi 972 \<le> 2 powi q" using assms(2) by (intro pw_mono) simp
  ultimately have "(2::real) ^ 52 * 2 powi 972 \<le> real n * 2 powi q" by (intro mult_mono) simp_all
  then show ?thesis
    using pw_add [of 52 972] unfolding f64_limit_def by (simp add: pw_nat [of 52])
qed

lemma f64_round_cases:
  "f64_round s m e = Inf s \<and> f64_limit \<le> rounded m e \<or>
   (\<exists>m' e'. f64_round s m e = Fin s m' e' \<and> f64_wf (Fin s m' e') \<and> real m' * 2 powi e' = rounded m e)"
proof (cases "m = 0")
  case True
  then show ?thesis by (auto simp: f64_round_def rounded_def)
next
  case False
  then have m: "0 < m" by simp
  define u where "u = unit_exp m e"
  have u1: "- 1074 \<le> u" by (simp add: u_def unit_exp_def)
  define r where "r = rne_at m e u"
  have r: "rounded m e = real r * 2 powi u" using m by (simp add: rounded_def r_def u_def)
  have top: "r \<le> 2 ^ 53" using rne_top [OF m] by (simp add: r_def u_def)
  have bot: "- 1074 < u \<Longrightarrow> 2 ^ 52 \<le> r" using rne_bottom [OF m] by (simp add: r_def u_def)
  have f: "f64_round s m e =
     (if u \<le> e then (if 971 < u then Inf s else Fin s (m * 2 ^ nat (e - u)) u)
      else let m' = round_bits m (nat (u - e));
               (m'', q') = (if m' = 2 ^ 53 then (2 ^ 52, u + 1) else (m', u))
           in if m'' = 0 then Fin s 0 (- 1074) else if 971 < q' then Inf s else Fin s m'' q')"
    using m unfolding f64_round_def u_def unit_exp_def Let_def by simp
  show ?thesis
  proof (cases "u \<le> e")
    case True
    then have rm: "r = m * 2 ^ nat (e - u)" by (simp add: r_def rne_at_def)
    have "real r * 2 powi u < 2 ^ 53 * 2 powi u"
      using value_below [OF m, of e] True
      by (simp add: rm pw_diff [of u e] u_def [symmetric] pw_add pw_nat [of 53] mult.commute mult.left_commute)
    then have "r < 2 ^ 53" by (simp add: mult_less_cancel_right_pos)
    then show ?thesis using True u1 bot overflow_big [of r u] r rm unfolding f by auto
  next
    case False
    then have rm: "r = round_bits m (nat (u - e))" by (simp add: r_def rne_at_def)
    show ?thesis
    proof (cases "r = 2 ^ 53")
      case True
      have v: "rounded m e = real (2 ^ 52) * 2 powi (u + 1)"
        using True by (simp add: r pw_add)
      then show ?thesis using True False u1 overflow_big [of "2 ^ 52" "u + 1"] unfolding f rm [symmetric]
        by (auto simp: Let_def)
    next
      case ne: False
      then show ?thesis using False u1 top bot overflow_big [of r u] unfolding f rm [symmetric]
        by (auto simp: Let_def r)
    qed
  qed
qed

text \<open>The order of the values other than not-a-number, infinities included.\<close>

fun fkey :: "f64 \<Rightarrow> real" where
  "fkey (Fin s m e) = fval (Fin s m e)"
| "fkey (Inf s) = sval s (f64_limit)"
| "fkey NaN = 0"

lemma fin_bound: "f64_wf (Fin s m e) \<Longrightarrow> \<bar>fval (Fin s m e)\<bar> < f64_limit"
proof -
  assume w: "f64_wf (Fin s m e)"
  have "\<bar>fval (Fin s m e)\<bar> = real m * 2 powi e" by simp
  also have "\<dots> < 2 ^ 53 * 2 powi e" using w by simp
  also have "\<dots> \<le> 2 ^ 53 * 2 powi 971" using w pw_mono [of e 971] by simp
  also have "\<dots> = f64_limit" using pw_add [of 53 971] by (simp add: pw_nat [of 53] f64_limit_def)
  finally show ?thesis .
qed

lemma wf_f64_round [simp, intro]: "f64_wf (f64_round s m e)"
  using f64_round_cases [of s m e] by auto

lemma f64_round_not_NaN [simp]: "f64_round s m e \<noteq> NaN"
  using f64_round_cases [of s m e] by auto

lemma f64_round_fin:
  assumes "rounded m e < f64_limit"
  shows "f64_is_finite (f64_round s m e)" "fval (f64_round s m e) = sval s (rounded m e)"
  using f64_round_cases [of s m e] assms by (auto simp: sval_def)

lemma fkey_round: "fkey (f64_round s m e) = sval s (min (rounded m e) (f64_limit))"
proof -
  from f64_round_cases [of s m e] show ?thesis
  proof
    assume "f64_round s m e = Inf s \<and> f64_limit \<le> rounded m e"
    then show ?thesis by (simp add: min_absorb2)
  next
    assume "\<exists>m' e'. f64_round s m e = Fin s m' e' \<and> f64_wf (Fin s m' e') \<and> real m' * 2 powi e' = rounded m e"
    then obtain m' e' where f: "f64_round s m e = Fin s m' e'" "f64_wf (Fin s m' e')"
      "real m' * 2 powi e' = rounded m e" by blast
    with fin_bound [of s m' e'] have "rounded m e < f64_limit" by (simp add: abs_if split: if_splits)
    with f show ?thesis by (simp add: sval_def)
  qed
qed

lemma rounded_zero [simp]: "rounded 0 e = 0"
  by (simp add: rounded_def)

theorem f64_round_mono:
  assumes "sval s1 (real m1 * 2 powi e1) \<le> sval s2 (real m2 * 2 powi e2)"
  shows "fkey (f64_round s1 m1 e1) \<le> fkey (f64_round s2 m2 e2)"
proof -
  have z: "real m * 2 powi e \<le> 0 \<longleftrightarrow> m = 0" for m e
  proof -
    have "0 < m \<Longrightarrow> 0 < real m * 2 powi e" by simp
    then show ?thesis by fastforce
  qed
  have p: "0 \<le> rounded m e" for m e by (rule rounded_nonneg)
  have q: "0 \<le> real m * 2 powi e" for m e by simp
  note mono = rounded_mono [of m1 e1 m2 e2] rounded_mono [of m2 e2 m1 e1]
  show ?thesis
    using assms mono p [of m1 e1] p [of m2 e2] q [of m1 e1] q [of m2 e2] z [of m1 e1] z [of m2 e2]
    unfolding fkey_round sval_def by (cases s1; cases s2) (auto simp: min_def)
qed

subsection \<open>Comparison\<close>

lemma pw_align:
  assumes "e = min e1 e2"
  shows "signed_mant s1 m1 * 2 ^ nat (e1 - e) < signed_mant s2 m2 * 2 ^ nat (e2 - e) \<longleftrightarrow>
      fval (Fin s1 m1 e1) < fval (Fin s2 m2 e2)"
    and "signed_mant s1 m1 * 2 ^ nat (e1 - e) = signed_mant s2 m2 * 2 ^ nat (e2 - e) \<longleftrightarrow>
      fval (Fin s1 m1 e1) = fval (Fin s2 m2 e2)"
proof -
  have v: "fval (Fin s m e') = real_of_int (signed_mant s m * 2 ^ nat (e' - e)) * 2 powi e" if "e \<le> e'" for s m e'
    using that by (simp add: signed_mant_def pw_diff [of e e'])
  have "e \<le> e1" "e \<le> e2" using assms by simp_all
  note v = v [OF this(1), of s1 m1] v [OF this(2), of s2 m2]
  show "signed_mant s1 m1 * 2 ^ nat (e1 - e) < signed_mant s2 m2 * 2 ^ nat (e2 - e) \<longleftrightarrow>
      fval (Fin s1 m1 e1) < fval (Fin s2 m2 e2)"
    unfolding v by (simp only: mult_less_cancel_right_pos [OF pw_pos] of_int_less_iff)
  show "signed_mant s1 m1 * 2 ^ nat (e1 - e) = signed_mant s2 m2 * 2 ^ nat (e2 - e) \<longleftrightarrow>
      fval (Fin s1 m1 e1) = fval (Fin s2 m2 e2)"
    unfolding v by (simp only: mult_right_cancel [OF less_imp_neq [OF pw_pos, symmetric]] of_int_eq_iff)
qed

lemma f64_lt_fin [simp]: "f64_lt (Fin s1 m1 e1) (Fin s2 m2 e2) \<longleftrightarrow> fval (Fin s1 m1 e1) < fval (Fin s2 m2 e2)"
  unfolding f64_lt.simps Let_def by (rule pw_align(1)) simp

lemma f64_eq_fin [simp]: "f64_eq (Fin s1 m1 e1) (Fin s2 m2 e2) \<longleftrightarrow> fval (Fin s1 m1 e1) = fval (Fin s2 m2 e2)"
  unfolding f64_eq.simps Let_def by (rule pw_align(2)) simp

declare f64_lt.simps(1) [simp del] f64_eq.simps(1) [simp del] fval.simps(1) [simp del]

lemma fkey_lt: "f64_wf a \<Longrightarrow> f64_wf b \<Longrightarrow> a \<noteq> NaN \<Longrightarrow> b \<noteq> NaN \<Longrightarrow> f64_lt a b \<longleftrightarrow> fkey a < fkey b"
  by (cases a; cases b) (auto simp: sval_def abs_less_iff not_less less_imp_le
      dest!: fin_bound simp del: f64_wf.simps)

lemma fkey_eq: "f64_wf a \<Longrightarrow> f64_wf b \<Longrightarrow> a \<noteq> NaN \<Longrightarrow> b \<noteq> NaN \<Longrightarrow> f64_eq a b \<longleftrightarrow> fkey a = fkey b"
  by (cases a; cases b) (auto simp: sval_def abs_less_iff
      dest!: fin_bound simp del: f64_wf.simps)

lemma fkey_le: "f64_wf a \<Longrightarrow> f64_wf b \<Longrightarrow> a \<noteq> NaN \<Longrightarrow> b \<noteq> NaN \<Longrightarrow> f64_le a b \<longleftrightarrow> fkey a \<le> fkey b"
  by (auto simp: f64_le_def fkey_lt fkey_eq)

lemma NaN_unordered [simp]: "\<not> f64_lt NaN a" "\<not> f64_lt a NaN" "\<not> f64_le NaN a" "\<not> f64_le a NaN"
  by (cases a; simp add: f64_le_def)+

lemma fkey_fin: "f64_is_finite a \<Longrightarrow> fkey a = fval a"
  by (cases a) auto

subsection \<open>Arithmetic\<close>

lemma f64_add_round:
  assumes "f64_is_finite a" "f64_is_finite b"
  shows "\<exists>s m e. f64_add a b = f64_round s m e \<and> sval s (real m * 2 powi e) = fval a + fval b"
proof -
  obtain s1 m1 e1 s2 m2 e2 where ab: "a = Fin s1 m1 e1" "b = Fin s2 m2 e2"
    using assms by (cases a; cases b) auto
  define e where "e = min e1 e2"
  define v where "v = signed_mant s1 m1 * 2 ^ nat (e1 - e) + signed_mant s2 m2 * 2 ^ nat (e2 - e)"
  have f: "f64_add a b = f64_round (if v = 0 then s1 \<and> s2 else v < 0) (nat \<bar>v\<bar>) e"
    by (simp add: ab Let_def e_def v_def)
  have k: "fval (Fin s m e') = real_of_int (signed_mant s m * 2 ^ nat (e' - e)) * 2 powi e" if "e \<le> e'" for s m e'
    using that by (simp add: signed_mant_def pw_diff [of e e'] fval.simps(1))
  have "fval a + fval b = real_of_int v * 2 powi e"
    unfolding ab v_def using k [of e1 s1 m1] k [of e2 s2 m2] by (simp add: e_def algebra_simps)
  moreover have "sval (if v = 0 then s1 \<and> s2 else v < 0) (real (nat \<bar>v\<bar>) * 2 powi e) = real_of_int v * 2 powi e"
    by (auto simp: sval_def)
  ultimately show ?thesis using f by metis
qed

lemma f64_mul_round:
  assumes "f64_is_finite a" "f64_is_finite b"
  shows "\<exists>s m e. f64_mul a b = f64_round s m e \<and> sval s (real m * 2 powi e) = fval a * fval b"
proof -
  obtain s1 m1 e1 s2 m2 e2 where ab: "a = Fin s1 m1 e1" "b = Fin s2 m2 e2"
    using assms by (cases a; cases b) auto
  have "sval (s1 \<noteq> s2) (real (m1 * m2) * 2 powi (e1 + e2)) = fval a * fval b"
    by (auto simp: ab sval_def pw_add fval.simps(1))
  moreover have "f64_mul a b = f64_round (s1 \<noteq> s2) (m1 * m2) (e1 + e2)" by (simp add: ab)
  ultimately show ?thesis by metis
qed

lemma fval_neg [simp]: "fval (f64_neg a) = - fval a" "f64_is_finite (f64_neg a) = f64_is_finite a"
  "f64_wf (f64_neg a) = f64_wf a"
  by (cases a; simp add: fval.simps(1))+

lemma wf_ops [simp, intro]:
  "f64_wf (f64_round s m e)" "f64_wf (f64_of_int i)" "f64_wf (f64_quot s m n e)" "f64_wf (f64_lit s m d)"
  by (simp_all add: f64_of_int_def f64_quot_def f64_lit_def Let_def wf_f64_round)

lemma wf_add [simp, intro]: "f64_wf (f64_add a b)"
  by (cases "(a, b)" rule: f64_add.cases) (auto simp: Let_def)

lemma wf_sub [simp, intro]: "f64_wf (f64_sub a b)"
  by (simp add: f64_sub_def)

lemma wf_mul [simp, intro]: "f64_wf (f64_mul a b)"
  by (cases "(a, b)" rule: f64_mul.cases) auto

lemma wf_div [simp, intro]: "f64_wf (f64_div a b)"
  by (cases "(a, b)" rule: f64_div.cases) auto

text \<open>Operations are monotone where the exact ones are.\<close>

lemma f64_add_mono:
  assumes "f64_is_finite a" "f64_is_finite b" "f64_is_finite c" "f64_is_finite d"
    and "fval a + fval b \<le> fval c + fval d"
  shows "f64_le (f64_add a b) (f64_add c d)"
proof -
  obtain s1 m1 e1 s2 m2 e2 where f: "f64_add a b = f64_round s1 m1 e1" "sval s1 (real m1 * 2 powi e1) = fval a + fval b"
    "f64_add c d = f64_round s2 m2 e2" "sval s2 (real m2 * 2 powi e2) = fval c + fval d"
    using f64_add_round [OF assms(1,2)] f64_add_round [OF assms(3,4)] by blast
  have "fkey (f64_add a b) \<le> fkey (f64_add c d)"
    unfolding f(1,3) by (rule f64_round_mono) (simp add: f(2,4) assms(5))
  then show ?thesis using fkey_le f(1,3) by simp
qed

lemma f64_sub_mono:
  assumes "f64_is_finite a" "f64_is_finite b" "f64_is_finite c" "f64_le a b"
  shows "f64_le (f64_sub a c) (f64_sub b c)"
  unfolding f64_sub_def
proof (rule f64_add_mono)
  show "fval a + fval (f64_neg c) \<le> fval b + fval (f64_neg c)"
    using assms by (cases a; cases b) (auto simp: f64_le_def)
qed (use assms in simp_all)

lemma f64_le_trans:
  assumes "f64_wf a" "f64_wf b" "f64_wf c" "f64_le a b" "f64_le b c"
  shows "f64_le a c"
proof -
  have n: "a \<noteq> NaN" "b \<noteq> NaN" "c \<noteq> NaN" using assms(4,5) by auto
  then show ?thesis using assms by (simp add: fkey_le)
qed

subsection \<open>Integers and quotients\<close>

lemma f64_of_int_fval:
  assumes "\<bar>i\<bar> < 2 ^ 53"
  shows "f64_is_finite (f64_of_int i)" "fval (f64_of_int i) = real_of_int i"
proof -
  have m: "nat \<bar>i\<bar> < 2 ^ 53" using assms by (simp add: nat_less_iff)
  have r: "rounded (nat \<bar>i\<bar>) 0 = real (nat \<bar>i\<bar>)" using rounded_exact [OF m, of 0] by simp
  have "real (nat \<bar>i\<bar>) < 2 ^ 53" using m by (metis of_nat_less_iff of_nat_numeral of_nat_power)
  also have "(2::real) ^ 53 \<le> f64_limit" unfolding f64_limit_def using pw_mono [of 53 1024] by (simp add: pw_nat [of 53])
  finally have lim: "rounded (nat \<bar>i\<bar>) 0 < f64_limit" unfolding r .
  show "f64_is_finite (f64_of_int i)" "fval (f64_of_int i) = real_of_int i"
    using f64_round_fin [OF lim, of "i < 0"] by (auto simp: f64_of_int_def r sval_def)
qed

definition sticky :: "nat \<Rightarrow> nat \<Rightarrow> nat" where
  "sticky m n = 2 * (m * 2 ^ 120 div n) + (if m * 2 ^ 120 mod n = 0 then 0 else 1)"

lemma f64_quot_sticky: "f64_quot s m n e = f64_round s (sticky m n) (e - 121)"
  by (simp add: f64_quot_def sticky_def Let_def)

lemma scale_120:
  assumes "e \<le> j + 120"
  shows "real m * 2 powi e \<le> real n * 2 powi j \<longleftrightarrow> m * 2 ^ 120 \<le> n * 2 ^ nat (120 + j - e)"
    and "real n * 2 powi j \<le> real m * 2 powi e \<longleftrightarrow> n * 2 ^ nat (120 + j - e) \<le> m * 2 ^ 120"
proof -
  have j: "2 powi j * 2 powi 120 = (2::real) ^ nat (120 + j - e) * 2 powi e"
    using pw_diff [of e "120 + j"] assms by (simp add: pw_add)
  define J E :: real where "J = 2 powi j" and "E = 2 powi e"
  have E: "0 < E" by (simp add: E_def)
  have eq: "J * 2 ^ 120 = 2 ^ nat (120 + j - e) * E" using j by (simp add: J_def E_def pw_nat [of 120])
  have nn: "real n * J * 2 ^ 120 = real (n * 2 ^ nat (120 + j - e)) * E" using eq by simp
  have mm: "real m * E * 2 ^ 120 = real (m * 2 ^ 120) * E" by simp
  have "real m * E \<le> real n * J \<longleftrightarrow> real m * E * 2 ^ 120 \<le> real n * J * 2 ^ 120" by simp
  also have "\<dots> \<longleftrightarrow> m * 2 ^ 120 \<le> n * 2 ^ nat (120 + j - e)"
    unfolding nn mm mult_le_cancel_right_pos [OF E] of_nat_le_iff ..
  finally show "real m * 2 powi e \<le> real n * 2 powi j \<longleftrightarrow> m * 2 ^ 120 \<le> n * 2 ^ nat (120 + j - e)"
    by (simp add: J_def E_def)
  have "real n * J \<le> real m * E \<longleftrightarrow> real n * J * 2 ^ 120 \<le> real m * E * 2 ^ 120" by simp
  also have "\<dots> \<longleftrightarrow> n * 2 ^ nat (120 + j - e) \<le> m * 2 ^ 120"
    unfolding nn mm mult_le_cancel_right_pos [OF E] of_nat_le_iff ..
  finally show "real n * 2 powi j \<le> real m * 2 powi e \<longleftrightarrow> n * 2 ^ nat (120 + j - e) \<le> m * 2 ^ 120"
    by (simp add: J_def E_def)
qed

lemma pow_121:
  assumes "e \<le> j + 120"
  shows "real (2 * 2 ^ nat (120 + j - e)) * 2 powi (e - 121) = 2 powi j"
proof -
  have "(2::real) powi j = 2 powi (121 + j - e) * 2 powi (e - 121)" by (simp only: pw_add [symmetric]) simp
  also have "(2::real) powi (121 + j - e) = 2 ^ Suc (nat (120 + j - e))"
  proof -
    have "nat (121 + j - e) = Suc (nat (120 + j - e))" using assms by simp
    then show ?thesis using assms by (subst pw_nat) simp_all
  qed
  finally show ?thesis by simp
qed

lemma sticky_le_pow:
  assumes "0 < n" "e \<le> j + 120" "real m * 2 powi e \<le> real n * 2 powi j"
  shows "real (sticky m n) * 2 powi (e - 121) \<le> 2 powi j"
proof -
  define K where "K = (2::nat) ^ nat (120 + j - e)"
  have le: "m * 2 ^ 120 \<le> n * K" using scale_120(1) [OF assms(2), of m n] assms(3) by (simp add: K_def)
  have "sticky m n \<le> 2 * K"
  proof (cases "m * 2 ^ 120 = n * K")
    case True
    then show ?thesis using assms(1) by (simp add: sticky_def)
  next
    case False
    with le have "m * 2 ^ 120 div n < K" by (metis less_mult_imp_div_less mult.commute le_neq_implies_less)
    then show ?thesis by (auto simp: sticky_def)
  qed
  then have "real (sticky m n) * 2 powi (e - 121) \<le> real (2 * K) * 2 powi (e - 121)"
    by (intro mult_right_mono) (simp_all only: of_nat_le_iff less_imp_le [OF pw_pos])
  moreover have "real (2 * K) * 2 powi (e - 121) = 2 powi j" unfolding K_def by (rule pow_121 [OF assms(2)])
  ultimately show ?thesis by linarith
qed

lemma sticky_ge_pow:
  assumes "0 < n" "e \<le> j + 120" "real n * 2 powi j \<le> real m * 2 powi e"
  shows "2 powi j \<le> real (sticky m n) * 2 powi (e - 121)"
proof -
  define K where "K = (2::nat) ^ nat (120 + j - e)"
  have le: "n * K \<le> m * 2 ^ 120" using scale_120(2) [OF assms(2), of n m] assms(3) by (simp add: K_def)
  then have "K \<le> m * 2 ^ 120 div n" using assms(1) by (simp add: less_eq_div_iff_mult_less_eq mult.commute)
  then have "2 * K \<le> sticky m n" by (auto simp: sticky_def)
  then have "real (2 * K) * 2 powi (e - 121) \<le> real (sticky m n) * 2 powi (e - 121)"
    by (intro mult_right_mono) (simp_all only: of_nat_le_iff less_imp_le [OF pw_pos])
  moreover have "real (2 * K) * 2 powi (e - 121) = 2 powi j" unfolding K_def by (rule pow_121 [OF assms(2)])
  ultimately show ?thesis by linarith
qed

lemma fval_pos: "0 < fval (Fin s m e) \<Longrightarrow> \<not> s"
proof
  assume "0 < fval (Fin s m e)" s
  moreover have "0 \<le> real m * 2 powi e" by simp
  ultimately show False by (simp add: fval.simps(1))
qed

text \<open>The quotient of two positive values whose sizes are at most 2 to the 120th apart.\<close>

lemma f64_div_pow:
  assumes "f64_is_finite a" "f64_is_finite b" "0 \<le> fval a" "0 < fval b" "fval a \<le> fval b * 2 powi j"
    and "f64_wf b" "0 \<le> j"
  shows "\<exists>s m e. f64_div a b = f64_round s m e \<and> real m * 2 powi e \<le> 2 powi j \<and> (fval a > 0 \<longrightarrow> \<not> s)"
proof -
  obtain s1 m1 e1 s2 m2 e2 where ab: "a = Fin s1 m1 e1" "b = Fin s2 m2 e2"
    using assms(1,2) by (cases a; cases b) auto
  have m2: "0 < m2" using assms(4) by (cases m2) (auto simp: ab fval.simps(1))
  have p2: "0 \<le> real m2 * 2 powi e2" by simp
  with assms(4) have "\<not> s2" by (cases s2) (simp_all add: ab fval.simps(1))
  then have vb: "fval b = real m2 * 2 powi e2" "\<not> s2" by (simp_all add: ab fval.simps(1))
  have va: "fval a = real m1 * 2 powi e1"
  proof (cases s1)
    case True
    have "0 \<le> real m1 * 2 powi e1" by simp
    with True assms(3) show ?thesis by (simp add: ab fval.simps(1))
  qed (simp add: ab fval.simps(1))
  have d: "f64_div a b = f64_round (s1 \<noteq> s2) (sticky m1 m2) (e1 - e2 - 121)"
    using m2 by (simp add: ab f64_quot_sticky)
  show ?thesis
  proof (cases "m1 = 0")
    case True
    then have "real (sticky m1 m2) * 2 powi (e1 - e2 - 121) \<le> 2 powi j" by (simp add: sticky_def)
    moreover have "\<not> 0 < fval a" using True va by simp
    ultimately show ?thesis using d by blast
  next
    case False
    have "2 powi e1 \<le> real m1 * 2 powi e1" using False by simp
    also have "\<dots> \<le> real m2 * 2 powi (e2 + j)" using assms(5) by (simp add: va vb pw_add mult.assoc)
    also have "\<dots> < 2 ^ 53 * 2 powi (e2 + j)" using assms(6) by (simp add: ab)
    also have "\<dots> = 2 powi (53 + e2 + j)" by (simp only: pw_add) (simp add: pw_nat [of 53])
    finally have "e1 < 53 + e2 + j" by (metis not_less pw_mono)
    then have e: "e1 - e2 \<le> j + 120" by simp
    have "real m1 * 2 powi (e1 - e2) * 2 powi e2 \<le> real m2 * 2 powi j * 2 powi e2"
      using assms(5) by (simp add: va vb pw_add [symmetric] mult.assoc) (simp add: pw_add ac_simps)
    then have "real m1 * 2 powi (e1 - e2) \<le> real m2 * 2 powi j" by simp
    from sticky_le_pow [OF m2 e this] show ?thesis
      unfolding d using vb(2) fval_pos [of s1 m1 e1, folded ab(1)] by blast
  qed
qed

lemma f64_div_ge_pow:
  assumes "0 < fval (Fin s1 m1 e1)" "0 < fval (Fin s2 m2 e2)" "e1 - e2 \<le> j + 120"
    and "fval (Fin s2 m2 e2) * 2 powi j \<le> fval (Fin s1 m1 e1)"
  shows "\<exists>m e. f64_div (Fin s1 m1 e1) (Fin s2 m2 e2) = f64_round False m e \<and> 2 powi j \<le> real m * 2 powi e"
proof -
  have s: "\<not> s1" "\<not> s2" using assms(1,2) fval_pos by blast+
  have m2: "0 < m2" using assms(2) by (cases m2) (auto simp: fval.simps(1))
  have d: "f64_div (Fin s1 m1 e1) (Fin s2 m2 e2) = f64_round False (sticky m1 m2) (e1 - e2 - 121)"
    using m2 s by (simp add: f64_quot_sticky)
  have "real m2 * 2 powi j * 2 powi e2 \<le> real m1 * 2 powi (e1 - e2) * 2 powi e2"
    using assms(4) s by (simp add: fval.simps(1) pw_add [symmetric] mult.assoc) (simp add: pw_add ac_simps)
  then have "real m2 * 2 powi j \<le> real m1 * 2 powi (e1 - e2)" by simp
  from sticky_ge_pow [OF m2 assms(3) this] d show ?thesis by blast
qed

subsection \<open>Bounds\<close>

text \<open>A result lies between two values when the exact one does, and is then finite.\<close>

lemma f64_round_again:
  assumes "f64_wf (Fin s m e)"
  shows "fkey (f64_round s m e) = fval (Fin s m e)"
proof -
  have r: "rounded m e = real m * 2 powi e" using assms by (intro rounded_exact) simp_all
  have "real m * 2 powi e < f64_limit" using fin_bound [OF assms] by (cases s) (simp_all add: fval.simps(1))
  then show ?thesis unfolding fkey_round r by (simp add: fval_Fin)
qed

lemma round_between:
  assumes "f64_is_finite lo" "f64_wf lo" "f64_is_finite hi" "f64_wf hi"
    and "fval lo \<le> sval s (real m * 2 powi e)" "sval s (real m * 2 powi e) \<le> fval hi"
  shows "f64_is_finite (f64_round s m e) \<and> fval lo \<le> fval (f64_round s m e) \<and>
    fval (f64_round s m e) \<le> fval hi"
proof -
  obtain s1 m1 e1 s2 m2 e2 where f: "lo = Fin s1 m1 e1" "hi = Fin s2 m2 e2"
    using assms(1,3) by (cases lo; cases hi) auto
  have a: "fval lo \<le> fkey (f64_round s m e)"
    using f64_round_mono [of s1 m1 e1 s m e] assms(5) f64_round_again [OF assms(2) [unfolded f(1)]]
    by (simp add: f(1) fval_Fin)
  have b: "fkey (f64_round s m e) \<le> fval hi"
    using f64_round_mono [of s m e s2 m2 e2] assms(6) f64_round_again [OF assms(4) [unfolded f(2)]]
    by (simp add: f(2) fval_Fin)
  have "f64_is_finite (f64_round s m e)"
  proof (cases "f64_round s m e")
    case (Inf t)
    then show ?thesis
      using a b fin_bound [OF assms(2) [unfolded f(1)]] fin_bound [OF assms(4) [unfolded f(2)]]
      by (cases t) (auto simp: f sval_def)
  qed simp_all
  with a b show ?thesis using fkey_fin by simp
qed

lemma f64_mul_between:
  assumes "f64_is_finite a" "f64_is_finite b"
    and "f64_is_finite lo" "f64_wf lo" "f64_is_finite hi" "f64_wf hi"
    and "fval lo \<le> fval a * fval b" "fval a * fval b \<le> fval hi"
  shows "f64_is_finite (f64_mul a b)" "fval lo \<le> fval (f64_mul a b)" "fval (f64_mul a b) \<le> fval hi"
  using f64_mul_round [OF assms(1,2)] round_between [OF assms(3-6)] assms(7,8) by metis+

lemma f64_add_between:
  assumes "f64_is_finite a" "f64_is_finite b"
    and "f64_is_finite lo" "f64_wf lo" "f64_is_finite hi" "f64_wf hi"
    and "fval lo \<le> fval a + fval b" "fval a + fval b \<le> fval hi"
  shows "f64_is_finite (f64_add a b)" "fval lo \<le> fval (f64_add a b)" "fval (f64_add a b) \<le> fval hi"
  using f64_add_round [OF assms(1,2)] round_between [OF assms(3-6)] assms(7,8) by metis+

lemma fin_trunc_floor: "fin_trunc s m e = (if s then - \<lfloor>real m * 2 powi e\<rfloor> else \<lfloor>real m * 2 powi e\<rfloor>)"
proof -
  have "\<lfloor>real m * 2 powi e\<rfloor> = (if 0 \<le> e then int m * 2 ^ nat e else int (m div 2 ^ nat (- e)))"
  proof (cases "0 \<le> e")
    case True
    then have "real m * 2 powi e = real_of_int (int m * 2 ^ nat e)" by (simp add: pw_nat)
    then show ?thesis using True by (simp only: floor_of_int if_True)
  next
    case False
    then have "real m * 2 powi e = real m / real (2 ^ nat (- e))"
      using power_int_minus [of "2::real" "- e"] by (simp add: pw_nat divide_inverse)
    then show ?thesis using False by (simp only: floor_divide_of_nat_eq if_False)
  qed
  then show ?thesis by (simp add: fin_trunc_def Let_def)
qed

lemma f64_as_i64_floor:
  assumes "f64_is_finite a" "0 \<le> fval a" "fval a \<le> real_of_int i64_max"
  shows "f64_as_i64 a = \<lfloor>fval a\<rfloor>"
proof -
  obtain s m e where a: "a = Fin s m e" using assms(1) by (cases a) auto
  define x where "x = real m * 2 powi e"
  have x: "0 \<le> x" by (simp add: x_def)
  have t: "fin_trunc s m e = \<lfloor>fval a\<rfloor>"
    using assms(2) x unfolding a fin_trunc_floor fval_Fin x_def [symmetric] by (auto simp: sval_def)
  have "0 \<le> \<lfloor>fval a\<rfloor>" "\<lfloor>fval a\<rfloor> \<le> i64_max" using assms(2,3) by (auto simp: floor_le_iff)
  then show ?thesis unfolding a f64_as_i64.simps t [unfolded a] by (simp add: i64_bounds)
qed

lemma f64_as_i64_bounds:
  assumes "f64_is_finite a" "0 \<le> fval a" "fval a \<le> real_of_int i" "i \<le> i64_max"
  shows "0 \<le> f64_as_i64 a" "f64_as_i64 a \<le> i" "fval a = real_of_int i \<Longrightarrow> f64_as_i64 a = i"
proof -
  have f: "f64_as_i64 a = \<lfloor>fval a\<rfloor>"
    using assms by (intro f64_as_i64_floor) (simp_all add: order_trans [OF assms(3)])
  show "0 \<le> f64_as_i64 a" "f64_as_i64 a \<le> i" using f assms(2,3) by (auto simp: floor_le_iff)
  show "fval a = real_of_int i \<Longrightarrow> f64_as_i64 a = i" using f by simp
qed

lemma f64_min_fval:
  assumes "f64_is_finite a" "f64_is_finite b"
  shows "f64_is_finite (f64_min a b)" "fval (f64_min a b) = min (fval a) (fval b)"
  using assms by (cases a; cases b; auto simp: f64_min_def min_def)+

lemma f64_max_fval:
  assumes "f64_is_finite a" "f64_is_finite b"
  shows "f64_is_finite (f64_max a b)" "fval (f64_max a b) = max (fval a) (fval b)"
  using assms by (cases a; cases b; auto simp: f64_max_def max_def)+

lemma f64_clamp_fval:
  assumes "f64_is_finite a" "f64_is_finite lo" "f64_is_finite hi" "fval lo \<le> fval hi"
  shows "f64_is_finite (f64_clamp a lo hi)" "fval (f64_clamp a lo hi) = max (fval lo) (min (fval a) (fval hi))"
  using assms by (cases a; cases lo; cases hi; auto simp: f64_clamp_def)+

end
