(* ===== verification/Cooldowns.thy ===== *)
theory Cooldowns
  imports OrdMap RebalanceTypes F64Facts
begin

text \<open>
  The cooldown arithmetic and the two futility breakers of the rebalance engine
  (\<open>revops-rebalance/src/cooldowns.rs\<close>). A breaker is a map from a pair (or a destination)
  to its recent failures; the properties compare it with the history of calls made to it.
\<close>

section \<open>Cooldowns\<close>

definition persisted_cooldown_secs :: "failure_kind \<Rightarrow> int \<Rightarrow> int" where
  "persisted_cooldown_secs kind failure_count =
     (let base = cooldown_base_secs kind; multiplier = max 1 (min 6 failure_count)
      in base * multiplier)"

definition dest_cooldown_secs :: "int \<Rightarrow> int \<Rightarrow> int \<Rightarrow> (unit, int) result" where
  "dest_cooldown_secs base_secs amount gap =
     (if amount \<le> 0 \<or> gap \<le> 0 then Inr base_secs
      else bindE (chk_i64 (amount + gap)) (\<lambda>total_sats.
        let fill_fraction = f64_div (f64_of_int amount) (f64_of_int total_sats);
            scale = f64_min (f64_mul fill_fraction (f64_of_int 2)) (f64_of_int 1)
        in Inr (f64_as_i64 (f64_mul (f64_of_int base_secs) scale))))"

definition drift_override :: "f64 \<Rightarrow> f64 \<Rightarrow> bool" where
  "drift_override anchor_ratio current_ratio =
     f64_le (f64_lit False 30 2) (f64_sub anchor_ratio current_ratio)"

section \<open>The pair breaker\<close>

type_synonym pair_futility = "((string \<times> string) \<times> f64 list) list"

definition FUTILITY_THRESHOLD :: nat where "FUTILITY_THRESHOLD = 3"
definition FUTILITY_WINDOW :: f64 where "FUTILITY_WINDOW = f64_of_int 1800"

definition pair_new :: pair_futility where "pair_new = []"

definition pair_prune :: "string \<times> string \<Rightarrow> f64 \<Rightarrow> pair_futility \<Rightarrow> nat \<times> pair_futility" where
  "pair_prune key now st =
     (let cutoff = f64_sub now FUTILITY_WINDOW
      in case map_of st key of
           None \<Rightarrow> (0, st)
         | Some timestamps \<Rightarrow>
             let kept = filter (\<lambda>t. f64_le cutoff t) timestamps
             in if kept = [] then (0, bt_remove key st) else (length kept, bt_insert key kept st))"

definition pair_is_futile :: "string \<Rightarrow> string \<Rightarrow> f64 \<Rightarrow> pair_futility \<Rightarrow> bool \<times> pair_futility" where
  "pair_is_futile source dest now st =
     (let (n, st') = pair_prune (source, dest) now st in (FUTILITY_THRESHOLD \<le> n, st'))"

definition pair_fresh_failure_count :: "string \<Rightarrow> string \<Rightarrow> f64 \<Rightarrow> pair_futility \<Rightarrow> nat \<times> pair_futility" where
  "pair_fresh_failure_count source dest now st = pair_prune (source, dest) now st"

definition pair_record_failure :: "string \<Rightarrow> string \<Rightarrow> f64 \<Rightarrow> pair_futility \<Rightarrow> pair_futility" where
  "pair_record_failure source dest now st =
     bt_insert (source, dest) (bt_get_or [] st (source, dest) @ [now]) st"

definition pair_record_success :: "string \<Rightarrow> string \<Rightarrow> pair_futility \<Rightarrow> pair_futility" where
  "pair_record_success source dest st = bt_remove (source, dest) st"

section \<open>The destination breaker\<close>

definition dest_futility_key :: "string \<Rightarrow> string \<Rightarrow> string" where
  "dest_futility_key to_peer_id to_channel = (if to_peer_id = [] then to_channel else to_peer_id)"

datatype dest_error_class = Structural | OtherError

type_synonym dest_futility = "(string \<times> int) list"

definition STRUCTURAL_THRESHOLD :: int where "STRUCTURAL_THRESHOLD = 4"
definition OTHER_THRESHOLD :: int where "OTHER_THRESHOLD = 10"

definition dest_new :: dest_futility where "dest_new = []"

definition dest_record_failure :: "string \<Rightarrow> dest_futility \<Rightarrow> (unit, int \<times> dest_futility) result" where
  "dest_record_failure key st =
     bindE (chk_i64 (bt_get_or 0 st key + 1)) (\<lambda>n. Inr (n, bt_insert key n st))"

definition dest_record_success :: "string \<Rightarrow> dest_futility \<Rightarrow> dest_futility" where
  "dest_record_success key st = bt_remove key st"

definition dest_failure_count :: "string \<Rightarrow> dest_futility \<Rightarrow> int" where
  "dest_failure_count key st = bt_get_or 0 st key"

definition dest_should_skip :: "int \<Rightarrow> dest_error_class \<Rightarrow> bool" where
  "dest_should_skip fail_count last_error_class =
     (if last_error_class = Structural \<and> STRUCTURAL_THRESHOLD \<le> fail_count then True
      else OTHER_THRESHOLD \<le> fail_count)"

definition dest_is_futile :: "string \<Rightarrow> dest_error_class \<Rightarrow> dest_futility \<Rightarrow> bool" where
  "dest_is_futile key last_error_class st = dest_should_skip (dest_failure_count key st) last_error_class"

section \<open>Histories\<close>

text \<open>The calls made to the pair breaker, and the failures of a pair since its last success.\<close>

datatype pair_call =
  PairFailed string string f64
| PairSucceeded string string
| PairAsked string string f64

fun pair_call_step :: "pair_call \<Rightarrow> pair_futility \<Rightarrow> pair_futility" where
  "pair_call_step (PairFailed s d t) st = pair_record_failure s d t st"
| "pair_call_step (PairSucceeded s d) st = pair_record_success s d st"
| "pair_call_step (PairAsked s d t) st = snd (pair_is_futile s d t st)"

definition pair_run :: "pair_call list \<Rightarrow> pair_futility" where
  "pair_run calls = fold pair_call_step calls pair_new"

fun log_step :: "string \<times> string \<Rightarrow> pair_call \<Rightarrow> f64 list \<Rightarrow> f64 list" where
  "log_step k (PairFailed s d t) hist = (if (s, d) = k then hist @ [t] else hist)"
| "log_step k (PairSucceeded s d) hist = (if (s, d) = k then [] else hist)"
| "log_step k (PairAsked s d t) hist = hist"

definition failures_since_success :: "string \<times> string \<Rightarrow> pair_call list \<Rightarrow> f64 list" where
  "failures_since_success k calls = fold (log_step k) calls []"

text \<open>The clock of a history: its failure times are numbers and no call is later than \<open>now\<close>.\<close>

fun call_until :: "f64 \<Rightarrow> pair_call \<Rightarrow> bool" where
  "call_until now (PairFailed s d t) = f64_wf t"
| "call_until now (PairSucceeded s d) = True"
| "call_until now (PairAsked s d t) = (f64_is_finite t \<and> f64_le t now)"

abbreviation window_start_of :: "f64 \<Rightarrow> f64" where
  "window_start_of now \<equiv> f64_sub now FUTILITY_WINDOW"

lemma window_finite [simp]: "f64_is_finite FUTILITY_WINDOW"
  unfolding FUTILITY_WINDOW_def by (rule f64_of_int_fval) simp

definition kept_log :: "f64 \<Rightarrow> f64 list \<Rightarrow> f64 list" where
  "kept_log c hist = filter (f64_le c) hist"

lemma kept_log_simps [simp]:
  "kept_log c [] = []" "kept_log c (xs @ ys) = kept_log c xs @ kept_log c ys"
  by (simp_all add: kept_log_def)

lemma kept_kept:
  assumes "f64_le c c'" "f64_wf c" "f64_wf c'" "\<forall>t \<in> set hist. f64_wf t"
  shows "kept_log c' (kept_log c hist) = kept_log c' hist"
  using assms by (induction hist) (auto simp: kept_log_def intro: f64_le_trans)

lemma map_of_prune:
  "map_of (snd (pair_prune k now st)) j =
     (if j = k then (case map_of st k of None \<Rightarrow> None
        | Some ts \<Rightarrow> (let kept = kept_log (window_start_of now) ts in if kept = [] then None else Some kept))
      else map_of st j)"
  by (auto simp: pair_prune_def Let_def kept_log_def split: option.splits)

lemma get_prune:
  "bt_get_or [] (snd (pair_prune k now st)) j =
     (if j = k then kept_log (window_start_of now) (bt_get_or [] st k) else bt_get_or [] st j)"
  by (auto simp: bt_get_or_def map_of_prune Let_def split: option.splits)

lemma prune_count: "fst (pair_prune k now st) = length (kept_log (window_start_of now) (bt_get_or [] st k))"
  by (auto simp: pair_prune_def Let_def kept_log_def bt_get_or_def split: option.splits)

lemma get_remove: "bt_get_or d (bt_remove k st) j = (if j = k then d else bt_get_or d st j)"
  by (simp add: bt_get_or_def)

lemma pair_is_futile_snd [simp]: "snd (pair_is_futile s d t st) = snd (pair_prune (s, d) t st)"
  by (simp add: pair_is_futile_def split: prod.splits)

lemma run_snoc:
  "pair_run (calls @ [x]) = pair_call_step x (pair_run calls)"
  "failures_since_success k (calls @ [x]) = log_step k x (failures_since_success k calls)"
  by (simp_all add: pair_run_def failures_since_success_def)

lemma log_wf:
  assumes "\<forall>x \<in> set calls. call_until now x" "t \<in> set (failures_since_success k calls)"
  shows "f64_wf t"
  using assms
proof (induction calls rule: rev_induct)
  case (snoc x calls)
  then show ?case by (cases x) (auto simp: run_snoc split: if_splits)
qed (simp add: failures_since_success_def)

text \<open>Pruning early loses nothing a later question could count.\<close>

lemma pair_run_log:
  assumes "\<forall>x \<in> set calls. call_until now x" "f64_is_finite now" "f64_le (window_start_of now) c" "f64_wf c"
  shows "kept_log c (bt_get_or [] (pair_run calls) k) = kept_log c (failures_since_success k calls) \<and>
    (\<forall>t \<in> set (bt_get_or [] (pair_run calls) k). f64_wf t)"
  using assms(1)
proof (induction calls rule: rev_induct)
  case Nil
  then show ?case by (simp add: pair_run_def failures_since_success_def pair_new_def bt_get_or_def)
next
  case (snoc x calls)
  then have IH: "kept_log c (bt_get_or [] (pair_run calls) k) = kept_log c (failures_since_success k calls)"
    "\<forall>t \<in> set (bt_get_or [] (pair_run calls) k). f64_wf t" by simp_all
  show ?case
  proof (cases x)
    case (PairAsked s d t)
    with snoc.prems have t: "f64_is_finite t" "f64_le t now" by simp_all
    have "f64_le (window_start_of t) (window_start_of now)"
      by (rule f64_sub_mono) (use t assms(2) in simp_all)
    then have "f64_le (window_start_of t) c"
      using assms(3,4) f64_le_trans [of "window_start_of t" "window_start_of now" c] by simp
    then show ?thesis
      using IH kept_kept [of "window_start_of t" c "bt_get_or [] (pair_run calls) k"] assms(4)
      by (auto simp: PairAsked run_snoc get_prune) (auto simp: kept_log_def)
  qed (use IH snoc.prems in \<open>auto simp: run_snoc pair_record_failure_def pair_record_success_def get_remove\<close>)
qed

text \<open>C34. The pair breaker forgets nothing that matters and nothing else: after any sequence of
  failures, successes and questions with a clock that does not run backwards, a pair is
  futile exactly when at least three of the failures recorded since its last success lie
  in the half hour before the question, although every question has thrown entries away.
  The count the engine reads for its penalty is the number of those failures.\<close>

theorem pair_breaker_counts_window:
  assumes "\<forall>x \<in> set calls. call_until now x" "f64_is_finite now" "f64_wf now"
  shows "(fst (pair_is_futile s d now (pair_run calls)) \<longleftrightarrow>
      3 \<le> length (filter (f64_le (f64_sub now FUTILITY_WINDOW)) (failures_since_success (s, d) calls))) \<and>
    fst (pair_fresh_failure_count s d now (pair_run calls)) =
      length (filter (f64_le (f64_sub now FUTILITY_WINDOW)) (failures_since_success (s, d) calls))"
proof -
  have "f64_le (window_start_of now) (window_start_of now)"
    by (rule f64_sub_mono) (use assms(2) in \<open>cases now; simp add: f64_le_def\<close>)+
  then have "kept_log (window_start_of now) (bt_get_or [] (pair_run calls) (s, d)) =
      kept_log (window_start_of now) (failures_since_success (s, d) calls)"
    using pair_run_log [OF assms(1,2)] by simp
  then have "fst (pair_prune (s, d) now (pair_run calls)) =
      length (filter (f64_le (window_start_of now)) (failures_since_success (s, d) calls))"
    unfolding prune_count by (simp add: kept_log_def)
  then show ?thesis
    by (cases "pair_prune (s, d) now (pair_run calls)")
      (simp add: pair_is_futile_def pair_fresh_failure_count_def FUTILITY_THRESHOLD_def)
qed

text \<open>Two failures at one time and one half a minute later make the pair futile.\<close>

theorem pair_breaker_counts_window_witness:
  "fst (pair_is_futile ''a'' ''b'' (f64_of_int 130)
     (pair_run [PairFailed ''a'' ''b'' (f64_of_int 100), PairFailed ''a'' ''b'' (f64_of_int 100),
        PairAsked ''a'' ''b'' (f64_of_int 110), PairFailed ''a'' ''b'' (f64_of_int 130)]))"
  using pair_breaker_counts_window [of "[PairFailed ''a'' ''b'' (f64_of_int 100), PairFailed ''a'' ''b'' (f64_of_int 100),
        PairAsked ''a'' ''b'' (f64_of_int 110), PairFailed ''a'' ''b'' (f64_of_int 130)]" "f64_of_int 130" "''a''" "''b''"]
  by (simp add: failures_since_success_def FUTILITY_WINDOW_def f64_of_int_def f64_round_def f64_le_def f64_sub_def
      Let_def signed_mant_def fval.simps(1) power_int_minus round_bits_def)

section \<open>The destination breaker counts consecutive failures\<close>

datatype dest_call = DestFailed string | DestSucceeded string

fun dest_call_step :: "dest_call \<Rightarrow> dest_futility \<Rightarrow> (unit, dest_futility) result" where
  "dest_call_step (DestFailed k) st = bindE (dest_record_failure k st) (\<lambda>(n, st'). Inr st')"
| "dest_call_step (DestSucceeded k) st = Inr (dest_record_success k st)"

definition consecutive_failures :: "string \<Rightarrow> dest_call list \<Rightarrow> nat" where
  "consecutive_failures k calls =
     length (filter (\<lambda>x. x = DestFailed k) (takeWhile (\<lambda>x. x \<noteq> DestSucceeded k) (rev calls)))"

lemma consecutive_snoc:
  "consecutive_failures k (calls @ [x]) =
     (if x = DestSucceeded k then 0 else (if x = DestFailed k then 1 else 0) + consecutive_failures k calls)"
  by (cases x) (auto simp: consecutive_failures_def)

lemma dest_run_counts:
  assumes "int (length calls) \<le> i64_max"
  shows "\<exists>st. foldE dest_call_step calls dest_new = Inr st \<and>
    (\<forall>k. bt_get_or 0 st k = int (consecutive_failures k calls))"
  using assms
proof (induction calls rule: rev_induct)
  case Nil
  then show ?case by (simp add: consecutive_failures_def dest_new_def bt_get_or_def)
next
  case (snoc x calls)
  then obtain st where st: "foldE dest_call_step calls dest_new = Inr st"
    "\<And>k. bt_get_or 0 st k = int (consecutive_failures k calls)" by auto
  have "consecutive_failures k calls \<le> length calls" for k
    unfolding consecutive_failures_def by (metis le_trans length_filter_le length_rev length_takeWhile_le)
  then have fits: "in_i64 (int (consecutive_failures k calls) + 1)" for k
    using snoc.prems unfolding in_i64_alt i64_bounds by (smt (verit) length_append_singleton of_nat_Suc of_nat_mono of_nat_0_le_iff)
  show ?case
    by (cases x) (use st fits in \<open>auto simp: foldE_append dest_record_failure_def dest_record_success_def
        chk_i64_def consecutive_snoc get_remove\<close>)
qed

text \<open>The destination breaker counts the failures of a destination since its last success:
  it never panics on a history that fits in an \<open>i64\<close>, no other destination changes the
  count, and it trips on the fourth consecutive failure when the last error is structural,
  on the tenth otherwise.\<close>

theorem dest_breaker_trips_on_streak:
  assumes "int (length calls) \<le> i64_max"
  shows "\<exists>st. foldE dest_call_step calls dest_new = Inr st \<and>
    dest_failure_count k st = int (consecutive_failures k calls) \<and>
    (dest_is_futile k c st \<longleftrightarrow> (if c = Structural then 4 else 10) \<le> consecutive_failures k calls)"
proof -
  obtain st where "foldE dest_call_step calls dest_new = Inr st"
    "\<forall>k. bt_get_or 0 st k = int (consecutive_failures k calls)"
    using dest_run_counts [OF assms] by blast
  then show ?thesis
    by (auto simp: dest_failure_count_def dest_is_futile_def dest_should_skip_def
        STRUCTURAL_THRESHOLD_def OTHER_THRESHOLD_def)
qed

theorem dest_breaker_trips_on_streak_witness:
  "\<exists>st. foldE dest_call_step (replicate 4 (DestFailed ''p'')) dest_new = Inr st \<and>
    dest_is_futile ''p'' Structural st \<and> \<not> dest_is_futile ''p'' OtherError st"
proof -
  have n: "consecutive_failures ''p'' (replicate 4 (DestFailed ''p'')) = 4"
    by (simp add: consecutive_failures_def numeral_eq_Suc)
  show ?thesis
    using dest_breaker_trips_on_streak [of "replicate 4 (DestFailed ''p'')" "''p''" Structural]
      dest_breaker_trips_on_streak [of "replicate 4 (DestFailed ''p'')" "''p''" OtherError]
    by (auto simp: i64_bounds n)
qed

section \<open>The destination cooldown\<close>

text \<open>The cooldown of a refilled destination is scaled within its base: for amounts below
  two to the 53rd it is never negative, never longer than the base, the whole base when there
  is nothing left to fill or the rebalance filled at least half of what was missing, and the
  code does not panic.\<close>

theorem dest_cooldown_within_base:
  assumes "0 \<le> base" "base < 2 ^ 53" "amount + gap < 2 ^ 53" "amount < 2 ^ 53" "gap < 2 ^ 53"
  shows "\<exists>v. dest_cooldown_secs base amount gap = Inr v \<and> 0 \<le> v \<and> v \<le> base \<and>
    (gap \<le> amount \<or> amount \<le> 0 \<or> gap \<le> 0 \<longrightarrow> v = base)"
proof (cases "amount \<le> 0 \<or> gap \<le> 0")
  case True
  then show ?thesis using assms(1) by (auto simp: dest_cooldown_secs_def)
next
  case False
  define a b where "a = f64_of_int amount" and "b = f64_of_int (amount + gap)"
  have fa: "f64_is_finite a" "fval a = real_of_int amount" and fb: "f64_is_finite b" "fval b = real_of_int (amount + gap)"
    using f64_of_int_fval [of amount] f64_of_int_fval [of "amount + gap"] assms(3,4) False by (auto simp: a_def b_def)
  have one: "f64_is_finite (f64_of_int 1)" "fval (f64_of_int 1) = 1" and two: "f64_is_finite (f64_of_int 2)" "fval (f64_of_int 2) = 2"
    and zero: "f64_is_finite (f64_of_int 0)" "fval (f64_of_int 0) = 0"
    and fbase: "f64_is_finite (f64_of_int base)" "fval (f64_of_int base) = real_of_int base"
    using f64_of_int_fval [of 1] f64_of_int_fval [of 2] f64_of_int_fval [of 0] f64_of_int_fval [of base] assms(1,2) by auto
  define fill where "fill = f64_div a b"
  have fill: "f64_is_finite fill" "0 \<le> fval fill" "fval fill \<le> 1" "gap \<le> amount \<longrightarrow> 1 / 2 \<le> fval fill"
  proof -
    obtain k1 where k1: "a = Fin False (nat amount * 2 ^ k1) (- int k1)" "k1 \<le> 53"
      using f64_of_int_small [of amount] assms(4) False by (auto simp: a_def)
    obtain k2 where k2: "b = Fin False (nat (amount + gap) * 2 ^ k2) (- int k2)" "k2 \<le> 53"
      using f64_of_int_small [of "amount + gap"] assms(3) False by (auto simp: b_def)
    have pos: "0 < fval a" "0 < fval b" using fa fb False by simp_all
    have wb: "f64_wf b" by (simp add: b_def)
    obtain s m e where f: "fill = f64_round s m e" "real m * 2 powi e \<le> 2 powi 0" "\<not> s"
      using f64_div_pow [OF fa(1) fb(1), of 0] pos fa fb False wb by (auto simp: fill_def)
    then have v: "0 \<le> sval s (real m * 2 powi e)" "sval s (real m * 2 powi e) \<le> 1" by (simp_all add: sval_def)
    have b: "f64_is_finite fill \<and> 0 \<le> fval fill \<and> fval fill \<le> 1"
      using round_between [OF zero(1) wf_ops(2) one(1) wf_ops(2), of s m e] v by (simp add: f(1) zero one)
    have "1 / 2 \<le> fval fill" if half: "gap \<le> amount"
    proof -
      have "fval b * 2 powi (- 1) \<le> fval a" using half by (simp add: fa fb power_int_minus)
      then have "\<exists>m e. fill = f64_round False m e \<and> 2 powi (- 1) \<le> real m * 2 powi e"
        using pos k1(2) k2(2) unfolding fill_def k1(1) k2(1) by (intro f64_div_ge_pow) simp_all
      then obtain m' e' where g: "fill = f64_round False m' e'" "2 powi (- 1) \<le> real m' * 2 powi e'"
        by blast
      let ?h = "Fin False 1 (- 1)"
      have "fval ?h \<le> fkey fill"
        using f64_round_mono [of False 1 "- 1" False m' e'] g(2) f64_round_again [of False 1 "- 1"]
        by (simp add: g(1) sval_def power_int_minus)
      then show ?thesis using b by (simp add: fkey_fin fval.simps(1) power_int_minus)
    qed
    with b show "f64_is_finite fill" "0 \<le> fval fill" "fval fill \<le> 1" "gap \<le> amount \<longrightarrow> 1 / 2 \<le> fval fill"
      by simp_all
  qed
  define dbl where "dbl = f64_mul fill (f64_of_int 2)"
  have dbl: "f64_is_finite dbl" "0 \<le> fval dbl" "gap \<le> amount \<longrightarrow> 1 \<le> fval dbl"
    unfolding dbl_def
    using f64_mul_between [OF fill(1) two(1) zero(1) wf_ops(2) two(1) wf_ops(2)]
      f64_mul_between [OF fill(1) two(1) one(1) wf_ops(2) two(1) wf_ops(2)] fill(2,3,4)
    by (auto simp: two one zero)
  define scale where "scale = f64_min dbl (f64_of_int 1)"
  have scale: "f64_is_finite scale" "0 \<le> fval scale" "fval scale \<le> 1" "gap \<le> amount \<longrightarrow> fval scale = 1"
    using f64_min_fval [OF dbl(1) one(1)] dbl(2,3) by (auto simp: scale_def one)
  define r where "r = f64_mul (f64_of_int base) scale"
  have le: "real_of_int base * fval scale \<le> real_of_int base" using scale assms(1) by (simp add: mult_left_le)
  have r: "f64_is_finite r" "0 \<le> fval r" "fval r \<le> real_of_int base" "gap \<le> amount \<longrightarrow> fval r = real_of_int base"
    unfolding r_def
    using f64_mul_between [OF fbase(1) scale(1) zero(1) wf_ops(2) fbase(1) wf_ops(2)]
      f64_mul_between [OF fbase(1) scale(1) fbase(1) wf_ops(2) fbase(1) wf_ops(2)] scale assms(1) le
    by (auto simp: fbase zero)
  have "dest_cooldown_secs base amount gap = Inr (f64_as_i64 r)"
    using False assms(3) by (simp add: dest_cooldown_secs_def chk_i64_def in_i64_alt r_def scale_def dbl_def fill_def a_def b_def Let_def)
  then show ?thesis using False f64_as_i64_bounds [OF r(1-3)] r(4) assms(2) by (auto simp: i64_bounds)
qed

theorem dest_cooldown_within_base_witness:
  "dest_cooldown_secs 7200 500000 200000 = Inr 7200 \<and>
   (\<exists>v. dest_cooldown_secs 7200 100000 900000 = Inr v \<and> 0 \<le> v \<and> v \<le> 7200)"
  using dest_cooldown_within_base [of 7200 500000 200000] dest_cooldown_within_base [of 7200 100000 900000]
  by auto

end
