(* ===== verification/RebalanceEv.thy ===== *)
theory RebalanceEv
  imports RebalanceTypes F64Facts
begin

text \<open>
  The satoshi expected-value gate, the fee ceiling of one attempt and the fee escalation
  of a retry (\<open>revops-rebalance/src/ev.rs\<close>).
\<close>

definition EXPECTED_UTILIZATION :: f64 where "EXPECTED_UTILIZATION = f64_lit False 5 1"
definition SOURCE_UTILIZATION_DISCOUNT :: f64 where "SOURCE_UTILIZATION_DISCOUNT = f64_lit False 5 1"
definition FAILURE_COST_RATE :: f64 where "FAILURE_COST_RATE = f64_lit False 25 2"
definition UNVALIDATED_ADVERTISED_FEE_DISCOUNT :: f64 where
  "UNVALIDATED_ADVERTISED_FEE_DISCOUNT = f64_lit False 5 1"
definition BELOW_HOLD_MARGIN :: string where "BELOW_HOLD_MARGIN = ''below_hold_margin''"
definition EV_TERMS_UNAVAILABLE :: string where "EV_TERMS_UNAVAILABLE = ''ev_terms_unavailable''"

record ev_inputs =
  probability_ppm :: int
  dest_attempts :: int
  dest_success_rate :: f64
  efv_sats :: f64
  ev_fee_sats :: int
  source_opportunity_sats :: f64
  failure_penalty_sats :: f64
  activity_penalty_sats :: f64
  hold_margin_sats :: f64

record ev_verdict =
  ev_pass :: bool
  final_score_sats :: f64
  reject_reason :: "string option"

definition p_success :: "int \<Rightarrow> int \<Rightarrow> f64 \<Rightarrow> f64" where
  "p_success ppm tried rate =
     (if 0 < ppm
      then f64_clamp (f64_div (f64_of_int ppm) (f64_of_int 1000000)) (f64_lit False 5 2) (f64_lit False 99 2)
      else if 3 \<le> tried
      then f64_clamp (f64_mul (f64_lit False 5 1) (f64_add (f64_lit False 5 1) rate))
             (f64_lit False 5 2) (f64_lit False 95 2)
      else f64_lit False 5 1)"

definition sats_ev_gate :: "ev_inputs \<Rightarrow> ev_verdict" where
  "sats_ev_gate i =
     (let p = p_success (probability_ppm i) (dest_attempts i) (dest_success_rate i);
          raw = f64_sub (f64_sub (f64_sub (f64_sub (f64_mul p (efv_sats i)) (f64_of_int (ev_fee_sats i)))
                  (source_opportunity_sats i)) (failure_penalty_sats i)) (activity_penalty_sats i);
          final = py_round raw 6;
          rejected = (0 < ev_fee_sats i \<and> f64_lt final (hold_margin_sats i))
      in \<lparr>ev_pass = (\<not> rejected), final_score_sats = final,
          reject_reason = (if rejected then Some BELOW_HOLD_MARGIN else None)\<rparr>)"

definition per_attempt_ceiling :: "int \<Rightarrow> int \<Rightarrow> int \<Rightarrow> (unit, int) result" where
  "per_attempt_ceiling prob_adjusted_budget amount fee_cap_ppm =
     (let budget = max prob_adjusted_budget 0
      in if fee_cap_ppm \<le> 0 \<or> amount \<le> 0 then Inr budget
         else
           bindE (chk_i64 (amount * fee_cap_ppm)) (\<lambda>prod.
           bindE (chk_i64 (prod + 999999)) (\<lambda>v.
           Inr (min budget (trunc_div v 1000000)))))"

definition fee_escalation :: "int \<Rightarrow> int \<Rightarrow> int" where
  "fee_escalation last_attempted ev_max =
     (if last_attempted \<le> 0 then ev_max
      else let escalated = f64_as_i64 (f64_mul (f64_of_int last_attempted) (f64_lit False 15 1))
           in min escalated ev_max)"

section \<open>Properties\<close>

lemma lit_15: "f64_is_finite (f64_lit False 15 1)" "fval (f64_lit False 15 1) = 3 / 2"
  by (simp_all add: f64_lit_def f64_quot_def f64_round_def Let_def round_bits_def fval.simps(1) power_int_minus)

lemmas lit_15_simps [simp] = lit_15 [unfolded One_nat_def]

text \<open>Half of an odd number is representable, so one and a half times a number below two
  to the 51st is exact.\<close>

lemma escalate_exact:
  assumes "0 \<le> l" "l < 2 ^ 51"
  shows "f64_as_i64 (f64_mul (f64_of_int l) (f64_lit False 15 1)) = l * 3 div 2"
proof -
  define h where "h = Fin False (nat (l * 3)) (- 1)"
  have h: "f64_is_finite h" "f64_wf h" "fval h = real_of_int l * (3 / 2)"
    using assms by (auto simp: h_def fval.simps(1) power_int_minus nat_less_iff)
  define r where "r = f64_mul (f64_of_int l) (f64_lit False 15 1)"
  have l: "f64_is_finite (f64_of_int l)" "fval (f64_of_int l) = real_of_int l"
    using f64_of_int_fval [of l] assms by simp_all
  have r: "f64_is_finite r" "fval r = real_of_int l * (3 / 2)"
    using f64_mul_between [OF l(1) lit_15(1) h(1,2) h(1,2)] l(2) h(3) by (simp_all add: r_def)
  have "f64_as_i64 r = \<lfloor>fval r\<rfloor>"
    using r assms by (intro f64_as_i64_floor) (simp_all add: i64_bounds)
  also have "\<dots> = l * 3 div 2"
    unfolding r(2) using floor_divide_of_int_eq [of "l * 3" 2, where 'a = real] by simp
  finally show ?thesis unfolding r_def .
qed

text \<open>A retry never offers more than the expected value allows and never less than it
  offered before: for amounts below two to the 51st the escalated fee is the previous one
  and a half times, rounded down, capped at the limit, so it lies between the two as long
  as the previous fee did not exceed the limit, and every fee of two satoshis or more
  grows until the cap is reached.\<close>

theorem fee_escalation_bounds:
  assumes "0 < prev" "prev < 2 ^ 51"
  shows "fee_escalation prev cap = min (prev * 3 div 2) cap \<and> fee_escalation prev cap \<le> cap \<and>
    (prev \<le> cap \<longrightarrow> prev \<le> fee_escalation prev cap) \<and>
    (2 \<le> prev \<and> prev < cap \<longrightarrow> prev < fee_escalation prev cap)"
  using escalate_exact [of prev] assms by (auto simp: fee_escalation_def Let_def)

theorem fee_escalation_bounds_witness: "fee_escalation 7 100 = 10 \<and> fee_escalation 7 9 = 9"
  using fee_escalation_bounds [of 7 100] fee_escalation_bounds [of 7 9] by simp

text \<open>One attempt may spend at most the smallest number of satoshis that covers the
  parts-per-million cap of the amount it moves, and never more than the budget of the pair:
  without a budget it may spend nothing. An amount whose product with the cap overflows
  stops the program instead of being offered.\<close>

theorem attempt_ceiling_caps_fee:
  assumes "0 < amount" "0 < cap"
  shows "case per_attempt_ceiling budget amount cap of
      Inr c \<Rightarrow> 0 \<le> c \<and> c \<le> max budget 0 \<and> c * 1000000 < amount * cap + 1000000 \<and>
        (c < max budget 0 \<longrightarrow> amount * cap \<le> c * 1000000)
    | Inl e \<Rightarrow> e = Panic \<and> i64_max < amount * cap + 999999"
proof -
  have p: "0 < amount * cap" using assms by simp
  have t: "trunc_div (amount * cap + 999999) 1000000 = (amount * cap + 999999) div 1000000"
    using p by (simp add: trunc_div_def)
  have d: "(amount * cap + 999999) div 1000000 * 1000000 \<le> amount * cap + 999999"
    "amount * cap \<le> (amount * cap + 999999) div 1000000 * 1000000"
    "0 \<le> (amount * cap + 999999) div 1000000"
    using p by auto
  show ?thesis
    using assms p d by (auto simp: per_attempt_ceiling_def Let_def chk_i64_def in_i64_alt i64_bounds t)
qed

theorem attempt_ceiling_caps_fee_witness:
  "per_attempt_ceiling 500 100000 1500 = Inr 150 \<and> per_attempt_ceiling (- 3) 100000 1500 = Inr 0"
  using attempt_ceiling_caps_fee [of 100000 1500 500] attempt_ceiling_caps_fee [of 100000 1500 "- 3"]
  by (simp add: per_attempt_ceiling_def chk_i64_def in_i64_alt trunc_div_def)

end
