(* ===== verification/Planner.thy ===== *)
theory Planner
  imports RebalanceTypes F64Facts "HOL-Library.Multiset"
begin

text \<open>
  Pair selection (\<open>revops-rebalance/src/planner.rs\<close>): channels above their target band
  drain into channels below theirs. The planner classifies every channel by its own band,
  scores every cross pair, picks greedily by score, one pair per channel up to a limit, and
  explains every channel it did not use.
\<close>

record planner_channel =
  channel_id :: string
  peer_id :: string
  capacity_sats :: int
  spendable_sats :: int
  receivable_sats :: int
  band_low :: f64
  band_high :: f64
  inbound_ppm :: int
  value_class :: string
  urgency :: f64
  drain :: f64
  capex_remaining_sats :: int

record planned_pair =
  pair_source :: string
  pair_dest :: string
  pair_amount :: int
  pair_budget :: int
  pair_cap_ppm :: int
  pair_score :: f64

record plan_output =
  plan_pairs :: "planned_pair list"
  plan_skips :: "skip_record list"
  plan_demand :: "drain_demand list"

definition value_score :: "string \<Rightarrow> int" where
  "value_score c = (if c = ''profitable'' then 2 else if c = ''active'' \<or> c = ''funded'' then 1 else 0)"

definition local_ratio :: "int \<Rightarrow> int \<Rightarrow> f64" where
  "local_ratio spendable capacity =
     (if capacity \<le> 0 then f64_of_int 0
      else py_round (f64_clamp (f64_div (f64_of_int (max spendable 0)) (f64_of_int capacity))
             (f64_of_int 0) (f64_of_int 1)) 6)"

definition sats_from_ratio_delta :: "f64 \<Rightarrow> int \<Rightarrow> int" where
  "sats_from_ratio_delta delta capacity =
     max (f64_as_i64 (py_round (f64_mul delta (f64_of_int (max capacity 0))) 0)) 0"

text \<open>A classified channel carries its ratio.\<close>

type_synonym classified = "planner_channel \<times> f64"

record candidate =
  cand_src :: classified
  cand_dest :: classified
  cand_amount :: int
  cand_budget :: int
  cand_score :: f64

definition classify :: "planner_channel \<Rightarrow> classified" where
  "classify ch = (ch, local_ratio (spendable_sats ch) (capacity_sats ch))"

fun is_over_local :: "classified \<Rightarrow> bool" where
  "is_over_local (ch, ratio) = f64_lt (band_high ch) ratio"

fun is_over_remote :: "classified \<Rightarrow> bool" where
  "is_over_remote (ch, ratio) = (\<not> f64_lt (band_high ch) ratio \<and> f64_lt ratio (band_low ch))"

definition source_excess :: "classified \<Rightarrow> int" where
  "source_excess c = sats_from_ratio_delta (f64_sub (snd c) (band_high (fst c))) (capacity_sats (fst c))"

definition dest_need :: "classified \<Rightarrow> int" where
  "dest_need c = sats_from_ratio_delta (f64_sub (band_low (fst c)) (snd c)) (capacity_sats (fst c))"

definition pair_fee_budget :: "planner_channel \<Rightarrow> int \<Rightarrow> int \<Rightarrow> (unit, int) result" where
  "pair_fee_budget dest amount fee_cap_ppm =
     (if 0 < fee_cap_ppm then
        bindE (chk_i64 (amount * fee_cap_ppm)) (\<lambda>prod.
        bindE (chk_i64 (prod + 999999)) (\<lambda>v.
        Inr (max (capex_remaining_sats dest) (trunc_div v 1000000))))
      else Inr (capex_remaining_sats dest))"

definition score_of :: "planner_channel \<Rightarrow> planner_channel \<Rightarrow> f64" where
  "score_of src dest =
     (let dest_value_term = f64_mul (f64_of_int (value_score (value_class dest))) (f64_lit False 20 2);
          dest_urgency_term = f64_mul (urgency dest) (f64_lit False 30 2);
          source_drain_term = f64_mul (drain src) (f64_lit False 20 2);
          inbound = max 0 (min 5000 (inbound_ppm src));
          cheap_return_term = f64_max (f64_div (f64_of_int (5000 - inbound)) (f64_of_int 50000)) (f64_of_int 0)
      in f64_add (f64_add (f64_add dest_urgency_term source_drain_term) dest_value_term) cheap_return_term)"

text \<open>One turn of the nested loop; \<open>None\<close> is its \<open>continue\<close>.\<close>

definition candidate_of :: "int \<Rightarrow> int \<Rightarrow> classified \<times> classified \<Rightarrow> (unit, candidate option) result" where
  "candidate_of max_chunk fee_cap_ppm = (\<lambda>(src, dest).
     if peer_id (fst src) = peer_id (fst dest) then Inr None
     else
       let amount = min (min (max (source_excess src) 0) (max (dest_need dest) 0)) max_chunk
       in if amount \<le> 0 then Inr None
          else bindE (pair_fee_budget (fst dest) amount fee_cap_ppm) (\<lambda>budget.
            Inr (Some \<lparr>cand_src = src, cand_dest = dest, cand_amount = amount, cand_budget = budget,
              cand_score = score_of (fst src) (fst dest)\<rparr>)))"

definition candidates :: "int \<Rightarrow> int \<Rightarrow> classified list \<Rightarrow> classified list \<Rightarrow> (unit, candidate list) result" where
  "candidates max_chunk fee_cap_ppm over_local over_remote =
     bindE (sequenceE (map (candidate_of max_chunk fee_cap_ppm) (List.product over_local over_remote)))
       (\<lambda>cs. Inr (concat (map (\<lambda>c. case c of None \<Rightarrow> [] | Some c \<Rightarrow> [c]) cs)))"

text \<open>\<open>sort_by(|a, b| b.score.total_cmp(&a.score))\<close> is stable, as \<open>sort_key\<close> is. A
  not-a-number score has no sign in the model and counts as the positive one.\<close>

definition by_score :: "candidate list \<Rightarrow> candidate list" where
  "by_score = sort_key (\<lambda>c. - total_key (cand_score c))"

abbreviation src_id :: "candidate \<Rightarrow> string" where "src_id c \<equiv> channel_id (fst (cand_src c))"
abbreviation dest_id :: "candidate \<Rightarrow> string" where "dest_id c \<equiv> channel_id (fst (cand_dest c))"

definition pair_of :: "int \<Rightarrow> candidate \<Rightarrow> planned_pair" where
  "pair_of fee_cap_ppm c =
     \<lparr>pair_source = src_id c, pair_dest = dest_id c, pair_amount = cand_amount c,
      pair_budget = cand_budget c, pair_cap_ppm = fee_cap_ppm, pair_score = cand_score c\<rparr>"

text \<open>The greedy loop: the selected pairs so far, and the channels they use.\<close>

fun select_pairs ::
  "nat \<Rightarrow> int \<Rightarrow> candidate list \<Rightarrow> planned_pair list \<times> string set \<times> string set
     \<Rightarrow> planned_pair list \<times> string set \<times> string set" where
  "select_pairs max_pairs ppm [] st = st"
| "select_pairs max_pairs ppm (c # cs) (selected, sources, dests) =
     (if max_pairs \<le> length selected then (selected, sources, dests)
      else if src_id c \<in> sources \<or> dest_id c \<in> dests
      then select_pairs max_pairs ppm cs (selected, sources, dests)
      else select_pairs max_pairs ppm cs
             (selected @ [pair_of ppm c], insert (src_id c) sources, insert (dest_id c) dests))"

definition skip_of :: "planner_channel \<Rightarrow> string \<Rightarrow> string option \<Rightarrow> skip_record" where
  "skip_of ch reason detail =
     \<lparr>skip_channel = channel_id ch, skip_reason = reason, skip_class = value_class ch,
      skip_budget = capex_remaining_sats ch, skip_detail = detail\<rparr>"

definition unselected_skip :: "nat \<Rightarrow> bool \<Rightarrow> bool \<Rightarrow> string \<Rightarrow> planner_channel \<Rightarrow> skip_record" where
  "unselected_skip max_pairs no_partner at_capacity none_text ch =
     (if no_partner then skip_of ch ''no_partner'' (Some none_text)
      else if at_capacity then skip_of ch ''max_pairs_reached'' (Some (''limit='' @ dec_nat max_pairs))
      else skip_of ch ''outcompeted'' (Some ''lower-scoring pairs selected''))"

definition drain_of :: "classified \<Rightarrow> drain_demand" where
  "drain_of c = \<lparr>drain_channel = channel_id (fst c), drain_peer = peer_id (fst c),
     excess_sats = source_excess c, drain_score = drain (fst c), drain_class = value_class (fst c)\<rparr>"

definition plan :: "planner_channel list \<Rightarrow> int \<Rightarrow> nat \<Rightarrow> int \<Rightarrow> (unit, plan_output) result" where
  "plan channels max_chunk max_pairs fee_cap_ppm =
     (let all = map classify channels;
          over_local = filter is_over_local all;
          over_remote = filter is_over_remote all;
          inside = filter (\<lambda>c. \<not> is_over_local c \<and> \<not> is_over_remote c) all
      in bindE (candidates max_chunk fee_cap_ppm over_local over_remote) (\<lambda>cs.
         let (selected, sources, dests) = select_pairs max_pairs fee_cap_ppm (by_score cs) ([], {}, {});
             at_capacity = (max_pairs \<le> length selected);
             left_local = filter (\<lambda>c. channel_id (fst c) \<notin> sources) over_local;
             left_remote = filter (\<lambda>c. channel_id (fst c) \<notin> dests) over_remote
         in Inr
           \<lparr>plan_pairs = selected,
            plan_skips =
              map (\<lambda>c. skip_of (fst c) ''inside_band'' None) inside
              @ map (\<lambda>c. unselected_skip max_pairs (over_remote = []) at_capacity
                      ''no over-remote channels available'' (fst c)) left_local
              @ map (\<lambda>c. unselected_skip max_pairs (over_local = []) at_capacity
                      ''no over-local channels available'' (fst c)) left_remote,
            plan_demand = sort_key (\<lambda>d. - total_key (drain_score d)) (map drain_of left_local)\<rparr>))"

section \<open>The greedy loop\<close>

text \<open>What the loop keeps: one pair per channel, the sets being those of the selected pairs.\<close>

definition select_ok :: "nat \<Rightarrow> planned_pair list \<times> string set \<times> string set \<Rightarrow> bool" where
  "select_ok max_pairs = (\<lambda>(selected, sources, dests).
     sources = set (map pair_source selected) \<and> dests = set (map pair_dest selected) \<and>
     distinct (map pair_source selected) \<and> distinct (map pair_dest selected) \<and>
     length selected \<le> max_pairs)"

lemma pair_of_sel [simp]:
  "pair_source (pair_of ppm c) = src_id c" "pair_dest (pair_of ppm c) = dest_id c"
  "pair_amount (pair_of ppm c) = cand_amount c" "pair_budget (pair_of ppm c) = cand_budget c"
  "pair_score (pair_of ppm c) = cand_score c"
  by (simp_all add: pair_of_def)

lemma select_keeps_ok: "select_ok n st \<Longrightarrow> select_ok n (select_pairs n ppm cs st)"
  by (induction n ppm cs st rule: select_pairs.induct) (auto simp: select_ok_def)

lemma select_from:
  "set (fst (select_pairs n ppm cs st)) \<subseteq> set (fst st) \<union> pair_of ppm ` set cs"
  by (induction n ppm cs st rule: select_pairs.induct) auto

lemma select_grows: "set (fst st) \<subseteq> set (fst (select_pairs n ppm cs st))"
  by (induction n ppm cs st rule: select_pairs.induct) auto

text \<open>Every candidate is selected, blocked by a pair selected before it, or past the limit.\<close>

lemma select_no_blocking:
  assumes "sorted (map (\<lambda>c. - total_key (cand_score c)) cs)" "select_ok n st"
    and "\<forall>p \<in> set (fst st). \<forall>c \<in> set cs. total_key (cand_score c) \<le> total_key (pair_score p)"
    and "c \<in> set cs"
  shows "(\<exists>p \<in> set (fst (select_pairs n ppm cs st)).
        (pair_source p = src_id c \<or> pair_dest p = dest_id c) \<and> total_key (cand_score c) \<le> total_key (pair_score p)) \<or>
     (length (fst (select_pairs n ppm cs st)) = n \<and>
      (\<forall>p \<in> set (fst (select_pairs n ppm cs st)). total_key (cand_score c) \<le> total_key (pair_score p)))"
  using assms
proof (induction n ppm cs st rule: select_pairs.induct)
  case (2 n ppm x cs selected sources dests)
  consider (full) "n \<le> length selected" | (skip) "\<not> n \<le> length selected" "src_id x \<in> sources \<or> dest_id x \<in> dests"
    | (take) "\<not> n \<le> length selected" "\<not> (src_id x \<in> sources \<or> dest_id x \<in> dests)" by blast
  then show ?case
  proof cases
    case full
    then show ?thesis using 2 by (auto simp: select_ok_def)
  next
    case skip
    show ?thesis
    proof (cases "c \<in> set cs")
      case True
      then show ?thesis using "2.IH"(1) skip "2.prems" by auto
    next
      case False
      with "2.prems" have c: "c = x" by simp
      then obtain p where "p \<in> set selected" "pair_source p = src_id c \<or> pair_dest p = dest_id c"
        using skip(2) "2.prems"(2) by (auto simp: select_ok_def)
      then show ?thesis
        using skip "2.prems"(3) c select_grows [of "(selected, sources, dests)" n ppm cs] by fastforce
    qed
  next
    case take
    define st where "st = (selected @ [pair_of ppm x], insert (src_id x) sources, insert (dest_id x) dests)"
    have r: "select_pairs n ppm (x # cs) (selected, sources, dests) = select_pairs n ppm cs st"
      using take by (simp add: st_def)
    show ?thesis
    proof (cases "c \<in> set cs")
      case True
      have "select_ok n st" using take "2.prems"(2) by (auto simp: select_ok_def st_def)
      moreover have "\<forall>p \<in> set (fst st). \<forall>c \<in> set cs. total_key (cand_score c) \<le> total_key (pair_score p)"
        using "2.prems"(1,3) by (auto simp: st_def)
      ultimately show ?thesis unfolding r using "2.IH"(2) [OF take] "2.prems"(1) True by (simp add: st_def)
    next
      case False
      with "2.prems" have c: "c = x" by simp
      have "pair_of ppm x \<in> set (fst (select_pairs n ppm cs st))"
        using select_grows [of st n ppm cs] by (auto simp: st_def)
      then show ?thesis unfolding r c by (intro disjI1 bexI [of _ "pair_of ppm x"]) simp_all
    qed
  qed
qed simp

section \<open>What a plan consists of\<close>

lemma candidates_mem:
  assumes "candidates mc ppm L R = Inr cs"
  shows "c \<in> set cs \<longleftrightarrow> (\<exists>src dest. src \<in> set L \<and> dest \<in> set R \<and> candidate_of mc ppm (src, dest) = Inr (Some c))"
proof -
  obtain os where os: "map (candidate_of mc ppm) (List.product L R) = map Inr os"
    "cs = concat (map (\<lambda>c. case c of None \<Rightarrow> [] | Some c \<Rightarrow> [c]) os)"
    using assms by (auto simp: candidates_def bindE_eq_Inr sequenceE_Inr)
  have "c \<in> set cs \<longleftrightarrow> Some c \<in> set os" unfolding os(2) by (force split: option.splits)
  also have "\<dots> \<longleftrightarrow> Inr (Some c) \<in> set (map Inr os :: (unit, candidate option) result list)" by auto
  also have "\<dots> \<longleftrightarrow> Inr (Some c) \<in> candidate_of mc ppm ` (set L \<times> set R)"
    unfolding os(1) [symmetric] by simp
  also have "\<dots> \<longleftrightarrow> (\<exists>q \<in> set L \<times> set R. candidate_of mc ppm q = Inr (Some c))"
    unfolding image_iff by (auto intro: sym)
  finally show ?thesis by blast
qed

lemma candidate_of_Some:
  assumes "candidate_of mc ppm (src, dest) = Inr (Some c)"
  shows "cand_src c = src" "cand_dest c = dest" "peer_id (fst src) \<noteq> peer_id (fst dest)"
    "0 < cand_amount c" "cand_amount c \<le> mc" "cand_amount c \<le> source_excess src" "cand_amount c \<le> dest_need dest"
    "pair_fee_budget (fst dest) (cand_amount c) ppm = Inr (cand_budget c)"
    "cand_score c = score_of (fst src) (fst dest)"
  using assms by (auto simp: candidate_of_def Let_def bindE_eq_Inr split: if_splits)

lemma pair_fee_budget_covers:
  assumes "pair_fee_budget dest amount ppm = Inr b" "0 < amount"
  shows "capex_remaining_sats dest \<le> b" "amount * ppm \<le> b * 1000000 \<or> ppm \<le> 0"
proof -
  show "capex_remaining_sats dest \<le> b"
    using assms unfolding pair_fee_budget_def by (auto simp: bindE_eq_Inr split: if_splits)
  show "amount * ppm \<le> b * 1000000 \<or> ppm \<le> 0"
  proof (cases "0 < ppm")
    case True
    then have p: "0 < amount * ppm" using assms(2) by simp
    have "trunc_div (amount * ppm + 999999) 1000000 = (amount * ppm + 999999) div 1000000"
      using p by (simp add: trunc_div_def)
    moreover have "b = max (capex_remaining_sats dest) (trunc_div (amount * ppm + 999999) 1000000)"
      using assms(1) True unfolding pair_fee_budget_def by (auto simp: bindE_eq_Inr chk_i64_Inr)
    ultimately have "(amount * ppm + 999999) div 1000000 \<le> b" by simp
    moreover have "amount * ppm \<le> (amount * ppm + 999999) div 1000000 * 1000000" by auto
    ultimately have "amount * ppm \<le> b * 1000000"
      by linarith
    then show ?thesis ..
  qed simp
qed

definition locals_of :: "planner_channel list \<Rightarrow> classified list" where
  "locals_of channels = filter is_over_local (map classify channels)"

definition remotes_of :: "planner_channel list \<Rightarrow> classified list" where
  "remotes_of channels = filter is_over_remote (map classify channels)"

lemma plan_parts:
  assumes "plan channels mc mp ppm = Inr out"
  obtains cs sources dests where
    "candidates mc ppm (locals_of channels) (remotes_of channels) = Inr cs"
    "select_pairs mp ppm (by_score cs) ([], {}, {}) = (plan_pairs out, sources, dests)"
    "select_ok mp (plan_pairs out, sources, dests)"
    "set (plan_pairs out) \<subseteq> pair_of ppm ` set cs"
    "map skip_channel (plan_skips out) =
       map (channel_id \<circ> fst) (filter (\<lambda>c. \<not> is_over_local c \<and> \<not> is_over_remote c) (map classify channels))
       @ map (channel_id \<circ> fst) (filter (\<lambda>c. channel_id (fst c) \<notin> sources) (locals_of channels))
       @ map (channel_id \<circ> fst) (filter (\<lambda>c. channel_id (fst c) \<notin> dests) (remotes_of channels))"
    "mset (map drain_channel (plan_demand out)) =
       mset (map (channel_id \<circ> fst) (filter (\<lambda>c. channel_id (fst c) \<notin> sources) (locals_of channels)))"
proof -
  from assms obtain cs where cs: "candidates mc ppm (locals_of channels) (remotes_of channels) = Inr cs"
    by (auto simp: plan_def Let_def bindE_eq_Inr locals_of_def remotes_of_def)
  obtain selected sources dests where sel: "select_pairs mp ppm (by_score cs) ([], {}, {}) = (selected, sources, dests)"
    by (cases "select_pairs mp ppm (by_score cs) ([], {}, {})") auto
  have out: "plan_pairs out = selected"
    using assms cs sel by (auto simp: plan_def Let_def locals_of_def remotes_of_def)
  have ok: "select_ok mp (selected, sources, dests)"
    using select_keeps_ok [of mp "([], {}, {})" ppm "by_score cs"] sel by (simp add: select_ok_def)
  have sub: "set selected \<subseteq> pair_of ppm ` set cs"
    using select_from [of mp ppm "by_score cs" "([], {}, {})"] sel by (simp add: by_score_def)
  have skipc: "skip_channel (skip_of ch r d) = channel_id ch"
    "skip_channel (unselected_skip mp a b t ch) = channel_id ch" for ch r d a b t
    by (simp_all add: skip_of_def unselected_skip_def)
  have skips: "map skip_channel (plan_skips out) =
       map (channel_id \<circ> fst) (filter (\<lambda>c. \<not> is_over_local c \<and> \<not> is_over_remote c) (map classify channels))
       @ map (channel_id \<circ> fst) (filter (\<lambda>c. channel_id (fst c) \<notin> sources) (locals_of channels))
       @ map (channel_id \<circ> fst) (filter (\<lambda>c. channel_id (fst c) \<notin> dests) (remotes_of channels))"
    using assms cs sel by (auto simp: plan_def Let_def locals_of_def remotes_of_def skipc comp_def)
  have demand: "plan_demand out = sort_key (\<lambda>d. - total_key (drain_score d))
      (map drain_of (filter (\<lambda>c. channel_id (fst c) \<notin> sources) (locals_of channels)))"
    using assms cs sel by (auto simp: plan_def Let_def locals_of_def remotes_of_def)
  have "mset (map drain_channel (plan_demand out)) =
       mset (map (channel_id \<circ> fst) (filter (\<lambda>c. channel_id (fst c) \<notin> sources) (locals_of channels)))"
    unfolding demand by (simp add: mset_map multiset.map_comp comp_def drain_of_def)
  then show thesis using that [OF cs] sel ok sub skips out by simp
qed

lemma locals_remotes:
  "c \<in> set (locals_of channels) \<longleftrightarrow> (\<exists>ch \<in> set channels. c = classify ch \<and> is_over_local c)"
  "c \<in> set (remotes_of channels) \<longleftrightarrow> (\<exists>ch \<in> set channels. c = classify ch \<and> is_over_remote c)"
  by (auto simp: locals_of_def remotes_of_def)

lemma is_over_fst [simp]: "fst (classify ch) = ch"
  by (simp add: classify_def)

text \<open>C32. The pairs of a plan are sound: at most the allowed number, no channel drained twice
  and none filled twice, every pair moving liquidity from a channel above its own band to
  one of another peer below its own band, a positive amount that exceeds neither the chunk
  limit nor what the source has over its band nor what the destination lacks below its own,
  with a fee budget that covers the fee cap of that amount.\<close>

theorem plan_pairs_sound:
  assumes "plan channels max_chunk max_pairs ppm = Inr out"
  shows "length (plan_pairs out) \<le> max_pairs \<and> distinct (map pair_source (plan_pairs out)) \<and>
    distinct (map pair_dest (plan_pairs out)) \<and>
    (\<forall>p \<in> set (plan_pairs out). \<exists>src \<in> set channels. \<exists>dest \<in> set channels.
       pair_source p = channel_id src \<and> pair_dest p = channel_id dest \<and> peer_id src \<noteq> peer_id dest \<and>
       f64_lt (band_high src) (local_ratio (spendable_sats src) (capacity_sats src)) \<and>
       f64_lt (local_ratio (spendable_sats dest) (capacity_sats dest)) (band_low dest) \<and>
       0 < pair_amount p \<and> pair_amount p \<le> max_chunk \<and>
       pair_amount p \<le> source_excess (classify src) \<and> pair_amount p \<le> dest_need (classify dest) \<and>
       capex_remaining_sats dest \<le> pair_budget p \<and>
       (0 < ppm \<longrightarrow> pair_amount p * ppm \<le> pair_budget p * 1000000))"
proof -
  from assms obtain cs sources dests where
    cs: "candidates max_chunk ppm (locals_of channels) (remotes_of channels) = Inr cs"
    and ok: "select_ok max_pairs (plan_pairs out, sources, dests)"
    and sub: "set (plan_pairs out) \<subseteq> pair_of ppm ` set cs"
    by (rule plan_parts)
  have "\<exists>src \<in> set channels. \<exists>dest \<in> set channels.
       pair_source p = channel_id src \<and> pair_dest p = channel_id dest \<and> peer_id src \<noteq> peer_id dest \<and>
       f64_lt (band_high src) (local_ratio (spendable_sats src) (capacity_sats src)) \<and>
       f64_lt (local_ratio (spendable_sats dest) (capacity_sats dest)) (band_low dest) \<and>
       0 < pair_amount p \<and> pair_amount p \<le> max_chunk \<and>
       pair_amount p \<le> source_excess (classify src) \<and> pair_amount p \<le> dest_need (classify dest) \<and>
       capex_remaining_sats dest \<le> pair_budget p \<and>
       (0 < ppm \<longrightarrow> pair_amount p * ppm \<le> pair_budget p * 1000000)"
    if p: "p \<in> set (plan_pairs out)" for p
  proof -
    obtain c where c: "c \<in> set cs" "p = pair_of ppm c" using p sub by blast
    obtain src dest where sd: "src \<in> set channels" "dest \<in> set channels"
      "is_over_local (classify src)" "is_over_remote (classify dest)"
      "candidate_of max_chunk ppm (classify src, classify dest) = Inr (Some c)"
      using c(1) unfolding candidates_mem [OF cs] locals_remotes by blast
    note f = candidate_of_Some [OF sd(5)]
    show ?thesis
      using sd f pair_fee_budget_covers [OF f(8) f(4)] c(2)
      by (intro bexI [of _ src] bexI [of _ dest]) (auto simp: classify_def)
  qed
  with ok show ?thesis by (auto simp: select_ok_def)
qed

text \<open>C33. The greedy choice leaves no better pair: a pair the planner could have made is
  either blocked by a selected pair of at least its score that uses one of its channels, or
  the limit is reached with pairs that all score at least as much.\<close>

theorem plan_no_blocking_pair:
  assumes "plan channels max_chunk max_pairs ppm = Inr out"
    and "src \<in> set channels" "dest \<in> set channels"
    and "is_over_local (classify src)" "is_over_remote (classify dest)"
    and "candidate_of max_chunk ppm (classify src, classify dest) = Inr (Some c)"
  shows "(\<exists>p \<in> set (plan_pairs out). (pair_source p = channel_id src \<or> pair_dest p = channel_id dest) \<and>
        total_key (score_of src dest) \<le> total_key (pair_score p)) \<or>
     (length (plan_pairs out) = max_pairs \<and>
      (\<forall>p \<in> set (plan_pairs out). total_key (score_of src dest) \<le> total_key (pair_score p)))"
proof -
  from assms(1) obtain cs sources dests where
    cs: "candidates max_chunk ppm (locals_of channels) (remotes_of channels) = Inr cs"
    and sel: "select_pairs max_pairs ppm (by_score cs) ([], {}, {}) = (plan_pairs out, sources, dests)"
    by (rule plan_parts)
  have "c \<in> set cs" unfolding candidates_mem [OF cs] locals_remotes using assms(2-6) by blast
  then have m: "c \<in> set (by_score cs)" by (simp add: by_score_def)
  have srt: "sorted (map (\<lambda>c. - total_key (cand_score c)) (by_score cs))"
    unfolding by_score_def by (rule sorted_sort_key)
  have f: "src_id c = channel_id src" "dest_id c = channel_id dest" "cand_score c = score_of src dest"
    using candidate_of_Some [OF assms(6)] by simp_all
  have "select_ok max_pairs ([], {}, {})" by (simp add: select_ok_def)
  from select_no_blocking [OF srt this _ m, of ppm] show ?thesis by (simp add: sel f)
qed

lemma mset_of_distinct: "distinct xs \<Longrightarrow> distinct ys \<Longrightarrow> set xs = set ys \<Longrightarrow> mset xs = mset ys"
  by (simp add: set_eq_iff_mset_eq_distinct)

text \<open>A plan accounts for every channel exactly once: as the source of a pair, as the
  destination of a pair, or in one skip record with its reason. The channels above their band
  that no pair drains are the ones published as drain demand.\<close>

theorem plan_accounts_for_channels:
  assumes "plan channels max_chunk max_pairs ppm = Inr out" "distinct (map channel_id channels)"
  shows "mset (map channel_id channels) = mset (map pair_source (plan_pairs out))
      + mset (map pair_dest (plan_pairs out)) + mset (map skip_channel (plan_skips out)) \<and>
    mset (map channel_id (filter (\<lambda>ch. is_over_local (classify ch)) channels)) =
      mset (map pair_source (plan_pairs out)) + mset (map drain_channel (plan_demand out))"
proof -
  from assms(1) obtain cs sources dests where
    cs: "candidates max_chunk ppm (locals_of channels) (remotes_of channels) = Inr cs"
    and ok: "select_ok max_pairs (plan_pairs out, sources, dests)"
    and sub: "set (plan_pairs out) \<subseteq> pair_of ppm ` set cs"
    and skips: "map skip_channel (plan_skips out) =
       map (channel_id \<circ> fst) (filter (\<lambda>c. \<not> is_over_local c \<and> \<not> is_over_remote c) (map classify channels))
       @ map (channel_id \<circ> fst) (filter (\<lambda>c. channel_id (fst c) \<notin> sources) (locals_of channels))
       @ map (channel_id \<circ> fst) (filter (\<lambda>c. channel_id (fst c) \<notin> dests) (remotes_of channels))"
    and demand: "mset (map drain_channel (plan_demand out)) =
       mset (map (channel_id \<circ> fst) (filter (\<lambda>c. channel_id (fst c) \<notin> sources) (locals_of channels)))"
    by (rule plan_parts)
  let ?id = "channel_id \<circ> fst"
  have ids: "map ?id (map classify channels) = map channel_id channels" by simp
  have dl: "distinct (map ?id (filter P (map classify channels)))" for P
    using assms(2) unfolding ids [symmetric] by (rule distinct_map_filter)
  have used: "pair_source p \<in> ?id ` set (locals_of channels) \<and> pair_dest p \<in> ?id ` set (remotes_of channels)"
    if used: "p \<in> set (plan_pairs out)" for p
  proof -
    obtain c where c: "c \<in> set cs" "p = pair_of ppm c" using used sub by blast
    then obtain src dest where sd: "src \<in> set (locals_of channels)" "dest \<in> set (remotes_of channels)"
      "candidate_of max_chunk ppm (src, dest) = Inr (Some c)"
      unfolding candidates_mem [OF cs] by blast
    with candidate_of_Some(1,2) [OF sd(3)] c(2) show ?thesis by (auto intro!: image_eqI)
  qed
  have src: "mset (map ?id (locals_of channels)) = mset (map pair_source (plan_pairs out))
      + mset (map ?id (filter (\<lambda>c. channel_id (fst c) \<notin> sources) (locals_of channels)))"
  proof -
    have "mset (map ?id (filter (\<lambda>c. channel_id (fst c) \<in> sources) (locals_of channels))) = mset (map pair_source (plan_pairs out))"
    proof (rule mset_of_distinct)
      show "distinct (map ?id (filter (\<lambda>c. channel_id (fst c) \<in> sources) (locals_of channels)))"
        using dl unfolding locals_of_def filter_filter .
      show "distinct (map pair_source (plan_pairs out))" using ok by (simp add: select_ok_def)
      have e: "sources = set (map pair_source (plan_pairs out))" using ok by (simp add: select_ok_def)
      have "sources \<subseteq> ?id ` set (locals_of channels)" unfolding e using used by auto
      then have "?id ` {c \<in> set (locals_of channels). ?id c \<in> sources} = sources" by blast
      then show "set (map ?id (filter (\<lambda>c. channel_id (fst c) \<in> sources) (locals_of channels))) = set (map pair_source (plan_pairs out))"
        unfolding e [symmetric] by simp
    qed
    moreover have "mset (map ?id (locals_of channels)) =
        mset (map ?id (filter (\<lambda>c. channel_id (fst c) \<in> sources) (locals_of channels)))
        + mset (map ?id (filter (\<lambda>c. channel_id (fst c) \<notin> sources) (locals_of channels)))"
      by (simp add: mset_map mset_filter flip: image_mset_union)
    ultimately show ?thesis by simp
  qed
  have dst: "mset (map ?id (remotes_of channels)) = mset (map pair_dest (plan_pairs out))
      + mset (map ?id (filter (\<lambda>c. channel_id (fst c) \<notin> dests) (remotes_of channels)))"
  proof -
    have "mset (map ?id (filter (\<lambda>c. channel_id (fst c) \<in> dests) (remotes_of channels))) = mset (map pair_dest (plan_pairs out))"
    proof (rule mset_of_distinct)
      show "distinct (map ?id (filter (\<lambda>c. channel_id (fst c) \<in> dests) (remotes_of channels)))"
        using dl unfolding remotes_of_def filter_filter .
      show "distinct (map pair_dest (plan_pairs out))" using ok by (simp add: select_ok_def)
      have e: "dests = set (map pair_dest (plan_pairs out))" using ok by (simp add: select_ok_def)
      have "dests \<subseteq> ?id ` set (remotes_of channels)" unfolding e using used by auto
      then have "?id ` {c \<in> set (remotes_of channels). ?id c \<in> dests} = dests" by blast
      then show "set (map ?id (filter (\<lambda>c. channel_id (fst c) \<in> dests) (remotes_of channels))) = set (map pair_dest (plan_pairs out))"
        unfolding e [symmetric] by simp
    qed
    moreover have "mset (map ?id (remotes_of channels)) =
        mset (map ?id (filter (\<lambda>c. channel_id (fst c) \<in> dests) (remotes_of channels)))
        + mset (map ?id (filter (\<lambda>c. channel_id (fst c) \<notin> dests) (remotes_of channels)))"
      by (simp add: mset_map mset_filter flip: image_mset_union)
    ultimately show ?thesis by simp
  qed
  have excl: "is_over_remote c \<Longrightarrow> \<not> is_over_local c" for c by (cases c) simp
  have split3: "mset xs = mset (filter (\<lambda>c. \<not> is_over_local c \<and> \<not> is_over_remote c) xs)
      + mset (filter is_over_local xs) + mset (filter is_over_remote xs)" for xs
    by (induction xs) (auto dest: excl)
  have "mset (map channel_id channels) = image_mset ?id (mset (map classify channels))"
    unfolding ids [symmetric] by (simp only: mset_map)
  also have "\<dots> = mset (map ?id (filter (\<lambda>c. \<not> is_over_local c \<and> \<not> is_over_remote c) (map classify channels)))
      + mset (map ?id (locals_of channels)) + mset (map ?id (remotes_of channels))"
    by (subst split3) (simp only: image_mset_union mset_map locals_of_def remotes_of_def)
  finally have c1: "mset (map channel_id channels) = mset (map pair_source (plan_pairs out))
      + mset (map pair_dest (plan_pairs out)) + mset (map skip_channel (plan_skips out))"
    unfolding src dst skips by simp
  have "map channel_id (filter (\<lambda>ch. is_over_local (classify ch)) channels) = map ?id (locals_of channels)"
    by (simp add: locals_of_def filter_map comp_def)
  then have "mset (map channel_id (filter (\<lambda>ch. is_over_local (classify ch)) channels)) =
      mset (map pair_source (plan_pairs out)) + mset (map drain_channel (plan_demand out))"
    unfolding demand using src by simp
  with c1 show ?thesis by simp
qed

section \<open>A plan\<close>

definition sample_channel :: "string \<Rightarrow> string \<Rightarrow> int \<Rightarrow> planner_channel" where
  "sample_channel cid peer spendable =
     \<lparr>channel_id = cid, peer_id = peer, capacity_sats = 1024, spendable_sats = spendable,
      receivable_sats = 1024 - spendable, band_low = Fin False 1 (- 2), band_high = Fin False 3 (- 2),
      inbound_ppm = 0, value_class = ''neutral'', urgency = f64_of_int 1, drain = f64_of_int 1,
      capex_remaining_sats = 10\<rparr>"

definition sample_channels :: "planner_channel list" where
  "sample_channels = [sample_channel ''a'' ''p'' 1024, sample_channel ''b'' ''q'' 0, sample_channel ''c'' ''q'' 512]"

lemmas float_eval = f64_of_int_def f64_round_def f64_le_def f64_sub_def f64_quot_def f64_lit_def f64_clamp_def
  f64_max_def div_half_even_def Let_def signed_mant_def fval.simps(1) power_int_minus round_bits_def fin_trunc_def

lemma sample_ratio:
  "local_ratio 1024 1024 = Fin False 4503599627370496 (- 52)" "local_ratio 0 1024 = Fin False 0 (- 1074)"
  "local_ratio 512 1024 = Fin False 4503599627370496 (- 53)"
  by (simp_all add: local_ratio_def float_eval)

lemma sample_score:
  "score_of (sample_channel ''a'' ''p'' 1024) (sample_channel ''b'' ''q'' 0) = Fin False 5404319552844595 (- 53)"
  by (simp add: score_of_def sample_channel_def value_score_def float_eval)

lemma sample_amounts:
  "source_excess (classify (sample_channel ''a'' ''p'' 1024)) = 256"
  "dest_need (classify (sample_channel ''b'' ''q'' 0)) = 256"
  by (simp_all add: source_excess_def dest_need_def classify_def sample_channel_def sample_ratio
      sats_from_ratio_delta_def float_eval i64_bounds)

lemma sample_candidate:
  "candidate_of 100 1000 (classify (sample_channel ''a'' ''p'' 1024), classify (sample_channel ''b'' ''q'' 0)) =
     Inr (Some \<lparr>cand_src = classify (sample_channel ''a'' ''p'' 1024), cand_dest = classify (sample_channel ''b'' ''q'' 0),
        cand_amount = 100, cand_budget = 10, cand_score = Fin False 5404319552844595 (- 53)\<rparr>)"
proof -
  have "peer_id (sample_channel ''a'' ''p'' 1024) \<noteq> peer_id (sample_channel ''b'' ''q'' 0)"
    "capex_remaining_sats (sample_channel ''b'' ''q'' 0) = 10"
    by (simp_all add: sample_channel_def)
  then show ?thesis
    by (simp add: candidate_of_def sample_amounts sample_score pair_fee_budget_def chk_i64_def in_i64_alt trunc_div_def)
qed

lemma sample_plan:
  "plan sample_channels 100 5 1000 = Inr
     \<lparr>plan_pairs = [\<lparr>pair_source = ''a'', pair_dest = ''b'', pair_amount = 100, pair_budget = 10,
         pair_cap_ppm = 1000, pair_score = Fin False 5404319552844595 (- 53)\<rparr>],
      plan_skips = [\<lparr>skip_channel = ''c'', skip_reason = ''inside_band'', skip_class = ''neutral'',
         skip_budget = 10, skip_detail = None\<rparr>],
      plan_demand = []\<rparr>"
proof -
  have c: "candidates 100 1000 [classify (sample_channel ''a'' ''p'' 1024)] [classify (sample_channel ''b'' ''q'' 0)] =
      Inr [\<lparr>cand_src = classify (sample_channel ''a'' ''p'' 1024), cand_dest = classify (sample_channel ''b'' ''q'' 0),
        cand_amount = 100, cand_budget = 10, cand_score = Fin False 5404319552844595 (- 53)\<rparr>]"
    using sample_candidate by (simp add: candidates_def)
  have b: "is_over_local (classify (sample_channel ''a'' ''p'' 1024))"
    "\<not> is_over_local (classify (sample_channel ''b'' ''q'' 0))" "is_over_remote (classify (sample_channel ''b'' ''q'' 0))"
    "\<not> is_over_local (classify (sample_channel ''c'' ''q'' 512))" "\<not> is_over_remote (classify (sample_channel ''c'' ''q'' 512))"
    "\<not> is_over_remote (classify (sample_channel ''a'' ''p'' 1024))"
    by (simp_all add: classify_def sample_channel_def sample_ratio float_eval)
  show ?thesis
    using c b by (simp add: plan_def sample_channels_def by_score_def pair_of_def skip_of_def)
      (simp add: classify_def sample_channel_def)
qed

theorem plan_pairs_sound_witness:
  "\<exists>out. plan sample_channels 100 5 1000 = Inr out \<and> length (plan_pairs out) = 1 \<and> length (plan_pairs out) \<le> 5 \<and>
     distinct (map pair_source (plan_pairs out))"
  using plan_pairs_sound [OF sample_plan] sample_plan by auto

theorem plan_accounts_for_channels_witness:
  "\<exists>out. plan sample_channels 100 5 1000 = Inr out \<and>
     mset (map channel_id sample_channels) = mset (map pair_source (plan_pairs out))
       + mset (map pair_dest (plan_pairs out)) + mset (map skip_channel (plan_skips out))"
  using plan_accounts_for_channels [OF sample_plan] sample_plan
  by (auto simp: sample_channels_def sample_channel_def)

theorem plan_no_blocking_pair_witness:
  "\<exists>out. plan sample_channels 100 5 1000 = Inr out \<and> (\<exists>p \<in> set (plan_pairs out).
     total_key (score_of (sample_channel ''a'' ''p'' 1024) (sample_channel ''b'' ''q'' 0)) \<le> total_key (pair_score p))"
proof -
  have b: "is_over_local (classify (sample_channel ''a'' ''p'' 1024))" "is_over_remote (classify (sample_channel ''b'' ''q'' 0))"
    by (simp_all add: classify_def sample_channel_def sample_ratio float_eval)
  show ?thesis
    using plan_no_blocking_pair [OF sample_plan _ _ b sample_candidate] sample_plan by (auto simp: sample_channels_def)
qed

end
