(* ===== verification/Wp.thy ===== *)
theory Wp
  imports Sqlite
begin

text \<open>
  Weakest preconditions for actions. An action is a total function, so its precondition
  for a postcondition over result and final state is computed by rules that follow the
  structure of the code; a handler is verified by rewriting with them.
\<close>

definition wp :: "('s, 'e, 'a) action \<Rightarrow> (('e, 'a) result \<Rightarrow> 's \<Rightarrow> bool) \<Rightarrow> 's \<Rightarrow> bool" where
  "wp m Q s = (case m s of (r, t) \<Rightarrow> Q r t)"

named_theorems wp_simps \<open>weakest preconditions of actions\<close>

lemma wp_iff: "wp m Q s \<longleftrightarrow> (\<forall>r t. m s = (r, t) \<longrightarrow> Q r t)"
  by (auto simp: wp_def split: prod.splits)

lemma wpI: "(\<And>r t. m s = (r, t) \<Longrightarrow> Q r t) \<Longrightarrow> wp m Q s"
  by (simp add: wp_iff)

lemma wpD: "wp m Q s \<Longrightarrow> m s = (r, t) \<Longrightarrow> Q r t"
  by (simp add: wp_iff)

lemma wp_return [wp_simps]: "wp (returnA a) Q s = Q (Inr a) s"
  and wp_lift [wp_simps]: "wp (liftA r) Q s = Q r s"
  and wp_fail [wp_simps]: "wp (failA e) Q s = Q (Inl (Fail e)) s"
  by (simp_all add: wp_def)

lemma wp_Pair [wp_simps]: "wp (Pair r) Q s = Q r s"
  by (simp add: wp_def)

lemma wp_bind [wp_simps]:
  "wp (bindA m f) Q s = wp m (\<lambda>r t. case r of Inl e \<Rightarrow> Q (Inl e) t | Inr a \<Rightarrow> wp (f a) Q t) s"
  by (auto simp: wp_def bindA_def split: prod.splits sum.splits)

lemma wp_handle [wp_simps]: "wp (handleA m f) Q s = wp m (\<lambda>r t. wp (f r) Q t) s"
  by (auto simp: wp_def handleA_def split: prod.splits)

lemma wp_mono: "wp m P s \<Longrightarrow> (\<And>r t. P r t \<Longrightarrow> Q r t) \<Longrightarrow> wp m Q s"
  by (auto simp: wp_def split: prod.splits)

lemma wp_conj: "wp m P s \<Longrightarrow> wp m Q s \<Longrightarrow> wp m (\<lambda>r t. P r t \<and> Q r t) s"
  by (auto simp: wp_def split: prod.splits)

text \<open>The sequence rule with an intermediate assertion.\<close>

lemma wp_seq:
  assumes "wp m P s" "\<And>e t. P (Inl e) t \<Longrightarrow> Q (Inl e) t" "\<And>a t. P (Inr a) t \<Longrightarrow> wp (f a) Q t"
  shows "wp (bindA m f) Q s"
  unfolding wp_bind by (rule wp_mono [OF assms(1)]) (auto split: sum.splits intro: assms)

text \<open>A relation between the states before and after that every step keeps.\<close>

definition steps :: "('s \<Rightarrow> 's \<Rightarrow> bool) \<Rightarrow> ('s, 'e, 'a) action \<Rightarrow> bool" where
  "steps R m \<longleftrightarrow> (\<forall>s. R s (snd (m s)))"

lemma stepsD: "steps R m \<Longrightarrow> m s = (r, t) \<Longrightarrow> R s t"
  by (metis snd_conv steps_def)

lemma steps_wp: "steps R m \<Longrightarrow> wp m (\<lambda>r t. R s t) s"
  by (simp add: wp_def steps_def split: prod.splits) (metis snd_conv)

locale step_relation =
  fixes R :: "'s \<Rightarrow> 's \<Rightarrow> bool"
  assumes refl: "R s s"
    and trans: "R s t \<Longrightarrow> R t u \<Longrightarrow> R s u"
begin

lemma steps_return: "steps R (returnA a)" "steps R (liftA r)" "steps R (failA e)" "steps R (Pair r)"
  by (simp_all add: steps_def refl)

lemma steps_bind: "steps R m \<Longrightarrow> (\<And>a. steps R (f a)) \<Longrightarrow> steps R (bindA m f)"
  unfolding steps_def by (auto simp: bindA_def split: prod.splits sum.splits) (metis snd_conv trans)+

lemma steps_handle: "steps R m \<Longrightarrow> (\<And>r. steps R (f r)) \<Longrightarrow> steps R (handleA m f)"
  unfolding steps_def by (auto simp: handleA_def split: prod.splits) (metis snd_conv trans)

end

text \<open>A loop whose body is an action and whose index runs over a list.\<close>

fun forA :: "('a \<Rightarrow> ('s, 'e, unit) action) \<Rightarrow> 'a list \<Rightarrow> ('s, 'e, unit) action" where
  "forA f [] = returnA ()"
| "forA f (x # xs) = bindA (f x) (\<lambda>_. forA f xs)"

lemma wp_forA:
  assumes "I [] s"
    and "\<And>done x todo s. xs = done @ x # todo \<Longrightarrow> I done s \<Longrightarrow>
      wp (f x) (\<lambda>r t. case r of Inl e \<Rightarrow> Q (Inl e) t | Inr _ \<Rightarrow> I (done @ [x]) t) s"
    and "\<And>t. I xs t \<Longrightarrow> Q (Inr ()) t"
  shows "wp (forA f xs) Q s"
proof -
  have "wp (forA f todo) Q s" if "xs = ys @ todo" "I ys s" for ys todo s
    using that
  proof (induction todo arbitrary: ys s)
    case Nil
    then show ?case by (auto simp: wp_simps intro: assms(3))
  next
    case (Cons x todo)
    have "wp (f x) (\<lambda>r t. case r of Inl e \<Rightarrow> Q (Inl e) t | Inr _ \<Rightarrow> I (ys @ [x]) t) s"
      by (rule assms(2)) (use Cons.prems in simp_all)
    then show ?case
      unfolding forA.simps by (rule wp_seq) (use Cons in auto)
  qed
  from this [of "[]" xs s] show ?thesis using assms(1) by simp
qed

text \<open>What holds of every value an action returns.\<close>

definition yields :: "('a \<Rightarrow> bool) \<Rightarrow> ('s, 'e, 'a) action \<Rightarrow> bool" where
  "yields P m \<longleftrightarrow> (\<forall>s a t. m s = (Inr a, t) \<longrightarrow> P a)"

lemma yieldsD: "yields P m \<Longrightarrow> m s = (Inr a, t) \<Longrightarrow> P a"
  by (auto simp: yields_def)

lemma yields_any: "yields (\<lambda>a. True) m"
  by (simp add: yields_def)

lemma yields_return: "P a \<Longrightarrow> yields P (returnA a)" "(\<And>a. r = Inr a \<Longrightarrow> P a) \<Longrightarrow> yields P (liftA r)"
  "(\<And>a. r = Inr a \<Longrightarrow> P a) \<Longrightarrow> yields P (Pair r)"
  by (simp_all add: yields_def)

lemma yields_bind: "yields Q m \<Longrightarrow> (\<And>a. Q a \<Longrightarrow> yields P (f a)) \<Longrightarrow> yields P (bindA m f)"
  unfolding yields_def by (auto simp: bindA_def split: prod.splits sum.splits) blast

lemma yields_then: "(\<And>a. yields P (f a)) \<Longrightarrow> yields P (bindA m f)"
  by (rule yields_bind [OF yields_any])

lemma yields_mono: "yields P m \<Longrightarrow> (\<And>a. P a \<Longrightarrow> Q a) \<Longrightarrow> yields Q m"
  by (auto simp: yields_def)

section \<open>Traces of calls\<close>

text \<open>
  A state that logs the calls made. Of an action it says what calls it adds, restricted to
  the calls of interest, and how they relate to its result. The rules follow the code, so a
  handler is verified by applying them in its order.
\<close>

locale call_log =
  fixes calls_of :: "'s \<Rightarrow> 'c list" and say :: "'c \<Rightarrow> 's \<Rightarrow> 's" and keep :: "'c \<Rightarrow> bool"
  assumes calls_say: "calls_of (say c s) = calls_of s @ [c]"
begin

definition traces :: "(('e, 'a) result \<Rightarrow> 'c list \<Rightarrow> bool) \<Rightarrow> ('s, 'e, 'a) action \<Rightarrow> bool" where
  "traces Q m \<longleftrightarrow> (\<forall>s. \<exists>new. calls_of (snd (m s)) = calls_of s @ new \<and> Q (fst (m s)) (filter keep new))"

definition quiet :: "('s, 'e, 'a) action \<Rightarrow> bool" where
  "quiet m \<longleftrightarrow> traces (\<lambda>r cs. cs = []) m"

lemma tracesD: "traces Q m \<Longrightarrow> m s = (r, t) \<Longrightarrow> \<exists>new. calls_of t = calls_of s @ new \<and> Q r (filter keep new)"
  unfolding traces_def by (metis fst_conv snd_conv)

lemma tracesI: "(\<And>s. calls_of (snd (m s)) = calls_of s \<and> Q (fst (m s)) []) \<Longrightarrow> traces Q m"
  unfolding traces_def by (intro allI exI [of _ "[]"]) simp

lemma traces_step: "(\<And>s. \<exists>a. m s = (Inr a, say c s) \<and> Q (Inr a) (if keep c then [c] else [])) \<Longrightarrow> traces Q m"
  unfolding traces_def
proof
  fix s
  assume "\<And>s. \<exists>a. m s = (Inr a, say c s) \<and> Q (Inr a) (if keep c then [c] else [])"
  then obtain a where "m s = (Inr a, say c s)" "Q (Inr a) (if keep c then [c] else [])" by blast
  then show "\<exists>new. calls_of (snd (m s)) = calls_of s @ new \<and> Q (fst (m s)) (filter keep new)"
    by (intro exI [of _ "[c]"]) (simp add: calls_say split: if_splits)
qed

lemma traces_basic:
  "Q r [] \<Longrightarrow> traces Q (Pair r)" "Q (Inr a) [] \<Longrightarrow> traces Q (returnA a)" "Q r [] \<Longrightarrow> traces Q (liftA r)"
  by (auto intro: tracesI)

lemma traces_mono: "traces P m \<Longrightarrow> (\<And>r cs. P r cs \<Longrightarrow> Q r cs) \<Longrightarrow> traces Q m"
  unfolding traces_def by blast

lemma traces_bind:
  assumes m: "traces P m" and e: "\<And>e cs. P (Inl e) cs \<Longrightarrow> Q (Inl e) cs"
    and f: "\<And>a cs. P (Inr a) cs \<Longrightarrow> traces (\<lambda>r ds. Q r (cs @ ds)) (f a)"
  shows "traces Q (bindA m f)"
  unfolding traces_def
proof
  fix s
  obtain r t where r: "m s = (r, t)" by force
  from tracesD [OF m r] obtain new where n: "calls_of t = calls_of s @ new" "P r (filter keep new)" by blast
  show "\<exists>new. calls_of (snd (bindA m f s)) = calls_of s @ new \<and> Q (fst (bindA m f s)) (filter keep new)"
  proof (cases r)
    case (Inl x)
    with r n e show ?thesis by (auto simp: bindA_def)
  next
    case (Inr a)
    obtain r2 u where u: "f a t = (r2, u)" by force
    from tracesD [OF f u] n Inr obtain new2 where "calls_of u = calls_of t @ new2"
      "Q r2 (filter keep new @ filter keep new2)" by blast
    with n Inr r u show ?thesis by (auto simp: bindA_def intro: exI [of _ "new @ new2"])
  qed
qed

lemma traces_handle:
  assumes m: "traces P m" and f: "\<And>r cs. P r cs \<Longrightarrow> traces (\<lambda>r ds. Q r (cs @ ds)) (f r)"
  shows "traces Q (handleA m f)"
  unfolding traces_def
proof
  fix s
  obtain r t where r: "m s = (r, t)" by force
  from tracesD [OF m r] obtain new where n: "calls_of t = calls_of s @ new" "P r (filter keep new)" by blast
  obtain r2 u where u: "f r t = (r2, u)" by force
  from tracesD [OF f u] n obtain new2 where "calls_of u = calls_of t @ new2"
    "Q r2 (filter keep new @ filter keep new2)" by blast
  with n r u show "\<exists>new. calls_of (snd (handleA m f s)) = calls_of s @ new \<and> Q (fst (handleA m f s)) (filter keep new)"
    by (auto simp: handleA_def intro: exI [of _ "new @ new2"])
qed

lemma quiet_bind: "quiet m \<Longrightarrow> (\<And>a. quiet (f a)) \<Longrightarrow> quiet (bindA m f)"
  unfolding quiet_def by (rule traces_bind [of "\<lambda>r cs. cs = []"]) auto

lemma quiet_handle: "quiet m \<Longrightarrow> (\<And>r. quiet (f r)) \<Longrightarrow> quiet (handleA m f)"
  unfolding quiet_def by (rule traces_handle [of "\<lambda>r cs. cs = []"]) auto

lemma quiet_basic: "quiet (Pair r)" "quiet (returnA a)" "quiet (liftA r)"
  unfolding quiet_def by (auto intro: tracesI)

lemma quiet_step: "(\<And>s. \<exists>a. m s = (Inr a, say c s)) \<Longrightarrow> \<not> keep c \<Longrightarrow> quiet m"
  unfolding quiet_def by (rule traces_step) auto

lemma quietI: "(\<And>s. calls_of (snd (m s)) = calls_of s) \<Longrightarrow> quiet m"
  unfolding quiet_def by (auto intro: tracesI)

lemma traces_after_quiet:
  assumes "quiet m" "\<And>e. Q (Inl e) []" "\<And>a. traces Q (f a)"
  shows "traces Q (bindA m f)"
  by (rule traces_bind [OF assms(1) [unfolded quiet_def]]) (use assms(2,3) in auto)

lemma traces_after_result:
  assumes "quiet m" "yields P m" "\<And>e. Q (Inl e) []" "\<And>a. P a \<Longrightarrow> traces Q (f a)"
  shows "traces Q (bindA m f)"
proof -
  have "traces (\<lambda>r cs. cs = [] \<and> (\<forall>a. r = Inr a \<longrightarrow> P a)) m"
    unfolding traces_def
  proof
    fix s
    obtain r t where r: "m s = (r, t)" by force
    with assms(1) obtain new where "calls_of t = calls_of s @ new" "filter keep new = []"
      unfolding quiet_def by (auto dest: tracesD)
    moreover have "\<forall>a. r = Inr a \<longrightarrow> P a" using assms(2) r by (auto dest: yieldsD)
    ultimately show "\<exists>new. calls_of (snd (m s)) = calls_of s @ new \<and>
        filter keep new = [] \<and> (\<forall>a. fst (m s) = Inr a \<longrightarrow> P a)" using r by auto
  qed
  then show ?thesis by (rule traces_bind) (use assms(3,4) in auto)
qed

lemma traces_quiet: "quiet m \<Longrightarrow> (\<And>r. Q r []) \<Longrightarrow> traces Q m"
  unfolding quiet_def by (erule traces_mono) auto

end

end
