(* ===== verification/Router.thy ===== *)
theory Router
  imports Executor Wp "HOL-Library.Word"
begin

text \<open>
  The askrene router (\<open>revops-rebalance/src/router.rs\<close>): pricing a circular route with
  \<open>getroutes\<close>, and the throwaway layers that keep the search away from our own channels.
  The node's RPC is a parameter: every reply is a function of the calls made so far and
  the call, and the calls made are part of the state, with the process-global counter of
  layer names and the two caches of one pricing cycle.
\<close>

section \<open>Data\<close>

record get_routes_request =
  gr_source :: string
  gr_destination :: string
  gr_amount_msat :: int
  gr_layers :: "string list"
  gr_maxfee_msat :: int
  gr_final_cltv :: int

datatype router_call =
    GetRoutes get_routes_request
  | CreateLayer string
  | UpdateChannel string string bool
  | RemoveLayer string
  | ListLayers
  | ListPeerChannels string
  | ListChannelsScid string

record route_result =
  rr_success :: bool
  rr_error :: "string option"
  rr_cost_sats :: int
  rr_final_hop_ppm :: int
  rr_hops :: int
  rr_route :: "sendpay_hop list"
  rr_probability_ppm :: int

record pair_ctx =
  our_node_id :: string
  ctx_source_channel :: string
  ctx_dest_channel :: string
  ctx_source_peer :: string
  ctx_dest_peer :: string
  ctx_amount_sats :: int
  layer_names :: "string list"
  invoice_final_cltv :: int

record channel_policy =
  pol_fee_ppm :: int
  pol_base_msat :: int
  pol_cltv_delta :: int

text \<open>The order a \<open>HashMap\<close> is drained in is the standard library's: a parameter.\<close>

record router_env =
  router_reply :: "router_call list \<Rightarrow> router_call \<Rightarrow> string + json"
  router_clock :: "router_call list \<Rightarrow> nat"
  drain_order :: "string list \<Rightarrow> string list"
  json_text :: "json \<Rightarrow> string"

record router_world =
  rcalls :: "router_call list"
  exclude_counter :: "64 word"
  live_layers :: "string list option"
  exclude_layers :: "(string list \<times> string) list"

type_synonym 'a routing = "(router_world, string, 'a) action"

definition EXCLUDE_LAYER_PREFIX :: string where "EXCLUDE_LAYER_PREFIX = ''rebalance-exclude-''"
definition AUTO_NO_MPP_LAYER :: string where "AUTO_NO_MPP_LAYER = ''auto.no_mpp_support''"
definition DEFAULT_ASKRENE_LAYERS :: string where "DEFAULT_ASKRENE_LAYERS = ''standalone''"
definition REASON_UNKNOWN_SOURCE_NODE :: string where "REASON_UNKNOWN_SOURCE_NODE = ''unknown_source_node''"
definition REASON_UNKNOWN_DEST_NODE :: string where "REASON_UNKNOWN_DEST_NODE = ''unknown_dest_node''"
definition REASON_UNKNOWN_LAYER :: string where "REASON_UNKNOWN_LAYER = ''unknown_layer''"
definition REASON_ASKRENE_CHILD_DIED :: string where "REASON_ASKRENE_CHILD_DIED = ''askrene_child_died''"
definition REASON_PATH_LOOPS_THROUGH_US :: string where "REASON_PATH_LOOPS_THROUGH_US = ''path_loops_through_us''"
definition STANDALONE_SENTINELS :: "string list" where
  "STANDALONE_SENTINELS = [''none'', ''off'', ''disabled'', ''standalone'', ''false'', ''0'']"
definition EMPTY_PATH_FEE_SENTINEL :: int where "EMPTY_PATH_FEE_SENTINEL = 1000000000000000000"

definition rr_fail :: "string \<Rightarrow> route_result" where
  "rr_fail msg = \<lparr>rr_success = False, rr_error = Some msg, rr_cost_sats = 0, rr_final_hop_ppm = 0,
     rr_hops = 0, rr_route = [], rr_probability_ppm = 0\<rparr>"

section \<open>Pure helpers\<close>

definition parse_layer_names :: "string \<Rightarrow> string list" where
  "parse_layer_names csv = filter (\<lambda>s. s \<noteq> []) (map trim (split_on (CHR '','') csv))"

definition configured_layer_names :: "string option \<Rightarrow> string list" where
  "configured_layer_names raw =
     (let t = trim (case raw of None \<Rightarrow> [] | Some s \<Rightarrow> s);
          t = (if t = [] then DEFAULT_ASKRENE_LAYERS else t)
      in if to_lowercase t \<in> set STANDALONE_SENTINELS then [] else parse_layer_names t)"

definition CHILD_SIGNALS :: "string list" where
  "CHILD_SIGNALS = [''child died with signal'', ''failed to fork'', ''child produced no output'',
     ''failed to create pipes'']"

definition translate_getroutes_error :: "string \<Rightarrow> string" where
  "translate_getroutes_error msg =
     (if contains_str ''Unknown source node'' msg then REASON_UNKNOWN_SOURCE_NODE
      else if contains_str ''Unknown destination node'' msg then REASON_UNKNOWN_DEST_NODE
      else if contains_str ''Unknown layer'' msg then REASON_UNKNOWN_LAYER
      else if list_ex (\<lambda>s. contains_str s msg) CHILD_SIGNALS then REASON_ASKRENE_CHILD_DIED
      else NO_ROUTE)"

text \<open>\<open>value["k"]\<close> is null where the key is absent.\<close>

definition jix :: "json \<Rightarrow> string \<Rightarrow> json" where
  "jix v k = (case json_get v k of None \<Rightarrow> JNull | Some x \<Rightarrow> x)"

definition json_items :: "json \<Rightarrow> json list" where
  "json_items v = (case as_array v of None \<Rightarrow> [] | Some xs \<Rightarrow> xs)"

definition trim_end_set :: "string \<Rightarrow> string \<Rightarrow> string" where
  "trim_end_set cs s = rev (dropWhile (\<lambda>c. c \<in> set cs) (rev s))"

definition router_parse_msat :: "router_env \<Rightarrow> json \<Rightarrow> (string, int) result" where
  "router_parse_msat env v =
     (let bad = ''cannot parse amount_msat: '' @ json_text env v
      in case v of
           JNull \<Rightarrow> Inr 0
         | JInt i \<Rightarrow> ok_or (as_int64 v) bad
         | JFloat f \<Rightarrow> Inl (Fail bad)
         | JStr s \<Rightarrow>
             (let t = trim (trim_end_set ''msat'' s)
              in if t = [] then Inr 0 else ok_or (parse_i64 t) bad)
         | _ \<Rightarrow> Inl (Fail bad))"

fun int_or_zero :: "json option \<Rightarrow> int" where
  "int_or_zero (Some (JInt i)) = (if in_i64 i then i else 0)"
| "int_or_zero (Some (JStr s)) = (case parse_i64 (trim s) of None \<Rightarrow> 0 | Some v \<Rightarrow> v)"
| "int_or_zero _ = 0"

definition router_ceil_div :: "int \<Rightarrow> int \<Rightarrow> ('e, int) result" where
  "router_ceil_div a b = bindE (chk_i64 (a + b)) (\<lambda>x. bindE (chk_i64 (x - 1)) (\<lambda>y. Inr (trunc_div y b)))"

definition channel_direction :: "string \<Rightarrow> string \<Rightarrow> int" where
  "channel_direction start_node end_node = (if end_node < start_node then 1 else 0)"

definition compute_final_hop_fee_sats :: "int \<Rightarrow> int \<Rightarrow> int \<Rightarrow> ('e, int) result" where
  "compute_final_hop_fee_sats amount ppm base =
     bindE (chk_i64 (amount * 1000)) (\<lambda>msat.
     bindE (chk_i64 (msat * ppm)) (\<lambda>prod.
     bindE (router_ceil_div prod 1000000) (\<lambda>prop_fee.
     bindE (chk_i64 (base + prop_fee)) (\<lambda>fee.
     router_ceil_div fee 1000))))"

text \<open>\<open>rsplit_once\<close> on one character.\<close>

definition rsplit_once :: "char \<Rightarrow> string \<Rightarrow> (string \<times> string) option" where
  "rsplit_once d s =
     (case split_once d (rev s) of None \<Rightarrow> None | Some (b, a) \<Rightarrow> Some (rev a, rev b))"

definition translate_hop_to_sendpay :: "router_env \<Rightarrow> json \<Rightarrow> (string, sendpay_hop) result" where
  "translate_hop_to_sendpay env hop =
     bindE (ok_or (as_str (jix hop ''short_channel_id_dir'')) ''getroutes hop missing short_channel_id_dir'') (\<lambda>scidd.
     bindE (ok_or (rsplit_once (CHR ''/'') scidd) (''malformed short_channel_id_dir: '' @ scidd)) (\<lambda>(scid, dir).
     bindE (ok_or (parse_int False 0 255 dir) (''malformed direction in '' @ scidd)) (\<lambda>direction.
     bindE (ok_or (as_str (jix hop ''next_node_id'')) ''getroutes hop missing next_node_id'') (\<lambda>id.
     bindE (router_parse_msat env (jix hop ''amount_msat'')) (\<lambda>amount.
     bindE (ok_or (case as_int64 (jix hop ''delay'') of
              Some d \<Rightarrow> if 0 \<le> d \<and> d \<le> 4294967295 then Some d else None | None \<Rightarrow> None)
            ''getroutes hop missing delay'') (\<lambda>delay.
     Inr \<lparr>hop_id = id, hop_channel = scid, hop_direction = direction, hop_delay = delay,
       hop_amount_msat = amount\<rparr>))))))"

definition validate_middle_path :: "json list \<Rightarrow> string \<Rightarrow> string \<Rightarrow> bool" where
  "validate_middle_path path us dest_peer \<longleftrightarrow>
     path \<noteq> [] \<and> as_str (jix (last path) ''next_node_id'') = Some dest_peer \<and>
     (\<forall>hop \<in> set path. as_str (jix hop ''next_node_id'') \<noteq> Some us)"

definition route_fee_msat :: "router_env \<Rightarrow> json \<Rightarrow> (string, int) result" where
  "route_fee_msat env r =
     (case json_items (jix r ''path'') of
        [] \<Rightarrow> Inr EMPTY_PATH_FEE_SENTINEL
      | first # _ \<Rightarrow>
          bindE (router_parse_msat env (jix first ''amount_msat'')) (\<lambda>first_amt.
          bindE (router_parse_msat env (case json_get r ''amount_msat'' of None \<Rightarrow> JNull | Some v \<Rightarrow> v)) (\<lambda>delivered.
          bindE (chk_i64 (first_amt - delivered)) (\<lambda>d. Inr (max d 0)))))"

text \<open>The first route of least fee.\<close>

fun cheapest_route :: "router_env \<Rightarrow> (json \<times> int) option \<Rightarrow> json list \<Rightarrow> (string, (json \<times> int) option) result" where
  "cheapest_route env best [] = Inr best"
| "cheapest_route env best (r # rs) =
     bindE (route_fee_msat env r) (\<lambda>fee.
     cheapest_route env (case best of None \<Rightarrow> Some (r, fee)
                         | Some (b, f) \<Rightarrow> if fee < f then Some (r, fee) else best) rs)"

section \<open>Channel policies\<close>

definition rcall :: "router_env \<Rightarrow> router_call \<Rightarrow> (string + json) routing" where
  "rcall env c w = (Inr (router_reply env (rcalls w) c), w\<lparr>rcalls := rcalls w @ [c]\<rparr>)"

text \<open>The operator \<open>?\<close> on a call.\<close>

definition try_rcall :: "router_env \<Rightarrow> router_call \<Rightarrow> json routing" where
  "try_rcall env c = bindA (rcall env c) (\<lambda>r. case r of Inl msg \<Rightarrow> failA msg | Inr v \<Rightarrow> returnA v)"

definition channel_matches_scid :: "json \<Rightarrow> string \<Rightarrow> bool" where
  "channel_matches_scid ch cid \<longleftrightarrow>
     cid = [] \<or> as_str (jix ch ''short_channel_id'') = Some cid \<or>
     as_str (jix (jix ch ''alias'') ''local'') = Some cid"

fun first_some :: "('a \<Rightarrow> 'b option) \<Rightarrow> 'a list \<Rightarrow> 'b option" where
  "first_some f [] = None"
| "first_some f (x # xs) = (case f x of Some y \<Rightarrow> Some y | None \<Rightarrow> first_some f xs)"

definition peer_policy_of :: "string \<Rightarrow> string \<Rightarrow> json \<Rightarrow> channel_policy option" where
  "peer_policy_of dest_peer dest_channel ch =
     (if as_str (jix ch ''peer_id'') \<noteq> Some dest_peer then None
      else if \<not> channel_matches_scid ch dest_channel then None
      else let remote = jix (jix ch ''updates'') ''remote''
           in if remote = JNull then None
              else (case as_int64 (jix remote ''fee_proportional_millionths'') of
                      None \<Rightarrow> None
                    | Some ppm \<Rightarrow> Some \<lparr>pol_fee_ppm = ppm,
                        pol_base_msat = int_or_zero (json_get remote ''fee_base_msat''),
                        pol_cltv_delta = int_or_zero (json_get remote ''cltv_expiry_delta'')\<rparr>))"

definition gossip_policy_of :: "string \<Rightarrow> string \<Rightarrow> json \<Rightarrow> channel_policy option" where
  "gossip_policy_of us dest_peer ch =
     (if as_str (jix ch ''source'') \<noteq> Some dest_peer \<or> as_str (jix ch ''destination'') \<noteq> Some us then None
      else (case as_int64 (jix ch ''fee_per_millionth'') of
              None \<Rightarrow> None
            | Some ppm \<Rightarrow> Some \<lparr>pol_fee_ppm = ppm,
                pol_base_msat = (if json_get ch ''base_fee_millisatoshi'' \<noteq> None
                  then int_or_zero (json_get ch ''base_fee_millisatoshi'')
                  else int_or_zero (json_get ch ''fee_base_msat'')),
                pol_cltv_delta = int_or_zero (json_get ch ''delay'')\<rparr>))"

definition get_final_hop_policy :: "router_env \<Rightarrow> string \<Rightarrow> string \<Rightarrow> string \<Rightarrow> channel_policy option routing" where
  "get_final_hop_policy env us dest_peer dest_channel =
     bindA (rcall env (ListPeerChannels dest_peer)) (\<lambda>r.
     case (case r of Inl _ \<Rightarrow> None
           | Inr v \<Rightarrow> first_some (peer_policy_of dest_peer dest_channel) (json_items (jix v ''channels''))) of
       Some p \<Rightarrow> returnA (Some p)
     | None \<Rightarrow>
         if dest_channel = [] then returnA None
         else bindA (rcall env (ListChannelsScid dest_channel)) (\<lambda>r.
           case r of Inl _ \<Rightarrow> returnA None
           | Inr v \<Rightarrow> returnA (first_some (gossip_policy_of us dest_peer) (json_items (jix v ''channels'')))))"

definition get_dest_channel_cltv :: "router_env \<Rightarrow> string \<Rightarrow> string \<Rightarrow> int routing" where
  "get_dest_channel_cltv env dest_peer dest_channel =
     bindA (rcall env (ListPeerChannels dest_peer)) (\<lambda>r.
     returnA (case r of Inl _ \<Rightarrow> 40
       | Inr v \<Rightarrow>
           (case first_some (\<lambda>ch. if channel_matches_scid ch dest_channel
                    then as_int64 (jix (jix (jix ch ''updates'') ''remote'') ''cltv_expiry_delta'') else None)
                  (json_items (jix v ''channels'')) of
              None \<Rightarrow> 40 | Some c \<Rightarrow> c)))"

text \<open>The first edge with both fields decides; an unreadable base fee gives no policy.\<close>

definition forwarding_policy_of ::
  "router_env \<Rightarrow> string \<Rightarrow> string \<Rightarrow> string \<Rightarrow> json \<Rightarrow> channel_policy option option" where
  "forwarding_policy_of env src cid dst ch =
     (if as_str (jix ch ''short_channel_id'') \<noteq> Some cid \<or> as_str (jix ch ''source'') \<noteq> Some src
         \<or> as_str (jix ch ''destination'') \<noteq> Some dst then None
      else (case (as_int64 (jix ch ''fee_per_millionth''), as_int64 (jix ch ''delay'')) of
              (Some ppm, Some delay) \<Rightarrow>
                Some (case router_parse_msat env (case json_get ch ''base_fee_millisatoshi'' of
                          None \<Rightarrow> JNull | Some v \<Rightarrow> v) of
                        Inl _ \<Rightarrow> None
                      | Inr base \<Rightarrow> Some \<lparr>pol_fee_ppm = ppm, pol_base_msat = base, pol_cltv_delta = delay\<rparr>)
            | _ \<Rightarrow> None))"

definition get_forwarding_policy :: "router_env \<Rightarrow> string \<Rightarrow> string \<Rightarrow> string \<Rightarrow> channel_policy option routing" where
  "get_forwarding_policy env src cid dst =
     (if cid = [] \<or> dst = [] then returnA None
      else bindA (rcall env (ListChannelsScid cid)) (\<lambda>r.
        returnA (case r of Inl _ \<Rightarrow> None
          | Inr v \<Rightarrow>
              (case first_some (forwarding_policy_of env src cid dst) (json_items (jix v ''channels'')) of
                 None \<Rightarrow> None | Some p \<Rightarrow> p))))"

text \<open>\<open>base + ceil(amount * ppm / 1e6)\<close> on top of the amount.\<close>

definition forwarded_amount :: "int \<Rightarrow> channel_policy \<Rightarrow> ('e, int) result" where
  "forwarded_amount amount p =
     bindE (chk_i64 (amount * pol_fee_ppm p)) (\<lambda>prod.
     bindE (router_ceil_div prod 1000000) (\<lambda>prop_fee.
     bindE (chk_i64 (pol_base_msat p + prop_fee)) (\<lambda>fee.
     chk_i64 (amount + fee))))"

text \<open>From the last hop back to the first: the amounts a hop's destination receives.\<close>

fun reprice_middle_route_amounts :: "router_env \<Rightarrow> int \<Rightarrow> sendpay_hop list \<Rightarrow> sendpay_hop list routing" where
  "reprice_middle_route_amounts env final [] = returnA []"
| "reprice_middle_route_amounts env final [h] = returnA [h\<lparr>hop_amount_msat := final\<rparr>]"
| "reprice_middle_route_amounts env final (h # g # hs) =
     bindA (reprice_middle_route_amounts env final (g # hs)) (\<lambda>rest.
     bindA (get_forwarding_policy env (hop_id h) (hop_channel g) (hop_id g)) (\<lambda>p.
     case p of
       None \<Rightarrow> returnA (h # rest)
     | Some p \<Rightarrow>
         bindA (liftA (forwarded_amount (hop_amount_msat (hd rest)) p)) (\<lambda>amount.
         returnA (h\<lparr>hop_amount_msat := amount\<rparr> # rest))))"

section \<open>Exclude layers\<close>

definition mint_exclude_layer_name :: "router_env \<Rightarrow> string routing" where
  "mint_exclude_layer_name env w =
     (Inr (EXCLUDE_LAYER_PREFIX @ dec_nat (router_clock env (rcalls w)) @ ''-'' @ dec_nat (unat (exclude_counter w))),
      w\<lparr>exclude_counter := exclude_counter w + 1\<rparr>)"

definition disable_entry :: "router_env \<Rightarrow> string \<Rightarrow> string \<Rightarrow> unit routing" where
  "disable_entry env layer entry =
     (if CHR ''/'' \<in> set entry
      then bindA (try_rcall env (UpdateChannel layer entry False)) (\<lambda>_. returnA ())
      else bindA (try_rcall env (UpdateChannel layer (entry @ ''/0'') False)) (\<lambda>_.
           bindA (try_rcall env (UpdateChannel layer (entry @ ''/1'') False)) (\<lambda>_. returnA ())))"

definition build_exclude_layer :: "router_env \<Rightarrow> string list \<Rightarrow> string routing" where
  "build_exclude_layer env entries =
     bindA (mint_exclude_layer_name env) (\<lambda>name.
     handleA (bindA (try_rcall env (CreateLayer name)) (\<lambda>_. forA (disable_entry env name) entries)) (\<lambda>r.
       case r of
         Inl e \<Rightarrow> bindA (rcall env (RemoveLayer name)) (\<lambda>_. liftA (Inl e))
       | Inr _ \<Rightarrow> returnA name))"

section \<open>The cycle router\<close>

text \<open>A router begins with empty caches.\<close>

definition begin_cycle :: "router_world \<Rightarrow> router_world" where
  "begin_cycle w = w\<lparr>live_layers := None, exclude_layers := []\<rparr>"

definition teardown_exclude_layers :: "router_env \<Rightarrow> unit routing" where
  "teardown_exclude_layers env w =
     (let names = drain_order env (map snd (exclude_layers w))
      in forA (\<lambda>n. bindA (rcall env (RemoveLayer n)) (\<lambda>_. returnA ())) names (w\<lparr>exclude_layers := []\<rparr>))"

definition end_cycle :: "router_env \<Rightarrow> unit routing" where
  "end_cycle env = teardown_exclude_layers env"

definition invalidate_layer_cache :: "router_env \<Rightarrow> unit routing" where
  "invalidate_layer_cache env w = teardown_exclude_layers env (w\<lparr>live_layers := None\<rparr>)"

definition probe_layers :: "router_env \<Rightarrow> string list \<Rightarrow> string list routing" where
  "probe_layers env requested w =
     (case live_layers w of
        Some live \<Rightarrow> (Inr (filter (\<lambda>n. n \<in> set live) requested), w)
      | None \<Rightarrow>
          bindA (rcall env ListLayers) (\<lambda>r w.
            case r of
              Inl _ \<Rightarrow> (Inr [], w)
            | Inr v \<Rightarrow>
                (let live = map (\<lambda>l. case as_str (jix l ''layer'') of None \<Rightarrow> [] | Some s \<Rightarrow> s)
                       (json_items (jix v ''layers''))
                 in (Inr (filter (\<lambda>n. n \<in> set live) requested), w\<lparr>live_layers := Some live\<rparr>))) w)"

definition exclude_layer :: "router_env \<Rightarrow> string list \<Rightarrow> string routing" where
  "exclude_layer env entries w =
     (let key = sort (remdups entries)
      in case map_of (exclude_layers w) key of
           Some cached \<Rightarrow> (Inr cached, w)
         | None \<Rightarrow>
             bindA (build_exclude_layer env entries) (\<lambda>name w.
               (Inr name, w\<lparr>exclude_layers := bt_insert key name (exclude_layers w)\<rparr>)) w)"

definition with_endpoint :: "string \<Rightarrow> string list \<Rightarrow> string list" where
  "with_endpoint scid entries = (if scid \<noteq> [] \<and> scid \<notin> set entries then entries @ [scid] else entries)"

definition u32_or_max :: "int \<Rightarrow> int" where
  "u32_or_max i = (if 0 \<le> i \<and> i \<le> 4294967295 then i else 4294967295)"

text \<open>A wrapped route and its price, once the middle hops are known.\<close>

definition assemble_route ::
  "pair_ctx \<Rightarrow> int \<Rightarrow> json \<Rightarrow> sendpay_hop list \<Rightarrow> int \<Rightarrow> int \<Rightarrow> (string, route_result) result" where
  "assemble_route pair ppm cheapest middle total_forward first_delay =
     bindE (chk_i64 (ctx_amount_sats pair * 1000)) (\<lambda>amount.
     bindE (chk_i64 (total_forward - amount)) (\<lambda>overpay.
     bindE (if overpay \<le> 0 then Inr 0 else router_ceil_div overpay 1000) (\<lambda>cost.
     let first_hop = \<lparr>hop_id = ctx_source_peer pair, hop_channel = ctx_source_channel pair,
           hop_direction = channel_direction (our_node_id pair) (ctx_source_peer pair),
           hop_delay = u32_or_max first_delay, hop_amount_msat = total_forward\<rparr>;
         final_hop = \<lparr>hop_id = our_node_id pair, hop_channel = ctx_dest_channel pair,
           hop_direction = channel_direction (ctx_dest_peer pair) (our_node_id pair),
           hop_delay = u32_or_max (invoice_final_cltv pair), hop_amount_msat = amount\<rparr>;
         full = first_hop # middle @ [final_hop]
     in Inr \<lparr>rr_success = True, rr_error = None, rr_cost_sats = cost, rr_final_hop_ppm = ppm,
          rr_hops = int (length full), rr_route = full,
          rr_probability_ppm = (case json_get cheapest ''probability_ppm'' of
             None \<Rightarrow> 0 | Some v \<Rightarrow> (case as_int64 v of None \<Rightarrow> 0 | Some p \<Rightarrow> p))\<rparr>)))"

text \<open>A local error of the pricing is a failed result, a panic stays one.\<close>

definition failing :: "(string, 'a) result \<Rightarrow> ('a \<Rightarrow> route_result routing) \<Rightarrow> route_result routing" where
  "failing r f = (case r of Inl (Fail msg) \<Rightarrow> returnA (rr_fail msg) | Inl Panic \<Rightarrow> liftA (Inl Panic)
     | Inr a \<Rightarrow> f a)"

definition price_middle ::
  "router_env \<Rightarrow> pair_ctx \<Rightarrow> int \<Rightarrow> int \<Rightarrow> int \<Rightarrow> int \<Rightarrow> json \<Rightarrow> sendpay_hop list \<Rightarrow> route_result routing" where
  "price_middle env pair route_amount ppm base required_cltv cheapest sent =
     bindA (reprice_middle_route_amounts env route_amount sent) (\<lambda>middle.
     bindA (liftA (compute_final_hop_fee_sats (ctx_amount_sats pair) ppm base)) (\<lambda>final_fee.
     case middle of
       [] \<Rightarrow>
         bindA (liftA (chk_i64 (ctx_amount_sats pair + final_fee))) (\<lambda>s.
         bindA (liftA (chk_i64 (s * 1000))) (\<lambda>total.
         liftA (assemble_route pair ppm cheapest middle total required_cltv)))
     | h # _ \<Rightarrow>
         bindA (get_forwarding_policy env (ctx_source_peer pair) (hop_channel h) (hop_id h)) (\<lambda>p.
         case p of
           None \<Rightarrow> returnA (rr_fail (''cannot determine source peer forwarding policy for '' @ hop_channel h))
         | Some p \<Rightarrow>
             bindA (liftA (forwarded_amount (hop_amount_msat h) p)) (\<lambda>total.
             bindA (liftA (chk_i64 (hop_delay h + pol_cltv_delta p))) (\<lambda>delay.
             liftA (assemble_route pair ppm cheapest middle total delay))))))"

definition price_pair_inner ::
  "router_env \<Rightarrow> pair_ctx \<Rightarrow> int \<Rightarrow> int \<Rightarrow> int \<Rightarrow> int \<Rightarrow> string list \<Rightarrow> route_result routing" where
  "price_pair_inner env pair route_amount ppm base required_cltv layers =
     bindA (rcall env (GetRoutes \<lparr>gr_source = ctx_source_peer pair, gr_destination = ctx_dest_peer pair,
       gr_amount_msat = route_amount, gr_layers = layers, gr_maxfee_msat = route_amount,
       gr_final_cltv = required_cltv\<rparr>)) (\<lambda>r.
     case r of
       Inl msg \<Rightarrow>
         (let reason = translate_getroutes_error msg
          in bindA (if reason = REASON_UNKNOWN_LAYER then invalidate_layer_cache env else returnA ()) (\<lambda>_.
             returnA (rr_fail (reason @ '': '' @ msg))))
     | Inr v \<Rightarrow>
         (case json_items (jix v ''routes'') of
            [] \<Rightarrow> returnA (rr_fail (NO_ROUTE @ '': getroutes returned empty''))
          | rs \<Rightarrow>
              failing (cheapest_route env None rs) (\<lambda>best.
              let cheapest = (case best of None \<Rightarrow> JNull | Some (b, _) \<Rightarrow> b);
                  path = json_items (jix cheapest ''path'')
              in if \<not> validate_middle_path path (our_node_id pair) (ctx_dest_peer pair)
                 then returnA (rr_fail (REASON_PATH_LOOPS_THROUGH_US @ '': middle path invalid''))
                 else failing (sequenceE (map (translate_hop_to_sendpay env) path))
                        (price_middle env pair route_amount ppm base required_cltv cheapest))))"

definition try_price_pair :: "router_env \<Rightarrow> pair_ctx \<Rightarrow> string list \<Rightarrow> route_result routing" where
  "try_price_pair env pair exclude =
     bindA (get_final_hop_policy env (our_node_id pair) (ctx_dest_peer pair) (ctx_dest_channel pair)) (\<lambda>pol.
     case pol of
       None \<Rightarrow> returnA (rr_fail (''cannot determine final-hop fee for peer '' @ ctx_dest_peer pair))
     | Some pol \<Rightarrow>
         bindA (if pol_cltv_delta pol \<le> 0
                then get_dest_channel_cltv env (ctx_dest_peer pair) (ctx_dest_channel pair)
                else returnA (pol_cltv_delta pol)) (\<lambda>dest_cltv.
         bindA (liftA (chk_i64 (dest_cltv + invoice_final_cltv pair))) (\<lambda>required_cltv.
         bindA (liftA (compute_final_hop_fee_sats (ctx_amount_sats pair) (pol_fee_ppm pol) (pol_base_msat pol))) (\<lambda>fee.
         bindA (liftA (chk_i64 (ctx_amount_sats pair + fee))) (\<lambda>s.
         bindA (liftA (chk_i64 (s * 1000))) (\<lambda>route_amount.
         bindA (probe_layers env (layer_names pair)) (\<lambda>probed.
         let layers = (if AUTO_NO_MPP_LAYER \<in> set probed then probed else probed @ [AUTO_NO_MPP_LAYER]);
             excludes = with_endpoint (ctx_dest_channel pair) (with_endpoint (ctx_source_channel pair) exclude)
         in bindA (if excludes = [] then returnA layers
                   else bindA (exclude_layer env excludes) (\<lambda>name. returnA (layers @ [name]))) (\<lambda>layers.
            price_pair_inner env pair route_amount (pol_fee_ppm pol) (pol_base_msat pol) required_cltv layers))))))))"

definition price_pair :: "router_env \<Rightarrow> pair_ctx \<Rightarrow> string list \<Rightarrow> route_result routing" where
  "price_pair env pair exclude =
     handleA (try_price_pair env pair exclude) (\<lambda>r.
       case r of Inr rr \<Rightarrow> returnA rr | Inl (Fail e) \<Rightarrow> returnA (rr_fail e) | Inl Panic \<Rightarrow> liftA (Inl Panic))"

text \<open>The sweep at start-up removes the layers a crashed process left behind.\<close>

definition sweep_orphan_exclude_layers :: "router_env \<Rightarrow> nat routing" where
  "sweep_orphan_exclude_layers env =
     bindA (rcall env ListLayers) (\<lambda>r.
     case r of
       Inl _ \<Rightarrow> returnA 0
     | Inr v \<Rightarrow>
         (let orphans = filter (starts_with EXCLUDE_LAYER_PREFIX)
                (List.map_filter (\<lambda>l. as_str (jix l ''layer'')) (json_items (jix v ''layers'')))
          in bindA (forA (\<lambda>n. bindA (rcall env (RemoveLayer n)) (\<lambda>_. returnA ())) orphans) (\<lambda>_.
             returnA (length orphans))))"


section \<open>The shape and price of a route\<close>

definition full_route_ok :: "pair_ctx \<Rightarrow> route_result \<Rightarrow> bool" where
  "full_route_ok pair rr \<longleftrightarrow>
     (\<exists>fwd delay middle. fwd - ctx_amount_sats pair * 1000 \<le> rr_cost_sats rr * 1000 \<and>
        in_i64 (ctx_amount_sats pair * 1000) \<and> in_i64 (fwd - ctx_amount_sats pair * 1000) \<and> 0 \<le> rr_cost_sats rr \<and>
        (\<forall>h \<in> set middle. hop_id h \<noteq> our_node_id pair) \<and>
        rr_hops rr = int (length middle) + 2 \<and>
        rr_route rr =
          \<lparr>hop_id = ctx_source_peer pair, hop_channel = ctx_source_channel pair,
           hop_direction = channel_direction (our_node_id pair) (ctx_source_peer pair),
           hop_delay = delay, hop_amount_msat = fwd\<rparr> # middle @
          [\<lparr>hop_id = our_node_id pair, hop_channel = ctx_dest_channel pair,
            hop_direction = channel_direction (ctx_dest_peer pair) (our_node_id pair),
            hop_delay = u32_or_max (invoice_final_cltv pair),
            hop_amount_msat = ctx_amount_sats pair * 1000\<rparr>])"

lemma router_ceil_div_covers:
  assumes "router_ceil_div a 1000 = Inr c" "0 < a"
  shows "a \<le> c * 1000" and "0 \<le> c"
proof -
  from assms have c: "c = (a + 999) div 1000"
    by (auto simp: router_ceil_div_def result_simps trunc_div_def)
  show "a \<le> c * 1000" unfolding c
    using div_mult_mod_eq [of "a + 999" 1000] pos_mod_bound [of 1000 "a + 999"] by linarith
  show "0 \<le> c" unfolding c using assms(2) by simp
qed

lemma assemble_route_ok:
  assumes "assemble_route pair ppm ch middle fwd delay = Inr rr"
    and "\<forall>h \<in> set middle. hop_id h \<noteq> our_node_id pair"
  shows "full_route_ok pair rr"
proof -
  let ?over = "fwd - ctx_amount_sats pair * 1000"
  obtain cost where ok: "in_i64 (ctx_amount_sats pair * 1000)" "in_i64 ?over"
    and c: "(if ?over \<le> 0 then Inr 0 else router_ceil_div ?over 1000) = (Inr cost :: (string, int) result)"
    and rr: "rr_cost_sats rr = cost"
      "rr_hops rr = int (length middle) + 2"
      "rr_route rr = \<lparr>hop_id = ctx_source_peer pair, hop_channel = ctx_source_channel pair,
           hop_direction = channel_direction (our_node_id pair) (ctx_source_peer pair),
           hop_delay = u32_or_max delay, hop_amount_msat = fwd\<rparr> # middle @
          [\<lparr>hop_id = our_node_id pair, hop_channel = ctx_dest_channel pair,
            hop_direction = channel_direction (ctx_dest_peer pair) (our_node_id pair),
            hop_delay = u32_or_max (invoice_final_cltv pair),
            hop_amount_msat = ctx_amount_sats pair * 1000\<rparr>]"
    using assms(1) by (auto simp: assemble_route_def result_simps Let_def)
  have "?over \<le> cost * 1000 \<and> 0 \<le> cost"
    using c router_ceil_div_covers [of ?over cost] by (auto split: if_splits)
  with ok rr assms(2) show ?thesis
    unfolding full_route_ok_def by blast
qed

lemma reprice_keeps_ids:
  "reprice_middle_route_amounts env final hs w = (Inr hs', w') \<Longrightarrow> map hop_id hs' = map hop_id hs"
  by (induction env final hs arbitrary: w w' hs' rule: reprice_middle_route_amounts.induct)
    (fastforce simp: action_simps split: option.splits)+

lemma translate_hop_id:
  "translate_hop_to_sendpay env hop = Inr h \<Longrightarrow> as_str (jix hop ''next_node_id'') = Some (hop_id h)"
  by (auto simp: translate_hop_to_sendpay_def result_simps)

lemma translated_ids:
  assumes "sequenceE (map (translate_hop_to_sendpay env) path) = Inr hs" "h \<in> set hs"
  shows "\<exists>hop \<in> set path. as_str (jix hop ''next_node_id'') = Some (hop_id h)"
  using assms
  by (induction path arbitrary: hs) (auto simp: result_simps dest: translate_hop_id)

lemma rr_fail_success [simp]: "\<not> rr_success (rr_fail msg)"
  by (simp add: rr_fail_def)

text \<open>A postcondition of the results that succeed; the steps before the last do not matter.\<close>

definition priced :: "(route_result \<Rightarrow> bool) \<Rightarrow> (string, route_result) result \<Rightarrow> router_world \<Rightarrow> bool" where
  "priced P r w = (\<forall>rr. r = Inr rr \<longrightarrow> rr_success rr \<longrightarrow> P rr)"

lemma priced_simps [simp]: "priced P (Inl e) w" "priced P (Inr (rr_fail msg)) w"
  by (simp_all add: priced_def)

lemma wp_skip: "(\<And>a t. wp (f a) (priced P) t) \<Longrightarrow> wp (bindA m f) (priced P) s"
  by (auto simp: wp_simps intro!: wpI split: sum.splits)

lemma priced_assemble:
  "\<forall>h \<in> set mid. hop_id h \<noteq> our_node_id pair \<Longrightarrow>
    wp (liftA (assemble_route pair ppm ch mid fwd delay)) (priced (full_route_ok pair)) w"
  by (auto simp: wp_simps priced_def intro: assemble_route_ok)

lemma price_middle_ok:
  assumes ids: "\<forall>h \<in> set sent. hop_id h \<noteq> our_node_id pair"
  shows "wp (price_middle env pair amount ppm base cltv ch sent) (priced (full_route_ok pair)) w"
  unfolding price_middle_def
proof (rule wp_seq [where P = "\<lambda>r _. \<forall>mid. r = Inr mid \<longrightarrow> (\<forall>h \<in> set mid. hop_id h \<noteq> our_node_id pair)"],
    goal_cases)
  case 1
  show ?case
    using ids by (intro wpI) (metis (no_types, opaque_lifting) reprice_keeps_ids imageE image_eqI image_set)
next
  case (3 mid t)
  then show ?case
    by (auto intro!: wp_skip priced_assemble split: list.splits option.splits) (simp_all add: wp_return)
qed simp

lemma priced_failing:
  "(\<And>a. r = Inr a \<Longrightarrow> wp (f a) (priced P) w) \<Longrightarrow> wp (failing r f) (priced P) w"
  by (auto simp: failing_def wp_simps split: sum.splits fault.splits)

lemma price_inner_ok:
  "wp (price_pair_inner env pair amount ppm base cltv layers) (priced (full_route_ok pair)) w"
  unfolding price_pair_inner_def
proof (rule wp_skip, goal_cases)
  have mid: "wp (failing (sequenceE (map (translate_hop_to_sendpay env) path))
       (price_middle env pair amount ppm base cltv ch)) (priced (full_route_ok pair)) t"
    if "validate_middle_path path (our_node_id pair) (ctx_dest_peer pair)" for path ch t
  proof (rule priced_failing, rule price_middle_ok)
    fix sent assume s: "sequenceE (map (translate_hop_to_sendpay env) path) = Inr sent"
    show "\<forall>h \<in> set sent. hop_id h \<noteq> our_node_id pair"
      using that translated_ids [OF s] unfolding validate_middle_path_def by fastforce
  qed
  case (1 r t)
  show ?case
    by (auto simp: Let_def wp_return simp del: cheapest_route.simps
        intro!: wp_skip priced_failing mid split: sum.splits list.splits)
qed

lemma try_price_pair_wp: "wp (try_price_pair env pair ex) (priced (full_route_ok pair)) w"
  unfolding try_price_pair_def Let_def
  by (intro wp_skip) (auto simp: wp_return split: option.splits intro!: wp_skip price_inner_ok)

lemma try_price_pair_ok:
  assumes "try_price_pair env pair ex w = (Inr rr, w')" "rr_success rr"
  shows "full_route_ok pair rr"
  using wpD [OF try_price_pair_wp assms(1)] assms(2) by (simp add: priced_def)

section \<open>What the executor receives\<close>

text \<open>
  The request the executor gets for a priced pair. Everything the executor checks about
  the endpoints and the price holds by construction; what is left is its check of the
  amounts along the route.
\<close>

definition priced_request :: "pair_ctx \<Rightarrow> route_result \<Rightarrow> int \<Rightarrow> int \<Rightarrow> execute_request" where
  "priced_request pair rr budget now =
     \<lparr>route = rr_route rr, req_amount_sats = ctx_amount_sats pair,
      source_channel_id = ctx_source_channel pair, dest_channel_id = ctx_dest_channel pair,
      max_fee_sats = budget, our_id = our_node_id pair, now_ms = now\<rparr>"

section \<open>A concrete pricing\<close>

definition demo_pair :: pair_ctx where
  "demo_pair = \<lparr>our_node_id = ''M'', ctx_source_channel = ''1x1x1'', ctx_dest_channel = ''2x2x2'',
     ctx_source_peer = ''A'', ctx_dest_peer = ''B'', ctx_amount_sats = 1000, layer_names = [],
     invoice_final_cltv = 18\<rparr>"

definition demo_reply :: "router_call \<Rightarrow> string + json" where
  "demo_reply c = (case c of
     ListPeerChannels p \<Rightarrow> Inr (JObj [(''channels'', JArr [JObj [(''peer_id'', JStr p),
       (''short_channel_id'', JStr ''2x2x2''),
       (''updates'', JObj [(''remote'', JObj [(''fee_proportional_millionths'', JInt 100),
          (''cltv_expiry_delta'', JInt 40)])])]])])
   | ListChannelsScid s \<Rightarrow> Inr (JObj [(''channels'', JArr [JObj [(''short_channel_id'', JStr s),
       (''source'', JStr ''A''), (''destination'', JStr ''B''), (''fee_per_millionth'', JInt 100),
       (''delay'', JInt 40)]])])
   | GetRoutes rq \<Rightarrow> Inr (JObj [(''routes'', JArr [JObj [(''amount_msat'', JInt 1001000),
       (''path'', JArr [JObj [(''short_channel_id_dir'', JStr ''9x9x9/1''), (''next_node_id'', JStr ''B''),
          (''amount_msat'', JInt 1001000), (''delay'', JInt 58)]])]])])
   | _ \<Rightarrow> Inr (JObj []))"

definition demo_router :: router_env where
  "demo_router = \<lparr>router_reply = \<lambda>_. demo_reply, router_clock = \<lambda>_. 7, drain_order = \<lambda>ns. ns,
     json_text = \<lambda>_. []\<rparr>"

definition demo_world :: router_world where
  "demo_world = \<lparr>rcalls = [], exclude_counter = 1, live_layers = None, exclude_layers = []\<rparr>"


definition demo_route :: route_result where
  "demo_route = \<lparr>rr_success = True, rr_error = None, rr_cost_sats = 2,
         rr_final_hop_ppm = 100, rr_hops = 3,
         rr_route =
           [\<lparr>hop_id = ''A'', hop_channel = ''1x1x1'', hop_direction = 1,
               hop_delay = 98, hop_amount_msat = 1001101\<rparr>,
            \<lparr>hop_id = ''B'', hop_channel = ''9x9x9'', hop_direction = 1,
               hop_delay = 58, hop_amount_msat = 1001000\<rparr>,
            \<lparr>hop_id = ''M'', hop_channel = ''2x2x2'', hop_direction = 0,
               hop_delay = 18, hop_amount_msat = 1000000\<rparr>],
         rr_probability_ppm = 0\<rparr>"

definition demo_layer :: string where "demo_layer = ''rebalance-exclude-7-1''"

definition demo_priced :: router_world where
  "demo_priced = \<lparr>rcalls =
     [ListPeerChannels ''B'', ListLayers,
      CreateLayer demo_layer,
      UpdateChannel demo_layer ''1x1x1/0'' False,
      UpdateChannel demo_layer ''1x1x1/1'' False,
      UpdateChannel demo_layer ''2x2x2/0'' False,
      UpdateChannel demo_layer ''2x2x2/1'' False,
      GetRoutes
       \<lparr>gr_source = ''A'', gr_destination = ''B'', gr_amount_msat = 1001000,
          gr_layers = [AUTO_NO_MPP_LAYER, demo_layer],
          gr_maxfee_msat = 1001000, gr_final_cltv = 58\<rparr>,
      ListChannelsScid ''9x9x9''],
     exclude_counter = 2, live_layers = Some [],
     exclude_layers = [([''1x1x1'', ''2x2x2''], demo_layer)]\<rparr>"

lemma demo_pricing: "try_price_pair demo_router demo_pair [] demo_world = (Inr demo_route, demo_priced)"
  by code_simp

section \<open>Properties\<close>

text \<open>C13. A route the router priced passes every check of the executor on its endpoints,
  on the delivered amount and on the fee ceiling: only the executor's check that the
  amounts never grow along the hops is left as a condition. The fee the executor plans
  is never above the price the router quoted.\<close>

theorem priced_route_is_executable:
  assumes "try_price_pair env pair ex w = (Inr rr, w')" "rr_success rr"
    and "0 < ctx_amount_sats pair" "rr_cost_sats rr \<le> budget" "in_i64 (budget * 1000)"
    and "check_hops 0 None (rr_route rr) = None"
  shows "\<exists>fee. validate_route (priced_request pair rr budget now) = Inr fee \<and> 0 \<le> fee \<and> fee \<le> rr_cost_sats rr * 1000"
proof -
  from try_price_pair_ok [OF assms(1,2)] obtain fwd delay middle
    where c: "fwd - ctx_amount_sats pair * 1000 \<le> rr_cost_sats rr * 1000" "0 \<le> rr_cost_sats rr"
      "in_i64 (ctx_amount_sats pair * 1000)" "in_i64 (fwd - ctx_amount_sats pair * 1000)"
    and r: "rr_route rr =
          \<lparr>hop_id = ctx_source_peer pair, hop_channel = ctx_source_channel pair,
           hop_direction = channel_direction (our_node_id pair) (ctx_source_peer pair),
           hop_delay = delay, hop_amount_msat = fwd\<rparr> # middle @
          [\<lparr>hop_id = our_node_id pair, hop_channel = ctx_dest_channel pair,
            hop_direction = channel_direction (ctx_dest_peer pair) (our_node_id pair),
            hop_delay = u32_or_max (invoice_final_cltv pair),
            hop_amount_msat = ctx_amount_sats pair * 1000\<rparr>]"
    unfolding full_route_ok_def by blast
  have b: "max budget 0 = budget" "rr_cost_sats rr * 1000 \<le> budget * 1000"
    using c assms(4) by auto
  have h: "hop_amount_msat (hd (rr_route rr)) = fwd" "hop_amount_msat (last (rr_route rr)) = ctx_amount_sats pair * 1000"
    "hop_channel (hd (rr_route rr)) = ctx_source_channel pair" "hop_channel (last (rr_route rr)) = ctx_dest_channel pair"
    "hop_id (last (rr_route rr)) = our_node_id pair" "rr_route rr \<noteq> []"
    by (simp_all add: r)
  have "validate_route (priced_request pair rr budget now) = Inr (max (fwd - ctx_amount_sats pair * 1000) 0)"
    using c b h assms(3,5,6) by (simp add: validate_route_def priced_request_def chk_i64_def Let_def)
  with c show ?thesis by auto
qed

theorem priced_route_is_executable_witness:
  "\<exists>fee. validate_route (priced_request demo_pair demo_route 5 0) = Inr fee \<and> 0 \<le> fee \<and>
     fee \<le> rr_cost_sats demo_route * 1000"
  by (rule priced_route_is_executable [OF demo_pricing])
    (simp_all add: demo_route_def demo_pair_def in_i64_def i64_min_def i64_max_def)

end
