(* ===== verification/RouterLayers.thy ===== *)
theory RouterLayers
  imports Router
begin

text \<open>
  The life of the throwaway layers. The calls a router makes are read as operations on an
  abstract askrene, which holds for every layer the channel directions disabled in it;
  the router's cache is shown to cover the layers it created and to describe what is
  disabled in them.
\<close>

section \<open>The abstract layers\<close>

type_synonym layer_state = "string \<rightharpoonup> string set"

fun on_call :: "router_call \<Rightarrow> layer_state \<Rightarrow> layer_state" where
  "on_call (CreateLayer n) m = m(n \<mapsto> {})"
| "on_call (UpdateChannel n e enabled) m =
     (case m n of None \<Rightarrow> m | Some S \<Rightarrow> m(n \<mapsto> (if enabled then S - {e} else insert e S)))"
| "on_call (RemoveLayer n) m = m(n := None)"
| "on_call _ m = m"

definition layers_of :: "router_call list \<Rightarrow> layer_state" where
  "layers_of cs = fold on_call cs Map.empty"

lemma layers_of_append: "layers_of (cs @ ds) = fold on_call ds (layers_of cs)"
  by (simp add: layers_of_def)

text \<open>Every query of a log meets a condition on the layers at that point.\<close>

fun asked :: "(layer_state \<Rightarrow> get_routes_request \<Rightarrow> bool) \<Rightarrow> layer_state \<Rightarrow> router_call list \<Rightarrow> bool" where
  "asked C m [] = True"
| "asked C m (c # cs) =
     ((case c of GetRoutes rq \<Rightarrow> C m rq | _ \<Rightarrow> True) \<and> asked C (on_call c m) cs)"

lemma asked_append: "asked C m (cs @ ds) \<longleftrightarrow> asked C m cs \<and> asked C (fold on_call cs m) ds"
  by (induction cs arbitrary: m) auto

definition asks :: "(layer_state \<Rightarrow> get_routes_request \<Rightarrow> bool) \<Rightarrow> router_world \<Rightarrow> router_world \<Rightarrow> bool" where
  "asks C w w' \<longleftrightarrow> (\<exists>new. rcalls w' = rcalls w @ new \<and> asked C (layers_of (rcalls w)) new)"

interpretation asking: step_relation "asks C"
proof
  show "asks C w w" for w by (auto simp: asks_def)
  show "asks C s u" if "asks C s t" "asks C t u" for s t u
    using that by (auto simp: asks_def asked_append layers_of_append)
qed

section \<open>Lookups\<close>

fun is_lookup :: "router_call \<Rightarrow> bool" where
  "is_lookup ListLayers = True"
| "is_lookup (ListPeerChannels p) = True"
| "is_lookup (ListChannelsScid s) = True"
| "is_lookup c = False"

lemma lookup_on_call: "is_lookup c \<Longrightarrow> on_call c m = m"
  by (cases c) auto

lemma lookups_on_calls: "list_all is_lookup cs \<Longrightarrow> fold on_call cs m = m"
  by (induction cs arbitrary: m) (auto simp: lookup_on_call)

lemma lookups_asked: "list_all is_lookup cs \<Longrightarrow> asked C m cs"
  by (induction cs arbitrary: m) (auto split: router_call.splits)

definition quiet :: "router_world \<Rightarrow> router_world \<Rightarrow> bool" where
  "quiet w w' \<longleftrightarrow> (\<exists>cs. list_all is_lookup cs \<and> rcalls w' = rcalls w @ cs) \<and>
     exclude_layers w' = exclude_layers w \<and> exclude_counter w' = exclude_counter w"

interpretation quietly: step_relation quiet
proof
  show "quiet w w" for w by (auto simp: quiet_def intro: exI [of _ "[]"])
  show "quiet s u" if "quiet s t" "quiet t u" for s t u
    using that by (auto simp: quiet_def list_all_append [symmetric])
qed

lemma quiet_layers: "quiet w w' \<Longrightarrow> layers_of (rcalls w') = layers_of (rcalls w)"
  by (auto simp: quiet_def layers_of_append lookups_on_calls)

lemma quiet_asks: "quiet w w' \<Longrightarrow> asks C w w'"
  by (auto simp: quiet_def asks_def lookups_asked)

lemma quiet_rcall: "is_lookup c \<Longrightarrow> steps quiet (rcall env c)"
  by (auto simp: steps_def rcall_def quiet_def intro!: exI [of _ "[c]"])

lemma quiet_final_hop_policy: "steps quiet (get_final_hop_policy env us dp dc)"
  unfolding get_final_hop_policy_def
  by (auto intro!: quietly.steps_bind quiet_rcall quietly.steps_return split: sum.splits option.splits)

lemma quiet_dest_cltv: "steps quiet (get_dest_channel_cltv env dp dc)"
  unfolding get_dest_channel_cltv_def
  by (intro quietly.steps_bind quiet_rcall quietly.steps_return) simp

lemma quiet_forwarding_policy: "steps quiet (get_forwarding_policy env src cid dst)"
  unfolding get_forwarding_policy_def
  by (auto intro!: quietly.steps_bind quiet_rcall quietly.steps_return)

lemma quiet_reprice: "steps quiet (reprice_middle_route_amounts env final hs)"
  by (induction env final hs rule: reprice_middle_route_amounts.induct)
    (auto intro!: quietly.steps_bind quiet_forwarding_policy quietly.steps_return split: option.splits)

lemma quiet_probe: "steps quiet (probe_layers env requested)"
  unfolding steps_def probe_layers_def
  by (auto simp: quietly.refl bindA_def rcall_def quiet_def Let_def split: option.splits sum.splits
      intro!: exI [of _ "[ListLayers]"])

lemma quiet_price_middle: "steps quiet (price_middle env pair amount ppm base cltv ch sent)"
  unfolding price_middle_def
  by (auto intro!: quietly.steps_bind quiet_reprice quiet_forwarding_policy quietly.steps_return
      split: list.splits option.splits)

lemma wp_quiet_bind:
  assumes "quiet v w" "steps quiet m" "\<And>a t. quiet v t \<Longrightarrow> wp (f a) Q t" "\<And>e t. quiet v t \<Longrightarrow> Q (Inl e) t"
  shows "wp (bindA m f) Q w"
proof (rule wp_seq [where P = "\<lambda>_ t. quiet v t"])
  show "wp m (\<lambda>_ t. quiet v t) w"
    using assms(2) by (rule wp_mono [OF steps_wp]) (rule quietly.trans [OF assms(1)])
qed (use assms(3,4) in auto)

section \<open>Creation\<close>

definition layer_name :: "nat \<Rightarrow> nat \<Rightarrow> string" where
  "layer_name ts i = EXCLUDE_LAYER_PREFIX @ dec_nat ts @ ''-'' @ dec_nat i"

lemma layer_name_counter: "layer_name ts i = layer_name us j \<Longrightarrow> i = j"
proof -
  assume "layer_name ts i = layer_name us j"
  then have e: "dec_nat ts @ CHR ''-'' # dec_nat i = dec_nat us @ CHR ''-'' # dec_nat j"
    by (simp add: layer_name_def)
  have no: "CHR ''-'' \<notin> set (dec_nat k)" for k
    using dec_nat_set [of "CHR ''-''" k] by auto
  have "dropWhile (\<lambda>c. c \<noteq> CHR ''-'') (dec_nat k @ CHR ''-'' # rest) = CHR ''-'' # rest" for k rest
    using no [of k] by (subst dropWhile_append2) auto
  with e have "dec_nat i = dec_nat j" by (metis list.inject)
  then show ?thesis by (simp add: dec_nat_inj)
qed

definition scid_dirs :: "string \<Rightarrow> string list" where
  "scid_dirs entry = (if CHR ''/'' \<in> set entry then [entry] else [entry @ ''/0'', entry @ ''/1''])"

lemma try_rcall_run:
  "try_rcall env c w = ((case router_reply env (rcalls w) c of Inl m \<Rightarrow> Inl (Fail m) | Inr v \<Rightarrow> Inr v),
     w\<lparr>rcalls := rcalls w @ [c]\<rparr>)"
  by (simp add: try_rcall_def bindA_def rcall_def split: sum.splits)

definition disables :: "string \<Rightarrow> string list \<Rightarrow> router_call list" where
  "disables n ds = map (\<lambda>d. UpdateChannel n d False) ds"

lemma disables_layers:
  "m n = Some S \<Longrightarrow> fold on_call (disables n ds) m = m(n \<mapsto> S \<union> set ds)"
  by (induction ds arbitrary: m S) (auto simp: disables_def)

lemma disables_asked: "asked C m (disables n ds)"
  by (induction ds arbitrary: m) (auto simp: disables_def)

lemma disable_entry_run:
  "disable_entry env n e w = (r, w') \<Longrightarrow>
     \<exists>ds. w' = w\<lparr>rcalls := rcalls w @ disables n ds\<rparr> \<and> (r = Inr () \<longrightarrow> ds = scid_dirs e)"
  by (auto simp: disable_entry_def scid_dirs_def disables_def bindA_def try_rcall_run
      split: if_splits sum.splits prod.splits intro: exI [of _ "[x]" for x] exI [of _ "[x, y]" for x y])

lemma disable_all_run:
  "forA (disable_entry env n) es w = (r, w') \<Longrightarrow>
     \<exists>ds. w' = w\<lparr>rcalls := rcalls w @ disables n ds\<rparr> \<and>
       (r = Inr () \<longrightarrow> ds = concat (map scid_dirs es))"
proof (induction es arbitrary: w)
  case Nil
  then show ?case by (auto simp: disables_def intro: exI [of _ "[]"])
next
  case (Cons e es)
  obtain r1 w1 where s: "disable_entry env n e w = (r1, w1)" by force
  from disable_entry_run [OF s] obtain ds where d: "w1 = w\<lparr>rcalls := rcalls w @ disables n ds\<rparr>"
    "r1 = Inr () \<longrightarrow> ds = scid_dirs e" by blast
  show ?case
  proof (cases r1)
    case (Inl f)
    with Cons.prems s d show ?thesis by (auto simp: bindA_def)
  next
    case (Inr u)
    with Cons.prems s have "forA (disable_entry env n) es w1 = (r, w')" by (simp add: bindA_def)
    from Cons.IH [OF this] obtain ds' where "w' = w1\<lparr>rcalls := rcalls w1 @ disables n ds'\<rparr>"
      "r = Inr () \<longrightarrow> ds' = concat (map scid_dirs es)" by blast
    with d Inr show ?thesis by (auto simp: disables_def intro: exI [of _ "ds @ ds'"])
  qed
qed

lemma build_exclude_layer_run:
  assumes "build_exclude_layer env es w = (r, w')"
  defines "n \<equiv> layer_name (router_clock env (rcalls w)) (unat (exclude_counter w))"
  shows "exclude_layers w' = exclude_layers w \<and> exclude_counter w' = exclude_counter w + 1 \<and>
    (r = Inr n \<and> rcalls w' = rcalls w @ CreateLayer n # disables n (concat (map scid_dirs es)) \<or>
     (\<exists>e ds. r = Inl e \<and> rcalls w' = rcalls w @ CreateLayer n # disables n ds @ [RemoveLayer n]))"
proof -
  let ?w0 = "w\<lparr>exclude_counter := exclude_counter w + 1\<rparr>"
  let ?w1 = "?w0\<lparr>rcalls := rcalls w @ [CreateLayer n]\<rparr>"
  have mint: "mint_exclude_layer_name env w = (Inr n, ?w0)"
    by (simp add: mint_exclude_layer_name_def n_def layer_name_def)
  obtain r2 w2 where all: "forA (disable_entry env n) es ?w1 = (r2, w2)" by force
  from disable_all_run [OF all] obtain ds where d: "w2 = ?w1\<lparr>rcalls := rcalls ?w1 @ disables n ds\<rparr>"
    "r2 = Inr () \<longrightarrow> ds = concat (map scid_dirs es)" by blast
  show ?thesis
  proof (cases "router_reply env (rcalls w) (CreateLayer n)")
    case (Inl m)
    with assms(1) mint show ?thesis
      by (auto simp: build_exclude_layer_def bindA_def handleA_def try_rcall_run rcall_def disables_def
          intro: exI [of _ "[]"])
  next
    case (Inr v)
    with assms(1) mint all have "(case r2 of Inl e \<Rightarrow> bindA (rcall env (RemoveLayer n)) (\<lambda>_. liftA (Inl e))
        | Inr _ \<Rightarrow> returnA n) w2 = (r, w')"
      by (simp add: build_exclude_layer_def bindA_def handleA_def try_rcall_run)
    with d show ?thesis
      by (cases r2) (auto simp: bindA_def rcall_def)
  qed
qed


section \<open>No layer is left behind\<close>

text \<open>Every layer created and not removed is in the cache, or was there before (in \<open>B\<close>).\<close>

definition covered :: "string set \<Rightarrow> router_world \<Rightarrow> bool" where
  "covered B w \<longleftrightarrow> dom (layers_of (rcalls w)) \<subseteq> B \<union> snd ` set (exclude_layers w)"

text \<open>Every cached layer exists and disables the entries of its key.\<close>

definition disabled_in :: "layer_state \<Rightarrow> string \<Rightarrow> string \<Rightarrow> bool" where
  "disabled_in m n entry \<longleftrightarrow> (case m n of None \<Rightarrow> False | Some S \<Rightarrow> set (scid_dirs entry) \<subseteq> S)"

definition described :: "router_world \<Rightarrow> bool" where
  "described w \<longleftrightarrow> (\<forall>(k, n) \<in> set (exclude_layers w).
     n \<in> dom (layers_of (rcalls w)) \<and> (\<forall>e \<in> set k. disabled_in (layers_of (rcalls w)) n e) \<and>
     (\<exists>ts i. n = layer_name ts i \<and> i < unat (exclude_counter w)))"

lemma covered_quiet: "quiet w w' \<Longrightarrow> covered B w' = covered B w"
  by (simp add: covered_def quiet_layers) (simp add: quiet_def)

lemma described_quiet: "quiet w w' \<Longrightarrow> described w' = described w"
  by (simp add: described_def quiet_layers) (simp add: quiet_def)

lemma set_bt_insert_new: "map_of m k = None \<Longrightarrow> set (bt_insert k v m) = insert (k, v) (set m)"
  by (induction k v m rule: bt_insert.induct) (auto split: if_splits)

lemma build_failed_layers:
  "layers_of (cs @ CreateLayer n # disables n ds @ [RemoveLayer n]) = (layers_of cs)(n := None)"
  by (simp add: layers_of_append disables_layers)

lemma build_done_layers:
  "layers_of (cs @ CreateLayer n # disables n ds) = (layers_of cs)(n \<mapsto> set ds)"
  by (simp add: layers_of_append disables_layers)

lemma exclude_layer_cases:
  assumes "exclude_layer env es w = (r, w')"
  defines "n \<equiv> layer_name (router_clock env (rcalls w)) (unat (exclude_counter w))" and "k \<equiv> sort (remdups es)"
  obtains (hit) m where "map_of (exclude_layers w) k = Some m" "r = Inr m" "w' = w"
  | (made) "r = Inr n" "map_of (exclude_layers w) k = None"
      "exclude_layers w' = bt_insert k n (exclude_layers w)"
      "exclude_counter w' = exclude_counter w + 1"
      "rcalls w' = rcalls w @ CreateLayer n # disables n (concat (map scid_dirs es))"
  | (failed) e ds where "r = Inl e" "exclude_layers w' = exclude_layers w"
      "exclude_counter w' = exclude_counter w + 1"
      "rcalls w' = rcalls w @ CreateLayer n # disables n ds @ [RemoveLayer n]"
proof (cases "map_of (exclude_layers w) k")
  case (Some m)
  then have "r = Inr m \<and> w' = w"
    using assms(1) by (simp add: exclude_layer_def k_def Let_def)
  with Some show ?thesis by (auto intro: hit)
next
  case None
  obtain r1 w1 where b: "build_exclude_layer env es w = (r1, w1)" by force
  have x: "(r, w') = (case r1 of Inl e \<Rightarrow> (Inl e, w1)
      | Inr name \<Rightarrow> (Inr name, w1\<lparr>exclude_layers := bt_insert k name (exclude_layers w1)\<rparr>))"
    using assms(1) None b by (auto simp: exclude_layer_def Let_def bindA_def k_def split: sum.splits)
  from build_exclude_layer_run [OF b, folded n_def] consider
    "r1 = Inr n" "rcalls w1 = rcalls w @ CreateLayer n # disables n (concat (map scid_dirs es))"
  | e ds where "r1 = Inl e" "rcalls w1 = rcalls w @ CreateLayer n # disables n ds @ [RemoveLayer n]"
    by blast
  then show ?thesis
  proof cases
    case 1
    with x None build_exclude_layer_run [OF b] show ?thesis by (intro made) simp_all
  next
    case (2 e ds)
    with x build_exclude_layer_run [OF b] show ?thesis by (intro failed) simp_all
  qed
qed

lemma covered_exclude_layer:
  assumes "exclude_layer env es w = (r, w')" "covered B w"
  shows "covered B w'"
  using assms(1)
proof (cases rule: exclude_layer_cases)
  case made
  with assms(2) show ?thesis
    by (auto simp: covered_def set_bt_insert_new build_done_layers)
next
  case (failed e ds)
  with assms(2) show ?thesis
    by (auto simp: covered_def build_failed_layers)
qed (use assms(2) in auto)

lemma described_other:
  assumes "described w" "(k, m) \<in> set (exclude_layers w)"
  shows "m \<noteq> layer_name ts (unat (exclude_counter w))"
  using assms by (fastforce simp: described_def dest: layer_name_counter)

lemma described_exclude_layer:
  assumes run: "exclude_layer env es w = (r, w')" and ok: "described w" and fresh: "unat (exclude_counter w) + 1 < 2 ^ 64"
  shows "described w' \<and> (\<forall>n. r = Inr n \<longrightarrow> (\<forall>e \<in> set es. disabled_in (layers_of (rcalls w')) n e))"
  using run
proof (cases rule: exclude_layer_cases)
  case (hit m)
  with ok show ?thesis
    by (force simp: described_def dest: map_of_SomeD)
next
  case made
  let ?n = "layer_name (router_clock env (rcalls w)) (unat (exclude_counter w))"
  have new: "disabled_in (layers_of (rcalls w')) ?n e" if "e \<in> set es" for e
    using that made by (auto simp: disabled_in_def build_done_layers)
  have old: "layers_of (rcalls w') m = layers_of (rcalls w) m" if "(k, m) \<in> set (exclude_layers w)" for k m
    using described_other [OF ok that] made by (simp add: build_done_layers)
  have cnt: "unat (exclude_counter w') = unat (exclude_counter w) + 1"
    using made fresh by (simp add: unat_word_ariths)
  have "described w'"
    unfolding described_def
  proof (rule ballI, clarify)
    fix k m assume "(k, m) \<in> set (exclude_layers w')"
    then consider "k = sort (remdups es)" "m = ?n" | "(k, m) \<in> set (exclude_layers w)"
      using made by (auto simp: set_bt_insert_new)
    then show "m \<in> dom (layers_of (rcalls w')) \<and> (\<forall>e\<in>set k. disabled_in (layers_of (rcalls w')) m e) \<and>
       (\<exists>ts i. m = layer_name ts i \<and> i < unat (exclude_counter w'))"
    proof cases
      case 1
      with new cnt made(5) show ?thesis by (auto simp: build_done_layers)
    next
      case 2
      with ok old [OF 2] cnt show ?thesis
        by (fastforce simp: described_def disabled_in_def dom_def)
    qed
  qed
  with new made show ?thesis by auto
next
  case (failed e ds)
  have old: "layers_of (rcalls w') m = layers_of (rcalls w) m" if "(k, m) \<in> set (exclude_layers w)" for k m
    using described_other [OF ok that] failed by (simp add: build_failed_layers)
  have cnt: "unat (exclude_counter w') = unat (exclude_counter w) + 1"
    using failed fresh by (simp add: unat_word_ariths)
  have "described w'"
    unfolding described_def
  proof (rule ballI, clarify)
    fix k m assume "(k, m) \<in> set (exclude_layers w')"
    then have "(k, m) \<in> set (exclude_layers w)" using failed by simp
    with ok old [OF this] cnt show "m \<in> dom (layers_of (rcalls w')) \<and> (\<forall>e\<in>set k. disabled_in (layers_of (rcalls w')) m e) \<and>
       (\<exists>ts i. m = layer_name ts i \<and> i < unat (exclude_counter w'))"
      by (fastforce simp: described_def disabled_in_def dom_def)
  qed
  with failed show ?thesis by auto
qed

text \<open>The teardown removes what the cache names and empties it.\<close>

lemma remove_all_run:
  "forA (\<lambda>n. bindA (rcall env (RemoveLayer n)) (\<lambda>_. returnA ())) ns w =
     (Inr (), w\<lparr>rcalls := rcalls w @ map RemoveLayer ns\<rparr>)"
  by (induction ns arbitrary: w) (simp_all add: bindA_def rcall_def)

lemma removes_layers: "fold on_call (map RemoveLayer ns) m = m |` (- set ns)"
  by (induction ns arbitrary: m) (auto simp: restrict_map_def fun_eq_iff)

lemma removes_asked: "asked C m (map RemoveLayer ns)"
  by (induction ns arbitrary: m) auto

lemma teardown_run:
  "teardown_exclude_layers env w =
     (Inr (), w\<lparr>exclude_layers := [],
        rcalls := rcalls w @ map RemoveLayer (drain_order env (map snd (exclude_layers w)))\<rparr>)"
  by (simp add: teardown_exclude_layers_def remove_all_run Let_def)

definition drains :: "router_env \<Rightarrow> bool" where
  "drains env \<longleftrightarrow> (\<forall>ns. set (drain_order env ns) = set ns)"

definition tearing :: "router_env \<Rightarrow> router_world \<Rightarrow> router_world \<Rightarrow> bool" where
  "tearing env w w' \<longleftrightarrow> exclude_layers w' = [] \<and> exclude_counter w' = exclude_counter w \<and>
     rcalls w' = rcalls w @ map RemoveLayer (drain_order env (map snd (exclude_layers w)))"

lemma covered_tearing: "tearing env w w' \<Longrightarrow> drains env \<Longrightarrow> covered B w \<Longrightarrow> covered B w'"
  by (auto simp: tearing_def drains_def covered_def layers_of_append removes_layers restrict_map_def
      dom_def image_def split: if_splits)

lemma described_tearing: "tearing env w w' \<Longrightarrow> described w'"
  by (simp add: tearing_def described_def)

lemma tearing_asks: "tearing env w w' \<Longrightarrow> asks C w w'"
  by (auto simp: tearing_def asks_def removes_asked)

lemma end_cycle_tears: "end_cycle env w = (r, w') \<Longrightarrow> tearing env w w'"
  by (auto simp: end_cycle_def teardown_run tearing_def)

section \<open>One pricing\<close>

lemma price_inner_calls:
  assumes run: "price_pair_inner env pair amount ppm base cltv layers w = (r, w')"
  defines "rq \<equiv> \<lparr>gr_source = ctx_source_peer pair, gr_destination = ctx_dest_peer pair,
       gr_amount_msat = amount, gr_layers = layers, gr_maxfee_msat = amount, gr_final_cltv = cltv\<rparr>"
  shows "quiet (w\<lparr>rcalls := rcalls w @ [GetRoutes rq]\<rparr>) w' \<or> tearing env (w\<lparr>rcalls := rcalls w @ [GetRoutes rq]\<rparr>) w'"
proof -
  let ?w = "w\<lparr>rcalls := rcalls w @ [GetRoutes rq]\<rparr>"
  have q: "quiet ?w t" if "price_middle env pair a ppm base cltv ch sent ?w = (r', t)" for a ch sent r' t
    using quiet_price_middle that by (rule stepsD)
  show ?thesis
    using run quietly.refl [of ?w] q
    by (auto simp: price_pair_inner_def bindA_def rcall_def rq_def [symmetric] Let_def
        failing_def invalidate_layer_cache_def teardown_run tearing_def
        simp del: cheapest_route.simps split: sum.splits list.splits if_splits fault.splits)
qed

text \<open>What a query must look like: a layer disables both endpoints and every retry exclusion.\<close>

definition endpoints_excluded ::
  "pair_ctx \<Rightarrow> string list \<Rightarrow> layer_state \<Rightarrow> get_routes_request \<Rightarrow> bool" where
  "endpoints_excluded pair ex m rq \<longleftrightarrow>
     gr_source rq = ctx_source_peer pair \<and> gr_destination rq = ctx_dest_peer pair \<and>
     gr_maxfee_msat rq = gr_amount_msat rq \<and> AUTO_NO_MPP_LAYER \<in> set (gr_layers rq) \<and>
     (\<forall>e \<in> set ex \<union> ({ctx_source_channel pair, ctx_dest_channel pair} - {[]}).
        \<exists>n \<in> set (gr_layers rq). disabled_in m n e)"

lemma set_with_endpoint: "set (with_endpoint s es) = set es \<union> ({s} - {[]})"
  by (auto simp: with_endpoint_def)

lemma asks_inner:
  assumes "price_pair_inner env pair amount ppm base cltv layers w = (r, w')"
    and "AUTO_NO_MPP_LAYER \<in> set layers"
    and "\<forall>e \<in> set ex \<union> ({ctx_source_channel pair, ctx_dest_channel pair} - {[]}).
        \<exists>n \<in> set layers. disabled_in (layers_of (rcalls w)) n e"
  shows "asks (endpoints_excluded pair ex) w w'"
proof -
  let ?rq = "\<lparr>gr_source = ctx_source_peer pair, gr_destination = ctx_dest_peer pair,
       gr_amount_msat = amount, gr_layers = layers, gr_maxfee_msat = amount, gr_final_cltv = cltv\<rparr>"
  let ?u = "w\<lparr>rcalls := rcalls w @ [GetRoutes ?rq]\<rparr>"
  have "asks (endpoints_excluded pair ex) w ?u"
    using assms(2,3) by (auto simp: asks_def endpoints_excluded_def)
  moreover have "asks (endpoints_excluded pair ex) ?u w'"
    using price_inner_calls [OF assms(1)] by (auto intro: quiet_asks tearing_asks)
  ultimately show ?thesis by (rule asking.trans)
qed

text \<open>A pricing either stops during lookups, or fails to build the layer, or asks.\<close>

lemma try_price_pair_cases:
  assumes "try_price_pair env pair ex w = (r, w')"
  defines "es \<equiv> with_endpoint (ctx_dest_channel pair) (with_endpoint (ctx_source_channel pair) ex)"
  obtains (lookups) "quiet w w'"
  | (unbuilt) u e where "quiet w u" "exclude_layer env es u = (Inl e, w')"
  | (unrestricted) u amount ppm base cltv layers where "quiet w u" "es = []" "AUTO_NO_MPP_LAYER \<in> set layers"
      "price_pair_inner env pair amount ppm base cltv layers u = (r, w')"
  | (restricted) u v n amount ppm base cltv layers where "quiet w u" "AUTO_NO_MPP_LAYER \<in> set layers"
      "exclude_layer env es u = (Inr n, v)"
      "price_pair_inner env pair amount ppm base cltv (layers @ [n]) v = (r, w')"
proof -
  define Q where "Q r w' \<longleftrightarrow> quiet w w' \<or> (\<exists>u e. quiet w u \<and> exclude_layer env es u = (Inl e, w')) \<or>
     (\<exists>u amount ppm base cltv layers. quiet w u \<and> es = [] \<and> AUTO_NO_MPP_LAYER \<in> set layers \<and>
        price_pair_inner env pair amount ppm base cltv layers u = (r, w')) \<or>
     (\<exists>u v n amount ppm base cltv layers. quiet w u \<and> AUTO_NO_MPP_LAYER \<in> set layers \<and>
        exclude_layer env es u = (Inr n, v) \<and>
        price_pair_inner env pair amount ppm base cltv (layers @ [n]) v = (r, w'))" for r w'
  have stop: "quiet w t \<Longrightarrow> Q r t" for r t by (simp add: Q_def)
  have ask: "wp (bindA (if es = [] then returnA layers
                   else bindA (exclude_layer env es) (\<lambda>name. returnA (layers @ [name]))) (\<lambda>layers.
            price_pair_inner env pair amount ppm base cltv layers)) Q u"
    if "quiet w u" "AUTO_NO_MPP_LAYER \<in> set layers" for amount ppm base cltv layers u
  proof (cases "es = []")
    case True
    with that show ?thesis by (fastforce simp: Q_def bindA_def wp_iff)
  next
    case False
    with that show ?thesis by (fastforce simp: Q_def bindA_def wp_iff split: sum.splits prod.splits)
  qed
  have "wp (try_price_pair env pair ex) Q w"
    unfolding try_price_pair_def Let_def es_def [symmetric]
  proof (rule wp_quiet_bind [OF quietly.refl quiet_final_hop_policy _ stop], goal_cases)
    case (1 pol t)
    show ?case
    proof (cases pol)
      case None
      with 1 show ?thesis by (simp add: wp_return stop)
    next
      case (Some p)
      show ?thesis
        unfolding Some option.case
        by (intro wp_quiet_bind [OF 1] wp_quiet_bind [where v = w] quiet_dest_cltv quietly.steps_return
            quiet_probe stop ask)
          (auto intro: quietly.steps_return quiet_dest_cltv)
    qed
  qed
  from wpD [OF this assms(1)] show ?thesis
    unfolding Q_def using that by blast
qed


lemma covered_inner:
  assumes "price_pair_inner env pair amount ppm base cltv layers w = (r, w')" "drains env" "covered B w"
  shows "covered B w'"
proof -
  have "covered B (w\<lparr>rcalls := rcalls w @ [GetRoutes rq]\<rparr>)" for rq
    using assms(3) by (simp add: covered_def layers_of_append)
  then show ?thesis
    using price_inner_calls [OF assms(1)] covered_tearing [OF _ assms(2)] covered_quiet by blast
qed

lemma described_inner:
  assumes "price_pair_inner env pair amount ppm base cltv layers w = (r, w')" "described w"
  shows "described w' \<and> exclude_counter w' = exclude_counter w"
proof -
  have d: "described (w\<lparr>rcalls := rcalls w @ [GetRoutes rq]\<rparr>)" for rq
    using assms(2) by (simp add: described_def layers_of_append)
  from price_inner_calls [OF assms(1)] show ?thesis
  proof (elim disjE)
    assume q: "quiet (w\<lparr>rcalls := rcalls w @ [GetRoutes
      \<lparr>gr_source = ctx_source_peer pair, gr_destination = ctx_dest_peer pair, gr_amount_msat = amount,
       gr_layers = layers, gr_maxfee_msat = amount, gr_final_cltv = cltv\<rparr>]\<rparr>) w'"
    with d show ?thesis by (simp add: described_quiet [OF q]) (simp add: quiet_def)
  qed (simp add: tearing_def described_def)
qed

lemma covered_pricing:
  assumes "try_price_pair env pair ex w = (r, w')" "drains env" "covered B w"
  shows "covered B w'"
  using assms(1)
proof (cases rule: try_price_pair_cases)
  case (unbuilt u e)
  then have "covered B u" using assms(3) covered_quiet by simp
  then show ?thesis by (rule covered_exclude_layer [OF unbuilt(2)])
next
  case (unrestricted u amount ppm base cltv layers)
  then have "covered B u" using assms(3) covered_quiet by simp
  then show ?thesis by (rule covered_inner [OF unrestricted(4) assms(2)])
next
  case (restricted u v n amount ppm base cltv layers)
  then have "covered B u" using assms(3) covered_quiet by simp
  then have "covered B v" by (rule covered_exclude_layer [OF restricted(3)])
  then show ?thesis by (rule covered_inner [OF restricted(4) assms(2)])
qed (use assms(3) covered_quiet in simp)

lemma exclude_layer_asks:
  "exclude_layer env es w = (r, w') \<Longrightarrow> asks C w w'"
  by (erule exclude_layer_cases)
    (auto simp: asks_def asked_append disables_asked intro: exI [of _ "[]"])

lemma exclude_layer_counter:
  assumes "exclude_layer env es w = (r, w')"
  shows "unat (exclude_counter w') \<le> Suc (unat (exclude_counter w))"
  using assms mod_less_eq_dividend [of "unat (exclude_counter w) + 1" "2 ^ 64"]
  by (cases rule: exclude_layer_cases) (simp_all add: unat_word_ariths)

lemma described_pricing:
  assumes run: "try_price_pair env pair ex w = (r, w')"
    and ok: "described w" "unat (exclude_counter w) + 1 < 2 ^ 64"
  shows "described w' \<and> unat (exclude_counter w') \<le> unat (exclude_counter w) + 1 \<and> asks (endpoints_excluded pair ex) w w'"
  using run
proof (cases rule: try_price_pair_cases)
  case lookups
  then show ?thesis
    using ok quiet_asks by (auto simp: described_quiet) (auto simp: quiet_def)
next
  case (unbuilt u e)
  have u: "described u" "exclude_counter u = exclude_counter w" "asks (endpoints_excluded pair ex) w u"
    using unbuilt(1) ok(1) by (auto simp: described_quiet quiet_asks) (auto simp: quiet_def)
  have x: "asks (endpoints_excluded pair ex) w w'"
    using u(3) exclude_layer_asks [OF unbuilt(2)] by (rule asking.trans)
  show ?thesis
    using described_exclude_layer [OF unbuilt(2) u(1)] exclude_layer_counter [OF unbuilt(2)] u(2) x ok(2) by auto
next
  case (unrestricted u amount ppm base cltv layers)
  have u: "described u" "exclude_counter u = exclude_counter w" "asks (endpoints_excluded pair ex) w u"
    using unrestricted(1) ok(1) by (auto simp: described_quiet quiet_asks) (auto simp: quiet_def)
  have "set ex \<union> ({ctx_source_channel pair, ctx_dest_channel pair} - {[]}) = {}"
    using unrestricted(2) by (auto simp: with_endpoint_def split: if_splits)
  then have "asks (endpoints_excluded pair ex) u w'"
    by (intro asks_inner [OF unrestricted(4,3)]) simp
  with u described_inner [OF unrestricted(4)] show ?thesis by (auto intro: asking.trans)
next
  case (restricted u v n amount ppm base cltv layers)
  have u: "described u" "exclude_counter u = exclude_counter w" "asks (endpoints_excluded pair ex) w u"
    using restricted(1) ok(1) by (auto simp: described_quiet quiet_asks) (auto simp: quiet_def)
  have v: "described v" "unat (exclude_counter v) \<le> unat (exclude_counter w) + 1" "asks (endpoints_excluded pair ex) w v"
    "\<forall>e \<in> set (with_endpoint (ctx_dest_channel pair) (with_endpoint (ctx_source_channel pair) ex)).
       disabled_in (layers_of (rcalls v)) n e"
    using described_exclude_layer [OF restricted(3) u(1)] exclude_layer_counter [OF restricted(3)] u ok(2)
      asking.trans [OF u(3) exclude_layer_asks [OF restricted(3)]] by auto
  have "asks (endpoints_excluded pair ex) v w'"
    using v(4) restricted(2) by (intro asks_inner [OF restricted(4)]) (auto simp: set_with_endpoint)
  with v described_inner [OF restricted(4)] show ?thesis by (auto intro: asking.trans)
qed

section \<open>A cycle\<close>

text \<open>
  A cycle prices pairs in any order, each choice free to depend on the results so far.
  Dropping the router ends it, also when a pricing panicked.
\<close>

inductive pricing :: "router_env \<Rightarrow> router_world \<Rightarrow> nat \<Rightarrow> router_world \<Rightarrow> bool" for env w where
  start: "pricing env w 0 w"
| price: "pricing env w n u \<Longrightarrow> try_price_pair env pair ex u = (r, v) \<Longrightarrow> pricing env w (Suc n) v"

lemma pricing_covered: "pricing env w n u \<Longrightarrow> drains env \<Longrightarrow> covered B w \<Longrightarrow> covered B u"
  by (induction rule: pricing.induct) (auto intro: covered_pricing)

lemma pricing_described:
  "pricing env w n u \<Longrightarrow> described w \<Longrightarrow> unat (exclude_counter w) + n < 2 ^ 64 \<Longrightarrow>
     described u \<and> unat (exclude_counter u) \<le> unat (exclude_counter w) + n"
proof (induction rule: pricing.induct)
  case (price n u pair ex r v)
  then have u: "described u" "unat (exclude_counter u) \<le> unat (exclude_counter w) + n" by auto
  with price.prems have "unat (exclude_counter u) + 1 < 2 ^ 64" by linarith
  from described_pricing [OF price.hyps(2) u(1) this] u(2) show ?case by auto
qed simp

section \<open>Properties\<close>

text \<open>C14. A pricing cycle leaks no throwaway layer: whatever pairs are priced, in whatever
  order, and whether the pricings succeed, fail half-way through building a layer or
  panic, once the router is dropped a removal has been issued after the last creation of
  every layer the cycle made.\<close>

theorem cycle_leaves_no_layer:
  assumes "drains env"
    and "pricing env (begin_cycle w) n u"
    and "end_cycle env u = (r, w')"
  shows "dom (layers_of (rcalls w')) \<subseteq> dom (layers_of (rcalls w))"
proof -
  have "covered (dom (layers_of (rcalls w))) (begin_cycle w)"
    by (simp add: covered_def begin_cycle_def)
  then have "covered (dom (layers_of (rcalls w))) u"
    by (rule pricing_covered [OF assms(2,1)])
  then have "covered (dom (layers_of (rcalls w))) w'"
    by (rule covered_tearing [OF end_cycle_tears [OF assms(3)] assms(1)])
  with end_cycle_tears [OF assms(3)] show ?thesis
    by (simp add: covered_def tearing_def)
qed

theorem cycle_leaves_no_layer_witness:
  "dom (layers_of (rcalls (snd (end_cycle demo_router demo_priced)))) \<subseteq> dom (layers_of (rcalls demo_world))"
proof (rule cycle_leaves_no_layer)
  show "drains demo_router"
    by (simp add: drains_def demo_router_def)
  have "begin_cycle demo_world = demo_world"
    by (simp add: begin_cycle_def demo_world_def)
  then show "pricing demo_router (begin_cycle demo_world) (Suc 0) demo_priced"
    using demo_pricing by (metis pricing.start pricing.price)
  show "end_cycle demo_router demo_priced =
      (fst (end_cycle demo_router demo_priced), snd (end_cycle demo_router demo_priced))"
    by simp
qed

text \<open>C15. Every \<open>getroutes\<close> query of a cycle names a layer that exists at that moment and in
  which both of our own channels and every retry exclusion are disabled (both directions
  of a bare channel id), asks for a fee of at most the amount, and forbids multi-part
  routes; this holds for cached layers too, and until the 64-bit counter of layer names
  wraps.\<close>

theorem queries_avoid_own_channels:
  assumes "pricing env (begin_cycle w) n u"
    and "unat (exclude_counter w) + n + 1 < 2 ^ 64"
    and "try_price_pair env pair ex u = (r, v)"
  shows "\<exists>new. rcalls v = rcalls u @ new \<and> asked (endpoints_excluded pair ex) (layers_of (rcalls u)) new"
proof -
  have "described (begin_cycle w)" "exclude_counter (begin_cycle w) = exclude_counter w"
    by (simp_all add: described_def begin_cycle_def)
  with pricing_described [OF assms(1)] assms(2) have "described u" "unat (exclude_counter u) + 1 < 2 ^ 64"
    by auto
  from described_pricing [OF assms(3) this] show ?thesis by (simp add: asks_def)
qed

theorem queries_avoid_own_channels_witness:
  "\<exists>new. rcalls demo_priced = rcalls demo_world @ new \<and>
     asked (endpoints_excluded demo_pair []) (layers_of (rcalls demo_world)) new"
proof -
  have b: "begin_cycle demo_world = demo_world"
    by (simp add: begin_cycle_def demo_world_def)
  show ?thesis
    by (rule queries_avoid_own_channels [OF _ _ demo_pricing, of demo_world 0])
      (simp_all add: b pricing.start, simp add: demo_world_def)
qed

end
