(* ===== verification/EngineBase.thy ===== *)
theory EngineBase
  imports Budget Cooldowns RebalanceEv Planner Router "HOL-Library.Product_Lexorder"
begin

text \<open>
  The data, the pure helpers and the seams of the rebalance engine
  (\<open>revops-rebalance/src/engine.rs\<close>, \<open>route_policy.rs\<close>). Everything the engine talks to (store, router, executor, policies,
  clock) is a parameter whose replies depend on the calls made so far; the calls are
  kept in the state in the order they were made.
\<close>

section \<open>Pure helpers\<close>

text \<open>The halving loop of the partial amounts.\<close>

function partial_loop :: "int \<Rightarrow> int \<Rightarrow> int list \<Rightarrow> int \<Rightarrow> int list" where
  "partial_loop orig min_amount amounts cur =
     (if min_amount \<le> cur \<and> length amounts < 6 then
        let amounts' = (if cur < orig \<and> cur \<notin> set amounts then amounts @ [cur] else amounts);
            next_amount = trunc_div cur 2
        in if next_amount = cur then amounts' else partial_loop orig min_amount amounts' next_amount
      else amounts)"
  by pat_completeness auto

termination
proof (relation "measure (\<lambda>(_, _, _, cur). nat \<bar>cur\<bar>)", goal_cases)
  case (2 orig min_amount amounts cur pushed next_amount)
  have "\<bar>trunc_div cur 2\<bar> = \<bar>cur\<bar> div 2"
    by (auto simp: trunc_div_def abs_mult)
  moreover from 2 have "cur \<noteq> 0" by (auto simp: trunc_div_def)
  ultimately show ?case using 2 by simp
qed simp

declare partial_loop.simps [simp del]

definition native_partial_amounts :: "int \<Rightarrow> int list" where
  "native_partial_amounts orig =
     (if orig \<le> 0 then []
      else let min_amount = min (orig - 1) (max 1000 (min 5000 (trunc_div orig 2)))
           in if min_amount \<le> 0 then []
              else let amounts = partial_loop orig min_amount [] (trunc_div orig 2);
                       amounts' = (if min_amount < orig \<and> min_amount \<notin> set amounts
                         then amounts @ [min_amount] else amounts)
                   in take 7 amounts')"

definition classify_failure_kind_str :: "string \<Rightarrow> string" where
  "classify_failure_kind_str msg =
     (let e = to_lowercase msg
      in if contains_str ''temporary_channel_failure'' e then ''temporary_channel_failure''
         else if contains_str ''noroutes'' e \<or> contains_str ''no_routes'' e \<or> contains_str ''no route'' e
                 \<or> contains_str ''no_route'' e then ''temporary_channel_failure''
         else if contains_str ''fee_insufficient'' e then ''fee_insufficient''
         else if contains_str ''incorrect_cltv_expiry'' e then ''incorrect_cltv_expiry''
         else if contains_str ''permanent_failure'' e then ''permanent_failure''
         else if contains_str ''payment_pending_timeout'' e then ''payment_pending_timeout''
         else if contains_str ''local_execution_failed'' e then ''local_execution_failed''
         else ''other_retriable'')"

definition probability_adjusted_budget :: "int \<Rightarrow> int \<Rightarrow> f64 \<Rightarrow> int" where
  "probability_adjusted_budget budget_sats ppm bonus_rate =
     (if f64_le bonus_rate (f64_of_int 0) \<or> ppm \<le> 0 then budget_sats
      else let clamped = f64_clamp (f64_div (f64_of_int ppm) (f64_of_int 1000000)) (f64_of_int 0) (f64_of_int 1)
           in f64_as_i64 (f64_mul (f64_of_int budget_sats)
                (f64_add (f64_of_int 1) (f64_mul clamped bonus_rate))))"

definition engine_sats_ceil :: "int \<Rightarrow> (unit, int) result" where
  "engine_sats_ceil base_msat = bindE (chk_i64 (base_msat + 999)) (\<lambda>v. Inr (trunc_div v 1000))"

definition engine_sats_floor :: "int \<Rightarrow> int" where
  "engine_sats_floor base_msat = trunc_div base_msat 1000"

fun engine_parse_msat :: "json \<Rightarrow> int" where
  "engine_parse_msat (JInt i) = (case as_int64 (JInt i) of Some v \<Rightarrow> v | None \<Rightarrow> f64_as_i64 (f64_of_int i))"
| "engine_parse_msat (JFloat f) = f64_as_i64 f"
| "engine_parse_msat (JStr s) =
     (case parse_i64 (strip_suffix ''msat'' (trim s)) of None \<Rightarrow> 0 | Some v \<Rightarrow> v)"
| "engine_parse_msat _ = 0"

text \<open>The product is an \<open>i128\<close>, which two \<open>i64\<close> factors cannot overflow.\<close>

definition scaled_budget_ceil :: "int \<Rightarrow> int \<Rightarrow> int \<Rightarrow> int" where
  "scaled_budget_ceil original_budget amount original_amount =
     (let product = original_budget * amount;
          c = trunc_div (product + original_amount - 1) original_amount
      in max (if in_i64 c then c else i64_max) 1)"

definition failed_result :: "string \<Rightarrow> int \<Rightarrow> execution_result" where
  "failed_result msg amount = \<lparr>success = False, attempts = 0, fee_sats = 0, fee_msat = 0, fee_ppm = 0,
     hops = 0, parts = 1, error = Some msg, amount_sats = amount, payment_pending = False,
     payment_hash = None, excluded_channels = [], route_type = ''native'', failure_data = JObj []\<rparr>"

definition error_or_empty :: "execution_result \<Rightarrow> string" where
  "error_or_empty r = (case error r of None \<Rightarrow> [] | Some e \<Rightarrow> e)"

definition is_budget_block :: "execution_result \<Rightarrow> bool" where
  "is_budget_block r \<longleftrightarrow>
     \<not> success r \<and> (starts_with LOCAL_BUDGET_BLOCK (error_or_empty r) \<or>
       starts_with ''zero_budget_blocks'' (error_or_empty r))"

fun failure_data_map :: "json \<Rightarrow> (string \<times> json) list" where
  "failure_data_map (JObj m) = m"
| "failure_data_map _ = []"

definition setdefault :: "string \<Rightarrow> json \<Rightarrow> (string \<times> json) list \<Rightarrow> (string \<times> json) list" where
  "setdefault key v m = (if map_of m key = None then bt_insert key v m else m)"

text \<open>\<open>route_policy.rs\<close>: with one policy, the priority never distinguishes two pairs.\<close>

datatype route_priority = EvPositive | Background

record route_decision =
  rd_priority :: route_priority
  rd_reason :: string
  rd_market_fallback :: bool
  rd_hint_id :: string
  rd_hint_type :: string
  rd_score :: f64

definition decide_route_policy :: "string \<Rightarrow> route_decision" where
  "decide_route_policy reason_code =
     \<lparr>rd_priority = EvPositive, rd_reason = (if reason_code = [] then ''ev_positive'' else reason_code),
      rd_market_fallback = True, rd_hint_id = [], rd_hint_type = [], rd_score = f64_of_int 0\<rparr>"

fun priority_rank :: "route_priority \<Rightarrow> int" where
  "priority_rank EvPositive = 2"
| "priority_rank Background = 3"

section \<open>Records\<close>

record history_row =
  hr_id :: int
  hr_from :: string
  hr_to :: string
  hr_amount :: int
  hr_max_fee :: int
  hr_profit :: int
  hr_status :: string
  hr_type :: string
  hr_reason :: string
  hr_hash :: "string option"

record history_success =
  hs_fee_sats :: int
  hs_fee_msat :: int
  hs_ratio :: "f64 option"
  hs_amount :: "int option"

record rebalance_cost =
  cost_channel :: string
  cost_peer :: string
  cost_sats :: int
  cost_msat :: int
  cost_amount :: int
  cost_time :: int

datatype budget_block = BlockRefused int | BlockUnavailable string

record peer_policy =
  pol_strategy :: string
  pol_mode :: string

record ev_terms =
  term_attempts :: int
  term_rate :: f64
  term_efv :: f64
  term_source :: f64
  term_activity :: f64

record pair_candidate =
  pc_source :: string
  pc_dest :: string
  pc_source_peer :: string
  pc_dest_peer :: string
  pc_amount :: int
  pc_budget :: int
  pc_effective :: "int option"
  pc_cost :: int
  pc_route :: "sendpay_hop list"
  pc_reason :: string
  pc_score :: f64
  pc_dest_capacity :: int
  pc_dest_ratio :: f64

record rebalance_candidate =
  rc_sources :: "string list"
  rc_to_channel :: string
  rc_source_peer :: string
  rc_to_peer :: string
  rc_amount_sats :: int
  rc_amount_msat :: int
  rc_outbound_ppm :: int
  rc_inbound_ppm :: int
  rc_source_ppm :: int
  rc_opp_cost_ppm :: int
  rc_spread_ppm :: int
  rc_max_budget_sats :: int
  rc_max_budget_msat :: int
  rc_max_fee_ppm :: int
  rc_profit_sats :: int
  rc_liquidity :: f64
  rc_flow_state :: string
  rc_dest_turnover :: f64
  rc_source_turnover :: f64

record cycle_result =
  cy_candidates :: "pair_candidate list"
  cy_executions :: "execution_result list"
  cy_audit :: "skip_record list"

record engine_config =
  cf_max_amount :: int
  cf_max_jobs :: int
  cf_fee_cap_ppm :: int
  cf_bonus :: f64
  cf_hold_margin :: f64
  cf_daily_budget :: int
  cf_weekly_budget :: "int option"
  cf_window_hours :: int
  cf_allow_zero_cost :: bool
  cf_layers :: "string list"
  cf_final_cltv :: int

definition default_config :: engine_config where
  "default_config = \<lparr>cf_max_amount = 2000000, cf_max_jobs = 5, cf_fee_cap_ppm = 0, cf_bonus = f64_of_int 0,
     cf_hold_margin = f64_of_int 0, cf_daily_budget = 0, cf_weekly_budget = None, cf_window_hours = 24,
     cf_allow_zero_cost = False, cf_layers = [], cf_final_cltv = 18\<rparr>"

section \<open>The seams\<close>

text \<open>The calls; pricings, payments and reservations are logged with their outcome.\<close>

datatype engine_call =
    GetInfo
  | GetPolicy string
  | RouterBegin
  | PricePair pair_ctx "string list" "string + route_result"
  | RouterEnd
  | Execute execute_request execution_result
  | InsertHistory history_row
  | UpdateHistory int string "string option"
  | UpdateSuccess int history_success
  | UpdatePending int string string
  | ReserveBudget reserve_request "budget_block + string"
  | MarkSpent string int
  | ReleaseBudget string
  | RecordCost rebalance_cost
  | RecordPairFailure string string string int int
  | ClearPairFailures string string
  | PairCooldown string string int
  | PendingRows
  | DatastoreExport "string list" ovalue
  | ListSendpays string
  | ListPeerChannelsFull
  | DelpayHash string string
  | SnapshotChannels
  | EvTermsOf pair_candidate
  | ArbitrateBatch "pair_candidate list"
  | ReadClock

text \<open>The replies. The executor also works on the shared segment store. The cycle's collection
  order (which workers report before the deadline, and in which order) is a parameter, and so
  is the text \<open>{:.4}\<close> gives a float.\<close>

record engine_env =
  en_config :: engine_config
  en_getinfo :: "engine_call list \<Rightarrow> string option"
  en_policy :: "(engine_call list \<Rightarrow> string \<Rightarrow> string + peer_policy) option"
  en_router :: "engine_call list \<Rightarrow> bool"
  en_price :: "engine_call list \<Rightarrow> pair_ctx \<Rightarrow> string list \<Rightarrow> string + route_result"
  en_execute :: "engine_call list \<Rightarrow> execute_request \<Rightarrow> segstore \<Rightarrow> execution_result \<times> segstore"
  en_insert :: "engine_call list \<Rightarrow> history_row \<Rightarrow> int"
  en_reserve :: "engine_call list \<Rightarrow> reserve_request \<Rightarrow> budget_block + string"
  en_cooldown :: "engine_call list \<Rightarrow> string \<Rightarrow> string \<Rightarrow> int \<Rightarrow> int option"
  en_pending_rows :: "engine_call list \<Rightarrow> history_row list"
  en_sendpays :: "engine_call list \<Rightarrow> string \<Rightarrow> string + json"
  en_peers :: "engine_call list \<Rightarrow> string + json"
  en_channels :: "engine_call list \<Rightarrow> planner_channel list option"
  en_ev :: "(engine_call list \<Rightarrow> pair_candidate \<Rightarrow> ev_terms option) option"
  en_arbiter :: "(engine_call list \<Rightarrow> pair_candidate list \<Rightarrow> string + pair_candidate list) option"
  en_clock :: "engine_call list \<Rightarrow> f64"
  en_text4 :: "f64 \<Rightarrow> string"
  en_arrivals :: "nat \<Rightarrow> nat list"

record engine_world =
  ecalls :: "engine_call list"
  inflight :: "(string \<times> int) list"
  futility :: pair_futility
  cached_id :: string
  nonce :: int
  esegs :: segstore
  cycle_held :: bool

definition engine_new :: engine_world where
  "engine_new = \<lparr>ecalls = [], inflight = [], futility = pair_new, cached_id = [], nonce = 1,
     esegs = seg_with_defaults, cycle_held = False\<rparr>"

type_synonym 'a engine = "(engine_world, unit, 'a) action"

definition say_call :: "engine_call \<Rightarrow> engine_world \<Rightarrow> engine_world" where
  "say_call c w = w\<lparr>ecalls := ecalls w @ [c]\<rparr>"

definition ask :: "(engine_call list \<Rightarrow> 'a) \<Rightarrow> engine_call \<Rightarrow> 'a engine" where
  "ask f c w = (Inr (f (ecalls w)), say_call c w)"

text \<open>A call whose reply is logged with it.\<close>

definition ask_logged :: "(engine_call list \<Rightarrow> 'a) \<Rightarrow> ('a \<Rightarrow> engine_call) \<Rightarrow> 'a engine" where
  "ask_logged f c w = (Inr (f (ecalls w)), say_call (c (f (ecalls w))) w)"

definition tell :: "engine_call \<Rightarrow> unit engine" where
  "tell c = ask (\<lambda>_. ()) c"

section \<open>The guard of destinations in flight\<close>

definition register_dest :: "string \<Rightarrow> (string \<times> int) list \<Rightarrow> (unit, (string \<times> int) list) result" where
  "register_dest dest m =
     (if dest = [] then Inr m
      else bindE (chk_i64 (bt_get_or 0 m dest + 1)) (\<lambda>n. Inr (bt_insert dest n m)))"

definition unregister_dest :: "string \<Rightarrow> (string \<times> int) list \<Rightarrow> (string \<times> int) list" where
  "unregister_dest dest m =
     (if dest = [] then m
      else case map_of m dest of
             Some n \<Rightarrow> if 1 < n then bt_insert dest (n - 1) m else bt_remove dest m
           | None \<Rightarrow> m)"

definition inflight_snapshot :: "(string \<times> int) list \<Rightarrow> string set" where
  "inflight_snapshot m = fst ` set m"

end
