(* ===== verification/Engine.thy ===== *)
theory Engine
  imports EngineBase
begin

text \<open>
  One execution of the rebalance engine (\<open>revops-rebalance/src/engine.rs\<close>): the policy gate, the
  reservation on the budget rail, the payment with its two retries, and the bookkeeping
  afterwards. Every call across a seam is logged, so the properties are statements about
  the order of calls.
\<close>

section \<open>Plumbing\<close>

abbreviation clock_now :: "engine_env \<Rightarrow> f64 engine" where
  "clock_now env \<equiv> ask (en_clock env) ReadClock"

definition ensure_our_id :: "engine_env \<Rightarrow> string engine" where
  "ensure_our_id env w =
     (if cached_id w = [] then
        bindA (ask (en_getinfo env) GetInfo) (\<lambda>r w.
          case r of None \<Rightarrow> (Inr [], w) | Some i \<Rightarrow> (Inr (trim i), w\<lparr>cached_id := trim i\<rparr>)) w
      else (Inr (cached_id w), w))"

definition max_concurrent_jobs :: "engine_config \<Rightarrow> nat" where
  "max_concurrent_jobs cfg = nat (max 1 (min 20 (cf_max_jobs cfg)))"

definition pair_ctx_of :: "engine_config \<Rightarrow> pair_candidate \<Rightarrow> string \<Rightarrow> pair_ctx" where
  "pair_ctx_of cfg pair us =
     \<lparr>our_node_id = us, ctx_source_channel = pc_source pair, ctx_dest_channel = pc_dest pair,
      ctx_source_peer = pc_source_peer pair, ctx_dest_peer = pc_dest_peer pair,
      ctx_amount_sats = pc_amount pair, layer_names = cf_layers cfg,
      invoice_final_cltv = cf_final_cltv cfg\<rparr>"

definition pair_max_fee_sats :: "pair_candidate \<Rightarrow> int" where
  "pair_max_fee_sats pair = (case pc_effective pair of None \<Rightarrow> pc_budget pair | Some b \<Rightarrow> b)"

fun policy_checks ::
  "(engine_call list \<Rightarrow> string \<Rightarrow> string + peer_policy) \<Rightarrow> (string \<times> string \<times> string list) list
     \<Rightarrow> (bool \<times> string) engine" where
  "policy_checks get [] = returnA (True, ''policy allows pair'')"
| "policy_checks get ((peer, side, forbidden) # cs) =
     (if peer = [] then policy_checks get cs
      else bindA (ask (\<lambda>l. get l peer) (GetPolicy peer)) (\<lambda>r.
        case r of
          Inl e \<Rightarrow> returnA (False, ''policy check failed (fail closed): '' @ e)
        | Inr p \<Rightarrow>
            if pol_strategy p = ''passive'' then returnA (False, side @ '' peer policy is passive'')
            else let m = (if pol_mode p = [] then ''enabled'' else pol_mode p)
                 in if m \<in> set forbidden
                    then returnA (False, side @ '' rebalance_mode='' @ m @ '' forbids this direction'')
                    else policy_checks get cs))"

definition pair_policy_allowed :: "engine_env \<Rightarrow> pair_candidate \<Rightarrow> (bool \<times> string) engine" where
  "pair_policy_allowed env pair =
     (case en_policy env of
        None \<Rightarrow> returnA (False, ''policy manager unavailable (fail closed)'')
      | Some get \<Rightarrow> policy_checks get
          [(pc_source_peer pair, ''source'', [''disabled'', ''sink_only'']),
           (pc_dest_peer pair, ''dest'', [''disabled'', ''source_only''])])"

text \<open>A router lives for one body; dropping it ends its cycle, also when the body unwinds.\<close>

definition with_router :: "engine_env \<Rightarrow> 'a engine \<Rightarrow> 'a option engine" where
  "with_router env body =
     bindA (ask (en_router env) RouterBegin) (\<lambda>available.
     if \<not> available then returnA None
     else bindA (handleA body (\<lambda>r. bindA (tell RouterEnd) (\<lambda>_. liftA r))) (\<lambda>a. returnA (Some a)))"

definition route_pair_fresh ::
  "engine_env \<Rightarrow> pair_candidate \<Rightarrow> string list \<Rightarrow> (string + route_result) option engine" where
  "route_pair_fresh env pair exclude =
     with_router env
       (bindA (ensure_our_id env) (\<lambda>us.
        let ctx = pair_ctx_of (en_config env) pair us
        in ask_logged (\<lambda>l. en_price env l ctx exclude) (PricePair ctx exclude)))"

section \<open>The budget rail\<close>

definition global_budget_limit :: "engine_config \<Rightarrow> int" where
  "global_budget_limit cfg = max 0 (cf_daily_budget cfg)"

definition reserve_execution_budget ::
  "engine_env \<Rightarrow> pair_candidate \<Rightarrow> string \<Rightarrow> (bool \<times> execution_result option) engine" where
  "reserve_execution_budget env pair rid =
     (let cfg = en_config env; max_fee = max (pair_max_fee_sats pair) 0; limit = global_budget_limit cfg
      in if limit \<le> 0 then
           returnA (if max_fee \<le> 0 \<and> cf_allow_zero_cost cfg then (False, None)
             else (False, Some (failed_result ZERO_BUDGET_BLOCKS_AUTO_REBALANCE (max (pc_amount pair) 0))))
         else if max_fee \<le> 0 then returnA (False, None)
         else bindA (clock_now env) (\<lambda>t.
           let now = f64_as_i64 t
           in bindA (liftA (chk_i64 (max (cf_window_hours cfg) 1 * 3600))) (\<lambda>window.
              bindA (liftA (chk_i64 (now - window))) (\<lambda>since.
              bindA (liftA (chk_i64 (now - 604800))) (\<lambda>week.
              let req = \<lparr>req_id = rid, req_amount = max_fee, req_category = ''rebalance'',
                    req_subcategory = None, req_reference = None, req_channel = Some (pc_dest pair),
                    req_metadata = None, effective_budget_sats = Some limit, since_timestamp = Some since,
                    weekly_budget_limit = cf_weekly_budget cfg, weekly_since_timestamp = Some week\<rparr>
              in bindA (ask_logged (\<lambda>l. en_reserve env l req) (ReserveBudget req)) (\<lambda>r.
                 returnA (case r of
                   Inr _ \<Rightarrow> (True, None)
                 | Inl (BlockRefused remaining) \<Rightarrow>
                     (False, Some (failed_result (LOCAL_BUDGET_BLOCK @ '': '' @ dec_int remaining
                        @ '' sats remaining of '' @ dec_int limit @ '' unified budget'') (max (pc_amount pair) 0)))
                 | Inl (BlockUnavailable msg) \<Rightarrow>
                     (False, Some (failed_result (LOCAL_BUDGET_BLOCK @ '': '' @ msg) (max (pc_amount pair) 0))))))))))"

definition has_hash :: "execution_result \<Rightarrow> bool" where
  "has_hash r = (case payment_hash r of None \<Rightarrow> False | Some h \<Rightarrow> h \<noteq> [])"

definition finish_execution_budget :: "string \<Rightarrow> bool \<Rightarrow> execution_result \<Rightarrow> unit engine" where
  "finish_execution_budget rid reserved r =
     (if \<not> reserved then returnA ()
      else if payment_pending r then
        (if has_hash r then returnA () else tell (ReleaseBudget rid))
      else if success r then tell (MarkSpent rid (max (fee_sats r) 0))
      else tell (ReleaseBudget rid))"

section \<open>History\<close>

definition record_rebalance_pending :: "engine_env \<Rightarrow> pair_candidate \<Rightarrow> int option engine" where
  "record_rebalance_pending env pair =
     (let row = \<lparr>hr_id = 0, hr_from = pc_source pair, hr_to = pc_dest pair, hr_amount = pc_amount pair,
            hr_max_fee = max (pc_budget pair) 0, hr_profit = 0, hr_status = ''pending'', hr_type = ''normal'',
            hr_reason = (if pc_reason pair = [] then ''ev_positive'' else pc_reason pair), hr_hash = None\<rparr>
      in bindA (ask (\<lambda>l. en_insert env l row) (InsertHistory row)) (\<lambda>i.
         returnA (if 0 < i then Some i else None)))"

definition record_success_row ::
  "engine_env \<Rightarrow> int \<Rightarrow> execution_result \<Rightarrow> pair_candidate \<Rightarrow> bool \<Rightarrow> unit engine" where
  "record_success_row env i r pair account =
     (let ratio = (if 0 < pc_dest_capacity pair
            then Some (f64_clamp (f64_add (pc_dest_ratio pair)
                   (f64_div (f64_of_int (pc_amount pair)) (f64_of_int (pc_dest_capacity pair))))
                   (f64_of_int 0) (f64_of_int 1)) else None);
          amount = (if 0 < amount_sats r then amount_sats r else pc_amount pair)
      in bindA (tell (UpdateSuccess i \<lparr>hs_fee_sats = max (fee_sats r) 0, hs_fee_msat = max (fee_msat r) 0,
            hs_ratio = ratio, hs_amount = Some (max amount 0)\<rparr>)) (\<lambda>_.
         if \<not> account then returnA ()
         else bindA (if fee_msat r \<le> 0 then liftA (chk_i64 (max (fee_sats r) 0 * 1000))
                     else returnA (fee_msat r)) (\<lambda>msat.
           if 0 < msat then
             bindA (liftA (engine_sats_ceil msat)) (\<lambda>sats.
             bindA (clock_now env) (\<lambda>t.
             tell (RecordCost \<lparr>cost_channel = pc_dest pair, cost_peer = pc_dest_peer pair, cost_sats = sats,
               cost_msat = msat, cost_amount = max amount 0, cost_time = f64_as_i64 t\<rparr>)))
           else returnA ())))"

definition record_rebalance_result ::
  "engine_env \<Rightarrow> int option \<Rightarrow> execution_result \<Rightarrow> pair_candidate \<Rightarrow> bool \<Rightarrow> unit engine" where
  "record_rebalance_result env rebalance_id r pair account =
     (case rebalance_id of
        None \<Rightarrow> returnA ()
      | Some i \<Rightarrow>
          if success r then record_success_row env i r pair account
          else if payment_pending r then
            (case payment_hash r of
               Some (c # h) \<Rightarrow> tell (UpdatePending i (error_or_empty r) (c # h))
             | _ \<Rightarrow> tell (UpdateHistory i ''failed'' (Some (trim (error_or_empty r
                      @ '' (payment pending but missing payment_hash; not sweepable)'')))))
          else tell (UpdateHistory i (if is_budget_block r then ''skipped'' else ''failed'')
                 (Some (error_or_empty r))))"

section \<open>The payment and its retries\<close>

definition execution_request :: "engine_env \<Rightarrow> pair_candidate \<Rightarrow> execute_request engine" where
  "execution_request env pair =
     bindA (ensure_our_id env) (\<lambda>us.
     bindA (clock_now env) (\<lambda>t.
     returnA \<lparr>route = pc_route pair, req_amount_sats = pc_amount pair, source_channel_id = pc_source pair,
       dest_channel_id = pc_dest pair, max_fee_sats = pair_max_fee_sats pair, our_id = us,
       now_ms = f64_as_i64 (f64_mul t (f64_of_int 1000))\<rparr>))"

definition execute_seam :: "engine_env \<Rightarrow> execute_request \<Rightarrow> execution_result engine" where
  "execute_seam env req w =
     (case en_execute env (ecalls w) req (esegs w) of
        (r, st) \<Rightarrow> (Inr r, say_call (Execute req r) (w\<lparr>esegs := st\<rparr>)))"

definition pay :: "engine_env \<Rightarrow> pair_candidate \<Rightarrow> execution_result engine" where
  "pay env pair = bindA (execution_request env pair) (execute_seam env)"

text \<open>The trimmed exclusions of a failure, each once.\<close>

definition exclusions_of :: "execution_result \<Rightarrow> string list" where
  "exclusions_of r =
     fold (\<lambda>entry ex. let v = trim entry in if v \<noteq> [] \<and> v \<notin> set ex then ex @ [v] else ex)
       (excluded_channels r) []"

text \<open>A retry that could not be dispatched annotates the first result.\<close>

definition annotate_retry ::
  "execution_result \<Rightarrow> string list \<Rightarrow> string \<Rightarrow> string \<Rightarrow> execution_result engine" where
  "annotate_retry first ex suffix retry_error =
     bindA (liftA (chk_i64 (max (attempts first) 1 + 1))) (\<lambda>n.
     returnA (first\<lparr>error := Some (error_or_empty first @ suffix),
       failure_data := JObj (bt_insert ''retry_error'' (JStr retry_error)
         (bt_insert ''retry_excluded_channels'' (JArr (map JStr ex)) (failure_data_map (failure_data first)))),
       attempts := n\<rparr>))"

definition detail_or :: "string \<Rightarrow> string option \<Rightarrow> string" where
  "detail_or d e = (case e of None \<Rightarrow> d | Some [] \<Rightarrow> d | Some t \<Rightarrow> t)"

definition effective_budget_of :: "engine_env \<Rightarrow> int \<Rightarrow> route_result \<Rightarrow> int \<Rightarrow> (unit, int) result" where
  "effective_budget_of env budget rr amount =
     per_attempt_ceiling (probability_adjusted_budget budget (rr_probability_ppm rr) (cf_bonus (en_config env)))
       amount (cf_fee_cap_ppm (en_config env))"

text \<open>What the second attempt returns: attempts added up, the first failure kept as data.\<close>

definition merge_retry ::
  "execution_result \<Rightarrow> string list \<Rightarrow> int \<Rightarrow> execution_result \<Rightarrow> execution_result engine" where
  "merge_retry first ex cost r =
     bindA (liftA (chk_i64 (max (attempts first) 1 + max (attempts r) 1))) (\<lambda>n.
     let merged = setdefault ''retry_route_cost_sats'' (JInt cost)
           (setdefault ''retry_excluded_channels'' (JArr (map JStr ex))
             (setdefault ''previous_failure'' (JStr (error_or_empty first)) (failure_data_map (failure_data r))))
     in returnA (r\<lparr>attempts := n, failure_data := JObj merged,
          excluded_channels := (if success r then excluded_channels r
            else fold (\<lambda>e acc. if e \<in> set acc then acc else acc @ [e]) ex (excluded_channels r))\<rparr>))"

definition retry_with_exclusions ::
  "engine_env \<Rightarrow> pair_candidate \<Rightarrow> execution_result \<Rightarrow> (pair_candidate \<times> execution_result) engine" where
  "retry_with_exclusions env pair first =
     (if success first \<or> payment_pending first then returnA (pair, first)
      else let ex = exclusions_of first
      in if ex = [] then returnA (pair, first)
      else bindA (route_pair_fresh env pair ex) (\<lambda>priced.
        case priced of
          None \<Rightarrow> returnA (pair, first)
        | Some (Inl exc) \<Rightarrow>
            bindA (annotate_retry first ex (''; retry_pricing_failed: '' @ exc) exc) (\<lambda>r. returnA (pair, r))
        | Some (Inr rr) \<Rightarrow>
            if \<not> rr_success rr then
              (let detail = detail_or ''no_route'' (rr_error rr)
               in bindA (annotate_retry first ex (''; retry_no_route: '' @ detail) detail) (\<lambda>r. returnA (pair, r)))
            else bindA (liftA (effective_budget_of env (pc_budget pair) rr (pc_amount pair))) (\<lambda>budget.
              if budget < rr_cost_sats rr then
                bindA (annotate_retry first ex (''; retry_route_over_budget: '' @ dec_int (rr_cost_sats rr)
                   @ '' > '' @ dec_int budget) ''route_over_budget'') (\<lambda>r. returnA (pair, r))
              else let pair = pair\<lparr>pc_route := rr_route rr, pc_cost := rr_cost_sats rr\<rparr>
                   in bindA (pay env pair) (\<lambda>r.
                      bindA (merge_retry first ex (rr_cost_sats rr) r) (\<lambda>r. returnA (pair, r))))))"

definition failure_allows_partial :: "execution_result \<Rightarrow> bool" where
  "failure_allows_partial r \<longleftrightarrow>
     \<not> (success r \<or> route_type r \<noteq> ''native'') \<and>
     (to_lowercase (case as_str (jix (failure_data r) ''failure_class'') of None \<Rightarrow> [] | Some s \<Rightarrow> s) = ''liquidity'' \<or>
      contains_str ''temporary_channel_failure'' (to_lowercase (error_or_empty r)))"

text \<open>The record a filled or pending partial attempt leaves.\<close>

definition partial_result ::
  "execution_result \<Rightarrow> int \<Rightarrow> (string \<times> json) list \<Rightarrow> execution_result \<Rightarrow> execution_result" where
  "partial_result prior n fill r =
     r\<lparr>attempts := n,
       failure_data := JObj (bt_insert ''partial_fill'' (json_object fill)
         (setdefault ''previous_failure'' (JStr (error_or_empty prior)) (failure_data_map (failure_data r))))\<rparr>"

fun json_status :: "json \<Rightarrow> string" where
  "json_status v = (case as_str (jix v ''status'') of None \<Rightarrow> [] | Some s \<Rightarrow> s)"

text \<open>The ladder is exhausted: the pair is as it was, the prior result is annotated.\<close>

definition ladder_exhausted ::
  "pair_candidate \<Rightarrow> execution_result \<Rightarrow> json list \<Rightarrow> int \<Rightarrow> (pair_candidate \<times> execution_result) engine" where
  "ladder_exhausted pair prior trail n =
     returnA (pair, prior\<lparr>
       failure_data := JObj (bt_insert ''partial_fill'' (json_object
         [(''planned_amount_sats'', JInt (pc_amount pair)), (''executed_amount_sats'', JInt 0),
          (''attempts'', JArr trail)]) (failure_data_map (failure_data prior))),
       attempts := n,
       error := (if trail = [] then error prior
         else Some (error_or_empty prior @ ''; partial_retry_failed: '' @ json_status (last trail)))\<rparr>)"

text \<open>The fee budget scaled to the amount of a step, rounded up.\<close>

definition ladder_budget :: "pair_candidate \<Rightarrow> int \<Rightarrow> int" where
  "ladder_budget pair amount =
     (if 0 < pc_amount pair \<and> 0 < pc_budget pair
      then scaled_budget_ceil (pc_budget pair) amount (pc_amount pair) else pc_budget pair)"

definition ladder_note :: "int \<Rightarrow> string \<Rightarrow> (string \<times> json) list \<Rightarrow> json" where
  "ladder_note amount status kvs = json_object ([(''amount_sats'', JInt amount), (''status'', JStr status)] @ kvs)"

text \<open>One payment of the ladder: filled, pending, or on to the next amount.\<close>

definition ladder_attempt ::
  "engine_env \<Rightarrow> pair_candidate \<Rightarrow> execution_result \<Rightarrow> json list \<Rightarrow> int \<Rightarrow> pair_candidate
     \<Rightarrow> (json list \<Rightarrow> int \<Rightarrow> (pair_candidate \<times> execution_result) engine)
     \<Rightarrow> (pair_candidate \<times> execution_result) engine" where
  "ladder_attempt env pair prior trail n paid next_step =
     bindA (pay env paid) (\<lambda>r.
     bindA (liftA (chk_i64 (n + max (attempts r) 1))) (\<lambda>n.
     if success r then
       (let r = (if amount_sats r \<le> 0 then r\<lparr>amount_sats := pc_amount paid\<rparr> else r)
        in returnA (paid, partial_result prior n
             [(''planned_amount_sats'', JInt (pc_amount pair)),
              (''executed_amount_sats'', JInt (amount_sats r)),
              (''route_cost_sats'', JInt (pc_cost paid)),
              (''attempts'', JArr (trail @ [ladder_note (pc_amount paid) ''success'' []]))] r))
     else if payment_pending r then
       returnA (paid, partial_result prior n
         [(''planned_amount_sats'', JInt (pc_amount pair)), (''executed_amount_sats'', JInt 0),
          (''attempts'', JArr (trail @ [ladder_note (pc_amount paid) ''payment_pending'' []]))] r)
     else next_step (trail @ [ladder_note (pc_amount paid) ''execution_failed''
            [(''error'', JStr (error_or_empty r)),
             (''excluded_channels'', JArr (map JStr (excluded_channels r)))]]) n))"

fun partial_ladder ::
  "engine_env \<Rightarrow> pair_candidate \<Rightarrow> execution_result \<Rightarrow> json list \<Rightarrow> int \<Rightarrow> int list
     \<Rightarrow> (pair_candidate \<times> execution_result) engine" where
  "partial_ladder env pair prior trail n [] = ladder_exhausted pair prior trail n"
| "partial_ladder env pair prior trail n (amount # rest) =
     (let budget = ladder_budget pair amount; step = pair\<lparr>pc_amount := amount, pc_budget := budget\<rparr>
      in bindA (route_pair_fresh env step []) (\<lambda>priced.
        case priced of
          None \<Rightarrow> ladder_exhausted pair prior trail n
        | Some (Inl exc) \<Rightarrow>
            partial_ladder env pair prior
              (trail @ [ladder_note amount ''pricing_error'' [(''error'', JStr exc)]]) n rest
        | Some (Inr rr) \<Rightarrow>
            if \<not> rr_success rr then
              partial_ladder env pair prior (trail @ [ladder_note amount ''no_route''
                [(''error'', JStr (detail_or ''no_route'' (rr_error rr)))]]) n rest
            else bindA (liftA (effective_budget_of env budget rr amount)) (\<lambda>effective.
              if effective < rr_cost_sats rr then
                partial_ladder env pair prior (trail @ [ladder_note amount ''route_over_budget''
                  [(''route_cost_sats'', JInt (rr_cost_sats rr)), (''effective_budget_sats'', JInt effective)]]) n rest
              else ladder_attempt env pair prior trail n
                (step\<lparr>pc_effective := Some effective, pc_route := rr_route rr, pc_cost := rr_cost_sats rr\<rparr>)
                (\<lambda>trail n. partial_ladder env pair prior trail n rest))))"

definition retry_with_partial_amounts ::
  "engine_env \<Rightarrow> pair_candidate \<Rightarrow> execution_result \<Rightarrow> (pair_candidate \<times> execution_result) engine" where
  "retry_with_partial_amounts env pair prior =
     (if payment_pending prior \<or> \<not> failure_allows_partial prior then returnA (pair, prior)
      else partial_ladder env pair prior [] (max (attempts prior) 1) (native_partial_amounts (pc_amount pair)))"

section \<open>The segment snapshot\<close>

definition DATASTORE_KEY :: "string list" where
  "DATASTORE_KEY = [''revenue'', ''segment-observations'']"

definition merge_observer :: "string \<Rightarrow> (string \<times> ovalue) list \<Rightarrow> (string \<times> ovalue) list" where
  "merge_observer us entries = concat (map (\<lambda>(k, v).
     if k = ''segment_observations'' then [(''observer_member_id'', OStr (trim us)), (k, v)] else [(k, v)]) entries)"

definition export_segments :: "int \<Rightarrow> ovalue engine" where
  "export_segments now w =
     (case export_snapshot now (esegs w) of
        Inl e \<Rightarrow> (Inl e, w) | Inr (v, st) \<Rightarrow> (Inr v, w\<lparr>esegs := st\<rparr>))"

definition push_segment_observation_snapshot :: "engine_env \<Rightarrow> bool engine" where
  "push_segment_observation_snapshot env =
     bindA (ensure_our_id env) (\<lambda>us.
     if us = [] then returnA False
     else bindA (clock_now env) (\<lambda>t.
       bindA (export_segments (f64_as_i64 t)) (\<lambda>snapshot.
       case Option.bind (oget snapshot ''segment_observations'') oas_arr of
         Some (x # xs) \<Rightarrow>
           (case oas_obj snapshot of
              None \<Rightarrow> returnA False
            | Some entries \<Rightarrow>
                bindA (tell (DatastoreExport DATASTORE_KEY (OObj (merge_observer us entries)))) (\<lambda>_. returnA True))
       | _ \<Rightarrow> returnA False)))"

section \<open>One pair\<close>

text \<open>The critical section, under the guard of the destination.\<close>

definition pay_reserved ::
  "engine_env \<Rightarrow> pair_candidate \<Rightarrow> bool \<Rightarrow> int option \<Rightarrow> string \<Rightarrow> bool \<Rightarrow> execution_result engine" where
  "pay_reserved env pair account rebalance_id rid reserved =
     bindA (pay env pair) (\<lambda>r.
     bindA (retry_with_exclusions env pair r) (\<lambda>(pair, r).
     bindA (retry_with_partial_amounts env pair r) (\<lambda>(pair, r).
     bindA (record_rebalance_result env rebalance_id r pair account) (\<lambda>_.
     bindA (finish_execution_budget rid reserved r) (\<lambda>_.
     bindA (if success r then returnA False else push_segment_observation_snapshot env) (\<lambda>_.
     returnA r))))))"

definition execute_guarded ::
  "engine_env \<Rightarrow> pair_candidate \<Rightarrow> bool \<Rightarrow> bool \<Rightarrow> int option \<Rightarrow> string \<Rightarrow> execution_result engine" where
  "execute_guarded env pair reserve account rebalance_id rid =
     bindA (if reserve then reserve_execution_budget env pair rid else returnA (False, None)) (\<lambda>(reserved, block).
     case block of
       Some b \<Rightarrow> bindA (record_rebalance_result env rebalance_id b pair False) (\<lambda>_. returnA b)
     | None \<Rightarrow> pay_reserved env pair account rebalance_id rid reserved)"

definition reservation_id_of :: "pair_candidate \<Rightarrow> int option \<Rightarrow> string engine" where
  "reservation_id_of pair rebalance_id w =
     (case rebalance_id of
        Some i \<Rightarrow> (Inr (dec_int i), w)
      | None \<Rightarrow> (Inr (''v2-'' @ dec_int (nonce w) @ ''-'' @ pc_source pair @ ''-'' @ pc_dest pair),
          w\<lparr>nonce := as_i64 (nonce w + 1)\<rparr>))"

definition update_inflight ::
  "((string \<times> int) list \<Rightarrow> (unit, (string \<times> int) list) result) \<Rightarrow> unit engine" where
  "update_inflight f w = (case f (inflight w) of Inl e \<Rightarrow> (Inl e, w) | Inr m \<Rightarrow> (Inr (), w\<lparr>inflight := m\<rparr>))"

text \<open>The drop guard unregisters however the section ends.\<close>

definition guarding :: "string \<Rightarrow> 'a engine \<Rightarrow> 'a engine" where
  "guarding dest m =
     bindA (update_inflight (register_dest dest)) (\<lambda>_.
     handleA m (\<lambda>r. bindA (update_inflight (\<lambda>f. Inr (unregister_dest dest f))) (\<lambda>_. liftA r)))"

definition execute_pair ::
  "engine_env \<Rightarrow> pair_candidate \<Rightarrow> bool \<Rightarrow> bool \<Rightarrow> int option \<Rightarrow> execution_result engine" where
  "execute_pair env pair reserve account rebalance_id =
     bindA (pair_policy_allowed env pair) (\<lambda>(policy_ok, reason).
     if \<not> policy_ok then returnA (failed_result (''policy_blocked: '' @ reason) (max (pc_amount pair) 0))
     else bindA (case rebalance_id of Some i \<Rightarrow> returnA (Some i) | None \<Rightarrow> record_rebalance_pending env pair) (\<lambda>rebalance_id.
       bindA (reservation_id_of pair rebalance_id) (\<lambda>rid.
       guarding (pc_dest pair) (execute_guarded env pair reserve account rebalance_id rid))))"

end
