(* ===== verification/EngineCycle.thy ===== *)
theory EngineCycle
  imports Engine
begin

text \<open>
  Explicit executions, candidate selection, the rebalance cycle and the sweep of pending
  settlements (\<open>revops-rebalance/src/engine.rs\<close>).
\<close>

section \<open>An explicit candidate\<close>

text \<open>The lock is tried, never waited for; it is released when the body ends.\<close>

definition with_cycle_lock :: "'a engine \<Rightarrow> 'a engine \<Rightarrow> 'a engine" where
  "with_cycle_lock busy body w =
     (if cycle_held w then busy w
      else handleA body (\<lambda>r w. (r, w\<lparr>cycle_held := False\<rparr>)) (w\<lparr>cycle_held := True\<rparr>))"

definition priced_or_failed ::
  "pair_candidate \<Rightarrow> string + route_result \<Rightarrow> execution_result + pair_candidate" where
  "priced_or_failed pair p =
     (case p of
        Inl exc \<Rightarrow> Inl (failed_result (ROUTE_PRICING_FAILED_PREFIX @ exc) (pc_amount pair))
      | Inr rr \<Rightarrow>
          if \<not> rr_success rr
          then Inl (failed_result (ROUTE_PRICING_FAILED_PREFIX @ detail_or ''no_route'' (rr_error rr) @ '' (market)'')
                 (pc_amount pair))
          else Inr (pair\<lparr>pc_cost := rr_cost_sats rr, pc_route := rr_route rr\<rparr>))"

definition explicit_pair :: "rebalance_candidate \<Rightarrow> pair_candidate" where
  "explicit_pair c =
     \<lparr>pc_source = (case rc_sources c of [] \<Rightarrow> [] | s # _ \<Rightarrow> s), pc_dest = rc_to_channel c,
      pc_source_peer = rc_source_peer c, pc_dest_peer = rc_to_peer c, pc_amount = rc_amount_sats c,
      pc_budget = rc_max_budget_sats c, pc_effective = None, pc_cost = rc_max_budget_sats c, pc_route = [],
      pc_reason = ''manual'', pc_score = f64_of_int 0, pc_dest_capacity = 0, pc_dest_ratio = f64_of_int 0\<rparr>"

definition execute_candidate_locked ::
  "engine_env \<Rightarrow> rebalance_candidate \<Rightarrow> int option \<Rightarrow> engine_kwargs \<Rightarrow> execution_result engine" where
  "execute_candidate_locked env c rebalance_id kw =
     (let pair = explicit_pair c
      in if pc_source pair = [] \<or> pc_dest pair = [] then returnA (failed_result ''invalid_channel_ids'' 0)
         else if pc_source_peer pair = [] \<or> pc_dest_peer pair = [] then returnA (failed_result ''missing_peer_ids'' 0)
         else if pc_amount pair \<le> 0 then returnA (failed_result ''invalid_amount'' 0)
         else bindA (\<lambda>w. (Inr (inflight_snapshot (inflight w)), w)) (\<lambda>busy.
           if pc_dest pair \<in> busy then returnA (failed_result DEST_INFLIGHT (pc_amount pair))
           else bindA (route_pair_fresh env pair []) (\<lambda>priced.
             case priced of
               None \<Rightarrow> returnA (failed_result ''router_unavailable'' (pc_amount pair))
             | Some p \<Rightarrow>
                 (case priced_or_failed pair p of
                    Inl r \<Rightarrow> returnA r
                  | Inr pair \<Rightarrow> execute_pair env pair (reserve_budget kw) (account_kwarg kw) rebalance_id))))"

definition execute_candidate ::
  "engine_env \<Rightarrow> rebalance_candidate \<Rightarrow> int \<Rightarrow> engine_kwargs \<Rightarrow> execution_result engine" where
  "execute_candidate env c rebalance_id kw =
     with_cycle_lock (returnA (failed_result ENGINE_BUSY (max (rc_amount_sats c) 0)))
       (execute_candidate_locked env c (if 0 < rebalance_id then Some rebalance_id else None) kw)"

section \<open>Candidate selection\<close>

definition dest_ratio_of :: "planner_channel \<Rightarrow> f64" where
  "dest_ratio_of ch =
     (if capacity_sats ch \<le> 0 then f64_of_int 0
      else py_round (f64_clamp (f64_div (f64_of_int (max (spendable_sats ch) 0)) (f64_of_int (capacity_sats ch)))
             (f64_of_int 0) (f64_of_int 1)) 6)"

text \<open>A map built by \<open>collect\<close> keeps the last channel of an id.\<close>

definition by_channel_id :: "planner_channel list \<Rightarrow> string \<Rightarrow> planner_channel option" where
  "by_channel_id channels = map_of (rev (map (\<lambda>c. (channel_id c, c)) channels))"

definition planned_candidate :: "planner_channel list \<Rightarrow> planned_pair \<Rightarrow> pair_candidate" where
  "planned_candidate channels p =
     (let source = by_channel_id channels (pair_source p); dest = by_channel_id channels (pair_dest p)
      in \<lparr>pc_source = pair_source p, pc_dest = pair_dest p,
          pc_source_peer = (case source of None \<Rightarrow> [] | Some c \<Rightarrow> peer_id c),
          pc_dest_peer = (case dest of None \<Rightarrow> [] | Some c \<Rightarrow> peer_id c),
          pc_amount = pair_amount p, pc_budget = pair_budget p, pc_effective = None, pc_cost = 0,
          pc_route = [], pc_reason = ''ev_positive'', pc_score = pair_score p,
          pc_dest_capacity = (case dest of None \<Rightarrow> 0 | Some c \<Rightarrow> capacity_sats c),
          pc_dest_ratio = (case dest of None \<Rightarrow> f64_of_int 0 | Some c \<Rightarrow> dest_ratio_of c)\<rparr>)"

definition skip_pair :: "pair_candidate \<Rightarrow> string \<Rightarrow> int \<Rightarrow> string \<Rightarrow> skip_record" where
  "skip_pair pair reason remaining detail =
     \<lparr>skip_channel = pc_dest pair, skip_reason = reason, skip_class = ''valuable'',
      skip_budget = remaining, skip_detail = Some detail\<rparr>"

text \<open>Pairs whose destination is in flight are skipped, the rest is selected.\<close>

definition split_inflight ::
  "string set \<Rightarrow> pair_candidate list \<Rightarrow> skip_record list \<times> pair_candidate list" where
  "split_inflight busy pairs =
     (map (\<lambda>p. skip_pair p DEST_INFLIGHT (max (pc_budget p) 0)
            (''src='' @ pc_source p @ '' dest has an in-flight/unresolved payment from a prior cycle''))
        (filter (\<lambda>p. pc_dest p \<in> busy) pairs),
      filter (\<lambda>p. pc_dest p \<notin> busy) pairs)"

text \<open>The stable sort by priority, priority score and score.\<close>

definition by_priority :: "pair_candidate list \<Rightarrow> pair_candidate list" where
  "by_priority = sort_key (\<lambda>p. (priority_rank (rd_priority (decide_route_policy (pc_reason p))),
     - total_key (rd_score (decide_route_policy (pc_reason p))), - total_key (pc_score p)))"

definition with_futility :: "(pair_futility \<Rightarrow> 'a \<times> pair_futility) \<Rightarrow> 'a engine" where
  "with_futility f w = (case f (futility w) of (a, st) \<Rightarrow> (Inr a, w\<lparr>futility := st\<rparr>))"

text \<open>What one pair of the selection becomes: a skip or a priced pair; a pricing exception
  aborts.\<close>

datatype pricing_outcome = Skipped skip_record | Priced pair_candidate | Aborted string

definition ev_outcome ::
  "engine_env \<Rightarrow> f64 \<Rightarrow> pair_candidate \<Rightarrow> route_result \<Rightarrow> pricing_outcome engine" where
  "ev_outcome env now pair rr =
     bindA (case en_ev env of None \<Rightarrow> returnA None | Some get \<Rightarrow> ask (\<lambda>l. get l pair) (EvTermsOf pair)) (\<lambda>terms.
     case terms of
       None \<Rightarrow>
         returnA (if 0 < rr_cost_sats rr
           then Skipped (skip_pair pair EV_TERMS_UNAVAILABLE 0
             (''src='' @ pc_source pair @ '' route_cost='' @ dec_int (rr_cost_sats rr)
              @ '': priced pair with no sats-EV terms (no EvProvider wired?) '' @ [CHR 0xE2, CHR 0x80, CHR 0x94]
              @ '' failing closed''))
           else Priced pair)
     | Some t \<Rightarrow>
         bindA (with_futility (pair_fresh_failure_count (pc_source pair) (pc_dest pair) now)) (\<lambda>failures.
         let verdict = sats_ev_gate
               \<lparr>probability_ppm = rr_probability_ppm rr, dest_attempts = term_attempts t,
                dest_success_rate = term_rate t, efv_sats = term_efv t, ev_fee_sats = rr_cost_sats rr,
                source_opportunity_sats = term_source t,
                failure_penalty_sats = f64_mul (f64_mul (f64_of_int (int failures)) (f64_of_int (rr_cost_sats rr)))
                  FAILURE_COST_RATE,
                activity_penalty_sats = term_activity t, hold_margin_sats = cf_hold_margin (en_config env)\<rparr>
         in returnA (if ev_pass verdict then Priced pair
              else Skipped (skip_pair pair BELOW_HOLD_MARGIN 0
                (''src='' @ pc_source pair @ '' score='' @ en_text4 env (final_score_sats verdict)
                 @ '' margin='' @ en_text4 env (cf_hold_margin (en_config env)))))))"

definition price_selected ::
  "engine_env \<Rightarrow> string \<Rightarrow> f64 \<Rightarrow> pair_candidate \<Rightarrow> pricing_outcome engine" where
  "price_selected env us now pair =
     bindA (ask (\<lambda>l. en_cooldown env l (pc_source pair) (pc_dest pair) (f64_as_i64 now))
              (PairCooldown (pc_source pair) (pc_dest pair) (f64_as_i64 now))) (\<lambda>cooldown.
     case cooldown of
       Some until \<Rightarrow> returnA (Skipped (skip_pair pair ''pair_cooldown'' 0
         (''src='' @ pc_source pair @ '' cooldown_until='' @ dec_int until)))
     | None \<Rightarrow>
         bindA (with_futility (pair_is_futile (pc_source pair) (pc_dest pair) now)) (\<lambda>futile.
         if futile then
           bindA (with_futility (pair_fresh_failure_count (pc_source pair) (pc_dest pair) now)) (\<lambda>fresh.
           returnA (Skipped (skip_pair pair ''pair_futility'' (max (pc_budget pair) 0)
             (''src='' @ pc_source pair @ '' failures='' @ dec_nat fresh @ '' in window ''
              @ dec_int (f64_as_i64 FUTILITY_WINDOW) @ ''s''))))
         else let ctx = pair_ctx_of (en_config env) pair us
         in bindA (ask_logged (\<lambda>l. en_price env l ctx []) (PricePair ctx [])) (\<lambda>priced.
           case priced of
             Inl exc \<Rightarrow> returnA (Aborted exc)
           | Inr rr \<Rightarrow>
               if \<not> rr_success rr then
                 returnA (Skipped (skip_pair pair ''no_route'' (max (pc_budget pair) 0)
                   (detail_or ''router_no_route'' (rr_error rr))))
               else bindA (liftA (effective_budget_of env (pc_budget pair) rr (pc_amount pair))) (\<lambda>budget.
                 let pair = pair\<lparr>pc_cost := rr_cost_sats rr, pc_route := rr_route rr, pc_effective := Some budget\<rparr>
                 in if budget < rr_cost_sats rr then
                      returnA (Skipped (skip_pair pair ''route_over_budget'' (max (pc_budget pair) 0)
                        (''route_cost='' @ dec_int (rr_cost_sats rr) @ '' effective_budget='' @ dec_int budget
                         @ '' probability_ppm='' @ dec_int (rr_probability_ppm rr))))
                    else ev_outcome env now pair rr))))"

fun price_all ::
  "engine_env \<Rightarrow> string \<Rightarrow> f64 \<Rightarrow> pair_candidate list \<Rightarrow> skip_record list \<Rightarrow> pair_candidate list
     \<Rightarrow> (string + pair_candidate list \<times> skip_record list) engine" where
  "price_all env us now [] skips done = returnA (Inr (done, skips))"
| "price_all env us now (pair # rest) skips done =
     bindA (price_selected env us now pair) (\<lambda>outcome.
     case outcome of
       Skipped s \<Rightarrow> price_all env us now rest (skips @ [s]) done
     | Priced p \<Rightarrow> price_all env us now rest skips (done @ [p])
     | Aborted exc \<Rightarrow> returnA (Inl exc))"

definition price_plan ::
  "engine_env \<Rightarrow> planner_channel list \<Rightarrow> (string + pair_candidate list \<times> skip_record list) engine" where
  "price_plan env channels =
     (let cfg = en_config env
      in bindA (liftA (plan channels (cf_max_amount cfg) (max_concurrent_jobs cfg) (cf_fee_cap_ppm cfg))) (\<lambda>p.
         bindA (\<lambda>w. (Inr (inflight_snapshot (inflight w)), w)) (\<lambda>busy.
         let (skips, selected) = split_inflight busy (map (planned_candidate channels) (plan_pairs p))
         in bindA (ensure_our_id env) (\<lambda>us.
            bindA (clock_now env) (\<lambda>now.
            price_all env us now (by_priority selected) (plan_skips p @ skips) [])))))"

definition find_candidates ::
  "engine_env \<Rightarrow> (string + pair_candidate list \<times> skip_record list) engine" where
  "find_candidates env =
     bindA (ask (en_channels env) SnapshotChannels) (\<lambda>snapshot.
     case snapshot of
       None \<Rightarrow> returnA (Inr ([], []))
     | Some [] \<Rightarrow> returnA (Inr ([], []))
     | Some channels \<Rightarrow>
         bindA (with_router env (price_plan env channels)) (\<lambda>r.
         returnA (case r of None \<Rightarrow> Inr ([], []) | Some found \<Rightarrow> found)))"

section \<open>The cycle\<close>

definition consume_worker_result ::
  "engine_env \<Rightarrow> string \<Rightarrow> string \<Rightarrow> execution_result \<Rightarrow> cycle_result \<Rightarrow> cycle_result engine" where
  "consume_worker_result env src dst r res =
     (let res = res\<lparr>cy_executions := cy_executions res @ [r]\<rparr>
      in if success r then
           bindA (with_futility (\<lambda>st. ((), pair_record_success src dst st))) (\<lambda>_.
           bindA (tell (ClearPairFailures src dst)) (\<lambda>_. returnA res))
         else if is_budget_block r then returnA res
         else bindA (clock_now env) (\<lambda>now.
           bindA (with_futility (\<lambda>st. ((), pair_record_failure src dst now st))) (\<lambda>_.
           bindA (tell (RecordPairFailure src dst (classify_failure_kind_str (error_or_empty r))
             (cooldown_base_secs (classify_failure (error_or_empty r))) (f64_as_i64 now))) (\<lambda>_.
           returnA res))))"

text \<open>The workers run as whole actions, one after the other. A worker that panics reports
  nothing and does not stop the others.\<close>

fun run_workers :: "engine_env \<Rightarrow> pair_candidate list \<Rightarrow> (string \<times> string \<times> execution_result) list engine" where
  "run_workers env [] = returnA []"
| "run_workers env (p # ps) =
     handleA (execute_pair env p True True None) (\<lambda>r.
     bindA (run_workers env ps) (\<lambda>rs.
     returnA (case r of Inl _ \<Rightarrow> rs | Inr x \<Rightarrow> (pc_source p, pc_dest p, x) # rs)))"

fun consume_all ::
  "engine_env \<Rightarrow> (string \<times> string \<times> execution_result) list \<Rightarrow> cycle_result \<Rightarrow> cycle_result engine" where
  "consume_all env [] res = returnA res"
| "consume_all env ((src, dst, r) # rs) res =
     bindA (consume_worker_result env src dst r res) (consume_all env rs)"

text \<open>The results that arrive in time, in the order they arrive.\<close>

definition arrivals :: "engine_env \<Rightarrow> 'a list \<Rightarrow> 'a list" where
  "arrivals env rs = map (\<lambda>i. rs ! i) (filter (\<lambda>i. i < length rs) (remdups (en_arrivals env (length rs))))"

text \<open>The policy gate and the futility backstop, before anything is paid.\<close>

fun live_of :: "engine_env \<Rightarrow> f64 \<Rightarrow> pair_candidate list \<Rightarrow> pair_candidate list engine" where
  "live_of env now [] = returnA []"
| "live_of env now (p # ps) =
     bindA (pair_policy_allowed env p) (\<lambda>(policy_ok, reason).
     if \<not> policy_ok then live_of env now ps
     else bindA (with_futility (pair_is_futile (pc_source p) (pc_dest p) now)) (\<lambda>futile.
       if futile then live_of env now ps
       else bindA (live_of env now ps) (\<lambda>rest. returnA (p # rest))))"

definition arbitrated :: "engine_env \<Rightarrow> pair_candidate list \<Rightarrow> pair_candidate list engine" where
  "arbitrated env ps =
     (case en_arbiter env of
        None \<Rightarrow> returnA ps
      | Some get \<Rightarrow> bindA (ask (\<lambda>l. get l ps) (ArbitrateBatch ps)) (\<lambda>r.
          returnA (case r of Inl _ \<Rightarrow> ps | Inr qs \<Rightarrow> qs)))"

definition overflow_skip :: "nat \<Rightarrow> pair_candidate \<Rightarrow> skip_record" where
  "overflow_skip limit p = skip_pair p ''max_pairs_reached'' (max (pc_budget p) 0)
     (''src='' @ pc_source p @ '' max_concurrent_jobs='' @ dec_nat limit)"

section \<open>The sweep of pending settlements\<close>

definition scid_of :: "json \<Rightarrow> string option" where
  "scid_of channel =
     (case as_str (jix channel ''short_channel_id'') of
        Some (c # s) \<Rightarrow> Some (c # s)
      | _ \<Rightarrow> (case as_str (jix (jix channel ''alias'') ''local'') of Some (c # s) \<Rightarrow> Some (c # s) | _ \<Rightarrow> None))"

definition scid_peer_map :: "engine_env \<Rightarrow> (string \<times> string) list engine" where
  "scid_peer_map env =
     bindA (ask (en_peers env) ListPeerChannelsFull) (\<lambda>r.
     returnA (case r of
       Inl _ \<Rightarrow> []
     | Inr v \<Rightarrow> fold (\<lambda>channel m. case scid_of channel of None \<Rightarrow> m
           | Some scid \<Rightarrow> bt_or_insert scid (case as_str (jix channel ''peer_id'') of None \<Rightarrow> [] | Some p \<Rightarrow> p) m)
         (json_items (jix v ''channels'')) []))"

fun is_object :: "json \<Rightarrow> bool" where
  "is_object (JObj m) = True"
| "is_object _ = False"

definition payment_status :: "json \<Rightarrow> string" where
  "payment_status p = (case as_str (jix p ''status'') of None \<Rightarrow> [] | Some s \<Rightarrow> s)"

text \<open>A settled payment: the fee paid, the amount delivered, the cost booked, the hold spent.
  The peer map is looked up at most once per sweep.\<close>

definition settle_row ::
  "engine_env \<Rightarrow> history_row \<Rightarrow> json \<Rightarrow> (string \<times> string) list option
     \<Rightarrow> (bool \<times> (string \<times> string) list option) engine" where
  "settle_row env row settled peers =
     (let amount_msat = engine_parse_msat (jix settled ''amount_msat'');
          sent_msat = engine_parse_msat (jix settled ''amount_sent_msat'')
      in bindA (liftA (chk_i64 (sent_msat - amount_msat))) (\<lambda>diff.
         let fee = max diff 0
         in bindA (liftA (engine_sats_ceil fee)) (\<lambda>sats.
            let delivered = engine_sats_floor (max amount_msat 0);
                settled_sats = (if delivered \<le> 0 then hr_amount row else delivered)
            in bindA (tell (UpdateSuccess (hr_id row) \<lparr>hs_fee_sats = sats, hs_fee_msat = fee, hs_ratio = None,
                  hs_amount = (if 0 < settled_sats then Some settled_sats else None)\<rparr>)) (\<lambda>_.
               bindA (if 0 < fee then
                   bindA (case peers of Some m \<Rightarrow> returnA m | None \<Rightarrow> scid_peer_map env) (\<lambda>m.
                   bindA (clock_now env) (\<lambda>t.
                   bindA (tell (RecordCost \<lparr>cost_channel = hr_to row, cost_peer = bt_get_or [] m (hr_to row),
                     cost_sats = sats, cost_msat = fee, cost_amount = settled_sats,
                     cost_time = f64_as_i64 t\<rparr>)) (\<lambda>_. returnA (Some m))))
                 else returnA peers) (\<lambda>peers.
               bindA (tell (MarkSpent (dec_int (hr_id row)) sats)) (\<lambda>_.
               bindA (with_futility (\<lambda>st. ((), pair_record_success (hr_from row) (hr_to row) st))) (\<lambda>_.
               returnA (True, peers))))))))"

definition reconcile_pending_row ::
  "engine_env \<Rightarrow> history_row \<Rightarrow> (string \<times> string) list option
     \<Rightarrow> (bool \<times> (string \<times> string) list option) engine" where
  "reconcile_pending_row env row peers =
     (let hash = (case hr_hash row of None \<Rightarrow> [] | Some h \<Rightarrow> h)
      in if hr_id row \<le> 0 \<or> hash = [] then returnA (False, peers)
         else bindA (ask (\<lambda>l. en_sendpays env l hash) (ListSendpays hash)) (\<lambda>r.
           case r of
             Inl _ \<Rightarrow> returnA (False, peers)
           | Inr v \<Rightarrow>
               (let payments = filter is_object (json_items (jix v ''payments''))
                in if ''pending'' \<in> payment_status ` set payments then returnA (False, peers)
                   else case find (\<lambda>p. as_str (jix p ''status'') = Some ''complete'') payments of
                     Some settled \<Rightarrow> settle_row env row settled peers
                   | None \<Rightarrow>
                       bindA (tell (UpdateHistory (hr_id row) ''failed'' (Some ''payment_pending_resolved_failed''))) (\<lambda>_.
                       bindA (tell (ReleaseBudget (dec_int (hr_id row)))) (\<lambda>_.
                       bindA (tell (DelpayHash hash ''failed'')) (\<lambda>_.
                       returnA (True, peers)))))))"

fun reconcile_rows ::
  "engine_env \<Rightarrow> history_row list \<Rightarrow> (string \<times> string) list option \<Rightarrow> nat \<Rightarrow> nat engine" where
  "reconcile_rows env [] peers resolved = returnA resolved"
| "reconcile_rows env (row # rows) peers resolved =
     bindA (reconcile_pending_row env row peers) (\<lambda>(ok, peers).
     reconcile_rows env rows peers (if ok then resolved + 1 else resolved))"

definition reconcile_pending_settlements :: "engine_env \<Rightarrow> nat engine" where
  "reconcile_pending_settlements env =
     bindA (ask (en_pending_rows env) PendingRows) (\<lambda>rows. reconcile_rows env rows None 0)"

section \<open>The whole cycle\<close>

definition is_pair_in_futility :: "engine_env \<Rightarrow> string \<Rightarrow> string \<Rightarrow> bool engine" where
  "is_pair_in_futility env src dst = bindA (clock_now env) (\<lambda>now. with_futility (pair_is_futile src dst now))"

definition pay_candidates ::
  "engine_env \<Rightarrow> pair_candidate list \<Rightarrow> cycle_result \<Rightarrow> cycle_result engine" where
  "pay_candidates env live res =
     bindA (ensure_our_id env) (\<lambda>us.
     if us = [] then returnA (res\<lparr>cy_candidates := []\<rparr>)
     else let limit = max_concurrent_jobs (en_config env); taken = take limit live;
              res = (if limit < length live
                then res\<lparr>cy_audit := cy_audit res @ map (overflow_skip limit) (drop limit live),
                  cy_candidates := taken\<rparr> else res)
          in bindA (run_workers env taken) (\<lambda>rs. consume_all env (arrivals env rs) res))"

definition run_cycle_locked :: "engine_env \<Rightarrow> cycle_result engine" where
  "run_cycle_locked env =
     bindA (reconcile_pending_settlements env) (\<lambda>_.
     bindA (find_candidates env) (\<lambda>found.
     case found of
       Inl exc \<Rightarrow> returnA \<lparr>cy_candidates = [], cy_executions = [], cy_audit =
         [\<lparr>skip_channel = [], skip_reason = ''route_pricing_failed'', skip_class = ''none'', skip_budget = 0,
           skip_detail = Some (ROUTE_PRICING_FAILED_PREFIX @ exc)\<rparr>]\<rparr>
     | Inr (cands, skips) \<Rightarrow>
         let res = \<lparr>cy_candidates = cands, cy_executions = [], cy_audit = skips\<rparr>
         in if cands = [] then returnA res
            else bindA (clock_now env) (\<lambda>now.
              bindA (live_of env now cands) (\<lambda>live.
              let res = res\<lparr>cy_candidates := live\<rparr>
              in if live = [] then returnA res
                 else bindA (arbitrated env live) (\<lambda>live.
                   let res = res\<lparr>cy_candidates := live\<rparr>
                   in if live = [] then returnA res else pay_candidates env live res)))))"

definition run_cycle :: "engine_env \<Rightarrow> cycle_result engine" where
  "run_cycle env =
     with_cycle_lock
       (returnA \<lparr>cy_candidates = [], cy_executions = [], cy_audit =
         [\<lparr>skip_channel = [], skip_reason = CYCLE_ALREADY_RUNNING, skip_class = ''none'', skip_budget = 0,
           skip_detail = Some ''engine cycle lock held by another caller''\<rparr>]\<rparr>)
       (run_cycle_locked env)"

end
