(* ===== verification/EngineDemo.thy ===== *)
theory EngineDemo
  imports EngineCycle
begin

text \<open>
  A concrete node for the engine, on which the properties are evaluated: the first payment
  of a log fails on a channel, every later one succeeds; the budget rail grants.
\<close>

definition demo_terms :: pair_candidate where
  "demo_terms = \<lparr>pc_source = ''1x1x1'', pc_dest = ''2x2x2'', pc_source_peer = ''02aa'', pc_dest_peer = ''02bb'',
     pc_amount = 100000, pc_budget = 50, pc_effective = Some 50, pc_cost = 20, pc_route = [],
     pc_reason = ''ev_positive'', pc_score = f64_of_int 0, pc_dest_capacity = 0, pc_dest_ratio = f64_of_int 0\<rparr>"

definition demo_failure :: execution_result where
  "demo_failure = (failed_result ''WIRE_TEMPORARY_CHANNEL_FAILURE'' 100000)\<lparr>excluded_channels := [''3x3x3/1'']\<rparr>"

definition demo_success :: execution_result where
  "demo_success = (failed_result [] 100000)\<lparr>success := True, error := None, attempts := 1, fee_sats := 21,
     fee_msat := 20500, payment_hash := Some ''ab''\<rparr>"

fun is_payment :: "engine_call \<Rightarrow> bool" where
  "is_payment (Execute q r) = True"
| "is_payment c = False"

definition demo_route :: route_result where
  "demo_route = \<lparr>rr_success = True, rr_error = None, rr_cost_sats = 22, rr_final_hop_ppm = 0, rr_hops = 2,
     rr_route = [], rr_probability_ppm = 900000\<rparr>"

definition demo_engine :: engine_env where
  "demo_engine =
     \<lparr>en_config = default_config\<lparr>cf_daily_budget := 1000\<rparr>,
      en_getinfo = (\<lambda>_. Some ''02cc''),
      en_policy = Some (\<lambda>_ _. Inr \<lparr>pol_strategy = ''dynamic'', pol_mode = ''enabled''\<rparr>),
      en_router = (\<lambda>_. True),
      en_price = (\<lambda>_ _ _. Inr demo_route),
      en_execute = (\<lambda>l _ st. (if list_ex is_payment l then demo_success else demo_failure, st)),
      en_insert = (\<lambda>_ _. 7),
      en_reserve = (\<lambda>_ _. Inr ''ok''),
      en_cooldown = (\<lambda>_ _ _ _. None),
      en_pending_rows = (\<lambda>_. []),
      en_sendpays = (\<lambda>_ _. Inl ''down''),
      en_peers = (\<lambda>_. Inl ''down''),
      en_channels = (\<lambda>_. None),
      en_ev = None,
      en_arbiter = None,
      en_clock = (\<lambda>_. f64_of_int 1700000000),
      en_text4 = (\<lambda>_. []),
      en_arrivals = (\<lambda>n. [0..<n])\<rparr>"

definition demo_state :: engine_world where
  "demo_state = engine_new"

definition demo_run :: "(unit, execution_result) result \<times> engine_world" where
  "demo_run = execute_pair demo_engine demo_terms True True None demo_state"

text \<open>What the strings of the run evaluate to.\<close>

lemma demo_strings:
  "trim ''02cc'' = ''02cc''" "trim ''3x3x3/1'' = ''3x3x3/1''"
  by (rule trim_printable; simp add: printable_def)+

lemma demo_numbers:
  "f64_as_i64 (f64_of_int 1700000000) = 1700000000" "f64_le (f64_of_int 0) (f64_of_int 0)"
  by (rule f64_roundtrip_small, simp) (simp add: f64_le_def f64_of_int_def f64_round_def)

lemmas demo_defs = demo_engine_def demo_terms_def demo_state_def engine_new_def demo_failure_def demo_success_def demo_route_def
  default_config_def failed_result_def demo_strings demo_numbers

lemmas step_defs = bindA_def handleA_def ask_def ask_logged_def say_call_def tell_def Let_def chk_i64_def bindE_def
  in_i64_def i64_bounds bt_get_or_def trunc_div_def error_or_empty_def

lemmas execution_defs = pair_policy_allowed_def reserve_execution_budget_def global_budget_limit_def
  pair_max_fee_sats_def pay_def execution_request_def execute_seam_def ensure_our_id_def execute_pair_def
  record_rebalance_pending_def reservation_id_of_def guarding_def update_inflight_def register_dest_def
  unregister_dest_def execute_guarded_def pay_reserved_def retry_with_exclusions_def exclusions_of_def
  route_pair_fresh_def with_router_def pair_ctx_of_def effective_budget_of_def probability_adjusted_budget_def
  per_attempt_ceiling_def merge_retry_def retry_with_partial_amounts_def failure_allows_partial_def
  record_rebalance_result_def record_success_row_def finish_execution_budget_def engine_sats_ceil_def has_hash_def

lemma demo_run_eq:
  "\<exists>res. fst demo_run = Inr res \<and> success res \<and> \<not> payment_pending res \<and> fee_sats res = 21 \<and>
     filter is_payment (ecalls (snd demo_run)) \<noteq> []"
  unfolding demo_run_def by (simp add: demo_defs step_defs execution_defs)

end
