(* ===== verification/EngineMoney.thy ===== *)
theory EngineMoney
  imports EngineDemo
begin

text \<open>
  Money safety of the engine: what its calls to the executor and to the budget rail are,
  in which order they come and how they relate to the result it returns.
\<close>

section \<open>The calls that move or hold money\<close>

fun is_money :: "engine_call \<Rightarrow> bool" where
  "is_money (Execute q r) = True"
| "is_money (ReserveBudget q r) = True"
| "is_money (MarkSpent i f) = True"
| "is_money (ReleaseBudget i) = True"
| "is_money c = False"

interpretation money: call_log ecalls say_call is_money
  by unfold_locales (simp add: say_call_def)

lemma quiet_ask: "\<not> is_money c \<Longrightarrow> money.quiet (ask f c)"
  by (rule money.quiet_step) (auto simp: ask_def)

lemma quiet_ask_logged: "(\<And>a. \<not> is_money (c a)) \<Longrightarrow> money.quiet (ask_logged f c)"
  unfolding money.quiet_def money.traces_def by (auto simp: ask_logged_def say_call_def)

lemma quiet_tell: "\<not> is_money c \<Longrightarrow> money.quiet (tell c)"
  unfolding tell_def by (rule quiet_ask)

lemma quiet_our_id: "money.quiet (ensure_our_id env)"
proof -
  have "money.quiet (bindA (ask (en_getinfo env) GetInfo) (\<lambda>r w.
          case r of None \<Rightarrow> (Inr [], w) | Some i \<Rightarrow> (Inr (trim i), w\<lparr>cached_id := trim i\<rparr>)))"
    by (intro money.quiet_bind quiet_ask money.quietI) (auto split: option.splits)
  then show ?thesis
    unfolding money.quiet_def money.traces_def ensure_our_id_def by simp
qed

lemma quiet_policy: "money.quiet (pair_policy_allowed env pair)"
proof -
  have "money.quiet (policy_checks get cs)" for get cs
    by (induction cs rule: policy_checks.induct)
      (auto simp: Let_def intro!: money.quiet_bind quiet_ask money.quiet_basic split: sum.splits)
  then show ?thesis
    by (auto simp: pair_policy_allowed_def simp del: policy_checks.simps intro: money.quiet_basic split: option.splits)
qed

lemma quiet_router: "money.quiet m \<Longrightarrow> money.quiet (with_router env m)"
  unfolding with_router_def
  by (auto intro!: money.quiet_bind money.quiet_handle quiet_ask quiet_tell money.quiet_basic)

lemma quiet_route_fresh: "money.quiet (route_pair_fresh env pair ex)"
  unfolding route_pair_fresh_def Let_def
  by (intro quiet_router money.quiet_bind quiet_our_id quiet_ask_logged) simp

lemma quiet_record_pending: "money.quiet (record_rebalance_pending env pair)"
  unfolding record_rebalance_pending_def Let_def
  by (intro money.quiet_bind quiet_ask money.quiet_basic) simp

lemma quiet_record_result: "money.quiet (record_rebalance_result env i r pair account)"
  unfolding record_rebalance_result_def record_success_row_def Let_def
  by (auto intro!: money.quiet_bind quiet_tell quiet_ask money.quiet_basic split: option.splits list.splits)

lemma quiet_export: "money.quiet (export_segments now)"
  unfolding export_segments_def by (intro money.quietI) (auto split: sum.splits)

lemma quiet_push: "money.quiet (push_segment_observation_snapshot env)"
  unfolding push_segment_observation_snapshot_def
  by (auto intro!: money.quiet_bind quiet_our_id quiet_tell quiet_ask quiet_export money.quiet_basic
      split: option.splits list.splits)

lemma quiet_annotate: "money.quiet (annotate_retry first ex suffix e)"
  unfolding annotate_retry_def by (intro money.quiet_bind money.quiet_basic)

lemma quiet_reservation_id: "money.quiet (reservation_id_of pair i)"
  unfolding reservation_id_of_def by (intro money.quietI) (auto split: option.splits)

lemma quiet_update_inflight: "money.quiet (update_inflight f)"
  unfolding update_inflight_def by (intro money.quietI) (auto split: sum.splits)

section \<open>One payment after another\<close>

text \<open>What a result says about the money: settled, still pending, and the fee.\<close>

definition outcome :: "execution_result \<Rightarrow> bool \<times> bool \<times> string option \<times> int" where
  "outcome r = (success r, payment_pending r, payment_hash r, fee_sats r)"

definition unpaid :: "execution_result \<Rightarrow> bool" where
  "unpaid r \<longleftrightarrow> \<not> success r \<and> \<not> payment_pending r"

fun attempt_of :: "engine_call \<Rightarrow> execution_result option" where
  "attempt_of (Execute q r) = Some r"
| "attempt_of c = None"

definition paid_call :: "engine_call \<Rightarrow> bool" where
  "paid_call c \<longleftrightarrow> (case attempt_of c of None \<Rightarrow> True | Some r \<Rightarrow> \<not> unpaid r)"

text \<open>Payments only, and nothing is paid after a payment that succeeded or is pending.\<close>

definition attempts_only :: "engine_call list \<Rightarrow> bool" where
  "attempts_only cs \<longleftrightarrow> (\<forall>c \<in> set cs. attempt_of c \<noteq> None) \<and> (\<forall>c \<in> set (butlast cs). \<not> paid_call c)"

text \<open>More attempts after a first result, up to a final one.\<close>

definition continues :: "execution_result \<Rightarrow> engine_call list \<Rightarrow> (unit, execution_result) result \<Rightarrow> bool" where
  "continues first cs r \<longleftrightarrow> attempts_only cs \<and> (cs \<noteq> [] \<longrightarrow> unpaid first) \<and>
     (\<forall>res. r = Inr res \<longrightarrow>
        (if cs = [] then outcome res = outcome first
         else if paid_call (last cs) then map_option outcome (attempt_of (last cs)) = Some (outcome res)
         else unpaid res))"

lemma unpaid_outcome: "outcome r = outcome s \<Longrightarrow> unpaid r = unpaid s"
  by (simp add: outcome_def unpaid_def)

lemma attempts_only_append:
  "attempts_only cs \<Longrightarrow> attempts_only ds \<Longrightarrow> (ds \<noteq> [] \<Longrightarrow> cs \<noteq> [] \<Longrightarrow> \<not> paid_call (last cs)) \<Longrightarrow>
     attempts_only (cs @ ds)"
  by (cases cs rule: rev_cases) (auto simp: attempts_only_def butlast_append)

lemma continues_refl: "outcome res = outcome first \<Longrightarrow> continues first [] (Inr res)"
  and continues_fail: "continues first [] (Inl e)"
  by (simp_all add: continues_def attempts_only_def)

lemma continues_outcome:
  assumes "continues first cs (Inr mid)" "outcome res = outcome mid"
  shows "continues first cs (Inr res)"
  using assms(1) unpaid_outcome [OF assms(2)] unfolding continues_def by (simp add: assms(2))

lemma continues_trans:
  assumes a: "continues first cs (Inr mid)" and b: "continues mid ds r"
  shows "continues first (cs @ ds) r"
proof (cases "ds = []")
  case True
  show ?thesis
  proof (cases r)
    case (Inl e)
    with a True show ?thesis by (simp add: continues_def)
  next
    case (Inr res)
    with b True have "outcome res = outcome mid" by (simp add: continues_def)
    with continues_outcome [OF a this] True Inr show ?thesis by simp
  qed
next
  case ds: False
  have mid: "unpaid mid" using b ds by (simp add: continues_def)
  show ?thesis
  proof (cases "cs = []")
    case True
    with a mid have "unpaid first" by (auto simp: continues_def dest: unpaid_outcome)
    with True ds b show ?thesis by (simp add: continues_def)
  next
    case False
    have "\<not> paid_call (last cs)"
    proof
      assume p: "paid_call (last cs)"
      with a False obtain r where "attempt_of (last cs) = Some r" "outcome r = outcome mid"
        by (auto simp: continues_def)
      with p mid show False by (auto simp: paid_call_def dest: unpaid_outcome)
    qed
    moreover have "attempts_only cs" "attempts_only ds" "unpaid first"
      using a b False by (simp_all add: continues_def)
    ultimately show ?thesis
      using b ds False by (simp add: continues_def attempts_only_append)
  qed
qed

lemma continues_one:
  "unpaid first \<Longrightarrow> outcome res = outcome r \<Longrightarrow> continues first [Execute q r] (Inr res)"
  "unpaid first \<Longrightarrow> continues first [Execute q r] (Inl e)"
  using unpaid_outcome [of res r] by (simp_all add: continues_def attempts_only_def paid_call_def)

text \<open>The fee ceilings the executor is given.\<close>

definition fees_within :: "int \<Rightarrow> engine_call list \<Rightarrow> bool" where
  "fees_within b cs \<longleftrightarrow> (\<forall>q r. Execute q r \<in> set cs \<longrightarrow> max_fee_sats q \<le> b)"

lemma fees_within_simps [simp]:
  "fees_within b []" "fees_within b (cs @ ds) \<longleftrightarrow> fees_within b cs \<and> fees_within b ds"
  "fees_within b (Execute q r # cs) \<longleftrightarrow> max_fee_sats q \<le> b \<and> fees_within b cs"
  by (auto simp: fees_within_def)

lemma fees_within_mono: "fees_within a cs \<Longrightarrow> a \<le> b \<Longrightarrow> fees_within b cs"
  by (force simp: fees_within_def)

lemma traces_pay:
  "money.traces (\<lambda>r cs. \<exists>q res. r = Inr res \<and> cs = [Execute q res] \<and> max_fee_sats q = pair_max_fee_sats pair)
     (pay env pair)"
  unfolding pay_def
proof (rule money.traces_bind [where P = "\<lambda>r cs. \<exists>q. r = Inr q \<and> cs = [] \<and> max_fee_sats q = pair_max_fee_sats pair"],
    goal_cases)
  case 1
  have i: "money.traces (\<lambda>r cs. (\<exists>us. r = Inr us) \<and> cs = []) (ensure_our_id env)"
  proof -
    have "\<exists>us. fst (ensure_our_id env w) = Inr us" for w
      by (auto simp: ensure_our_id_def bindA_def ask_def split: option.splits)
    with quiet_our_id [of env] show ?thesis
      unfolding money.quiet_def money.traces_def by metis
  qed
  have c: "money.traces (\<lambda>r cs. (\<exists>t. r = Inr t) \<and> cs = []) (clock_now env)"
    by (rule money.traces_step [where c = ReadClock]) (auto simp: ask_def)
  show ?case
    unfolding execution_request_def
    by (rule money.traces_bind [OF i], simp, rule money.traces_bind [OF c])
      (auto intro!: money.traces_basic)
next
  case (3 q cs)
  have "\<exists>a. execute_seam env q w = (Inr a, say_call (Execute q a) (w\<lparr>esegs := snd (en_execute env (ecalls w) q (esegs w))\<rparr>))" for w
    by (auto simp: execute_seam_def split: prod.splits)
  then show ?case
    using 3 unfolding money.traces_def
    by (auto simp: say_call_def execute_seam_def split: prod.splits intro!: exI [of _ "[x]" for x])
qed auto

section \<open>The two retries\<close>

lemma unpaid_or: "unpaid r \<or> success r \<or> payment_pending r"
  by (auto simp: unpaid_def)

lemma continues_failed_then:
  assumes "unpaid first" "unpaid r0" "continues first ds r"
  shows "continues first (Execute q r0 # ds) r"
proof (cases "ds = []")
  case True
  have "unpaid res" if "r = Inr res" for res
    using assms(1,3) True that unpaid_outcome [of res first] by (simp add: continues_def)
  with True assms(1,2) show ?thesis
    by (simp add: continues_def attempts_only_def paid_call_def)
next
  case False
  with assms show ?thesis by (simp add: continues_def attempts_only_def paid_call_def)
qed

lemma traces_outcome_only:
  assumes "\<And>w. \<exists>r. m w = (r, w) \<and> (\<forall>res. r = Inr res \<longrightarrow> outcome res = outcome first)"
  shows "money.traces (\<lambda>r cs. cs = [] \<and> (\<forall>res. r = Inr res \<longrightarrow> outcome res = outcome first)) m"
proof (rule money.tracesI)
  fix w
  from assms [of w] obtain r where "m w = (r, w)" "\<forall>res. r = Inr res \<longrightarrow> outcome res = outcome first" by blast
  then show "ecalls (snd (m w)) = ecalls w \<and> [] = ([] :: engine_call list) \<and>
      (\<forall>res. fst (m w) = Inr res \<longrightarrow> outcome res = outcome first)" by simp
qed

lemma traces_annotate:
  "money.traces (\<lambda>r cs. cs = [] \<and> (\<forall>res. r = Inr res \<longrightarrow> outcome res = outcome first))
     (annotate_retry first ex suffix e)"
  by (rule traces_outcome_only)
    (auto simp: annotate_retry_def bindA_def outcome_def split: sum.splits)

lemma traces_merge:
  "money.traces (\<lambda>r' cs. cs = [] \<and> (\<forall>res. r' = Inr res \<longrightarrow> outcome res = outcome r))
     (merge_retry first ex cost r)"
  by (rule traces_outcome_only)
    (auto simp: merge_retry_def bindA_def outcome_def Let_def split: sum.splits)

definition same_terms :: "pair_candidate \<Rightarrow> pair_candidate \<Rightarrow> bool" where
  "same_terms p p' \<longleftrightarrow> pc_amount p' = pc_amount p \<and> pc_budget p' = pc_budget p \<and> pc_effective p' = pc_effective p"

lemma same_terms_fee: "same_terms p p' \<Longrightarrow> pair_max_fee_sats p' = pair_max_fee_sats p"
  by (auto simp: same_terms_def pair_max_fee_sats_def split: option.splits)

definition retried ::
  "pair_candidate \<Rightarrow> execution_result \<Rightarrow> (unit, pair_candidate \<times> execution_result) result \<Rightarrow> engine_call list \<Rightarrow> bool" where
  "retried pair first r cs \<longleftrightarrow> continues first cs (map_sum id snd r) \<and> fees_within (pair_max_fee_sats pair) cs \<and>
     (\<forall>p res. r = Inr (p, res) \<longrightarrow> same_terms pair p)"

lemma retried_none: "retried pair first (Inl e) []"
  "outcome res = outcome first \<Longrightarrow> retried pair first (Inr (pair, res)) []"
  by (simp_all add: retried_def continues_fail continues_refl same_terms_def)

lemma retried_annotate:
  "money.traces (retried pair first) (bindA (annotate_retry first ex suffix e) (\<lambda>r. returnA (pair, r)))"
  by (rule money.traces_bind [OF traces_annotate])
    (auto intro!: money.traces_basic retried_none)

lemma traces_retry: "money.traces (retried pair first) (retry_with_exclusions env pair first)"
proof (cases "success first \<or> payment_pending first")
  case True
  then show ?thesis
    unfolding retry_with_exclusions_def by (auto intro: money.traces_basic retried_none)
next
  case False
  then have u: "unpaid first" by (simp add: unpaid_def)
  have pay: "money.traces (retried pair first) (bindA (pay env p) (\<lambda>r.
      bindA (merge_retry first ex cost r) (\<lambda>r. returnA (p, r))))"
    if st: "same_terms pair p" for p ex cost
  proof (rule money.traces_bind [OF traces_pay])
    fix a cs
    assume "\<exists>q res. Inr a = Inr res \<and> cs = [Execute q res] \<and> max_fee_sats q = pair_max_fee_sats p"
    then obtain q where cs: "cs = [Execute q a]" "max_fee_sats q = pair_max_fee_sats pair"
      using same_terms_fee [OF st] by auto
    show "money.traces (\<lambda>r ds. retried pair first r (cs @ ds)) (bindA (merge_retry first ex cost a) (\<lambda>r. returnA (p, r)))"
      by (rule money.traces_bind [OF traces_merge])
        (use u cs st in \<open>auto simp: retried_def continues_one intro!: money.traces_basic\<close>)
  qed auto
  show ?thesis
    unfolding retry_with_exclusions_def Let_def
    by (auto simp: False same_terms_def intro!: money.traces_basic retried_none money.traces_after_quiet quiet_route_fresh
        money.quiet_basic retried_annotate pay split: option.splits sum.splits)
qed

text \<open>The ladder: what each step may spend.\<close>

definition ladder_sound :: "engine_env \<Rightarrow> pair_candidate \<Rightarrow> int \<Rightarrow> int list \<Rightarrow> bool" where
  "ladder_sound env pair b amounts \<longleftrightarrow>
     (\<forall>amount \<in> set amounts. \<forall>rr eff.
        effective_budget_of env (ladder_budget pair amount) rr amount = Inr eff \<longrightarrow> eff \<le> b)"

definition laddered ::
  "execution_result \<Rightarrow> bool \<Rightarrow> int \<Rightarrow> (unit, pair_candidate \<times> execution_result) result \<Rightarrow> engine_call list \<Rightarrow> bool" where
  "laddered prior sound b r cs \<longleftrightarrow> continues prior cs (map_sum id snd r) \<and> (sound \<longrightarrow> fees_within b cs)"

lemma laddered_none: "laddered prior sound b (Inl e) []"
  "outcome res = outcome prior \<Longrightarrow> laddered prior sound b (Inr (p, res)) []"
  by (simp_all add: laddered_def continues_fail continues_refl)

lemma laddered_exhausted:
  "money.traces (laddered prior sound b) (ladder_exhausted pair prior trail n)"
  unfolding ladder_exhausted_def
  by (auto intro!: money.traces_basic laddered_none simp: outcome_def)

lemma outcome_partial: "outcome (partial_result prior n fill r) = outcome r"
  "outcome (r\<lparr>amount_sats := a\<rparr>) = outcome r"
  by (simp_all add: outcome_def partial_result_def)

lemma traces_ladder_attempt:
  assumes u: "unpaid prior" and fee: "sound \<longrightarrow> pair_max_fee_sats paid \<le> b"
    and next_step: "\<And>t k. money.traces (laddered prior sound b) (next_step t k)"
  shows "money.traces (laddered prior sound b) (ladder_attempt env pair prior trail n paid next_step)"
  unfolding ladder_attempt_def
proof (rule money.traces_bind [OF traces_pay], goal_cases)
  case (2 a cs)
  then obtain q where cs: "cs = [Execute q a]" "max_fee_sats q = pair_max_fee_sats paid" by auto
  have one: "laddered prior sound b (Inr (p', res)) [Execute q a]" if "outcome res = outcome a" for p' res
    using u cs fee that by (simp add: laddered_def continues_one)
  have failed: "money.traces (\<lambda>r ds. laddered prior sound b r (Execute q a # ds)) (next_step t k)"
    if "unpaid a" for t k
    using next_step by (rule money.traces_mono)
      (use u cs fee that in \<open>auto simp: laddered_def continues_failed_then\<close>)
  have stop: "laddered prior sound b (Inl e) [Execute q a]" for e
    using u cs fee by (simp add: laddered_def continues_one)
  show ?case
    unfolding cs append.simps
    by (rule money.traces_after_quiet [OF money.quiet_basic(3)])
      (auto simp: stop Let_def outcome_partial unpaid_def intro!: money.traces_basic one failed)
qed auto

lemma traces_ladder:
  assumes u: "unpaid prior" and s: "sound \<longrightarrow> ladder_sound env pair b amounts"
  shows "money.traces (laddered prior sound b) (partial_ladder env pair prior trail n amounts)"
  using s
proof (induction amounts arbitrary: trail n)
  case Nil
  show ?case by (simp add: laddered_exhausted)
next
  case (Cons amount rest)
  then have rest: "money.traces (laddered prior sound b) (partial_ladder env pair prior t k rest)" for t k
    by (simp add: ladder_sound_def)
  have stop: "laddered prior sound b (Inl e) []" for e by (rule laddered_none)
  have paid: "money.traces (laddered prior sound b) (bindA (liftA (effective_budget_of env (ladder_budget pair amount) rr amount))
      (\<lambda>eff. if eff < rr_cost_sats rr then partial_ladder env pair prior (t eff) n rest
        else ladder_attempt env pair prior trail n (p eff) (\<lambda>trail n. partial_ladder env pair prior trail n rest)))"
    if "\<And>eff. pc_effective (p eff) = Some eff" for rr t p
  proof (cases "effective_budget_of env (ladder_budget pair amount) rr amount")
    case (Inl e)
    show ?thesis
      unfolding Inl by (rule money.tracesI) (simp add: bindA_def stop)
  next
    case (Inr eff)
    then have "sound \<longrightarrow> pair_max_fee_sats (p eff) \<le> b"
      using Cons.prems that by (auto simp: ladder_sound_def pair_max_fee_sats_def)
    moreover have "bindA (liftA (Inr eff)) f = f eff" for f :: "int \<Rightarrow> (pair_candidate \<times> execution_result) engine"
      by (simp add: bindA_def fun_eq_iff)
    ultimately show ?thesis
      unfolding Inr using rest by (auto intro!: traces_ladder_attempt u)
  qed
  show ?case
    unfolding partial_ladder.simps Let_def
    by (rule money.traces_after_quiet [OF quiet_route_fresh])
      (auto intro!: stop laddered_exhausted rest paid split: option.splits sum.splits)
qed

lemma traces_partial:
  assumes "sound \<longrightarrow> ladder_sound env pair b (native_partial_amounts (pc_amount pair))"
  shows "money.traces (laddered prior sound b) (retry_with_partial_amounts env pair prior)"
proof (cases "payment_pending prior \<or> \<not> failure_allows_partial prior")
  case True
  then show ?thesis
    unfolding retry_with_partial_amounts_def by (auto intro!: money.traces_basic laddered_none)
next
  case False
  then have "unpaid prior" by (simp add: unpaid_def failure_allows_partial_def)
  with traces_ladder [OF this assms] False show ?thesis
    unfolding retry_with_partial_amounts_def by simp
qed

section \<open>The reservation and its settlement\<close>

fun is_settle :: "engine_call \<Rightarrow> bool" where
  "is_settle (MarkSpent i f) = True"
| "is_settle (ReleaseBudget i) = True"
| "is_settle c = False"

definition one_settle :: "engine_call list \<Rightarrow> bool" where
  "one_settle cs \<longleftrightarrow> length cs \<le> 1 \<and> list_all is_settle cs"

definition settlement :: "string \<Rightarrow> bool \<Rightarrow> execution_result \<Rightarrow> engine_call list" where
  "settlement rid reserved r =
     (if \<not> reserved then []
      else if payment_pending r then (if has_hash r then [] else [ReleaseBudget rid])
      else if success r then [MarkSpent rid (max (fee_sats r) 0)] else [ReleaseBudget rid])"

lemma traces_finish:
  "money.traces (\<lambda>r cs. r = Inr () \<and> cs = settlement rid reserved res) (finish_execution_budget rid reserved res)"
proof -
  have t: "money.traces (\<lambda>r cs. r = Inr () \<and> cs = [c]) (tell c)" if "is_money c" for c
    by (rule money.traces_step [where c = c]) (use that in \<open>auto simp: tell_def ask_def\<close>)
  show ?thesis
    by (auto simp: finish_execution_budget_def settlement_def intro!: money.traces_basic t)
qed

text \<open>What the reservation step asks for and what it decides.\<close>

definition reserve_ok :: "engine_env \<Rightarrow> pair_candidate \<Rightarrow> string \<Rightarrow> reserve_request \<Rightarrow> bool" where
  "reserve_ok env pair rid q \<longleftrightarrow> req_id q = rid \<and> req_amount q = pair_max_fee_sats pair \<and> 0 < req_amount q \<and>
     req_category q = ''rebalance'' \<and> effective_budget_sats q = Some (cf_daily_budget (en_config env)) \<and>
     weekly_budget_limit q = cf_weekly_budget (en_config env) \<and> req_channel q = Some (pc_dest pair)"

definition reserving ::
  "engine_env \<Rightarrow> pair_candidate \<Rightarrow> string \<Rightarrow> (unit, bool \<times> execution_result option) result \<Rightarrow> engine_call list \<Rightarrow> bool" where
  "reserving env pair rid r cs \<longleftrightarrow>
     (\<exists>e. r = Inl e \<and> cs = []) \<or>
     (\<exists>b. r = Inr (False, Some b) \<and> cs = [] \<and> unpaid b) \<or>
     (r = Inr (False, None) \<and> cs = [] \<and> pair_max_fee_sats pair \<le> 0) \<or>
     (\<exists>q x b. r = Inr (False, Some b) \<and> cs = [ReserveBudget q (Inl x)] \<and> unpaid b \<and> reserve_ok env pair rid q) \<or>
     (\<exists>q x. r = Inr (True, None) \<and> cs = [ReserveBudget q (Inr x)] \<and> reserve_ok env pair rid q)"

lemma unpaid_failed: "unpaid (failed_result msg n)"
  by (simp add: unpaid_def failed_result_def)

lemma reserving_decided:
  assumes "0 < max (pair_max_fee_sats pair) 0" "reserve_ok env pair rid q"
  shows "money.traces (reserving env pair rid) (bindA (ask_logged f (ReserveBudget q)) (\<lambda>r.
     returnA (case r of Inr x \<Rightarrow> (True, None)
       | Inl (BlockRefused n) \<Rightarrow> (False, Some (failed_result (g1 n) m))
       | Inl (BlockUnavailable t) \<Rightarrow> (False, Some (failed_result (g2 t) m)))))"
proof (rule money.traces_bind [where P = "\<lambda>r cs. \<exists>a. r = Inr a \<and> cs = [ReserveBudget q a]"], goal_cases)
  case 1
  show ?case
    unfolding money.traces_def by (auto simp: ask_logged_def say_call_def)
next
  case (3 a cs)
  with assms show ?case
    by (auto simp: reserving_def unpaid_failed intro!: money.traces_basic split: sum.splits budget_block.splits)
qed auto

lemma traces_reserve: "money.traces (reserving env pair rid) (reserve_execution_budget env pair rid)"
proof -
  let ?fee = "max (pair_max_fee_sats pair) 0" and ?limit = "global_budget_limit (en_config env)"
  have stop: "reserving env pair rid (Inl e) []" for e by (simp add: reserving_def)
  consider "?limit \<le> 0" | "0 < ?limit" "?fee \<le> 0" | "0 < ?limit" "0 < ?fee" by linarith
  then show ?thesis
  proof cases
    case 1
    then show ?thesis
      by (auto simp: reserve_execution_budget_def Let_def reserving_def unpaid_failed intro!: money.traces_basic)
  next
    case 2
    then show ?thesis
      by (auto simp: reserve_execution_budget_def Let_def reserving_def unpaid_failed intro!: money.traces_basic)
  next
    case 3
    then have l: "?limit = cf_daily_budget (en_config env)" by (simp add: global_budget_limit_def)
    show ?thesis
      unfolding reserve_execution_budget_def Let_def
      using 3 by (auto simp: reserve_ok_def l intro!: money.traces_after_quiet quiet_ask money.quiet_basic
          stop reserving_decided)
  qed
qed

section \<open>One execution\<close>

text \<open>
  The money calls of one execution: first at most one reservation, then the payments, then
  at most one settlement.
\<close>

record money_story =
  ms_reserve :: "(reserve_request \<times> (budget_block + string)) option"
  ms_payments :: "engine_call list"
  ms_settle :: "engine_call list"

definition story_calls :: "money_story \<Rightarrow> engine_call list" where
  "story_calls st = (case ms_reserve st of None \<Rightarrow> [] | Some (q, x) \<Rightarrow> [ReserveBudget q x])
     @ ms_payments st @ ms_settle st"

definition granted :: "money_story \<Rightarrow> bool" where
  "granted st \<longleftrightarrow> (case ms_reserve st of Some (q, Inr x) \<Rightarrow> True | _ \<Rightarrow> False)"

lemma granted_iff: "granted st \<longleftrightarrow> (\<exists>q y. ms_reserve st = Some (q, Inr y))"
proof (cases "ms_reserve st")
  case (Some a)
  obtain q x where "a = (q, x)" by force
  with Some show ?thesis by (cases x) (simp_all add: granted_def)
qed (simp add: granted_def)

definition refused_story :: "money_story \<Rightarrow> bool" where
  "refused_story st \<longleftrightarrow> (case ms_reserve st of Some (q, Inl x) \<Rightarrow> True | _ \<Rightarrow> False)"

text \<open>The result agrees with the last payment.\<close>

definition told :: "engine_call list \<Rightarrow> execution_result \<Rightarrow> bool" where
  "told cs res \<longleftrightarrow>
     (if cs \<noteq> [] \<and> paid_call (last cs)
      then map_option outcome (attempt_of (last cs)) = Some (outcome res) else unpaid res)"

definition story_ok ::
  "engine_env \<Rightarrow> pair_candidate \<Rightarrow> bool \<Rightarrow> bool \<Rightarrow> int \<Rightarrow> (unit, execution_result) result \<Rightarrow> money_story \<Rightarrow> bool" where
  "story_ok env pair reserve sound b r st \<longleftrightarrow>
     attempts_only (ms_payments st) \<and>
     (case ms_reserve st of None \<Rightarrow> True | Some (q, x) \<Rightarrow> reserve \<and> reserve_ok env pair (req_id q) q) \<and>
     (refused_story st \<longrightarrow> ms_payments st = []) \<and>
     (reserve \<and> ms_payments st \<noteq> [] \<longrightarrow> granted st \<or> pair_max_fee_sats pair \<le> 0) \<and>
     (sound \<longrightarrow> fees_within b (ms_payments st)) \<and>
     one_settle (ms_settle st) \<and> (\<not> granted st \<longrightarrow> ms_settle st = []) \<and>
     (\<forall>res. r = Inr res \<longrightarrow> told (ms_payments st) res \<and>
        (\<forall>q x. ms_reserve st = Some (q, Inr x) \<longrightarrow> ms_settle st = settlement (req_id q) True res))"

lemma told_continues:
  assumes "continues r0 cs (Inr res)"
  shows "told (Execute q r0 # cs) res"
proof (cases "cs = []")
  case True
  with assms have o: "outcome res = outcome r0" by (simp add: continues_def)
  then show ?thesis
    using True unpaid_outcome [OF o] by (simp add: told_def paid_call_def)
next
  case False
  with assms show ?thesis by (auto simp: told_def continues_def)
qed

lemma attempts_continues: "continues r0 cs r \<Longrightarrow> attempts_only (Execute q r0 # cs)"
  by (cases "cs = []") (auto simp: continues_def attempts_only_def paid_call_def)

lemma settlement_outcome:
  "one_settle (settlement rid reserved res)" "one_settle []" "\<not> reserved \<Longrightarrow> settlement rid reserved res = []"
  by (simp_all add: settlement_def one_settle_def)

text \<open>From the first payment on.\<close>

definition paying ::
  "string \<Rightarrow> bool \<Rightarrow> bool \<Rightarrow> int \<Rightarrow> (unit, execution_result) result \<Rightarrow> engine_call list \<Rightarrow> bool" where
  "paying rid reserved sound b r cs \<longleftrightarrow>
     (\<exists>ps ss. cs = ps @ ss \<and> ps \<noteq> [] \<and> attempts_only ps \<and> (sound \<longrightarrow> fees_within b ps) \<and>
        one_settle ss \<and> (\<not> reserved \<longrightarrow> ss = []) \<and>
        (\<forall>res. r = Inr res \<longrightarrow> told ps res \<and> ss = settlement rid reserved res))"

lemma paying_unsettled:
  assumes "continues r0 cs (Inl e)" "sound \<longrightarrow> max_fee_sats q \<le> b \<and> fees_within b cs"
  shows "paying rid reserved sound b (Inl e') (Execute q r0 # cs)"
  using assms attempts_continues [OF assms(1)] unfolding paying_def
  by (intro exI [of _ "Execute q r0 # cs"] exI [of _ "[]"]) (auto simp: settlement_outcome)

lemma paying_settled:
  assumes "continues r0 cs (Inr res)" "sound \<longrightarrow> max_fee_sats q \<le> b \<and> fees_within b cs"
    and "\<forall>res'. r = Inr res' \<longrightarrow> res' = res"
  shows "paying rid reserved sound b r (Execute q r0 # cs @ settlement rid reserved res)"
  using assms attempts_continues [OF assms(1)] told_continues [OF assms(1)] settlement_outcome unfolding paying_def
  by (intro exI [of _ "Execute q r0 # cs"] exI [of _ "settlement rid reserved res"]) auto

lemma traces_pay_reserved:
  assumes "sound \<longrightarrow> pair_max_fee_sats pair \<le> b"
    and "sound \<longrightarrow> ladder_sound env pair b (native_partial_amounts (pc_amount pair))"
  shows "money.traces (paying rid reserved sound b) (pay_reserved env pair account i rid reserved)"
  unfolding pay_reserved_def
proof (rule money.traces_bind [OF traces_pay], goal_cases)
  case (2 r0 cs)
  then obtain q where q: "cs = [Execute q r0]" "max_fee_sats q = pair_max_fee_sats pair" by auto
  show ?case
    unfolding q append.simps
  proof (rule money.traces_bind [OF traces_retry], goal_cases)
    case (1 e cs)
    then show ?case
      using assms(1) q by (auto simp: retried_def intro!: paying_unsettled elim: fees_within_mono)
  next
    case (2 a cs)
    obtain p1 r1 where a: "a = (p1, r1)" by force
    from 2 a have c1: "continues r0 cs (Inr r1)" "fees_within (pair_max_fee_sats pair) cs" "same_terms pair p1"
      by (auto simp: retried_def)
    have terms: "ladder_sound env p1 b am = ladder_sound env pair b am" "pc_amount p1 = pc_amount pair" for am
      using c1(3) by (simp_all add: ladder_sound_def ladder_budget_def same_terms_def)
    have f1: "sound \<longrightarrow> max_fee_sats q \<le> b \<and> fees_within b cs"
      using assms(1) q c1(2) fees_within_mono by auto
    have lad: "money.traces (laddered r1 sound b) (retry_with_partial_amounts env p1 r1)"
      using assms(2) by (intro traces_partial) (simp add: terms)
    show ?case
      unfolding a prod.case
    proof (rule money.traces_bind [OF lad], goal_cases)
      case (1 e ds)
      then show ?case
        using f1 by (auto simp: laddered_def intro!: paying_unsettled continues_trans [OF c1(1)])
    next
      case (2 a2 ds)
      obtain p2 r2 where a2: "a2 = (p2, r2)" by force
      from 2 a2 have c2: "continues r1 ds (Inr r2)" "sound \<longrightarrow> fees_within b ds"
        by (auto simp: laddered_def)
      have c: "continues r0 (cs @ ds) (Inr r2)" by (rule continues_trans [OF c1(1) c2(1)])
      have f: "sound \<longrightarrow> max_fee_sats q \<le> b \<and> fees_within b (cs @ ds)" using f1 c2(2) by simp
      have fail: "paying rid reserved sound b (Inl e) (Execute q r0 # cs @ ds)" for e
        using paying_unsettled [of r0 "cs @ ds" Panic sound q b] c f by (simp add: continues_def)
      have fin: "money.traces (\<lambda>r es. paying rid reserved sound b r (Execute q r0 # (cs @ ds) @ es))
         (bindA (finish_execution_budget rid reserved r2) (\<lambda>_.
          bindA (if success r2 then returnA False else push_segment_observation_snapshot env) (\<lambda>_. returnA r2)))"
      proof (rule money.traces_bind [OF traces_finish], goal_cases)
        case (2 u es)
        then have es: "es = settlement rid reserved r2" by simp
        have settled: "paying rid reserved sound b r (Execute q r0 # (cs @ ds) @ es @ [])"
          if "\<forall>res'. r = Inr res' \<longrightarrow> res' = r2" for r
          using paying_settled [OF c f that, of rid reserved] es by simp
        show ?case
          by (rule money.traces_after_quiet)
            (use settled in \<open>auto intro!: money.traces_basic money.quiet_basic quiet_push\<close>)
      qed simp
      show ?case
        unfolding a2 prod.case
        by (rule money.traces_after_quiet [OF quiet_record_result]) (use fail fin in simp_all)
    qed
  qed
qed auto

definition storied ::
  "engine_env \<Rightarrow> pair_candidate \<Rightarrow> bool \<Rightarrow> bool \<Rightarrow> int \<Rightarrow> (unit, execution_result) result \<Rightarrow> engine_call list \<Rightarrow> bool" where
  "storied env pair reserve sound b r cs \<longleftrightarrow> (\<exists>st. cs = story_calls st \<and> story_ok env pair reserve sound b r st)"

lemma storied_stop: "storied env pair reserve sound b (Inl e) []"
  "unpaid res \<Longrightarrow> storied env pair reserve sound b (Inr res) []"
  unfolding storied_def
  by (rule exI [of _ "\<lparr>ms_reserve = None, ms_payments = [], ms_settle = []\<rparr>"],
      simp add: story_calls_def story_ok_def attempts_only_def granted_def refused_story_def told_def one_settle_def)+

lemma storied_refused:
  assumes "reserve" "reserve_ok env pair rid q" "\<forall>res. r = Inr res \<longrightarrow> unpaid res"
  shows "storied env pair reserve sound b r [ReserveBudget q (Inl x)]"
  unfolding storied_def
  by (rule exI [of _ "\<lparr>ms_reserve = Some (q, Inl x), ms_payments = [], ms_settle = []\<rparr>"])
    (use assms in \<open>auto simp: story_calls_def story_ok_def attempts_only_def granted_def refused_story_def
      told_def reserve_ok_def one_settle_def\<close>)

lemma storied_unreserved:
  assumes "paying rid False sound b r cs" "reserve \<longrightarrow> pair_max_fee_sats pair \<le> 0"
  shows "storied env pair reserve sound b r cs"
proof -
  from assms(1) obtain ps where "cs = ps" "attempts_only ps" "sound \<longrightarrow> fees_within b ps"
    "\<forall>res. r = Inr res \<longrightarrow> told ps res" by (auto simp: paying_def)
  with assms(2) show ?thesis
    unfolding storied_def
    by (intro exI [of _ "\<lparr>ms_reserve = None, ms_payments = ps, ms_settle = []\<rparr>"])
      (auto simp: story_calls_def story_ok_def granted_def refused_story_def one_settle_def)
qed

lemma storied_reserved:
  assumes "paying rid True sound b r cs" "reserve_ok env pair rid q" "reserve"
  shows "storied env pair reserve sound b r (ReserveBudget q (Inr x) # cs)"
proof -
  have i: "req_id q = rid" using assms(2) by (simp add: reserve_ok_def)
  from assms(1) obtain ps ss where "cs = ps @ ss" "attempts_only ps" "sound \<longrightarrow> fees_within b ps" "one_settle ss"
    "\<forall>res. r = Inr res \<longrightarrow> told ps res \<and> ss = settlement rid True res" by (auto simp: paying_def)
  with assms(2,3) i show ?thesis
    unfolding storied_def
    by (intro exI [of _ "\<lparr>ms_reserve = Some (q, Inr x), ms_payments = ps, ms_settle = ss\<rparr>"])
      (auto simp: story_calls_def story_ok_def granted_def refused_story_def)
qed

lemma bindA_return: "bindA (returnA a) f = f a"
  by (simp add: bindA_def fun_eq_iff)

lemma traces_guarded:
  assumes "sound \<longrightarrow> pair_max_fee_sats pair \<le> b"
    and "sound \<longrightarrow> ladder_sound env pair b (native_partial_amounts (pc_amount pair))"
  shows "money.traces (storied env pair reserve sound b) (execute_guarded env pair reserve account i rid)"
proof -
  note pays = traces_pay_reserved [OF assms]
  have blocked: "money.traces Q (bindA (record_rebalance_result env i bl pair False) (\<lambda>_. returnA bl))"
    if "\<And>e. Q (Inl e) []" "Q (Inr bl) []" for Q bl
    by (rule money.traces_after_quiet [OF quiet_record_result]) (use that in \<open>auto intro: money.traces_basic\<close>)
  show ?thesis
  proof (cases reserve)
    case False
    have "money.traces (storied env pair reserve sound b) (pay_reserved env pair account i rid False)"
      using pays by (rule money.traces_mono) (use False in \<open>auto intro: storied_unreserved\<close>)
    then show ?thesis
      unfolding execute_guarded_def using False by (simp add: bindA_return)
  next
    case True
    show ?thesis
      unfolding execute_guarded_def if_P [OF True]
    proof (rule money.traces_bind [OF traces_reserve], goal_cases)
      case (1 e cs)
      then show ?case by (auto simp: reserving_def storied_stop)
    next
      case (2 a cs)
      then consider (zero) bl where "a = (False, Some bl)" "cs = []" "unpaid bl"
        | (free) "a = (False, None)" "cs = []" "pair_max_fee_sats pair \<le> 0"
        | (refused) q x bl where "a = (False, Some bl)" "cs = [ReserveBudget q (Inl x)]" "unpaid bl" "reserve_ok env pair rid q"
        | (got) q x where "a = (True, None)" "cs = [ReserveBudget q (Inr x)]" "reserve_ok env pair rid q"
        by (auto simp: reserving_def)
      then show ?case
      proof cases
        case zero
        then show ?thesis by (auto intro!: blocked storied_stop)
      next
        case free
        have "money.traces (storied env pair reserve sound b) (pay_reserved env pair account i rid False)"
          using pays by (rule money.traces_mono) (use free in \<open>auto intro: storied_unreserved\<close>)
        with free show ?thesis by simp
      next
        case refused
        with True show ?thesis by (auto intro!: blocked storied_refused)
      next
        case (got q x)
        have "money.traces (\<lambda>r cs. storied env pair reserve sound b r (ReserveBudget q (Inr x) # cs))
           (pay_reserved env pair account i rid True)"
          using pays by (rule money.traces_mono) (use got True in \<open>auto intro: storied_reserved\<close>)
        with got show ?thesis by simp
      qed
    qed
  qed
qed

lemma traces_guarding:
  assumes "money.traces Q m" "\<And>e. Q (Inl e) []"
  shows "money.traces Q (guarding dest m)"
  unfolding guarding_def
proof (rule money.traces_after_quiet [OF quiet_update_inflight])
  show "Q (Inl e) []" for e by (rule assms(2))
  show "money.traces Q (handleA m (\<lambda>r. bindA (update_inflight (\<lambda>f. Inr (unregister_dest dest f))) (\<lambda>_. liftA r)))"
  proof (rule money.traces_handle [OF assms(1)])
    fix r cs assume q: "Q r cs"
    have "bindA (update_inflight (\<lambda>f. Inr (unregister_dest dest f))) (\<lambda>_. liftA r) w =
        (r, w\<lparr>inflight := unregister_dest dest (inflight w)\<rparr>)" for w
      by (simp add: bindA_def update_inflight_def)
    with q show "money.traces (\<lambda>r ds. Q r (cs @ ds)) (bindA (update_inflight (\<lambda>f. Inr (unregister_dest dest f))) (\<lambda>_. liftA r))"
      by (intro money.tracesI) simp
  qed
qed

lemma traces_execute_pair:
  assumes "sound \<longrightarrow> pair_max_fee_sats pair \<le> b"
    and "sound \<longrightarrow> ladder_sound env pair b (native_partial_amounts (pc_amount pair))"
  shows "money.traces (storied env pair reserve sound b) (execute_pair env pair reserve account i)"
  unfolding execute_pair_def
proof (rule money.traces_after_quiet [OF quiet_policy], goal_cases)
  case 1
  show ?case by (rule storied_stop)
next
  case (2 a)
  have body: "money.traces (storied env pair reserve sound b)
      (bindA (reservation_id_of pair j) (\<lambda>rid. guarding (pc_dest pair) (execute_guarded env pair reserve account j rid)))" for j
    by (rule money.traces_after_quiet [OF quiet_reservation_id])
      (rule storied_stop, rule traces_guarding [OF traces_guarded [OF assms]], rule storied_stop)
  have ids: "money.quiet (case i of None \<Rightarrow> record_rebalance_pending env pair | Some i \<Rightarrow> returnA (Some i))"
    by (cases i) (simp_all add: quiet_record_pending money.quiet_basic)
  obtain ok reason where a: "a = (ok, reason)" by force
  show ?case
  proof (cases ok)
    case True
    show ?thesis
      unfolding a prod.case
      by (simp only: True not_True_eq_False if_False)
        (rule money.traces_after_quiet [OF ids], rule storied_stop, rule body)
  next
    case False
    then show ?thesis
      unfolding a by (auto intro!: money.traces_basic storied_stop unpaid_failed)
  qed
qed

section \<open>The ladder of amounts\<close>

lemma half: "0 \<le> cur \<Longrightarrow> trunc_div cur 2 = cur div 2"
  by (cases "cur = 0") (auto simp: trunc_div_def)

lemma partial_loop_ladder:
  assumes "0 < m" "cur < orig" "length amounts \<le> 6" "sorted_wrt (>) amounts"
    "\<forall>a \<in> set amounts. cur < a \<and> m \<le> a \<and> a < orig"
  shows "sorted_wrt (>) (partial_loop orig m amounts cur) \<and> length (partial_loop orig m amounts cur) \<le> 6 \<and>
    (\<forall>a \<in> set (partial_loop orig m amounts cur). m \<le> a \<and> a < orig)"
  using assms
proof (induction orig m amounts cur rule: partial_loop.induct)
  case (1 orig m amounts cur)
  show ?case
  proof (cases "m \<le> cur \<and> length amounts < 6")
    case False
    with 1 show ?thesis by (subst (1 2 3) partial_loop.simps) (auto simp del: partial_loop.simps)
  next
    case True
    have c: "0 < cur" "trunc_div cur 2 = cur div 2" "cur div 2 < cur" "cur \<notin> set amounts"
      using True 1(2,6) half [of cur] by auto
    have step: "partial_loop orig m amounts cur = partial_loop orig m (amounts @ [cur]) (cur div 2)"
      using True c 1(3) by (subst partial_loop.simps) (simp add: Let_def)
    show ?thesis
      unfolding step
      by (rule 1(1) [OF True, of "amounts @ [cur]" "cur div 2", unfolded c])
        (use 1(2-6) True c in \<open>auto simp: sorted_wrt_append\<close>)
  qed
qed

lemma native_amounts:
  assumes "2 \<le> orig"
  defines "m \<equiv> min (orig - 1) (max 1000 (min 5000 (orig div 2)))"
  obtains am where "native_partial_amounts orig = (if m \<in> set am then am else am @ [m])"
    "sorted_wrt (>) am" "length am \<le> 6" "\<forall>a \<in> set am. m \<le> a \<and> a < orig"
proof -
  have m: "0 < m" "m < orig" "trunc_div orig 2 = orig div 2" using assms by (auto simp: trunc_div_def)
  define am where "am = partial_loop orig m [] (orig div 2)"
  have am: "sorted_wrt (>) am \<and> length am \<le> 6 \<and> (\<forall>a \<in> set am. m \<le> a \<and> a < orig)"
    unfolding am_def by (rule partial_loop_ladder) (use assms(1) m in auto)
  have "native_partial_amounts orig = take 7 (if m < orig \<and> m \<notin> set am then am @ [m] else am)"
    using assms(1) m(1) unfolding native_partial_amounts_def m(3) m_def [symmetric]
    by (simp add: Let_def am_def)
  also have "\<dots> = (if m \<in> set am then am else am @ [m])"
    using m am by simp
  finally show ?thesis using am that by blast
qed

lemma native_amounts_small: "orig < 2 \<Longrightarrow> native_partial_amounts orig = []"
  by (auto simp: native_partial_amounts_def Let_def)

lemma native_amounts_within:
  assumes a: "a \<in> set (native_partial_amounts orig)"
  shows "0 < a \<and> a < orig"
proof -
  define m where "m = min (orig - 1) (max 1000 (min 5000 (orig div 2)))"
  have o: "2 \<le> orig" using a native_amounts_small [of orig] by fastforce
  then have m: "0 < m" "m < orig" by (auto simp: m_def)
  obtain am where am: "native_partial_amounts orig = (if m \<in> set am then am else am @ [m])"
    "sorted_wrt (>) am" "length am \<le> 6" "\<forall>a \<in> set am. m \<le> a \<and> a < orig"
    unfolding m_def by (rule native_amounts [OF o])
  from a am(1) have "a = m \<or> a \<in> set am" by (simp split: if_splits)
  with m am(4) show ?thesis by auto
qed

section \<open>The fee ceilings of the ladder\<close>

lemma scaled_le:
  assumes "0 < budget" "0 < a" "a < n"
  shows "0 < scaled_budget_ceil budget a n \<and> scaled_budget_ceil budget a n \<le> max budget 1"
proof -
  have "0 < budget * a + n - 1" using assms by (simp add: pos_add_strict)
  then have t: "trunc_div (budget * a + n - 1) n = (budget * a + n - 1) div n"
    using assms by (simp add: trunc_div_def)
  have le: "budget * a \<le> budget * n" using assms by simp
  have "(budget * a + n - 1) div n \<le> (budget * n + (n - 1)) div n"
    by (intro zdiv_mono1) (use le assms in linarith)+
  also have "\<dots> = budget" using assms by simp
  finally have "(budget * a + n - 1) div n \<le> budget" .
  moreover have "in_i64 ((budget * a + n - 1) div n) \<or> i64_max < (budget * a + n - 1) div n"
    using \<open>0 < budget * a + n - 1\<close> assms pos_imp_zdiv_nonneg_iff [of n "budget * a + n - 1"]
    by (auto simp: in_i64_alt i64_bounds)
  ultimately show ?thesis
    unfolding scaled_budget_ceil_def Let_def t by auto
qed

text \<open>The terms a pair is executed on: its ceiling is the per-attempt ceiling of its budget, or
  it has none and the budget is the ceiling; no probability bonus is configured.\<close>

definition plain_terms :: "engine_env \<Rightarrow> pair_candidate \<Rightarrow> bool" where
  "plain_terms env pair \<longleftrightarrow> f64_le (cf_bonus (en_config env)) (f64_of_int 0) \<and>
     (case pc_effective pair of None \<Rightarrow> True
      | Some e \<Rightarrow> per_attempt_ceiling (pc_budget pair) (pc_amount pair) (cf_fee_cap_ppm (en_config env)) = Inr e)"

lemma ceiling_mono:
  assumes "per_attempt_ceiling x a cap = Inr e" "per_attempt_ceiling y n cap = Inr f"
    and "max x 0 \<le> max y 0" "0 < a" "a \<le> n"
  shows "e \<le> f"
proof (cases "cap \<le> 0")
  case True
  with assms show ?thesis by (simp add: per_attempt_ceiling_def)
next
  case False
  then have m: "a * cap \<le> n * cap" "0 < a * cap" using assms by auto
  then have "(a * cap + 999999) div 1000000 \<le> (n * cap + 999999) div 1000000"
    by (intro zdiv_mono1) auto
  then have "trunc_div (a * cap + 999999) 1000000 \<le> trunc_div (n * cap + 999999) 1000000"
    using m by (simp add: trunc_div_def)
  with False assms show ?thesis
    by (auto simp: per_attempt_ceiling_def Let_def result_simps split: if_splits)
qed

lemma ceiling_budget: "per_attempt_ceiling x a cap = Inr e \<Longrightarrow> e \<le> max x 0"
  by (auto simp: per_attempt_ceiling_def Let_def result_simps split: if_splits)

lemma plain_terms_sound:
  assumes "plain_terms env pair"
  shows "ladder_sound env pair (max (pair_max_fee_sats pair) 0) (native_partial_amounts (pc_amount pair))"
  unfolding ladder_sound_def
proof (intro ballI allI impI)
  fix a rr eff
  assume "a \<in> set (native_partial_amounts (pc_amount pair))"
    and eff: "effective_budget_of env (ladder_budget pair a) rr a = Inr eff"
  then have a: "0 < a" "a < pc_amount pair" using native_amounts_within by auto
  from eff assms have e: "per_attempt_ceiling (ladder_budget pair a) a (cf_fee_cap_ppm (en_config env)) = Inr eff"
    by (simp add: effective_budget_of_def probability_adjusted_budget_def plain_terms_def)
  have l: "max (ladder_budget pair a) 0 \<le> max (pc_budget pair) 0"
    using a scaled_le [of "pc_budget pair" a "pc_amount pair"] by (auto simp: ladder_budget_def)
  show "eff \<le> max (pair_max_fee_sats pair) 0"
  proof (cases "pc_effective pair")
    case None
    with ceiling_budget [OF e] l show ?thesis by (simp add: pair_max_fee_sats_def)
  next
    case (Some f)
    with assms have "per_attempt_ceiling (pc_budget pair) (pc_amount pair) (cf_fee_cap_ppm (en_config env)) = Inr f"
      by (simp add: plain_terms_def)
    from ceiling_mono [OF e this l] a Some show ?thesis by (simp add: pair_max_fee_sats_def)
  qed
qed

section \<open>Reading a story\<close>

definition pays_once :: "engine_call list \<Rightarrow> bool" where
  "pays_once cs \<longleftrightarrow> (\<forall>pre q x post. cs = pre @ Execute q x # post \<longrightarrow> success x \<or> payment_pending x \<longrightarrow>
     (\<forall>q' x'. Execute q' x' \<notin> set post))"

lemma execute_story:
  assumes "execute_pair env pair reserve account i w = (r, w')"
  obtains new st where "ecalls w' = ecalls w @ new" "filter is_money new = story_calls st"
    "story_ok env pair reserve (plain_terms env pair) (max (pair_max_fee_sats pair) 0) r st"
proof -
  have "money.traces (storied env pair reserve (plain_terms env pair) (max (pair_max_fee_sats pair) 0))
      (execute_pair env pair reserve account i)"
    by (rule traces_execute_pair) (simp_all add: plain_terms_sound)
  from money.tracesD [OF this assms] that show ?thesis by (auto simp: storied_def)
qed

lemma no_attempt_settle: "list_all is_settle cs \<Longrightarrow> Execute q x \<notin> set cs"
  by (auto simp: list_all_iff)

lemma payments_not_settle: "attempts_only ps \<Longrightarrow> filter is_settle ps = []"
proof (rule filter_False, rule ballI)
  fix c assume "attempts_only ps" "c \<in> set ps"
  then have "attempt_of c \<noteq> None" by (simp add: attempts_only_def)
  then show "\<not> is_settle c" by (cases c) auto
qed

lemma attempts_pay_once:
  assumes "attempts_only ps"
  shows "pays_once ps"
  unfolding pays_once_def
proof (intro allI impI)
  fix pre q x post q' x'
  assume "ps = pre @ Execute q x # post" "success x \<or> payment_pending x"
  then have "paid_call (Execute q x)" "post \<noteq> [] \<longrightarrow> Execute q x \<in> set (butlast ps)"
    by (auto simp: paid_call_def unpaid_def butlast_append)
  with assms have "post = []" by (auto simp: attempts_only_def)
  then show "Execute q' x' \<notin> set post" by simp
qed

lemma pays_once_around:
  assumes "pays_once ps" "\<And>q x. Execute q x \<notin> set rs" "\<And>q x. Execute q x \<notin> set ss"
  shows "pays_once (rs @ ps @ ss)"
  unfolding pays_once_def
proof (intro allI impI)
  fix pre q x post q' x'
  assume e: "rs @ ps @ ss = pre @ Execute q x # post" and d: "success x \<or> payment_pending x"
  have "\<exists>p1 p2. ps = p1 @ Execute q x # p2 \<and> post = p2 @ ss"
    using e assms(2) [of q x] assms(3) [of q x]
    by (auto simp: append_eq_append_conv2 append_eq_Cons_conv Cons_eq_append_conv)
  then obtain p1 p2 where "ps = p1 @ Execute q x # p2" "post = p2 @ ss" by blast
  with assms(1,3) d show "Execute q' x' \<notin> set post"
    unfolding pays_once_def by auto
qed

lemma pays_once_filter:
  assumes "pays_once (filter is_money cs)"
  shows "pays_once cs"
  unfolding pays_once_def
proof (intro allI impI notI)
  fix pre q x post q' x'
  assume "cs = pre @ Execute q x # post" "success x \<or> payment_pending x" "Execute q' x' \<in> set post"
  then have "filter is_money cs = filter is_money pre @ Execute q x # filter is_money post"
    "Execute q' x' \<in> set (filter is_money post)" by simp_all
  with assms \<open>success x \<or> payment_pending x\<close> show False
    unfolding pays_once_def by blast
qed

lemma paid_is_last: "attempts_only ps \<Longrightarrow> c \<in> set ps \<Longrightarrow> paid_call c \<Longrightarrow> last ps = c"
  by (cases ps rule: rev_cases) (auto simp: attempts_only_def)

lemma last_attempt:
  assumes "attempts_only ps" "ps \<noteq> []" "paid_call (last ps)"
  shows "\<exists>q x. last ps = Execute q x \<and> Execute q x \<in> set ps \<and> (success x \<or> payment_pending x)"
proof -
  have "attempt_of (last ps) \<noteq> None" "last ps \<in> set ps" using assms(1,2) by (auto simp: attempts_only_def)
  with assms(3) show ?thesis by (cases "last ps") (auto simp: paid_call_def unpaid_def)
qed

lemma story_split:
  assumes "story_ok env pair reserve sound b r st"
  obtains rs where "story_calls st = rs @ ms_payments st @ ms_settle st"
    "rs = (case ms_reserve st of None \<Rightarrow> [] | Some (q, x) \<Rightarrow> [ReserveBudget q x])"
    "\<And>q x. Execute q x \<notin> set rs" "filter is_settle rs = []"
    "\<And>q x. Execute q x \<notin> set (ms_settle st)" "list_all is_settle (ms_settle st)"
proof -
  let ?rs = "case ms_reserve st of None \<Rightarrow> [] | Some (q, x) \<Rightarrow> [ReserveBudget q x]"
  have "list_all is_settle (ms_settle st)" using assms by (simp add: story_ok_def one_settle_def)
  then show ?thesis
    by (intro that [of ?rs]) (auto simp: story_calls_def list_all_iff split: option.splits)
qed

lemma money_mem: "filter is_money new = cs \<Longrightarrow> Execute q x \<in> set new \<longleftrightarrow> Execute q x \<in> set cs"
  "filter is_money new = cs \<Longrightarrow> ReserveBudget rq a \<in> set new \<longleftrightarrow> ReserveBudget rq a \<in> set cs"
  by auto

lemma settle_filter: "filter is_money new = cs \<Longrightarrow> filter is_settle new = filter is_settle cs"
proof -
  have "filter is_settle (filter is_money new) = filter is_settle new"
    unfolding filter_filter by (rule filter_cong [OF refl], rename_tac c, case_tac c) auto
  then show "filter is_money new = cs \<Longrightarrow> filter is_settle new = filter is_settle cs" by auto
qed

section \<open>Properties\<close>

text \<open>C4. The engine never pays on top of a payment that succeeded or may still settle: once an
  attempt of an execution returned success or pending, neither the exclusion retry nor the
  ladder of partial amounts sends another one. What the execution returns is then that
  attempt's outcome, hash and fee included; and if no attempt went through, it does not
  claim that one did.\<close>

theorem engine_never_pays_twice:
  assumes "execute_pair env pair reserve account i w = (r, w')"
  shows "\<exists>new. ecalls w' = ecalls w @ new \<and> pays_once new \<and>
    (\<forall>res q x. r = Inr res \<longrightarrow> Execute q x \<in> set new \<longrightarrow> success x \<or> payment_pending x \<longrightarrow>
       outcome res = outcome x) \<and>
    (\<forall>res. r = Inr res \<longrightarrow> success res \<or> payment_pending res \<longrightarrow>
       (\<exists>q x. Execute q x \<in> set new \<and> (success x \<or> payment_pending x)))"
proof -
  obtain new st where n: "ecalls w' = ecalls w @ new" "filter is_money new = story_calls st"
    "story_ok env pair reserve (plain_terms env pair) (max (pair_max_fee_sats pair) 0) r st"
    using assms by (rule execute_story)
  obtain rs where rs: "story_calls st = rs @ ms_payments st @ ms_settle st"
    "\<And>q x. Execute q x \<notin> set rs" "\<And>q x. Execute q x \<notin> set (ms_settle st)"
    using n(3) by (rule story_split) blast
  have ps: "attempts_only (ms_payments st)" using n(3) by (simp add: story_ok_def)
  have "pays_once (story_calls st)"
    unfolding rs(1) by (rule pays_once_around [OF attempts_pay_once [OF ps] rs(2,3)])
  then have once: "pays_once new" by (rule pays_once_filter [of new, unfolded n(2)])
  have mem: "Execute q x \<in> set new \<longleftrightarrow> Execute q x \<in> set (ms_payments st)" for q x
    using money_mem(1) [OF n(2)] rs by auto
  have t: "told (ms_payments st) res" if "r = Inr res" for res
    using n(3) that by (simp add: story_ok_def)
  show ?thesis
  proof (intro exI [of _ new] conjI allI impI n(1) once)
    fix res q x
    assume r: "r = Inr res" and x: "Execute q x \<in> set new" "success x \<or> payment_pending x"
    then have p: "Execute q x \<in> set (ms_payments st)" "paid_call (Execute q x)"
      by (auto simp: mem paid_call_def unpaid_def)
    then have "last (ms_payments st) = Execute q x"
      using paid_is_last [OF ps] by blast
    moreover have "ms_payments st \<noteq> []" using p(1) by auto
    ultimately show "outcome res = outcome x" using t [OF r] p(2) by (simp add: told_def)
  next
    fix res
    assume r: "r = Inr res" "success res \<or> payment_pending res"
    then have "ms_payments st \<noteq> []" "paid_call (last (ms_payments st))"
      using t [OF r(1)] by (auto simp: told_def unpaid_def split: if_splits)
    with last_attempt [OF ps] show "\<exists>q x. Execute q x \<in> set new \<and> (success x \<or> payment_pending x)"
      unfolding mem by blast
  qed
qed

theorem engine_never_pays_twice_witness:
  "\<exists>new. ecalls (snd demo_run) = ecalls demo_state @ new \<and> pays_once new \<and>
    (\<forall>res q x. fst demo_run = Inr res \<longrightarrow> Execute q x \<in> set new \<longrightarrow> success x \<or> payment_pending x \<longrightarrow>
       outcome res = outcome x) \<and>
    (\<forall>res. fst demo_run = Inr res \<longrightarrow> success res \<or> payment_pending res \<longrightarrow>
       (\<exists>q x. Execute q x \<in> set new \<and> (success x \<or> payment_pending x)))"
  by (rule engine_never_pays_twice [where env = demo_engine and pair = demo_terms and reserve = True and account = True
        and i = None]) (simp add: demo_run_def)

text \<open>C5. Every reservation is settled exactly once, with the right operation: at the end of an
  execution that returns, a granted reservation was marked spent with the fee of the
  successful payment, or released when nothing was paid, or kept without a call exactly when a
  payment with a known hash is pending; an execution without a granted reservation settles
  nothing. At most one reservation is asked for, for the whole fee ceiling, against the
  whole daily budget.\<close>

theorem engine_settles_reservation:
  assumes "execute_pair env pair reserve account i w = (Inr res, w')"
  shows "\<exists>new. ecalls w' = ecalls w @ new \<and>
    (case filter (\<lambda>c. \<exists>q x. c = ReserveBudget q x) new of
       [] \<Rightarrow> filter is_settle new = []
     | [ReserveBudget q a] \<Rightarrow> reserve_ok env pair (req_id q) q \<and>
         filter is_settle new = (case a of Inl _ \<Rightarrow> [] | Inr _ \<Rightarrow>
           if payment_pending res then (if has_hash res then [] else [ReleaseBudget (req_id q)])
           else if success res then [MarkSpent (req_id q) (max (fee_sats res) 0)] else [ReleaseBudget (req_id q)])
     | _ \<Rightarrow> False)"
proof -
  obtain new st where n: "ecalls w' = ecalls w @ new" "filter is_money new = story_calls st"
    "story_ok env pair reserve (plain_terms env pair) (max (pair_max_fee_sats pair) 0) (Inr res) st"
    using assms by (rule execute_story)
  obtain rs where rs: "story_calls st = rs @ ms_payments st @ ms_settle st"
    "rs = (case ms_reserve st of None \<Rightarrow> [] | Some (q, x) \<Rightarrow> [ReserveBudget q x])"
    "filter is_settle rs = []" "list_all is_settle (ms_settle st)"
    using n(3) by (rule story_split) blast
  let ?R = "\<lambda>c. \<exists>q x. c = ReserveBudget q x"
  have ps: "attempts_only (ms_payments st)" using n(3) by (simp add: story_ok_def)
  have "filter ?R (filter is_money new) = filter ?R new"
    unfolding filter_filter by (rule filter_cong [OF refl]) auto
  then have R: "filter ?R new = filter ?R rs @ filter ?R (ms_payments st) @ filter ?R (ms_settle st)"
    by (simp add: n(2) rs(1))
  have "filter ?R (ms_payments st) = []" "filter ?R (ms_settle st) = []"
    using ps rs(4) by (auto simp: filter_empty_conv attempts_only_def list_all_iff)
  moreover have "filter is_settle new = ms_settle st"
    using settle_filter [OF n(2)] rs(3,4) payments_not_settle [OF ps] by (simp add: rs(1) list_all_iff)
  ultimately show ?thesis
    using n(3) R by (intro exI [of _ new])
      (auto simp: n(1) rs(2) story_ok_def granted_def settlement_def split: option.splits sum.splits)
qed

theorem engine_settles_reservation_witness:
  "\<exists>res new. fst demo_run = Inr res \<and> success res \<and> ecalls (snd demo_run) = ecalls demo_state @ new \<and>
    (case filter (\<lambda>c. \<exists>q x. c = ReserveBudget q x) new of
       [] \<Rightarrow> filter is_settle new = []
     | [ReserveBudget q a] \<Rightarrow> reserve_ok demo_engine demo_terms (req_id q) q \<and>
         filter is_settle new = (case a of Inl _ \<Rightarrow> [] | Inr _ \<Rightarrow>
           if payment_pending res then (if has_hash res then [] else [ReleaseBudget (req_id q)])
           else if success res then [MarkSpent (req_id q) (max (fee_sats res) 0)] else [ReleaseBudget (req_id q)])
     | _ \<Rightarrow> False)"
proof -
  obtain res where r: "fst demo_run = Inr res" "success res" using demo_run_eq by blast
  then have "execute_pair demo_engine demo_terms True True None demo_state = (Inr res, snd demo_run)"
    by (simp add: demo_run_def prod_eq_iff)
  from engine_settles_reservation [OF this] r show ?thesis by blast
qed

text \<open>C6. Without a probability bonus no payment of an execution, first attempt, retry or partial
  amount, may cost more than the fee ceiling of its pair, whether the execution reserves on
  the budget rail or not. If it reserves, a payment that may cost anything comes after a
  granted reservation of at least its own ceiling, and an execution whose reservation was
  refused pays nothing; if it does not, the rail is not asked at all.\<close>

theorem engine_fee_within_reservation:
  assumes "execute_pair env pair reserve account i w = (r, w')"
    and "plain_terms env pair"
  shows "\<exists>new. ecalls w' = ecalls w @ new \<and>
    (\<forall>q x. Execute q x \<in> set new \<longrightarrow> max_fee_sats q \<le> max (pair_max_fee_sats pair) 0) \<and>
    (reserve \<longrightarrow>
      (\<forall>pre q x post. new = pre @ Execute q x # post \<longrightarrow>
         max_fee_sats q \<le> 0 \<or>
         (\<exists>rq y. ReserveBudget rq (Inr y) \<in> set pre \<and> max_fee_sats q \<le> req_amount rq)) \<and>
      (\<forall>rq y q x. ReserveBudget rq (Inl y) \<in> set new \<longrightarrow> Execute q x \<notin> set new)) \<and>
    (\<not> reserve \<longrightarrow> (\<forall>rq a. ReserveBudget rq a \<notin> set new))"
proof -
  obtain new st where n: "ecalls w' = ecalls w @ new" "filter is_money new = story_calls st"
    "story_ok env pair reserve (plain_terms env pair) (max (pair_max_fee_sats pair) 0) r st"
    using assms(1) by (rule execute_story)
  obtain rs where rs: "story_calls st = rs @ ms_payments st @ ms_settle st"
    "rs = (case ms_reserve st of None \<Rightarrow> [] | Some (q, x) \<Rightarrow> [ReserveBudget q x])"
    "\<And>q x. Execute q x \<notin> set rs" "\<And>q x. Execute q x \<notin> set (ms_settle st)" "list_all is_settle (ms_settle st)"
    using n(3) by (rule story_split) blast
  have mem: "Execute q x \<in> set new \<longleftrightarrow> Execute q x \<in> set (ms_payments st)" for q x
    using money_mem(1) [OF n(2)] rs(1,3,4) by auto
  have ps: "\<forall>c \<in> set (ms_payments st). attempt_of c \<noteq> None" using n(3) by (simp add: story_ok_def attempts_only_def)
  have fee: "max_fee_sats q \<le> max (pair_max_fee_sats pair) 0" if "Execute q x \<in> set (ms_payments st)" for q x
    using n(3) assms(2) that by (auto simp: story_ok_def fees_within_def)
  have resv: "ReserveBudget rq a \<in> set new \<longleftrightarrow> ms_reserve st = Some (rq, a)" for rq a
    using money_mem(2) [OF n(2)] rs(5) ps by (auto simp: rs(1,2) list_all_iff split: option.splits)
  show ?thesis
  proof (intro exI [of _ new] conjI allI impI n(1))
    fix q x
    assume "Execute q x \<in> set new"
    with fee show "max_fee_sats q \<le> max (pair_max_fee_sats pair) 0" by (simp add: mem)
  next
    fix pre q x post
    assume reserve and new: "new = pre @ Execute q x # post"
    then have p: "Execute q x \<in> set (ms_payments st)" using mem [of q x] by simp
    show "max_fee_sats q \<le> 0 \<or> (\<exists>rq y. ReserveBudget rq (Inr y) \<in> set pre \<and> max_fee_sats q \<le> req_amount rq)"
    proof (cases "pair_max_fee_sats pair \<le> 0")
      case True
      with fee [OF p] show ?thesis by simp
    next
      case False
      moreover from p have "ms_payments st \<noteq> []" by auto
      ultimately have "granted st" using n(3) \<open>reserve\<close> by (simp add: story_ok_def)
      then obtain rq y where g: "ms_reserve st = Some (rq, Inr y)"
        by (auto simp: granted_iff)
      then have amt: "req_amount rq = pair_max_fee_sats pair" using n(3) by (simp add: story_ok_def reserve_ok_def)
      have "filter is_money pre @ Execute q x # filter is_money post = ReserveBudget rq (Inr y) # ms_payments st @ ms_settle st"
        using n(2) g by (simp add: new rs(1,2))
      then have "ReserveBudget rq (Inr y) \<in> set (filter is_money pre)"
        by (cases "filter is_money pre") auto
      then have "ReserveBudget rq (Inr y) \<in> set pre" by simp
      with fee [OF p] amt False show ?thesis by fastforce
    qed
  next
    fix rq y q x
    assume "ReserveBudget rq (Inl y) \<in> set new"
    then have "refused_story st" by (simp add: resv refused_story_def)
    then show "Execute q x \<notin> set new" using n(3) by (simp add: mem story_ok_def)
  next
    fix rq a
    assume "\<not> reserve"
    then show "ReserveBudget rq a \<notin> set new" using n(3) by (auto simp: resv story_ok_def)
  qed
qed

theorem engine_fee_within_reservation_witness:
  "\<exists>new. ecalls (snd demo_run) = ecalls demo_state @ new \<and>
    (\<forall>q x. Execute q x \<in> set new \<longrightarrow> max_fee_sats q \<le> max (pair_max_fee_sats demo_terms) 0) \<and>
    (\<forall>pre q x post. new = pre @ Execute q x # post \<longrightarrow>
       max_fee_sats q \<le> 0 \<or>
       (\<exists>rq y. ReserveBudget rq (Inr y) \<in> set pre \<and> max_fee_sats q \<le> req_amount rq))"
proof -
  have run: "execute_pair demo_engine demo_terms True True None demo_state = (fst demo_run, snd demo_run)"
    by (simp add: demo_run_def)
  have "plain_terms demo_engine demo_terms"
    by (simp add: plain_terms_def demo_defs step_defs per_attempt_ceiling_def)
  from engine_fee_within_reservation [OF run this] show ?thesis by auto
qed

text \<open>A peer whose policy blocks its side of a pair at every moment.\<close>

definition policy_blocks :: "(engine_call list \<Rightarrow> string \<Rightarrow> string + peer_policy) \<Rightarrow> string \<Rightarrow> string list \<Rightarrow> bool" where
  "policy_blocks get peer forbidden \<longleftrightarrow> peer \<noteq> [] \<and>
     (\<forall>l. case get l peer of Inl e \<Rightarrow> True
        | Inr p \<Rightarrow> pol_strategy p = ''passive'' \<or> pol_mode p \<in> set forbidden)"

lemma policy_checks_blocked:
  assumes "(peer, side, forbidden) \<in> set cs" "policy_blocks get peer forbidden"
    "\<forall>(p, s, f) \<in> set cs. [] \<notin> set f"
  shows "\<exists>new why. policy_checks get cs w = (Inr (False, why), w\<lparr>ecalls := ecalls w @ map GetPolicy new\<rparr>)"
  using assms(1,3)
proof (induction cs arbitrary: w)
  case (Cons c cs)
  obtain p s f where c: "c = (p, s, f)" by (cases c)
  let ?w = "w\<lparr>ecalls := ecalls w @ [GetPolicy p]\<rparr>"
  have later: "\<exists>new why. policy_checks get cs v = (Inr (False, why), v\<lparr>ecalls := ecalls v @ map GetPolicy new\<rparr>)"
    if "(peer, side, forbidden) \<noteq> c" for v
    using Cons that by auto
  have asked: "\<exists>new. ?w = w\<lparr>ecalls := ecalls w @ map GetPolicy new\<rparr>"
    by (intro exI [of _ "[p]"]) simp
  have more: "\<exists>new why. policy_checks get cs ?w = (Inr (False, why), w\<lparr>ecalls := ecalls w @ map GetPolicy new\<rparr>)"
    if "(peer, side, forbidden) \<noteq> c"
  proof -
    from later [OF that, of ?w] obtain new why where
      "policy_checks get cs ?w = (Inr (False, why), ?w\<lparr>ecalls := ecalls ?w @ map GetPolicy new\<rparr>)" by blast
    then show ?thesis by (intro exI [of _ "p # new"] exI [of _ why]) simp
  qed
  show ?case
  proof (cases "(peer, side, forbidden) = c")
    case True
    then have here: "p = peer" "f = forbidden" "p \<noteq> []" using c assms(2) by (auto simp: policy_blocks_def)
    have "[] \<notin> set f" using Cons.prems(2) c by auto
    with here assms(2) show ?thesis
      using asked by (auto simp: c bindA_def ask_def say_call_def policy_blocks_def Let_def split: sum.splits
          dest!: spec [of _ "ecalls w"])
  next
    case False
    show ?thesis
    proof (cases "p = []")
      case True
      with later [OF False, of w] show ?thesis by (simp add: c)
    next
      case ne: False
      show ?thesis
        using more [OF False] asked
        by (auto simp: c ne bindA_def ask_def say_call_def Let_def split: sum.splits)
    qed
  qed
qed simp

text \<open>C7. The policy gate fails closed: if there is no policy source, or the source or the
  destination peer is passive, forbids its side of the rebalance or cannot be looked up, an
  execution consults policies and does nothing else: no payment, no reservation, no history
  row, and the result says why.\<close>

theorem blocked_pair_pays_nothing:
  assumes "case en_policy env of None \<Rightarrow> True
    | Some get \<Rightarrow> policy_blocks get (pc_source_peer pair) [''disabled'', ''sink_only''] \<or>
        policy_blocks get (pc_dest_peer pair) [''disabled'', ''source_only'']"
    and "execute_pair env pair reserve account i w = (r, w')"
  shows "\<exists>why new. r = Inr (failed_result (''policy_blocked: '' @ why) (max (pc_amount pair) 0)) \<and>
    w' = w\<lparr>ecalls := ecalls w @ map GetPolicy new\<rparr>"
proof -
  have "\<exists>new why. pair_policy_allowed env pair w = (Inr (False, why), w\<lparr>ecalls := ecalls w @ map GetPolicy new\<rparr>)"
  proof (cases "en_policy env")
    case None
    then show ?thesis by (auto simp: pair_policy_allowed_def intro: exI [of _ "[]"])
  next
    case (Some get)
    let ?cs = "[(pc_source_peer pair, ''source'', [''disabled'', ''sink_only'']),
           (pc_dest_peer pair, ''dest'', [''disabled'', ''source_only''])]"
    from assms(1) Some consider "policy_blocks get (pc_source_peer pair) [''disabled'', ''sink_only'']"
      | "policy_blocks get (pc_dest_peer pair) [''disabled'', ''source_only'']" by auto
    then have "\<exists>new why. policy_checks get ?cs w = (Inr (False, why), w\<lparr>ecalls := ecalls w @ map GetPolicy new\<rparr>)"
    proof cases
      case 1
      show ?thesis by (rule policy_checks_blocked [OF _ 1, of "''source''"]) simp_all
    next
      case 2
      show ?thesis by (rule policy_checks_blocked [OF _ 2, of "''dest''"]) simp_all
    qed
    with Some show ?thesis by (simp add: pair_policy_allowed_def)
  qed
  then obtain new why where
    "pair_policy_allowed env pair w = (Inr (False, why), w\<lparr>ecalls := ecalls w @ map GetPolicy new\<rparr>)" by blast
  with assms(2) show ?thesis by (auto simp: execute_pair_def bindA_def)
qed

theorem blocked_pair_pays_nothing_witness:
  "\<exists>why new. fst (execute_pair (demo_engine\<lparr>en_policy := Some (\<lambda>_ _. Inl ''db'')\<rparr>) demo_terms True True None demo_state)
      = Inr (failed_result (''policy_blocked: '' @ why) (max (pc_amount demo_terms) 0)) \<and>
    snd (execute_pair (demo_engine\<lparr>en_policy := Some (\<lambda>_ _. Inl ''db'')\<rparr>) demo_terms True True None demo_state)
      = demo_state\<lparr>ecalls := ecalls demo_state @ map GetPolicy new\<rparr>"
  by (rule blocked_pair_pays_nothing [OF _ prod.collapse [symmetric]])
    (simp add: policy_blocks_def demo_terms_def)

end
