(* ===== verification/EngineSafety.thy ===== *)
theory EngineSafety
  imports EngineMoney
begin

text \<open>
  What the engine keeps around an execution and over a cycle: the guard of destinations in
  flight, the terms of the pairs a cycle may pay, the abort on a pricing exception, and the
  sweep that resolves what an execution left pending.
\<close>

section \<open>The guard of destinations in flight\<close>

definition inflight_ok :: "(string \<times> int) list \<Rightarrow> bool" where
  "inflight_ok m \<longleftrightarrow> bt_ok m \<and> (\<forall>k n. map_of m k = Some n \<longrightarrow> 1 \<le> n)"

lemma unregister_register:
  assumes "inflight_ok m" "register_dest dest m = Inr m'"
  shows "unregister_dest dest m' = m"
proof (cases "dest = []")
  case True
  with assms(2) show ?thesis by (simp add: register_dest_def unregister_dest_def)
next
  case False
  with assms(2) have m': "m' = bt_insert dest (bt_get_or 0 m dest + 1) m"
    by (simp add: register_dest_def result_simps)
  have ok: "bt_ok m" using assms(1) by (simp add: inflight_ok_def)
  show ?thesis
  proof (cases "map_of m dest")
    case None
    then show ?thesis
      using False ok by (intro bt_ext) (auto simp: m' unregister_dest_def bt_get_or_def fun_eq_iff)
  next
    case (Some n)
    with assms(1) have "1 \<le> n" by (simp add: inflight_ok_def)
    with Some show ?thesis
      using False ok by (intro bt_ext) (auto simp: m' unregister_dest_def bt_get_or_def fun_eq_iff)
  qed
qed

definition same_inflight :: "engine_world \<Rightarrow> engine_world \<Rightarrow> bool" where
  "same_inflight w w' \<longleftrightarrow> inflight w' = inflight w"

interpretation guarded: step_relation same_inflight
  by unfold_locales (simp_all add: same_inflight_def)

lemma keep_ask: "steps same_inflight (ask f c)" "steps same_inflight (ask_logged f c')" "steps same_inflight (tell c)"
  by (simp_all add: steps_def same_inflight_def tell_def ask_def ask_logged_def say_call_def)

lemma keep_our_id: "steps same_inflight (ensure_our_id env)"
  by (auto simp: steps_def same_inflight_def ensure_our_id_def bindA_def ask_def say_call_def split: option.splits)

lemmas keep_intros = guarded.steps_bind guarded.steps_handle guarded.steps_return keep_ask keep_our_id

lemma keep_policy: "steps same_inflight (pair_policy_allowed env pair)"
proof -
  have "steps same_inflight (policy_checks get cs)" for get cs
    by (induction cs rule: policy_checks.induct) (auto simp: Let_def intro!: keep_intros split: sum.splits)
  then show ?thesis
    by (auto simp: pair_policy_allowed_def simp del: policy_checks.simps intro: keep_intros split: option.splits)
qed

lemma keep_route_fresh: "steps same_inflight (route_pair_fresh env pair ex)"
  unfolding route_pair_fresh_def with_router_def Let_def by (auto intro!: keep_intros)

lemma keep_pay: "steps same_inflight (pay env pair)"
proof -
  have "steps same_inflight (execute_seam env q)" for q
    by (auto simp: steps_def same_inflight_def execute_seam_def say_call_def split: prod.splits)
  then show ?thesis
    unfolding pay_def execution_request_def by (auto intro!: keep_intros)
qed

lemma keep_retry: "steps same_inflight (retry_with_exclusions env pair first)"
  unfolding retry_with_exclusions_def annotate_retry_def merge_retry_def Let_def
  by (auto intro!: keep_intros keep_route_fresh keep_pay split: option.splits sum.splits)

lemma keep_ladder: "steps same_inflight (partial_ladder env pair prior trail n amounts)"
proof (induction amounts arbitrary: trail n)
  case Nil
  show ?case by (simp add: ladder_exhausted_def keep_intros)
next
  case (Cons a rest)
  have attempt: "steps same_inflight (ladder_attempt env pair prior t k p next_step)"
    if "\<And>t k. steps same_inflight (next_step t k)" for t k p next_step
    unfolding ladder_attempt_def Let_def by (auto intro!: keep_intros keep_pay that)
  show ?case
    by (auto simp: Let_def ladder_exhausted_def intro!: keep_intros keep_route_fresh attempt Cons
        split: option.splits sum.splits)
qed

lemma keep_guarded: "steps same_inflight (execute_guarded env pair reserve account i rid)"
proof -
  have export: "steps same_inflight (export_segments now)" for now
    by (auto simp: steps_def same_inflight_def export_segments_def split: sum.splits)
  have push: "steps same_inflight (push_segment_observation_snapshot env)"
    unfolding push_segment_observation_snapshot_def
    by (auto intro!: keep_intros export split: option.splits list.splits)
  have booked: "steps same_inflight (record_rebalance_result env i r p acc)" for r p acc
    unfolding record_rebalance_result_def record_success_row_def Let_def
    by (auto intro!: keep_intros split: option.splits list.splits)
  have reserve: "steps same_inflight (reserve_execution_budget env pair rid)"
    unfolding reserve_execution_budget_def Let_def by (auto intro!: keep_intros)
  have partial: "steps same_inflight (retry_with_partial_amounts env p r)" for p r
    unfolding retry_with_partial_amounts_def by (auto intro!: keep_intros keep_ladder)
  have finish: "steps same_inflight (finish_execution_budget rid res r)" for res r
    unfolding finish_execution_budget_def by (auto intro!: keep_intros)
  show ?thesis
    unfolding execute_guarded_def pay_reserved_def
    by (auto intro!: keep_intros push booked reserve partial finish keep_pay keep_retry split: option.splits prod.splits)
qed

lemma keep_ids: "steps same_inflight (case i of None \<Rightarrow> record_rebalance_pending env pair | Some i \<Rightarrow> returnA (Some i))"
  "steps same_inflight (reservation_id_of pair j)"
  by (auto simp: record_rebalance_pending_def Let_def intro!: keep_intros split: option.splits)
    (auto simp: steps_def same_inflight_def reservation_id_of_def split: option.splits)

lemma guarding_restores:
  assumes "steps same_inflight m" "guarding dest m w = (r, w')" "inflight_ok (inflight w)"
  shows "inflight w' = inflight w"
proof (cases "register_dest dest (inflight w)")
  case (Inl e)
  with assms(2) show ?thesis by (auto simp: guarding_def bindA_def update_inflight_def)
next
  case (Inr f)
  obtain r1 w1 where m: "m (w\<lparr>inflight := f\<rparr>) = (r1, w1)" by force
  with assms(1) have "inflight w1 = f" using stepsD [of same_inflight m, OF assms(1) m] by (simp add: same_inflight_def)
  with assms(2) Inr m have "inflight w' = unregister_dest dest f"
    by (auto simp: guarding_def bindA_def handleA_def update_inflight_def)
  with unregister_register [OF assms(3) Inr] show ?thesis by simp
qed

text \<open>C8. However an execution ends, also when it panics in the middle of a payment, the guard
  of destinations in flight is as it was before: the destination is released exactly as often
  as it was registered, and the counts of overlapping executions are kept.\<close>

theorem execution_releases_destination:
  assumes "inflight_ok (inflight w)"
    and "execute_pair env pair reserve account i w = (r, w')"
  shows "inflight w' = inflight w"
proof -
  obtain a w1 where p: "pair_policy_allowed env pair w = (a, w1)" by force
  have i1: "inflight w1 = inflight w" using stepsD [OF keep_policy p] by (simp add: same_inflight_def)
  show ?thesis
  proof (cases a)
    case (Inl e)
    with assms(2) p i1 show ?thesis by (auto simp: execute_pair_def bindA_def)
  next
    case (Inr ok)
    obtain b why where ok: "ok = (b, why)" by force
    show ?thesis
    proof (cases b)
      case False
      with assms(2) p i1 Inr ok show ?thesis by (auto simp: execute_pair_def bindA_def)
    next
      case True
      obtain j w2 where j: "(case i of None \<Rightarrow> record_rebalance_pending env pair | Some i \<Rightarrow> returnA (Some i)) w1 = (j, w2)"
        by force
      have i2: "inflight w2 = inflight w" using stepsD [OF keep_ids(1) j] i1 by (simp add: same_inflight_def)
      show ?thesis
      proof (cases j)
        case (Inl e)
        with assms(2) p j i2 Inr ok True show ?thesis
          by (cases i) (auto simp: execute_pair_def bindA_def)
      next
        case id: (Inr k)
        obtain rid w3 where q: "reservation_id_of pair k w2 = (Inr rid, w3)"
          by (cases k) (auto simp: reservation_id_of_def)
        have i3: "inflight w3 = inflight w" using stepsD [OF keep_ids(2) q] i2 by (simp add: same_inflight_def)
        have "guarding (pc_dest pair) (execute_guarded env pair reserve account k rid) w3 = (r, w')"
          using assms(2) p j q Inr ok True id by (cases i) (auto simp: execute_pair_def bindA_def)
        from guarding_restores [OF keep_guarded this] i3 assms(1) show ?thesis by simp
      qed
    qed
  qed
qed

theorem execution_releases_destination_witness:
  "inflight (snd (execute_pair demo_engine demo_terms True True None (demo_state\<lparr>inflight := [(''2x2x2'', 2)]\<rparr>)))
     = [(''2x2x2'', 2)]"
  using execution_releases_destination [OF _ prod.collapse [symmetric], of "demo_state\<lparr>inflight := [(''2x2x2'', 2)]\<rparr>"
      demo_engine demo_terms True True None]
  by (auto simp: inflight_ok_def bt_ok_def)

section \<open>The ladder of partial amounts\<close>

lemma trunc_div_half: "0 \<le> n \<Longrightarrow> trunc_div n 2 = n div 2"
  by (cases "n = 0") (simp_all add: trunc_div_def)

lemma upt_split: "0 < n \<Longrightarrow> map f [0..<n] = f 0 # map (\<lambda>k. f (Suc k)) [0..<n - 1]"
  by (cases n) (simp_all add: upt_conv_Cons map_Suc_upt [symmetric] del: upt_Suc)

lemma partial_loop_halves:
  assumes "0 < m" "0 \<le> cur" "cur < orig" "\<forall>a \<in> set am. cur < a" "length am \<le> 6"
  shows "partial_loop orig m am cur =
     am @ takeWhile (\<lambda>a. m \<le> a) (map (\<lambda>k. cur div 2 ^ k) [0..<6 - length am])"
  using assms
proof (induction "6 - length am" arbitrary: am cur)
  case 0
  then show ?case by (subst partial_loop.simps) simp
next
  case (Suc n)
  show ?case
  proof (cases "m \<le> cur")
    case False
    with Suc.hyps(2) show ?thesis
      by (subst partial_loop.simps) (simp add: upt_split del: upt_Suc)
  next
    case True
    have next_step: "trunc_div cur 2 = cur div 2" "cur div 2 \<noteq> cur" "cur \<notin> set am"
      using Suc.prems True by (auto simp: trunc_div_half)
    have "partial_loop orig m (am @ [cur]) (cur div 2) = (am @ [cur]) @
        takeWhile (\<lambda>a. m \<le> a) (map (\<lambda>k. cur div 2 div 2 ^ k) [0..<6 - length (am @ [cur])])"
      by (rule Suc.hyps(1)) (use Suc True in auto)
    with True Suc next_step show ?thesis
      by (subst partial_loop.simps) (simp add: Let_def upt_split zdiv_zmult2_eq [symmetric] del: upt_Suc)
  qed
qed

text \<open>C12. The loop that computes the partial amounts, with its membership tests and its two
  bounds on the length, computes a plain list: the halves of the amount, at most six and
  none below the floor, followed by the floor itself unless a half equals it; nothing for
  an amount that cannot be split.\<close>

theorem partial_amounts_closed_form:
  "native_partial_amounts n = (if n < 2 then [] else
     let m = min (n - 1) (max 1000 (min 5000 (n div 2)));
         halves = takeWhile (\<lambda>a. m \<le> a) (map (\<lambda>k. n div 2 ^ (k + 1)) [0..<6])
     in halves @ (if m \<in> set halves then [] else [m]))"
proof (cases "n < 2")
  case True
  then show ?thesis by (simp add: native_amounts_small)
next
  case False
  define m where "m = min (n - 1) (max 1000 (min 5000 (n div 2)))"
  define halves where "halves = takeWhile (\<lambda>a. m \<le> a) (map (\<lambda>k. n div 2 ^ (k + 1)) [0..<6])"
  have m: "0 < m" "m < n" using False by (auto simp: m_def)
  have "partial_loop n m [] (n div 2) = halves"
    using partial_loop_halves [of m "n div 2" n "[]"] False m
    by (simp add: halves_def zdiv_zmult2_eq [symmetric])
  moreover have "length halves \<le> 6"
    unfolding halves_def by (rule order_trans [OF length_takeWhile_le]) simp
  ultimately have "native_partial_amounts n = halves @ (if m \<in> set halves then [] else [m])"
    using False m by (auto simp: native_partial_amounts_def Let_def trunc_div_half m_def [symmetric])
  with False show ?thesis by (simp only: Let_def m_def [symmetric] halves_def [symmetric] if_False)
qed

end
