(* ===== verification/EngineSweep.thy ===== *)
theory EngineSweep
  imports EngineSafety
begin

text \<open>
  The sweep of the payments an execution left pending.
\<close>

section \<open>One row\<close>

definition sweep_hash :: "history_row \<Rightarrow> string" where
  "sweep_hash row = (case hr_hash row of None \<Rightarrow> [] | Some h \<Rightarrow> h)"

definition sweep_payments :: "json \<Rightarrow> json list" where
  "sweep_payments v = filter is_object (json_items (jix v ''payments''))"

definition sweep_complete :: "json \<Rightarrow> json option" where
  "sweep_complete v = find (\<lambda>p. as_str (jix p ''status'') = Some ''complete'') (sweep_payments v)"

text \<open>The fee a completed payment cost, in millisatoshi.\<close>

definition sweep_fee :: "json \<Rightarrow> int" where
  "sweep_fee p = max (engine_parse_msat (jix p ''amount_sent_msat'') - engine_parse_msat (jix p ''amount_msat'')) 0"

text \<open>The calls that close a row: the end of its history and of its reservation, and the cost;
  and the look-up of its payment.\<close>

fun is_closing :: "engine_call \<Rightarrow> bool" where
  "is_closing (UpdateHistory i s e) = True"
| "is_closing (UpdateSuccess i u) = True"
| "is_closing (UpdatePending i e h) = True"
| "is_closing (RecordCost c) = True"
| "is_closing (Execute q r) = True"
| "is_closing (ReserveBudget q r) = True"
| "is_closing (MarkSpent i f) = True"
| "is_closing (ReleaseBudget i) = True"
| "is_closing (ListSendpays h) = True"
| "is_closing c = False"

interpretation closing: call_log ecalls say_call is_closing
  by unfold_locales (simp add: say_call_def)

lemma closing_ask: "closing.traces (\<lambda>r cs. cs = (if is_closing c then [c] else []) \<and> (\<exists>a. r = Inr a)) (ask f c)"
  by (rule closing.traces_step [where c = c]) (auto simp: ask_def)

lemma closing_tell: "closing.traces (\<lambda>r cs. cs = (if is_closing c then [c] else []) \<and> r = Inr ()) (tell c)"
  unfolding tell_def by (rule closing.traces_step [where c = c]) (auto simp: ask_def)

lemma closing_silent: "\<not> is_closing c \<Longrightarrow> closing.quiet (ask f c)"
  unfolding closing.quiet_def by (rule closing.traces_mono [OF closing_ask]) simp

lemma closing_futility: "closing.quiet (with_futility f)"
  by (rule closing.quietI) (simp add: with_futility_def split: prod.splits)

lemma closing_peers: "closing.quiet (scid_peer_map env)"
  unfolding scid_peer_map_def by (intro closing.quiet_bind closing_silent closing.quiet_basic) simp_all

definition closed_paid :: "history_row \<Rightarrow> json \<Rightarrow> engine_call list \<Rightarrow> bool" where
  "closed_paid row p cs \<longleftrightarrow>
     (\<exists>u costs. cs = UpdateSuccess (hr_id row) u # costs @ [MarkSpent (dec_int (hr_id row)) (hs_fee_sats u)] \<and>
        hs_fee_msat u = sweep_fee p \<and> hs_fee_sats u = (sweep_fee p + 999) div 1000 \<and>
        (if 0 < sweep_fee p then \<exists>c. costs = [RecordCost c] \<and> cost_channel c = hr_to row \<and>
             cost_msat c = sweep_fee p \<and> cost_sats c = hs_fee_sats u
         else costs = []))"

lemma bindA_lift: "bindA (liftA (Inr a)) f = f a"
  by (simp add: bindA_def fun_eq_iff)

text \<open>Steps that always return and close nothing.\<close>

definition returning :: "'a engine \<Rightarrow> bool" where
  "returning m \<longleftrightarrow> closing.traces (\<lambda>r cs. cs = [] \<and> (\<exists>a. r = Inr a)) m"

lemma returning_basic: "returning (returnA a)" "\<not> is_closing c \<Longrightarrow> returning (ask f c)" "returning (with_futility g)"
proof -
  show "returning (returnA a)" unfolding returning_def by (rule closing.traces_basic) simp
  show "\<not> is_closing c \<Longrightarrow> returning (ask f c)" unfolding returning_def
    by (rule closing.traces_mono [OF closing_ask]) simp
  show "returning (with_futility g)" unfolding returning_def
    by (rule closing.tracesI) (simp add: with_futility_def split: prod.splits)
qed

lemma after_returning:
  assumes "returning m" "\<And>a. closing.traces Q (f a)"
  shows "closing.traces Q (bindA m f)"
  by (rule closing.traces_bind [OF assms(1) [unfolded returning_def]]) (use assms(2) in auto)

lemma returning_bind: "returning m \<Longrightarrow> (\<And>a. returning (f a)) \<Longrightarrow> returning (bindA m f)"
  unfolding returning_def [of "bindA m f"] by (rule after_returning) (simp_all add: returning_def)

lemma returning_peers: "returning (scid_peer_map env)"
  unfolding scid_peer_map_def by (intro returning_bind returning_basic) simp

text \<open>The calls of a settled row, once its fee is known.\<close>

lemma settle_calls:
  assumes "hs_fee_msat u = sweep_fee p" "s = (sweep_fee p + 999) div 1000" "hs_fee_sats u = s"
    and "\<And>m t. cost_channel (c m t) = hr_to row \<and> cost_msat (c m t) = sweep_fee p \<and> cost_sats (c m t) = s"
  shows "closing.traces (\<lambda>r cs. (\<exists>ps. r = Inr (True, ps)) \<and> closed_paid row p cs)
     (bindA (tell (UpdateSuccess (hr_id row) u)) (\<lambda>_.
      bindA (if 0 < sweep_fee p then
          bindA (case peers of Some m \<Rightarrow> returnA m | None \<Rightarrow> scid_peer_map env) (\<lambda>m.
          bindA (clock_now env) (\<lambda>t. bindA (tell (RecordCost (c m t))) (\<lambda>_. returnA (Some m))))
        else returnA peers) (\<lambda>peers.
      bindA (tell (MarkSpent (dec_int (hr_id row)) s)) (\<lambda>_.
      bindA (with_futility f) (\<lambda>_. returnA (True, peers))))))"
proof (rule closing.traces_bind [OF closing_tell], goal_cases)
  case (2 a cs)
  let ?U = "UpdateSuccess (hr_id row) u"
  let ?costs = "\<lambda>ds. if 0 < sweep_fee p then \<exists>m t. ds = [RecordCost (c m t)] else ds = []"
  have peers: "returning (case peers of Some m \<Rightarrow> returnA m | None \<Rightarrow> scid_peer_map env)"
    by (cases peers) (simp_all add: returning_basic returning_peers del: returnA_def)
  have booked: "closing.traces (\<lambda>r ds. (\<exists>x. r = Inr x) \<and> ?costs ds)
      (if 0 < sweep_fee p then
          bindA (case peers of Some m \<Rightarrow> returnA m | None \<Rightarrow> scid_peer_map env) (\<lambda>m.
          bindA (clock_now env) (\<lambda>t. bindA (tell (RecordCost (c m t))) (\<lambda>_. returnA (Some m))))
        else returnA peers)"
  proof (cases "0 < sweep_fee p")
    case True
    have one: "closing.traces (\<lambda>r ds. (\<exists>x. r = Inr x) \<and> (\<exists>m t. ds = [RecordCost (c m t)]))
       (bindA (tell (RecordCost (c m t))) (\<lambda>_. returnA (Some m)))" for m t
      by (rule closing.traces_bind [OF closing_tell]) (auto intro!: closing.traces_basic)
    show ?thesis
      unfolding if_P [OF True] by (intro after_returning peers returning_basic one) simp
  next
    case False
    then show ?thesis by (auto intro!: closing.traces_basic)
  qed
  have closed: "closed_paid row p (?U # ds @ [MarkSpent (dec_int (hr_id row)) s])" if "?costs ds" for ds
    unfolding closed_paid_def
    by (intro exI [of _ u] exI [of _ ds]) (use that assms in \<open>auto split: if_splits\<close>)
  have finish: "closing.traces (\<lambda>r es. (\<exists>ps. r = Inr (True, ps)) \<and> closed_paid row p (?U # ds @ es))
      (bindA (tell (MarkSpent (dec_int (hr_id row)) s)) (\<lambda>_.
       bindA (with_futility f) (\<lambda>_. returnA (True, q))))" if "?costs ds" for ds q
    by (rule closing.traces_bind [OF closing_tell], simp)
      (auto intro!: after_returning returning_basic closing.traces_basic closed [OF that])
  show ?case
  proof (rule closing.traces_bind [OF booked])
    fix q ds
    assume "(\<exists>x. Inr q = Inr x) \<and> ?costs ds"
    with 2 show "closing.traces (\<lambda>r es. (\<exists>ps. r = Inr (True, ps)) \<and> closed_paid row p (cs @ ds @ es))
        (bindA (tell (MarkSpent (dec_int (hr_id row)) s)) (\<lambda>_. bindA (with_futility f) (\<lambda>_. returnA (True, q))))"
      using finish [of ds q] by simp
  qed simp
qed simp

text \<open>The amounts of the node do not fit the arithmetic of the code.\<close>

definition sweep_overflows :: "json \<Rightarrow> bool" where
  "sweep_overflows p \<longleftrightarrow>
     \<not> in_i64 (engine_parse_msat (jix p ''amount_sent_msat'') - engine_parse_msat (jix p ''amount_msat'')) \<or>
     \<not> in_i64 (sweep_fee p + 999)"

lemma settle_row_closes:
  "closing.traces (\<lambda>r cs. if sweep_overflows p then r = Inl Panic \<and> cs = []
     else (\<exists>ps. r = Inr (True, ps)) \<and> closed_paid row p cs) (settle_row env row p peers)"
proof -
  let ?d = "engine_parse_msat (jix p ''amount_sent_msat'') - engine_parse_msat (jix p ''amount_msat'')"
  have panics: "closing.traces (\<lambda>r cs. r = Inl Panic \<and> cs = []) (bindA (liftA (Inl Panic)) f)" for f
    by (rule closing.tracesI) (simp add: bindA_def)
  show ?thesis
  proof (cases "in_i64 ?d")
    case False
    then show ?thesis by (simp add: settle_row_def Let_def chk_i64_def sweep_overflows_def panics del: action_basic)
  next
    case d: True
    then have diff: "chk_i64 ?d = (Inr ?d :: (unit, int) result)" and fee: "max ?d 0 = sweep_fee p"
      by (simp_all add: sweep_fee_def chk_i64_def)
    show ?thesis
    proof (cases "in_i64 (sweep_fee p + 999)")
      case False
      then have "engine_sats_ceil (sweep_fee p) = Inl Panic"
        by (simp add: engine_sats_ceil_def bindE_def chk_i64_def)
      with False show ?thesis
        unfolding settle_row_def Let_def diff bindA_lift fee
        by (simp add: sweep_overflows_def panics del: action_basic)
    next
      case True
      then have ceil: "engine_sats_ceil (sweep_fee p) = Inr ((sweep_fee p + 999) div 1000)"
        by (simp add: engine_sats_ceil_def bindE_def chk_i64_def trunc_div_def sweep_fee_def)
      have fine: "\<not> sweep_overflows p" using True d by (simp add: sweep_overflows_def)
      show ?thesis
        unfolding settle_row_def Let_def diff bindA_lift fee ceil if_not_P [OF fine]
        by (intro settle_calls) simp_all
    qed
  qed
qed

section \<open>A concrete row\<close>

definition demo_payment :: json where
  "demo_payment = JObj [(''amount_msat'', JInt 100000000), (''amount_sent_msat'', JInt 100020500),
     (''status'', JStr ''complete'')]"

definition demo_paid :: engine_env where
  "demo_paid = demo_engine\<lparr>en_sendpays := (\<lambda>_ _. Inr (JObj [(''payments'', JArr [demo_payment])]))\<rparr>"

definition demo_row :: history_row where
  "demo_row = \<lparr>hr_id = 7, hr_from = ''1x1x1'', hr_to = ''2x2x2'', hr_amount = 100000, hr_max_fee = 50,
     hr_profit = 0, hr_status = ''pending'', hr_type = ''normal'', hr_reason = [], hr_hash = Some ''ab''\<rparr>"

lemma demo_fee: "sweep_fee demo_payment = 20500"
  by (simp add: sweep_fee_def demo_payment_def jix_def in_i64_def i64_bounds)

lemma demo_sweep: "\<exists>peers w'. reconcile_pending_row demo_paid demo_row None demo_state = (Inr (True, peers), w')"
  by (auto simp: reconcile_pending_row_def settle_row_def scid_peer_map_def payment_status_def with_futility_def
      engine_sats_floor_def demo_paid_def demo_row_def demo_payment_def jix_def json_items_def demo_defs step_defs
      engine_sats_ceil_def)

section \<open>Properties\<close>

text \<open>What the one look-up of a row tells about its payment, if it is over.\<close>

definition sweep_outcome :: "engine_env \<Rightarrow> history_row \<Rightarrow> engine_call list \<Rightarrow> json option" where
  "sweep_outcome env row l = (case en_sendpays env l (sweep_hash row) of
     Inl e \<Rightarrow> None
   | Inr v \<Rightarrow> if ''pending'' \<in> payment_status ` set (sweep_payments v) then None else Some v)"

text \<open>C11. The sweep closes a parked payment exactly once, when and only when its outcome is known.
  A row without an id or a hash is passed over without a call; any other row is looked up
  exactly once. It is left alone if the look-up fails or the node still reports a pending
  part. Otherwise it is closed: a completed payment gets the paid fee into its history row,
  its cost booked once, and its reservation marked spent with the same fee rounded up; a
  payment of which nothing is left is recorded as failed and its reservation released. The
  reservation is the one the execution made under the id of the history row. Only amounts
  that overflow stop the sweep, before it has written anything.\<close>

theorem sweep_closes_row_once:
  assumes "reconcile_pending_row env row peers w = (r, w')"
  shows "\<exists>new. ecalls w' = ecalls w @ new \<and>
    (if hr_id row \<le> 0 \<or> sweep_hash row = [] then r = Inr (False, peers) \<and> new = []
     else \<exists>rest. filter is_closing new = ListSendpays (sweep_hash row) # rest \<and>
       (case sweep_outcome env row (ecalls w) of
          None \<Rightarrow> r = Inr (False, peers) \<and> rest = []
        | Some v \<Rightarrow>
            (case sweep_complete v of
               Some p \<Rightarrow> if sweep_overflows p then r = Inl Panic \<and> rest = []
                 else (\<exists>ps. r = Inr (True, ps)) \<and> closed_paid row p rest
             | None \<Rightarrow> r = Inr (True, peers) \<and> rest =
                 [UpdateHistory (hr_id row) ''failed'' (Some ''payment_pending_resolved_failed''),
                  ReleaseBudget (dec_int (hr_id row))])))"
proof (cases "hr_id row \<le> 0 \<or> sweep_hash row = []")
  case True
  with assms show ?thesis
    by (auto simp: reconcile_pending_row_def Let_def sweep_hash_def [symmetric] intro: exI [of _ "[]"])
next
  case False
  let ?w = "say_call (ListSendpays (sweep_hash row)) w"
  note ids = reconcile_pending_row_def Let_def sweep_hash_def [symmetric] sweep_payments_def [symmetric]
  show ?thesis
  proof (cases "sweep_outcome env row (ecalls w)")
    case None
    with assms False show ?thesis
      by (auto simp: ids sweep_outcome_def bindA_def ask_def say_call_def split: sum.splits if_splits)
  next
    case (Some v)
    then have reply: "en_sendpays env (ecalls w) (sweep_hash row) = Inr v"
      and over: "''pending'' \<notin> payment_status ` set (sweep_payments v)"
      by (auto simp: sweep_outcome_def split: sum.splits if_splits)
    show ?thesis
    proof (cases "sweep_complete v")
      case None
      with assms False Some reply over show ?thesis
        by (auto simp: ids sweep_complete_def bindA_def ask_def tell_def say_call_def)
    next
      case p: (Some p)
      have "settle_row env row p peers ?w = (r, w')"
        using assms False reply over p by (auto simp: ids sweep_complete_def bindA_def ask_def)
      from closing.tracesD [OF settle_row_closes this] obtain new where
        "ecalls w' = ecalls ?w @ new" "if sweep_overflows p then r = Inl Panic \<and> filter is_closing new = []
           else (\<exists>ps. r = Inr (True, ps)) \<and> closed_paid row p (filter is_closing new)" by auto
      then show ?thesis
        using False Some p
        by (intro exI [of _ "ListSendpays (sweep_hash row) # new"]) (auto simp: say_call_def)
    qed
  qed
qed

theorem sweep_closes_row_once_witness:
  "\<exists>ps w' cs. reconcile_pending_row demo_paid demo_row None demo_state = (Inr (True, ps), w') \<and>
     closed_paid demo_row demo_payment cs \<and> filter is_closing (ecalls w') = ListSendpays ''ab'' # cs \<and>
     sweep_fee demo_payment = 20500"
proof -
  obtain ps w' where s: "reconcile_pending_row demo_paid demo_row None demo_state = (Inr (True, ps), w')"
    using demo_sweep by blast
  have o: "sweep_outcome demo_paid demo_row l = Some (JObj [(''payments'', JArr [demo_payment])])" for l
    by (simp add: demo_paid_def sweep_outcome_def sweep_payments_def payment_status_def demo_payment_def jix_def json_items_def)
  have c: "sweep_complete (JObj [(''payments'', JArr [demo_payment])]) = Some demo_payment"
    by (simp add: sweep_complete_def sweep_payments_def demo_payment_def jix_def json_items_def)
  have row: "\<not> (hr_id demo_row \<le> 0 \<or> sweep_hash demo_row = [])" "sweep_hash demo_row = ''ab''"
    by (simp_all add: demo_row_def sweep_hash_def)
  show ?thesis
    using sweep_closes_row_once [OF s] c s demo_fee row o
    by (intro exI [of _ ps] exI [of _ w'] exI [of _ "tl (filter is_closing (ecalls w'))"])
      (auto simp: demo_state_def engine_new_def split: if_splits)
qed

end
