(* ===== verification/EngineRounds.thy ===== *)
theory EngineRounds
  imports EngineSweep "HOL-Library.Sublist"
begin

text \<open>
  The cycle as a whole: what the candidates it selects satisfy, and that all payments of a
  cycle, across its workers, keep the promises of the single execution.
\<close>

section \<open>Candidates\<close>

text \<open>A planned pair with a price that its fee ceiling admits.\<close>

definition priced_from :: "engine_env \<Rightarrow> pair_candidate \<Rightarrow> pair_candidate \<Rightarrow> bool" where
  "priced_from env p q \<longleftrightarrow>
     (\<exists>rr b. rr_success rr \<and> effective_budget_of env (pc_budget p) rr (pc_amount p) = Inr b \<and> rr_cost_sats rr \<le> b \<and>
        q = p\<lparr>pc_cost := rr_cost_sats rr, pc_route := rr_route rr, pc_effective := Some b\<rparr>)"

lemma ev_outcome_yields: "yields (\<lambda>out. \<forall>q. out = Priced q \<longrightarrow> q = pair) (ev_outcome env now pair rr)"
  unfolding ev_outcome_def Let_def
  by (auto intro!: yields_then yields_return split: option.splits if_splits simp del: returnA_def)

lemma price_selected_yields: "yields (\<lambda>out. \<forall>q. out = Priced q \<longrightarrow> priced_from env pair q) (price_selected env us now pair)"
proof -
  have priced: "yields (\<lambda>out. \<forall>q. out = Priced q \<longrightarrow> priced_from env pair q)
      (bindA (liftA (effective_budget_of env (pc_budget pair) rr (pc_amount pair))) (\<lambda>budget.
         let p = pair\<lparr>pc_cost := rr_cost_sats rr, pc_route := rr_route rr, pc_effective := Some budget\<rparr>
         in if budget < rr_cost_sats rr then returnA (Skipped (s p budget)) else ev_outcome env now p rr))"
    if "rr_success rr" for rr s
  proof (rule yields_bind)
    show "yields (\<lambda>b. effective_budget_of env (pc_budget pair) rr (pc_amount pair) = Inr b)
        (liftA (effective_budget_of env (pc_budget pair) rr (pc_amount pair)))"
      by (rule yields_return) simp
    fix b
    assume b: "effective_budget_of env (pc_budget pair) rr (pc_amount pair) = Inr b"
    let ?p = "pair\<lparr>pc_cost := rr_cost_sats rr, pc_route := rr_route rr, pc_effective := Some b\<rparr>"
    have "yields (\<lambda>out. \<forall>q. out = Priced q \<longrightarrow> priced_from env pair q) (ev_outcome env now ?p rr)"
      if "\<not> b < rr_cost_sats rr"
      by (rule yields_mono [OF ev_outcome_yields]) (use b that \<open>rr_success rr\<close> in \<open>auto simp: priced_from_def\<close>)
    then show "yields (\<lambda>out. \<forall>q. out = Priced q \<longrightarrow> priced_from env pair q)
        (let p = ?p in if b < rr_cost_sats rr then returnA (Skipped (s p b)) else ev_outcome env now p rr)"
      by (auto simp: Let_def intro!: yields_return)
  qed
  have skipped: "yields (\<lambda>out. \<forall>q. out = Priced q \<longrightarrow> priced_from env pair q) (returnA out)"
    if "\<And>q. out \<noteq> Priced q" for out
    using that by (intro yields_return) simp
  show ?thesis
    unfolding price_selected_def
  proof (rule yields_then, goal_cases)
    case (1 cooldown)
    show ?case
    proof (cases cooldown)
      case None
      show ?thesis
        unfolding None option.case
      proof (rule yields_then, goal_cases)
        case (1 futile)
        show ?case
        proof (cases futile)
          case True
          show ?thesis
            unfolding if_P [OF True] by (rule yields_then, rule skipped) simp
        next
          case False
          show ?thesis
            unfolding if_not_P [OF False] Let_def
          proof (rule yields_then, goal_cases)
            case (1 reply)
            show ?case
            proof (cases reply)
              case (Inl e)
              show ?thesis unfolding Inl sum.case by (rule skipped) simp
            next
              case (Inr rr)
              show ?thesis
              proof (cases "rr_success rr")
                case False
                show ?thesis unfolding Inr sum.case if_P [OF False] by (rule skipped) simp
              next
                case True
                have "\<not> \<not> rr_success rr" using True by simp
                then show ?thesis
                  unfolding Inr sum.case if_not_P [OF \<open>\<not> \<not> rr_success rr\<close>]
                  by (intro priced [OF True, unfolded Let_def])
              qed
            qed
          qed
        qed
      qed
    next
      case (Some until)
      show ?thesis unfolding Some option.case by (rule skipped) simp
    qed
  qed
qed

text \<open>The pairs the selection ends with are some of the planned ones, in their order.\<close>

definition selected_from :: "engine_env \<Rightarrow> pair_candidate list \<Rightarrow> pair_candidate list \<Rightarrow> bool" where
  "selected_from env sel ps \<longleftrightarrow> (\<exists>qs. subseq qs sel \<and> list_all2 (priced_from env) qs ps)"

definition picked ::
  "engine_env \<Rightarrow> pair_candidate list \<Rightarrow> pair_candidate list \<Rightarrow> string + pair_candidate list \<times> skip_record list \<Rightarrow> bool" where
  "picked env out sel r \<longleftrightarrow> (\<forall>ps sk. r = Inr (ps, sk) \<longrightarrow> (\<exists>ns. ps = out @ ns \<and> selected_from env sel ns))"

lemma picked_later: "picked env out sel r \<Longrightarrow> picked env out (p # sel) r"
  unfolding picked_def selected_from_def by (metis list_emb_Cons)

lemma picked_here:
  assumes "picked env (out @ [q]) sel r" "priced_from env p q"
  shows "picked env out (p # sel) r"
  unfolding picked_def
proof (intro allI impI)
  fix ps sk
  assume "r = Inr (ps, sk)"
  with assms(1) obtain ns qs where "ps = out @ q # ns" "subseq qs sel" "list_all2 (priced_from env) qs ns"
    by (auto simp: picked_def selected_from_def)
  with assms(2) have "ps = out @ q # ns" "subseq (p # qs) (p # sel)" "list_all2 (priced_from env) (p # qs) (q # ns)"
    by simp_all
  then show "\<exists>ns. ps = out @ ns \<and> selected_from env (p # sel) ns"
    unfolding selected_from_def by blast
qed

lemma price_all_yields: "yields (picked env out sel) (price_all env us now sel skips out)"
proof (induction sel arbitrary: skips out)
  case Nil
  show ?case by (auto simp: picked_def selected_from_def intro!: yields_return)
next
  case (Cons pair rest)
  have skip: "yields (picked env out (pair # rest)) (price_all env us now rest sk out)" for sk
    by (rule yields_mono [OF Cons.IH picked_later])
  have take: "yields (picked env out (pair # rest)) (price_all env us now rest sk (out @ [p]))"
    if "priced_from env pair p" for sk p
    by (rule yields_mono [OF Cons.IH]) (rule picked_here [OF _ that])
  have abort: "yields (picked env out (pair # rest)) (returnA (Inl e))" for e
    by (rule yields_return) (simp add: picked_def)
  show ?case
    unfolding price_all.simps
    by (rule yields_bind [OF price_selected_yields])
      (auto split: pricing_outcome.split simp del: returnA_def intro: skip take abort)
qed

text \<open>What planning and selection give.\<close>

lemma by_priority_mset: "mset (by_priority ps) = mset ps"
  by (simp add: by_priority_def)

definition selection_ok :: "engine_env \<Rightarrow> string set \<Rightarrow> pair_candidate list \<Rightarrow> bool" where
  "selection_ok env busy ps \<longleftrightarrow> length ps \<le> max_concurrent_jobs (en_config env) \<and>
     distinct (map pc_source ps) \<and> distinct (map pc_dest ps) \<and> (\<forall>p \<in> set ps. pc_dest p \<notin> busy)"

lemma selection_ok_mset: "mset ps = mset qs \<Longrightarrow> selection_ok env busy ps \<longleftrightarrow> selection_ok env busy qs"
  unfolding selection_ok_def
  by (metis (no_types, lifting) mset_eq_imp_distinct_iff mset_eq_length mset_eq_setD mset_map)

lemma subseq_keeps_distinct: "subseq xs ys \<Longrightarrow> distinct ys \<Longrightarrow> distinct xs"
proof (induction rule: list_emb.induct)
  case (list_emb_Cons2 x y xs ys)
  then show ?case by (auto elim: list_emb_set)
qed auto

lemma selection_ok_subseq:
  assumes "selection_ok env busy ps" "subseq qs ps"
  shows "selection_ok env busy qs"
proof -
  have "subseq (map pc_source qs) (map pc_source ps)" "subseq (map pc_dest qs) (map pc_dest ps)"
    using assms(2) by (auto intro: subseq_map)
  moreover have "set qs \<subseteq> set ps" "length qs \<le> length ps"
    using assms(2) list_emb_length [of "(=)" qs ps] by (auto elim: list_emb_set)
  ultimately show ?thesis
    using assms(1) by (auto simp: selection_ok_def dest: subseq_keeps_distinct)
qed

lemma planned_names [simp]:
  "pc_source (planned_candidate channels p) = pair_source p" "pc_dest (planned_candidate channels p) = pair_dest p"
  by (simp_all add: planned_candidate_def Let_def)

lemma planned_selection:
  assumes "plan channels (cf_max_amount (en_config env)) (max_concurrent_jobs (en_config env)) ppm = Inr p"
  shows "selection_ok env busy (by_priority (snd (split_inflight busy (map (planned_candidate channels) (plan_pairs p)))))"
proof -
  let ?ps = "map (planned_candidate channels) (plan_pairs p)"
  from assms obtain sources dests where "select_ok (max_concurrent_jobs (en_config env)) (plan_pairs p, sources, dests)"
    by (rule plan_parts)
  then have "selection_ok env {} ?ps"
    by (simp add: selection_ok_def select_ok_def comp_def)
  then have "selection_ok env {} (filter (\<lambda>q. pc_dest q \<notin> busy) ?ps)"
    by (rule selection_ok_subseq) simp
  then have "selection_ok env busy (filter (\<lambda>q. pc_dest q \<notin> busy) ?ps)"
    by (auto simp: selection_ok_def)
  then show ?thesis
    by (simp add: split_inflight_def selection_ok_mset [OF by_priority_mset])
qed

text \<open>A candidate of a cycle.\<close>

definition candidate_ok :: "engine_env \<Rightarrow> pair_candidate \<Rightarrow> bool" where
  "candidate_ok env q \<longleftrightarrow> (\<exists>b. pc_effective q = Some b \<and> pc_cost q \<le> b) \<and>
     (f64_le (cf_bonus (en_config env)) (f64_of_int 0) \<longrightarrow> plain_terms env q)"

lemma priced_candidate: "priced_from env p q \<Longrightarrow> candidate_ok env q \<and> pc_source q = pc_source p \<and> pc_dest q = pc_dest p"
  by (auto simp: priced_from_def candidate_ok_def plain_terms_def effective_budget_of_def probability_adjusted_budget_def)

lemma selected_candidates:
  assumes "selection_ok env busy sel" "selected_from env sel ps"
  shows "selection_ok env busy ps \<and> (\<forall>q \<in> set ps. candidate_ok env q)"
proof -
  from assms(2) obtain qs where q: "subseq qs sel" "list_all2 (priced_from env) qs ps"
    by (auto simp: selected_from_def)
  from q(2) have m: "map pc_source ps = map pc_source qs \<and> map pc_dest ps = map pc_dest qs \<and> length ps = length qs \<and>
      (\<forall>q \<in> set ps. candidate_ok env q)"
    by (induction rule: list_all2_induct) (auto dest: priced_candidate)
  have "selection_ok env busy qs" by (rule selection_ok_subseq [OF assms(1) q(1)])
  moreover have "pc_dest ` set ps = pc_dest ` set qs" using m by (metis list.set_map)
  then have "\<forall>p \<in> set ps. \<exists>q \<in> set qs. pc_dest p = pc_dest q" by (metis imageE imageI)
  ultimately show ?thesis using m by (auto simp: selection_ok_def)
qed

lemma price_plan_yields:
  assumes "price_plan env channels w = (Inr (Inr (ps, skips)), w')"
  shows "selection_ok env (inflight_snapshot (inflight w)) ps \<and> (\<forall>q \<in> set ps. candidate_ok env q)"
proof -
  let ?busy = "inflight_snapshot (inflight w)"
  obtain p where p: "plan channels (cf_max_amount (en_config env)) (max_concurrent_jobs (en_config env))
      (cf_fee_cap_ppm (en_config env)) = Inr p"
    using assms by (cases "plan channels (cf_max_amount (en_config env)) (max_concurrent_jobs (en_config env))
      (cf_fee_cap_ppm (en_config env))") (auto simp: price_plan_def Let_def bindA_def)
  obtain sk sel where s: "split_inflight ?busy (map (planned_candidate channels) (plan_pairs p)) = (sk, sel)" by force
  have sel: "selection_ok env ?busy (by_priority sel)"
    using planned_selection [OF p, of ?busy] s by simp
  have "yields (picked env [] (by_priority sel))
      (bindA (ensure_our_id env) (\<lambda>us. bindA (clock_now env) (\<lambda>now.
         price_all env us now (by_priority sel) (plan_skips p @ sk) [])))"
    by (intro yields_then price_all_yields)
  moreover have "bindA (ensure_our_id env) (\<lambda>us. bindA (clock_now env) (\<lambda>now.
         price_all env us now (by_priority sel) (plan_skips p @ sk) [])) w = (Inr (Inr (ps, skips)), w')"
    using assms by (simp add: price_plan_def Let_def p s bindA_lift) (simp add: bindA_def s)
  ultimately have "selected_from env (by_priority sel) ps" by (auto simp: picked_def dest!: yieldsD)
  from selected_candidates [OF sel this] show ?thesis .
qed

lemma find_candidates_ok:
  assumes "find_candidates env w = (Inr (Inr (ps, skips)), w')"
  shows "selection_ok env (inflight_snapshot (inflight w)) ps \<and> (\<forall>q \<in> set ps. candidate_ok env q)"
proof -
  have none: "selection_ok env b [] \<and> (\<forall>q \<in> set []. candidate_ok env q)" for b by (simp add: selection_ok_def)
  let ?w = "say_call RouterBegin (say_call SnapshotChannels w)"
  show ?thesis
  proof (cases "en_channels env (ecalls w)")
    case None
    with assms none show ?thesis by (simp add: find_candidates_def bindA_def ask_def)
  next
    case (Some channels)
    show ?thesis
    proof (cases "channels = [] \<or> \<not> en_router env (ecalls (say_call SnapshotChannels w))")
      case True
      with assms none Some show ?thesis
        by (cases channels) (auto simp: find_candidates_def with_router_def bindA_def ask_def say_call_def)
    next
      case False
      obtain r v where v: "price_plan env channels ?w = (r, v)" by force
      with assms Some False have "r = Inr (Inr (ps, skips))"
        by (cases channels) (auto simp: find_candidates_def with_router_def bindA_def handleA_def ask_def tell_def
            say_call_def split: sum.splits prod.splits)
      with v price_plan_yields [of env channels ?w ps skips v] show ?thesis by (simp add: say_call_def)
    qed
  qed
qed

section \<open>What stands behind a candidate\<close>

text \<open>The sats-EV gate on the terms the provider gives for the pair at a moment of the log, with
  the failures of the pair in the futility window; without terms only a free route passes.\<close>

definition gate_passed ::
  "engine_env \<Rightarrow> f64 \<Rightarrow> engine_call list \<Rightarrow> pair_futility \<Rightarrow> pair_candidate \<Rightarrow> route_result \<Rightarrow> bool" where
  "gate_passed env now l fut p rr \<longleftrightarrow>
     (case Option.bind (en_ev env) (\<lambda>get. get l p) of
        None \<Rightarrow> rr_cost_sats rr \<le> 0
      | Some t \<Rightarrow> ev_pass (sats_ev_gate \<lparr>probability_ppm = rr_probability_ppm rr, dest_attempts = term_attempts t,
          dest_success_rate = term_rate t, efv_sats = term_efv t, ev_fee_sats = rr_cost_sats rr,
          source_opportunity_sats = term_source t,
          failure_penalty_sats = f64_mul (f64_mul
            (f64_of_int (int (fst (pair_fresh_failure_count (pc_source p) (pc_dest p) now fut))))
            (f64_of_int (rr_cost_sats rr))) FAILURE_COST_RATE,
          activity_penalty_sats = term_activity t, hold_margin_sats = cf_hold_margin (en_config env)\<rparr>))"

text \<open>The pair was out of its cooldown and not futile, the router was asked for it and has a route,
  within the fee ceiling of the pair, and the gate let it pass. The log is the one before these
  questions.\<close>

definition cooldown_asked :: "f64 \<Rightarrow> pair_candidate \<Rightarrow> engine_call" where
  "cooldown_asked now q = PairCooldown (pc_source q) (pc_dest q) (f64_as_i64 now)"

definition price_asked :: "engine_env \<Rightarrow> string \<Rightarrow> pair_candidate \<Rightarrow> route_result \<Rightarrow> engine_call" where
  "price_asked env us q rr = PricePair (pair_ctx_of (en_config env) q us) [] (Inr rr)"

definition priced_at ::
  "engine_env \<Rightarrow> string \<Rightarrow> f64 \<Rightarrow> engine_call list \<Rightarrow> pair_futility \<Rightarrow> route_result \<Rightarrow> pair_candidate \<Rightarrow> bool" where
  "priced_at env us now l fut rr q \<longleftrightarrow>
     en_cooldown env l (pc_source q) (pc_dest q) (f64_as_i64 now) = None \<and>
     fst (pair_fresh_failure_count (pc_source q) (pc_dest q) now fut) < FUTILITY_THRESHOLD \<and>
     en_price env (l @ [cooldown_asked now q]) (pair_ctx_of (en_config env) q us) [] = Inr rr \<and> rr_success rr \<and>
     pc_cost q = rr_cost_sats rr \<and> pc_route q = rr_route rr \<and>
     (\<exists>b. effective_budget_of env (pc_budget q) rr (pc_amount q) = Inr b \<and> pc_effective q = Some b \<and> pc_cost q \<le> b) \<and>
     gate_passed env now (l @ [cooldown_asked now q, price_asked env us q rr]) fut q rr"

definition priced_in :: "engine_env \<Rightarrow> string \<Rightarrow> f64 \<Rightarrow> engine_world \<Rightarrow> engine_world \<Rightarrow> pair_candidate \<Rightarrow> bool" where
  "priced_in env us now w w' q \<longleftrightarrow> (\<exists>mid rr post.
     ecalls w' = ecalls w @ mid @ [cooldown_asked now q, price_asked env us q rr] @ post \<and>
     priced_at env us now (ecalls w @ mid) (futility w) rr q)"

text \<open>A candidate is a planned pair that was given its price and nothing else.\<close>

definition priced_version :: "pair_candidate \<Rightarrow> pair_candidate \<Rightarrow> bool" where
  "priced_version p q \<longleftrightarrow>
     q = p\<lparr>pc_cost := pc_cost q, pc_route := pc_route q, pc_effective := pc_effective q\<rparr>"

definition planned_from :: "engine_env \<Rightarrow> engine_world \<Rightarrow> pair_candidate \<Rightarrow> bool" where
  "planned_from env w q \<longleftrightarrow> (\<exists>channels pl pp. en_channels env (ecalls w) = Some channels \<and>
     plan channels (cf_max_amount (en_config env)) (max_concurrent_jobs (en_config env))
       (cf_fee_cap_ppm (en_config env)) = Inr pl \<and>
     pp \<in> set (plan_pairs pl) \<and> priced_version (planned_candidate channels pp) q)"

definition clock_read :: "engine_env \<Rightarrow> engine_world \<Rightarrow> engine_world \<Rightarrow> f64 \<Rightarrow> bool" where
  "clock_read env w w' now \<longleftrightarrow> (\<exists>a b. ecalls w' = ecalls w @ a @ ReadClock # b \<and> now = en_clock env (ecalls w @ a))"

text \<open>While pairs are priced the log grows, the failures in the window stay what they are and the
  id of the node is not read again.\<close>

definition later :: "f64 \<Rightarrow> engine_world \<Rightarrow> engine_world \<Rightarrow> bool" where
  "later now w v \<longleftrightarrow> (\<exists>a. ecalls v = ecalls w @ a) \<and> cached_id v = cached_id w \<and>
     (\<forall>s d. fst (pair_fresh_failure_count s d now (futility v)) = fst (pair_fresh_failure_count s d now (futility w)))"

interpretation lt: step_relation "later now" for now
  by unfold_locales (auto simp: later_def)

lemma kept_twice [simp]: "kept_log c (kept_log c xs) = kept_log c xs"
  by (simp add: kept_log_def)

lemma prune_keeps_count: "fst (pair_prune k now (snd (pair_prune k' now st))) = fst (pair_prune k now st)"
  by (simp add: prune_count get_prune)

lemma later_futile:
  "steps (later now) (with_futility (pair_is_futile s d now))"
  "steps (later now) (with_futility (pair_fresh_failure_count s d now))"
  by (auto simp: steps_def later_def with_futility_def pair_fresh_failure_count_def prune_keeps_count
      split: prod.splits dest: arg_cong [where f = snd])
    (metis pair_is_futile_snd prune_keeps_count snd_conv)+

lemma later_ask: "steps (later now) (ask f c)" "steps (later now) (ask_logged f g)"
  by (auto simp: steps_def later_def ask_def ask_logged_def say_call_def)

lemma later_ev: "steps (later now) (ev_outcome env now pair rr)"
  unfolding ev_outcome_def Let_def
  by (auto intro!: lt.steps_bind lt.steps_return later_ask later_futile split: option.splits simp del: returnA_def)

lemma later_price: "steps (later now) (price_selected env us now pair)"
  unfolding price_selected_def Let_def
  by (auto intro!: lt.steps_bind lt.steps_return later_ask later_futile later_ev
      split: option.splits sum.splits simp del: returnA_def)

lemma priced_in_extend:
  assumes "priced_in env us now v v' q" and a: "ecalls v = ecalls w @ a" "ecalls w' = ecalls v' @ a'"
    and f: "\<And>s d. fst (pair_fresh_failure_count s d now (futility v)) = fst (pair_fresh_failure_count s d now (futility w))"
  shows "priced_in env us now w w' q"
proof -
  have g: "priced_at env us now l (futility v) rr q = priced_at env us now l (futility w) rr q" for l rr
    unfolding priced_at_def gate_passed_def f ..
  from assms(1) obtain mid rr post where
    "ecalls v' = ecalls v @ mid @ [cooldown_asked now q, price_asked env us q rr] @ post"
    "priced_at env us now (ecalls v @ mid) (futility v) rr q"
    unfolding priced_in_def by blast
  then have "ecalls w' = ecalls w @ (a @ mid) @ [cooldown_asked now q, price_asked env us q rr] @ (post @ a')"
    "priced_at env us now (ecalls w @ (a @ mid)) (futility w) rr q"
    using a g by simp_all
  then show ?thesis unfolding priced_in_def by blast
qed

lemma priced_in_widen:
  assumes "priced_in env us now v v' q" "later now w v" "later now v' w'"
  shows "priced_in env us now w w' q"
  using assms(2,3) by (auto simp: later_def intro: priced_in_extend [OF assms(1)])

lemma ev_outcome_priced:
  assumes "ev_outcome env now pair rr u = (Inr (Priced q), u')"
  shows "q = pair \<and> gate_passed env now (ecalls u) (futility u) pair rr \<and> (\<exists>post. ecalls u' = ecalls u @ post)"
proof (cases "en_ev env")
  case None
  with assms show ?thesis by (auto simp: ev_outcome_def bindA_def gate_passed_def split: if_splits)
next
  case (Some get)
  with assms show ?thesis
    by (cases "get (ecalls u) pair")
      (auto simp: ev_outcome_def bindA_def ask_def say_call_def with_futility_def gate_passed_def Let_def
        split: if_splits prod.splits)
qed

lemma same_route_question [simp]:
  "pair_ctx_of cfg (p\<lparr>pc_cost := c, pc_route := r, pc_effective := e\<rparr>) us = pair_ctx_of cfg p us"
  "cooldown_asked now (p\<lparr>pc_cost := c, pc_route := r, pc_effective := e\<rparr>) = cooldown_asked now p"
  "price_asked env us (p\<lparr>pc_cost := c, pc_route := r, pc_effective := e\<rparr>) rr = price_asked env us p rr"
  by (simp_all add: pair_ctx_of_def cooldown_asked_def price_asked_def)

lemma gate_passed_pruned: "gate_passed env now l (snd (pair_prune k now fut)) q rr = gate_passed env now l fut q rr"
  unfolding gate_passed_def pair_fresh_failure_count_def prune_keeps_count ..

lemma bind_futility: "bindA (with_futility f) g w = g (fst (f (futility w))) (w\<lparr>futility := snd (f (futility w))\<rparr>)"
  by (simp add: bindA_def with_futility_def split: prod.splits)

lemma bind_ask: "bindA (ask f c) g w = g (f (ecalls w)) (say_call c w)"
  "bindA (ask_logged f h) g w = g (f (ecalls w)) (say_call (h (f (ecalls w))) w)"
  by (simp_all add: bindA_def ask_def ask_logged_def Let_def)

lemma price_selected_priced:
  assumes "price_selected env us now p v = (Inr (Priced q), v')"
  shows "priced_version p q \<and> priced_in env us now v v' q"
proof -
  let ?s = "pc_source p" and ?d = "pc_dest p" and ?ctx = "pair_ctx_of (en_config env) p us"
  define u where "u = say_call (cooldown_asked now p) v\<lparr>futility := snd (pair_prune (?s, ?d) now (futility v))\<rparr>"
  have c: "en_cooldown env (ecalls v) ?s ?d (f64_as_i64 now) = None"
    using assms by (cases "en_cooldown env (ecalls v) ?s ?d (f64_as_i64 now)")
      (simp_all add: price_selected_def bind_ask)
  have f: "fst (pair_fresh_failure_count ?s ?d now (futility v)) < FUTILITY_THRESHOLD"
    using assms c by (simp add: price_selected_def bind_ask bind_futility pair_is_futile_def
      pair_fresh_failure_count_def say_call_def not_le split: prod.splits if_splits)
  have n: "\<not> fst (pair_is_futile ?s ?d now (futility v))"
    using f by (auto simp: pair_is_futile_def pair_fresh_failure_count_def split: prod.splits)
  obtain rr where r: "en_price env (ecalls u) ?ctx [] = Inr rr"
    using assms c n by (cases "en_price env (ecalls u) ?ctx []")
      (simp_all add: u_def price_selected_def bind_ask bind_futility say_call_def cooldown_asked_def Let_def)
  have rest: "bindA (liftA (effective_budget_of env (pc_budget p) rr (pc_amount p))) (\<lambda>budget.
      let pair = p\<lparr>pc_cost := rr_cost_sats rr, pc_route := rr_route rr, pc_effective := Some budget\<rparr>
      in if budget < rr_cost_sats rr then returnA (Skipped (skip_pair pair ''route_over_budget'' (max (pc_budget pair) 0)
           (''route_cost='' @ dec_int (rr_cost_sats rr) @ '' effective_budget='' @ dec_int budget
             @ '' probability_ppm='' @ dec_int (rr_probability_ppm rr))))
         else ev_outcome env now pair rr) (say_call (price_asked env us p rr) u) = (Inr (Priced q), v')"
    and ok: "rr_success rr"
    using assms c n r by (simp_all add: u_def price_selected_def bind_ask bind_futility say_call_def
      cooldown_asked_def price_asked_def Let_def split: if_splits)
  obtain b where b: "effective_budget_of env (pc_budget p) rr (pc_amount p) = Inr b"
    using rest by (cases "effective_budget_of env (pc_budget p) rr (pc_amount p)") (simp_all add: bindA_def)
  let ?q = "p\<lparr>pc_cost := rr_cost_sats rr, pc_route := rr_route rr, pc_effective := Some b\<rparr>"
  have le: "rr_cost_sats rr \<le> b"
    and ev: "ev_outcome env now ?q rr (say_call (price_asked env us p rr) u) = (Inr (Priced q), v')"
    using rest by (simp_all add: b bindA_lift Let_def split: if_splits)
  from ev_outcome_priced [OF ev] obtain post where
    q: "q = ?q" and g: "gate_passed env now (ecalls u @ [price_asked env us p rr]) (futility u) ?q rr" and
    post: "ecalls v' = ecalls u @ price_asked env us p rr # post"
    by (auto simp: say_call_def)
  have "gate_passed env now (ecalls v @ [cooldown_asked now p, price_asked env us p rr]) (futility v) ?q rr"
    using g by (simp add: u_def say_call_def gate_passed_pruned)
  then have "priced_at env us now (ecalls v) (futility v) rr q"
    using c f r ok b le by (simp add: q priced_at_def u_def say_call_def)
  moreover have "ecalls v' = ecalls v @ [] @ [cooldown_asked now q, price_asked env us q rr] @ post"
    using post by (simp add: q u_def say_call_def)
  ultimately have "priced_in env us now v v' q" unfolding priced_in_def by (metis append_Nil2)
  then show ?thesis by (simp add: q priced_version_def)
qed

lemma later_all: "steps (later now) (price_all env us now sel skips out)"
  by (induction sel arbitrary: skips out)
    (auto intro!: lt.steps_return lt.steps_bind later_price split: pricing_outcome.split simp del: returnA_def)

lemma price_all_priced:
  assumes "price_all env us now sel skips out w = (Inr (Inr (ps, sk)), w')" "q \<in> set ps"
  shows "q \<in> set out \<or> (\<exists>p \<in> set sel. priced_version p q \<and> priced_in env us now w w' q)"
  using assms
proof (induction sel arbitrary: skips out w)
  case (Cons p sel)
  obtain o1 v where o1: "price_selected env us now p w = (Inr o1, v)"
    using Cons.prems(1) by (cases "price_selected env us now p w"; cases "fst (price_selected env us now p w)")
      (auto simp: bindA_def)
  have wv: "later now w v" using stepsD [OF later_price o1] .
  have vw: "later now v w'"
    using Cons.prems(1) o1 stepsD [OF later_all] lt.refl by (cases o1) (auto simp: bindA_def)
  have more: "q \<in> set out' \<or> (\<exists>p \<in> set sel. priced_version p q \<and> priced_in env us now w w' q)"
    if "price_all env us now sel skips' out' v = (Inr (Inr (ps, sk)), w')" for skips' out'
    using Cons.IH [OF that Cons.prems(2)] by (blast intro: priced_in_widen [OF _ wv lt.refl])
  show ?case
  proof (cases o1)
    case (Priced q1)
    have "q \<in> set (out @ [q1]) \<or> (\<exists>p \<in> set sel. priced_version p q \<and> priced_in env us now w w' q)"
      by (rule more) (use Cons.prems(1) o1 Priced in \<open>auto simp: bindA_def\<close>)
    moreover from price_selected_priced [OF o1 [unfolded Priced]]
    have "priced_version p q1 \<and> priced_in env us now w w' q1" by (blast intro: priced_in_widen lt.refl vw)
    ultimately show ?thesis by auto
  next
    case (Skipped s)
    have "q \<in> set out \<or> (\<exists>p \<in> set sel. priced_version p q \<and> priced_in env us now w w' q)"
      by (rule more) (use Cons.prems(1) o1 Skipped in \<open>auto simp: bindA_def\<close>)
    then show ?thesis by auto
  qed (use Cons.prems(1) o1 in \<open>simp add: bindA_def\<close>)
qed simp

lemma price_plan_priced:
  assumes "price_plan env channels w = (Inr (Inr (ps, skips)), w')" "q \<in> set ps"
  shows "\<exists>pl pp now. plan channels (cf_max_amount (en_config env)) (max_concurrent_jobs (en_config env))
      (cf_fee_cap_ppm (en_config env)) = Inr pl \<and> pp \<in> set (plan_pairs pl) \<and>
    priced_version (planned_candidate channels pp) q \<and> clock_read env w w' now \<and>
    priced_in env (cached_id w') now w w' q"
proof -
  let ?busy = "inflight_snapshot (inflight w)"
  obtain pl where pl: "plan channels (cf_max_amount (en_config env)) (max_concurrent_jobs (en_config env))
      (cf_fee_cap_ppm (en_config env)) = Inr pl"
    using assms(1) by (cases "plan channels (cf_max_amount (en_config env)) (max_concurrent_jobs (en_config env))
      (cf_fee_cap_ppm (en_config env))") (auto simp: price_plan_def Let_def bindA_def)
  obtain sk sel where s: "split_inflight ?busy (map (planned_candidate channels) (plan_pairs pl)) = (sk, sel)" by force
  obtain us u where e: "ensure_our_id env w = (us, u)" by force
  then have u: "ensure_our_id env w = (Inr (cached_id u), u)" "\<exists>a. ecalls u = ecalls w @ a" "futility u = futility w"
    by (auto simp: ensure_our_id_def bind_ask say_call_def split: if_splits option.splits)
  then obtain a where a: "ecalls u = ecalls w @ a" by blast
  let ?now = "en_clock env (ecalls u)"
  have all: "price_all env (cached_id u) ?now (by_priority sel) (plan_skips pl @ sk) [] (say_call ReadClock u)
      = (Inr (Inr (ps, skips)), w')"
    using assms(1) by (simp add: price_plan_def Let_def pl s bindA_lift bindA_def u(1) ask_def)
  have l: "later ?now (say_call ReadClock u) w'" using stepsD [OF later_all all] .
  then obtain b where b: "ecalls w' = ecalls w @ a @ ReadClock # b" and id: "cached_id w' = cached_id u"
    by (auto simp: later_def say_call_def a)
  from price_all_priced [OF all assms(2)] obtain p where p: "p \<in> set (by_priority sel)" "priced_version p q"
    "priced_in env (cached_id u) ?now (say_call ReadClock u) w' q" by auto
  have "p \<in> set sel" using p(1) by (simp add: by_priority_def)
  then obtain pp where pp: "pp \<in> set (plan_pairs pl)" "p = planned_candidate channels pp"
    using s by (auto simp: split_inflight_def)
  have "priced_in env (cached_id w') ?now w w' q"
    unfolding id by (rule priced_in_extend [OF p(3), of _ "a @ [ReadClock]" _ "[]"]) (simp_all add: a say_call_def u(3))
  moreover have "clock_read env w w' ?now" unfolding clock_read_def using a b by metis
  ultimately show ?thesis using pl pp p(2) by blast
qed

lemma find_candidates_priced:
  assumes "find_candidates env w = (Inr (Inr (ps, skips)), w')" "q \<in> set ps"
  shows "planned_from env w q \<and> (\<exists>now. clock_read env w w' now \<and> priced_in env (cached_id w') now w w' q)"
proof -
  let ?w = "say_call RouterBegin (say_call SnapshotChannels w)"
  obtain channels where ch: "en_channels env (ecalls w) = Some channels" "channels \<noteq> []"
    "en_router env (ecalls (say_call SnapshotChannels w))"
    using assms by (auto simp: find_candidates_def with_router_def bindA_def ask_def split: option.splits list.splits if_splits)
  obtain r v where v: "price_plan env channels ?w = (r, v)" by force
  with assms ch have r: "r = Inr (Inr (ps, skips))" and w': "w' = say_call RouterEnd v"
    by (cases channels; auto simp: find_candidates_def with_router_def bindA_def handleA_def ask_def tell_def
        say_call_def split: sum.splits prod.splits)+
  from price_plan_priced [OF v [unfolded r] assms(2)] obtain pl pp now where
    p: "plan channels (cf_max_amount (en_config env)) (max_concurrent_jobs (en_config env))
      (cf_fee_cap_ppm (en_config env)) = Inr pl" "pp \<in> set (plan_pairs pl)"
      "priced_version (planned_candidate channels pp) q" "clock_read env ?w v now"
      "priced_in env (cached_id v) now ?w v q" by blast
  have "clock_read env w w' now"
  proof -
    from p(4) obtain a b where "ecalls v = ecalls ?w @ a @ ReadClock # b" "now = en_clock env (ecalls ?w @ a)"
      unfolding clock_read_def by blast
    then have "ecalls w' = ecalls w @ (SnapshotChannels # RouterBegin # a) @ ReadClock # (b @ [RouterEnd])"
      "now = en_clock env (ecalls w @ (SnapshotChannels # RouterBegin # a))"
      by (simp_all add: w' say_call_def)
    then show ?thesis unfolding clock_read_def by blast
  qed
  moreover have "priced_in env (cached_id w') now w w' q"
    using priced_in_extend [OF p(5), of w "[SnapshotChannels, RouterBegin]" w' "[RouterEnd]"]
    by (simp add: w' say_call_def)
  ultimately show ?thesis using ch p(1-3) unfolding planned_from_def by blast
qed

section \<open>The payments of a cycle\<close>







text \<open>All payments of an execution go to its destination.\<close>

definition to_dest :: "string \<Rightarrow> engine_call list \<Rightarrow> bool" where
  "to_dest d cs \<longleftrightarrow> (\<forall>q x. Execute q x \<in> set cs \<longrightarrow> dest_channel_id q = d)"

lemma to_dest_append [simp]: "to_dest d (cs @ ds) \<longleftrightarrow> to_dest d cs \<and> to_dest d ds"
  by (auto simp: to_dest_def)







































section \<open>Every worker of a cycle\<close>






section \<open>A concrete cycle\<close>

definition demo_cycle :: engine_env where
  "demo_cycle = demo_engine\<lparr>
     en_config := default_config\<lparr>cf_daily_budget := 1000, cf_max_amount := 100, cf_fee_cap_ppm := 1000\<rparr>,
     en_price := (\<lambda>_ _ _. Inr (demo_route\<lparr>rr_cost_sats := 1, rr_probability_ppm := 0\<rparr>)),
     en_channels := (\<lambda>_. Some sample_channels),
     en_ev := Some (\<lambda>_ _. Some \<lparr>term_attempts = 0, term_rate = f64_of_int 0, term_efv = f64_of_int 8,
       term_source = f64_of_int 0, term_activity = f64_of_int 0\<rparr>)\<rparr>"

lemma demo_gate:
  "ev_pass (sats_ev_gate \<lparr>probability_ppm = 0, dest_attempts = 0, dest_success_rate = f64_of_int 0,
     efv_sats = f64_of_int 8, ev_fee_sats = 1, source_opportunity_sats = f64_of_int 0,
     failure_penalty_sats = f64_mul (f64_mul (f64_of_int 0) (f64_of_int 1)) FAILURE_COST_RATE,
     activity_penalty_sats = f64_of_int 0, hold_margin_sats = f64_of_int 0\<rparr>)"
  by (simp add: sats_ev_gate_def p_success_def FAILURE_COST_RATE_def float_eval)


lemma demo_prices: "pair_is_futile s d t pair_new = (False, pair_new)" "pair_fresh_failure_count s d t pair_new = (0, pair_new)"
  by (simp_all add: pair_is_futile_def pair_fresh_failure_count_def pair_prune_def pair_new_def FUTILITY_THRESHOLD_def)

lemma demo_found:
  "\<exists>p w'. find_candidates demo_cycle demo_state = (Inr (Inr ([p], [\<lparr>skip_channel = ''c'', skip_reason = ''inside_band'',
       skip_class = ''neutral'', skip_budget = 10, skip_detail = None\<rparr>])), w') \<and>
     pc_source p = ''a'' \<and> pc_dest p = ''b'' \<and> pc_cost p = 1 \<and> pc_effective p = Some 1"
proof -
  have ch: "sample_channels \<noteq> []" by (simp add: sample_channels_def)
  have jobs: "max_concurrent_jobs (en_config demo_cycle) = 5"
    by (simp add: max_concurrent_jobs_def demo_cycle_def default_config_def)
  show ?thesis
    using demo_gate ch sample_plan jobs
    by (simp add: find_candidates_def price_plan_def price_selected_def ev_outcome_def with_futility_def demo_cycle_def
      demo_defs step_defs with_router_def ensure_our_id_def planned_candidate_def split_inflight_def
      inflight_snapshot_def by_priority_def effective_budget_of_def probability_adjusted_budget_def
      per_attempt_ceiling_def demo_prices split: list.splits)
qed

text \<open>With a probability bonus of one, the largest the configuration admits, a partial amount may be
  paid with a higher fee than the reservation holds: a pair accepted at a ceiling of 50 retries
  1000 of its 1001 satoshi with a ceiling of 100 when the new route is certain.\<close>

lemma bonus_exceeds_reservation:
  fixes env pair
  defines "env \<equiv> demo_engine\<lparr>en_config := default_config\<lparr>cf_bonus := f64_of_int 1\<rparr>\<rparr>"
    and "pair \<equiv> demo_terms\<lparr>pc_amount := 1001, pc_budget := 50, pc_effective := Some 50\<rparr>"
  shows "effective_budget_of env (pc_budget pair) (demo_route\<lparr>rr_probability_ppm := 0\<rparr>) (pc_amount pair) = Inr 50 \<and>
    pair_max_fee_sats pair = 50 \<and> 1000 \<in> set (native_partial_amounts (pc_amount pair)) \<and>
    effective_budget_of env (ladder_budget pair 1000) (demo_route\<lparr>rr_probability_ppm := 1000000\<rparr>) 1000 = Inr 100"
proof -
  have "native_partial_amounts 1001 = [1000]"
    by (simp add: native_partial_amounts_def partial_loop.simps trunc_div_def)
  then show ?thesis
    by (simp add: env_def pair_def demo_defs effective_budget_of_def per_attempt_ceiling_def ladder_budget_def
        scaled_budget_ceil_def trunc_div_def in_i64_def i64_bounds pair_max_fee_sats_def
        probability_adjusted_budget_def float_eval)
qed

section \<open>Properties\<close>

text \<open>C10. What a cycle may pay is sound. There are at most the allowed number of candidates, no
  source and no destination twice, none whose destination still has an earlier payment in
  flight. Every candidate is a pair the planner made of the channels the node reported, with
  nothing but its price added, and the log shows how it was priced: at the time read from the
  clock it was out of its cooldown and had fewer failures in the window than the futility
  threshold, the router was asked for exactly this pair and answered with the route and the
  cost the candidate carries, a cost within its fee ceiling, and the expected-value gate let
  it pass on the terms the provider gave for it, the probability of that route and the
  failures the pair has in the window. Without terms only a route that costs nothing passes.\<close>

theorem cycle_candidates_sound:
  assumes "find_candidates env w = (Inr (Inr (ps, skips)), w')"
  shows "length ps \<le> max_concurrent_jobs (en_config env) \<and>
    distinct (map pc_source ps) \<and> distinct (map pc_dest ps) \<and>
    (\<forall>p \<in> set ps. pc_dest p \<notin> inflight_snapshot (inflight w) \<and> planned_from env w p \<and>
       (\<exists>now. clock_read env w w' now \<and> priced_in env (cached_id w') now w w' p))"
  using find_candidates_ok [OF assms] find_candidates_priced [OF assms] by (auto simp: selection_ok_def)

theorem cycle_candidates_sound_witness:
  "\<exists>p skips w'. find_candidates demo_cycle demo_state = (Inr (Inr ([p], skips)), w') \<and>
     pc_source p = ''a'' \<and> pc_cost p = 1 \<and> length [p] \<le> max_concurrent_jobs (en_config demo_cycle) \<and>
     planned_from demo_cycle demo_state p \<and>
     (\<exists>now. clock_read demo_cycle demo_state w' now \<and>
        priced_in demo_cycle (cached_id w') now demo_state w' p)"
proof -
  obtain p skips w' where f: "find_candidates demo_cycle demo_state = (Inr (Inr ([p], skips)), w')"
    "pc_source p = ''a''" "pc_cost p = 1"
    using demo_found by blast
  show ?thesis
    using cycle_candidates_sound [OF f(1)] f by auto
qed



end
