(* ===== verification/F64Round.thy ===== *)
theory F64Round
  imports F64Facts
begin

text \<open>
  What the conversions of a float to an integer mean: \<open>floor\<close>, \<open>ceil\<close> and
  \<open>round_ties_even\<close> followed by \<open>as i64\<close> are the floor, the ceiling and a nearest integer of the
  exact value, as long as that value is within the range of the integers a float holds exactly.
\<close>

lemma as_i64_of_round:
  assumes "n < 2 ^ 53"
  shows "f64_as_i64 (f64_round s n 0) = (if s then - int n else int n)"
proof -
  have "f64_round s n 0 = f64_of_int (if s then - int n else int n) \<or> n = 0"
    by (auto simp: f64_of_int_def)
  then show ?thesis
  proof
    assume "f64_round s n 0 = f64_of_int (if s then - int n else int n)"
    then show ?thesis using f64_roundtrip_small [of "if s then - int n else int n"] assms by simp
  next
    assume "n = 0"
    then show ?thesis by (simp add: f64_round_def fin_trunc_def i64_bounds)
  qed
qed

lemma as_i64_whole:
  assumes "0 \<le> e" "\<bar>fval (Fin s m e)\<bar> < 2 ^ 53"
  shows "real_of_int (f64_as_i64 (Fin s m e)) = fval (Fin s m e)"
proof -
  define v where "v = int m * 2 ^ nat e"
  have x: "real m * 2 powi e = real_of_int v" using assms(1) by (simp add: v_def pw_nat)
  have "\<bar>real_of_int v\<bar> < 2 ^ 53" using assms(2) by (simp add: fval_Fin x sval_def split: if_splits)
  then have v: "\<bar>v\<bar> < 2 ^ 53" by (metis of_int_abs of_int_less_numeral_power_cancel_iff)
  have "fin_trunc s m e = (if s then - v else v)" using assms(1) by (simp add: fin_trunc_def v_def)
  then show ?thesis using v by (auto simp: i64_bounds fval_Fin x sval_def)
qed

lemma fraction_value: "e < 0 \<Longrightarrow> real m * 2 powi e = real m / 2 ^ nat (- e)"
  using power_int_minus [of "2::real" "- e"] by (simp add: pw_nat divide_inverse)

lemma int_part_value:
  assumes w: "f64_wf (Fin s m e)" and small: "\<bar>fval (Fin s m e)\<bar> < 2 ^ 53"
    and r: "\<And>k. 0 < k \<Longrightarrow> rnd m k \<le> m"
    and q: "\<And>k. 0 < k \<Longrightarrow> P (sval s (real m / 2 ^ k)) (sval s (real (rnd m k)))"
    and refl: "\<And>i. P (real_of_int i) (real_of_int i)"
  shows "P (fval (Fin s m e)) (real_of_int (f64_as_i64 (f64_int_part s m e rnd)))"
proof (cases "0 \<le> e")
  case True
  then show ?thesis using as_i64_whole [OF True small] refl by (metis f64_int_part_def)
next
  case False
  define k where "k = nat (- e)"
  have k: "0 < k" using False by (simp add: k_def)
  have "rnd m k < 2 ^ 53" using r [OF k] w by simp
  then have "f64_as_i64 (f64_int_part s m e rnd) = (if s then - int (rnd m k) else int (rnd m k))"
    using False as_i64_of_round by (simp add: f64_int_part_def k_def)
  moreover have "fval (Fin s m e) = sval s (real m / 2 ^ k)"
    using False by (simp add: fval_Fin fraction_value k_def)
  ultimately show ?thesis using q [OF k] by (simp add: sval_def split: if_splits)
qed

lemma ceil_div: "real ((m + 2 ^ k - Suc 0) div 2 ^ k) = real_of_int \<lceil>real m / 2 ^ k\<rceil>"
proof -
  define K where "K = (2::nat) ^ k"
  define n where "n = (m + K - 1) div K"
  have K: "0 < K" by (simp add: K_def)
  have "n * K \<le> m + K - 1" "m + K - 1 < n * K + K"
    using div_mult_mod_eq [of "m + K - 1" K] mod_less_divisor [OF K, of "m + K - 1"]
    unfolding n_def by linarith+
  then have "n * K < m + K" "m \<le> n * K" using K by linarith+
  then have "real n * real K < real m + real K" "real m \<le> real n * real K"
    by (simp_all flip: of_nat_mult of_nat_add)
  then have "\<lceil>real m / real K\<rceil> = int n" using K by (intro ceiling_unique) (simp_all add: field_simps)
  then show ?thesis by (simp add: n_def K_def)
qed

lemma floor_div: "real (m div 2 ^ k) = real_of_int \<lfloor>real m / 2 ^ k\<rfloor>"
  using floor_divide_of_nat_eq [of m "2 ^ k", where 'a = real] by simp

lemma up_div_le: "0 < k \<Longrightarrow> (m + 2 ^ k - Suc 0) div 2 ^ k \<le> m"
proof (cases "m = 0")
  case False
  assume "0 < k"
  have "m + 2 ^ k - Suc 0 \<le> m * 2 ^ k" using False by (cases m) auto
  then have "(m + 2 ^ k - Suc 0) div 2 ^ k \<le> m * 2 ^ k div 2 ^ k" by (rule div_le_mono)
  then show ?thesis by simp
qed simp

lemma round_bits_real:
  "\<bar>real (round_bits m k) - real m / 2 ^ k\<bar> \<le> 1 / 2"
proof -
  have "real (2 * (round_bits m k * 2 ^ k)) \<le> real (2 * m + 2 ^ k)"
    "real (2 * m) \<le> real (2 * (round_bits m k * 2 ^ k) + 2 ^ k)"
    by (simp_all only: of_nat_le_iff round_bits_near(1,2))
  then have "2 * (real (round_bits m k) * 2 ^ k) \<le> 2 * real m + 2 ^ k"
    "2 * real m \<le> 2 * (real (round_bits m k) * 2 ^ k) + 2 ^ k" by simp_all
  then have "\<bar>real (round_bits m k) * 2 ^ k - real m\<bar> \<le> 2 ^ k / 2" by linarith
  moreover have "real (round_bits m k) - real m / 2 ^ k = (real (round_bits m k) * 2 ^ k - real m) / 2 ^ k"
    by (simp add: field_simps)
  ultimately show ?thesis by (simp add: abs_divide divide_le_eq)
qed

lemma round_bits_le: "0 < k \<Longrightarrow> round_bits m k \<le> m"
proof (cases "m = 0")
  case True
  then show ?thesis by (simp add: round_bits_def Let_def)
next
  case False
  assume "0 < k"
  then have "(2::nat) \<le> 2 ^ k" by (cases k) auto
  then have "m * 2 \<le> m * 2 ^ k" by simp
  with round_bits_near(1) [of m k] False have "2 * (round_bits m k * 2 ^ k) \<le> 2 * (m * 2 ^ k)"
  proof (cases "m = 1")
    case True
    have "round_bits m k < 2"
    proof (rule ccontr)
      assume "\<not> round_bits m k < 2"
      then have "2 * 2 ^ k \<le> round_bits m k * 2 ^ k" by (intro mult_le_mono1) simp
      then show False using round_bits_near(1) [of m k] True \<open>2 \<le> 2 ^ k\<close> by linarith
    qed
    then show ?thesis using True by (simp add: mult_le_mono1)
  next
    case False
    then have "2 * 2 ^ k \<le> m * 2 ^ k" using \<open>m \<noteq> 0\<close> by (intro mult_le_mono1) simp
    then show ?thesis using round_bits_near(1) [of m k] \<open>m * 2 \<le> m * 2 ^ k\<close> by linarith
  qed
  then show ?thesis by simp
qed

text \<open>A float whose conversion we can follow.\<close>

definition exact_range :: "f64 \<Rightarrow> bool" where
  "exact_range a \<longleftrightarrow> f64_is_finite a \<and> f64_wf a \<and> \<bar>fval a\<bar> < 2 ^ 53"

lemma part_value:
  assumes "exact_range (Fin s m e)"
    and "\<And>k. 0 < k \<Longrightarrow> rnd m k \<le> m" "\<And>k. 0 < k \<Longrightarrow> P (sval s (real m / 2 ^ k)) (sval s (real (rnd m k)))"
    and "\<And>i. P (real_of_int i) (real_of_int i)"
  shows "P (fval (Fin s m e)) (real_of_int (f64_as_i64 (f64_int_part s m e rnd)))"
  by (rule int_part_value [of s m e rnd P, OF _ _ assms(2,3,4)]) (use assms(1) in \<open>simp_all only: exact_range_def\<close>)

theorem f64_floor_as_i64:
  assumes "exact_range a"
  shows "f64_as_i64 (f64_floor a) = \<lfloor>fval a\<rfloor>"
proof -
  obtain s m e where a: "a = Fin s m e" using assms by (cases a) (auto simp: exact_range_def)
  have "real_of_int \<lfloor>fval a\<rfloor> = real_of_int (f64_as_i64 (f64_floor a))"
    unfolding a f64_floor.simps using assms [unfolded a]
  proof (rule part_value [where P = "\<lambda>x y. real_of_int \<lfloor>x\<rfloor> = y"])
    fix k :: nat assume k: "0 < k"
    show "(if s then (m + 2 ^ k - 1) div 2 ^ k else m div 2 ^ k) \<le> m"
      using up_div_le [OF k] by simp
    show "real_of_int \<lfloor>sval s (real m / 2 ^ k)\<rfloor> = sval s (real (if s then (m + 2 ^ k - 1) div 2 ^ k else m div 2 ^ k))"
      using ceil_div [of m k] floor_div [of m k] by (cases s) (simp_all add: sval_def floor_minus)
  qed simp
  then show ?thesis by simp
qed

theorem f64_ceil_as_i64:
  assumes "exact_range a"
  shows "f64_as_i64 (f64_ceil a) = \<lceil>fval a\<rceil>"
proof -
  obtain s m e where a: "a = Fin s m e" using assms by (cases a) (auto simp: exact_range_def)
  have "real_of_int \<lceil>fval a\<rceil> = real_of_int (f64_as_i64 (f64_ceil a))"
    unfolding a f64_ceil.simps using assms [unfolded a]
  proof (rule part_value [where P = "\<lambda>x y. real_of_int \<lceil>x\<rceil> = y"])
    fix k :: nat assume k: "0 < k"
    show "(if s then m div 2 ^ k else (m + 2 ^ k - 1) div 2 ^ k) \<le> m"
      using up_div_le [OF k] by simp
    show "real_of_int \<lceil>sval s (real m / 2 ^ k)\<rceil> = sval s (real (if s then m div 2 ^ k else (m + 2 ^ k - 1) div 2 ^ k))"
      using ceil_div [of m k] floor_div [of m k] by (cases s) (simp_all add: sval_def ceiling_minus)
  qed simp
  then show ?thesis by simp
qed

theorem f64_ties_as_i64:
  assumes "exact_range a"
  shows "\<bar>real_of_int (f64_as_i64 (f64_round_ties_even a)) - fval a\<bar> \<le> 1 / 2"
proof -
  obtain s m e where a: "a = Fin s m e" using assms by (cases a) (auto simp: exact_range_def)
  show ?thesis
    unfolding a f64_round_ties_even.simps using assms [unfolded a]
  proof (rule part_value [where P = "\<lambda>x y. \<bar>y - x\<bar> \<le> 1 / 2"])
    fix k :: nat assume k: "0 < k"
    show "round_bits m k \<le> m" by (rule round_bits_le [OF k])
    show "\<bar>sval s (real (round_bits m k)) - sval s (real m / 2 ^ k)\<bar> \<le> 1 / 2"
      using round_bits_real [of m k] by (cases s) (simp_all add: sval_def abs_minus_commute)
  qed simp
qed

text \<open>Rounding to the nearest integer stays between integers.\<close>

corollary f64_ties_between:
  assumes "exact_range a" "real_of_int lo \<le> fval a" "fval a \<le> real_of_int hi"
  shows "lo \<le> f64_as_i64 (f64_round_ties_even a)" "f64_as_i64 (f64_round_ties_even a) \<le> hi"
proof -
  define n where "n = f64_as_i64 (f64_round_ties_even a)"
  have "real_of_int lo - 1 / 2 \<le> real_of_int n" "real_of_int n \<le> real_of_int hi + 1 / 2"
    using f64_ties_as_i64 [OF assms(1)] assms(2,3) unfolding n_def [symmetric] by linarith+
  then show "lo \<le> n" "n \<le> hi" by linarith+
qed

end
