(* ===== verification/FeeRails.thy ===== *)
theory FeeRails
  imports F64Round Json
begin

text \<open>
  The fee profiles and the rails of the fee controller (\<open>revops-fees/src/profiles.rs\<close>,
  \<open>rails.rs\<close>): the cap on the move of one cycle, the blend towards a target, the exploration
  target and the guard against raising fees during silence.
\<close>

section \<open>Profiles\<close>

record fee_profile_settings =
  min_observation_hours :: f64
  min_forwards_for_signal :: int
  dts_discount_gamma :: f64
  dts_sparse_discount_gamma :: f64
  normal_target_blend_ratio :: f64
  wake_target_blend_ratio :: f64
  sparse_target_blend_ratio :: f64
  normal_cycle_max_delta_ratio :: f64
  normal_cycle_min_delta_ppm :: int
  wake_cycle_max_delta_ratio :: f64
  wake_cycle_min_delta_ppm :: int

definition ACTIVE_PROFILE :: fee_profile_settings where
  "ACTIVE_PROFILE = \<lparr>min_observation_hours = f64_lit False 25 2, min_forwards_for_signal = 3,
     dts_discount_gamma = f64_lit False 98 2, dts_sparse_discount_gamma = f64_lit False 992 3,
     normal_target_blend_ratio = f64_lit False 35 2, wake_target_blend_ratio = f64_lit False 15 2,
     sparse_target_blend_ratio = f64_lit False 20 2, normal_cycle_max_delta_ratio = f64_lit False 50 2,
     normal_cycle_min_delta_ppm = 100, wake_cycle_max_delta_ratio = f64_lit False 20 2,
     wake_cycle_min_delta_ppm = 50\<rparr>"

definition CONSERVATIVE_PROFILE :: fee_profile_settings where
  "CONSERVATIVE_PROFILE = \<lparr>min_observation_hours = f64_of_int 1, min_forwards_for_signal = 6,
     dts_discount_gamma = f64_lit False 992 3, dts_sparse_discount_gamma = f64_lit False 996 3,
     normal_target_blend_ratio = f64_lit False 20 2, wake_target_blend_ratio = f64_lit False 10 2,
     sparse_target_blend_ratio = f64_lit False 10 2, normal_cycle_max_delta_ratio = f64_lit False 25 2,
     normal_cycle_min_delta_ppm = 25, wake_cycle_max_delta_ratio = f64_lit False 10 2,
     wake_cycle_min_delta_ppm = 10\<rparr>"

definition EXPLORATION_FEE_MULTIPLIER :: f64 where "EXPLORATION_FEE_MULTIPLIER = f64_lit False 125 2"
definition EXPLORATION_MAX_DISCOUNT_RATIO :: f64 where "EXPLORATION_MAX_DISCOUNT_RATIO = f64_lit False 50 2"
definition EXPLORATION_HEADROOM_RATIO :: f64 where "EXPLORATION_HEADROOM_RATIO = f64_lit False 35 2"
definition EXPLORATION_SPARSE_HEADROOM_RATIO :: f64 where
  "EXPLORATION_SPARSE_HEADROOM_RATIO = f64_lit False 50 2"

definition fee_profile :: "string \<Rightarrow> string \<times> fee_profile_settings" where
  "fee_profile name =
     (if to_lowercase name = ''conservative'' then (''conservative'', CONSERVATIVE_PROFILE)
      else (''active'', ACTIVE_PROFILE))"

section \<open>Constants\<close>

definition UNROUTABLE_SPENDABLE_SATS :: int where "UNROUTABLE_SPENDABLE_SATS = 25000"
definition ZERO_FLOW_GUARD_STREAK :: int where "ZERO_FLOW_GUARD_STREAK = 8"
definition ZERO_FLOW_DOWNSHIFT_STREAK :: int where "ZERO_FLOW_DOWNSHIFT_STREAK = 24"
definition ZERO_FLOW_DOWNSHIFT_RATIO :: f64 where "ZERO_FLOW_DOWNSHIFT_RATIO = f64_lit False 85 2"
definition ZERO_FLOW_DOWNSHIFT_INTERVAL_CYCLES :: int where "ZERO_FLOW_DOWNSHIFT_INTERVAL_CYCLES = 12"
definition ZERO_FLOW_ANCHOR_FLOOR_FRAC :: f64 where "ZERO_FLOW_ANCHOR_FLOOR_FRAC = f64_lit False 5 1"
definition ZERO_FLOW_GAP_GUARD_MULT :: f64 where "ZERO_FLOW_GAP_GUARD_MULT = f64_of_int 2"
definition ZERO_FLOW_GAP_DOWNSHIFT_MULT :: f64 where "ZERO_FLOW_GAP_DOWNSHIFT_MULT = f64_of_int 4"
definition ZERO_FLOW_GAP_CAP_HOURS :: f64 where "ZERO_FLOW_GAP_CAP_HOURS = f64_of_int 168"
definition ZERO_FLOW_DAYS_MODERATE :: int where "ZERO_FLOW_DAYS_MODERATE = 3"
definition ZERO_FLOW_DAYS_SEVERE :: int where "ZERO_FLOW_DAYS_SEVERE = 7"
definition ZERO_FLOW_FEE_THRESHOLD :: int where "ZERO_FLOW_FEE_THRESHOLD = 500"
definition ZERO_FLOW_REDUCTION_MODERATE :: f64 where "ZERO_FLOW_REDUCTION_MODERATE = f64_lit False 75 2"
definition ZERO_FLOW_REDUCTION_SEVERE :: f64 where "ZERO_FLOW_REDUCTION_SEVERE = f64_lit False 50 2"
definition KALMAN_DEMAND_FACTOR_MIN :: f64 where "KALMAN_DEMAND_FACTOR_MIN = f64_of_int 1"
definition KALMAN_DEMAND_FACTOR_MAX :: f64 where "KALMAN_DEMAND_FACTOR_MAX = f64_of_int 2"
definition REL_MIN_STD_FRAC :: f64 where "REL_MIN_STD_FRAC = f64_lit False 4 2"
definition UNDERCUT_EXPLORATION_STD_THRESHOLD :: f64 where "UNDERCUT_EXPLORATION_STD_THRESHOLD = f64_of_int 100"

section \<open>The rails\<close>

record damping_diag =
  requested_delta_ppm :: int
  max_delta_ppm :: int
  cap_reason :: string
  cap_applied :: bool
  wake_damping_applied :: bool

record blend_diag =
  blend_ratio :: f64
  blended_delta_ppm :: int
  sparse_data_conservative :: bool

definition fee_step_cap :: "int \<Rightarrow> bool \<Rightarrow> fee_profile_settings \<Rightarrow> int" where
  "fee_step_cap current_fee woke p =
     (let ratio = (if woke then wake_cycle_max_delta_ratio p else normal_cycle_max_delta_ratio p);
          min_delta = (if woke then wake_cycle_min_delta_ppm p else normal_cycle_min_delta_ppm p)
      in max min_delta (f64_as_i64 (f64_ceil (f64_mul (f64_of_int (max current_fee 1)) ratio))))"

text \<open>The flag for sparse data has no influence on the ratio.\<close>

definition target_blend_ratio :: "bool \<Rightarrow> bool \<Rightarrow> f64 \<Rightarrow> string \<Rightarrow> fee_profile_settings \<Rightarrow> f64" where
  "target_blend_ratio woke sparse posterior_std profile_name p =
     (let ratio = (if f64_le (f64_of_int 200) posterior_std then sparse_target_blend_ratio p
            else if f64_le (f64_of_int 100) posterior_std then f64_lit False 30 2
            else if f64_le (f64_of_int 50) posterior_std then f64_lit False 45 2
            else f64_lit False 60 2);
          ratio = (if profile_name \<noteq> ''active'' then f64_min ratio (normal_target_blend_ratio p) else ratio)
      in if woke then f64_min ratio (wake_target_blend_ratio p) else ratio)"

definition blend_fee_target ::
  "int \<Rightarrow> int \<Rightarrow> bool \<Rightarrow> bool \<Rightarrow> f64 \<Rightarrow> string \<Rightarrow> fee_profile_settings \<Rightarrow> (unit, int \<times> blend_diag) result" where
  "blend_fee_target current_fee bounded_target woke sparse posterior_std profile_name p =
     (let ratio = target_blend_ratio woke sparse posterior_std profile_name p
      in bindE (chk_i64 (bounded_target - current_fee)) (\<lambda>requested.
         let blended = f64_as_i64 (f64_round_ties_even (f64_mul (f64_of_int requested) ratio));
             delta = (if requested \<noteq> 0 \<and> blended = 0 then (if 0 < requested then 1 else - 1) else blended)
         in bindE (chk_i64 (current_fee + delta)) (\<lambda>fee.
            Inr (fee, \<lparr>blend_ratio = ratio, blended_delta_ppm = delta, sparse_data_conservative = sparse\<rparr>))))"

definition apply_damped_fee_target ::
  "int \<Rightarrow> int \<Rightarrow> bool \<Rightarrow> fee_profile_settings \<Rightarrow> (unit, int \<times> damping_diag) result" where
  "apply_damped_fee_target current_fee target woke p =
     bindE (chk_i64 (target - current_fee)) (\<lambda>requested.
     let cap = fee_step_cap current_fee woke p
     in bindE (chk_i64 \<bar>requested\<bar>) (\<lambda>size.
        if cap < size then
          bindE (if 0 < requested then Inr cap else chk_i64 (- cap)) (\<lambda>step.
          bindE (chk_i64 (current_fee + step)) (\<lambda>fee.
          Inr (fee, \<lparr>requested_delta_ppm = requested, max_delta_ppm = cap,
            cap_reason = (if woke then ''wake_cycle_delta_cap'' else ''normal_cycle_delta_cap''),
            cap_applied = True, wake_damping_applied = woke\<rparr>)))
        else Inr (target, \<lparr>requested_delta_ppm = requested, max_delta_ppm = cap, cap_reason = ''none'',
            cap_applied = False, wake_damping_applied = woke\<rparr>)))"

definition exploration_fee_target :: "int \<Rightarrow> int \<Rightarrow> int \<Rightarrow> bool \<Rightarrow> int option \<Rightarrow> (unit, int) result" where
  "exploration_fee_target current_fee floor_ppm cfg_min sparse effective_min =
     (let config_floor = (case effective_min of None \<Rightarrow> cfg_min | Some m \<Rightarrow> m);
          flr = max floor_ppm config_floor
      in if current_fee \<le> flr then Inr flr
         else
           let discount = (if sparse then f64_mul EXPLORATION_MAX_DISCOUNT_RATIO (f64_lit False 5 1)
                 else EXPLORATION_MAX_DISCOUNT_RATIO);
               headroom_ratio = (if sparse then EXPLORATION_SPARSE_HEADROOM_RATIO else EXPLORATION_HEADROOM_RATIO);
               floor_candidate = f64_as_i64 (f64_ceil (f64_mul (f64_of_int flr) EXPLORATION_FEE_MULTIPLIER))
           in bindE (chk_i64 (current_fee - flr)) (\<lambda>diff.
              bindE (chk_i64 (flr + f64_as_i64 (f64_round_ties_even (f64_mul (f64_of_int (max diff 0)) headroom_ratio))))
                (\<lambda>headroom_candidate.
              let discounted = f64_as_i64 (f64_round_ties_even
                    (f64_mul (f64_of_int current_fee) (f64_sub (f64_of_int 1) discount)))
              in Inr (max flr (min (max floor_candidate headroom_candidate) discounted)))))"

definition zero_flow_streak_thresholds :: "f64 \<Rightarrow> f64 \<Rightarrow> int \<times> int" where
  "zero_flow_streak_thresholds gap_hours cycle_hours =
     (if \<not> f64_is_finite gap_hours \<or> f64_le gap_hours (f64_of_int 0)
         \<or> \<not> f64_is_finite cycle_hours \<or> f64_le cycle_hours (f64_of_int 0)
      then (ZERO_FLOW_GUARD_STREAK, ZERO_FLOW_DOWNSHIFT_STREAK)
      else
        let gap_cycles = f64_div (f64_min gap_hours ZERO_FLOW_GAP_CAP_HOURS) cycle_hours;
            guard = max ZERO_FLOW_GUARD_STREAK
              (f64_as_i64 (f64_ceil (f64_mul gap_cycles ZERO_FLOW_GAP_GUARD_MULT)));
            downshift = max ZERO_FLOW_DOWNSHIFT_STREAK
              (f64_as_i64 (f64_ceil (f64_mul gap_cycles ZERO_FLOW_GAP_DOWNSHIFT_MULT)))
        in (guard, max downshift guard))"

record zero_flow_inputs =
  zf_current :: int
  zf_target :: int
  zf_min_fee :: int
  zf_streak :: int
  zf_forwards :: int
  zf_rate :: f64
  zf_supported :: "f64 option"
  zf_anchor :: "f64 option"
  zf_guard :: "int option"
  zf_downshift :: "int option"
  zf_meaningful :: "bool option"

text \<open>An unset threshold, or a threshold of zero, is the default.\<close>

definition threshold_or :: "int \<Rightarrow> int option \<Rightarrow> int" where
  "threshold_or d t = (case t of None \<Rightarrow> d | Some v \<Rightarrow> if v = 0 then d else v)"

definition positive_or_zero :: "f64 option \<Rightarrow> f64" where
  "positive_or_zero v = (case v of None \<Rightarrow> f64_of_int 0 | Some x \<Rightarrow> x)"

definition is_usable :: "f64 \<Rightarrow> bool" where
  "is_usable v \<longleftrightarrow> f64_is_finite v \<and> f64_lt (f64_of_int 0) v"

text \<open>Between two steps the fee is held; at a step it decays, but not below a part of what
  once earned. The tag says which of the two happened, or that the hard floor won.\<close>

definition hold_step :: "zero_flow_inputs \<Rightarrow> int \<times> string option" where
  "hold_step i =
     (let guarded = max (max (zf_min_fee i) 0) (min (zf_target i) (zf_current i))
      in (guarded, Some (if zf_current i < guarded then ''zero_flow_floor_override'' else ''zero_flow_ratchet_guard'')))"

definition downshift_cap :: "zero_flow_inputs \<Rightarrow> int" where
  "downshift_cap i =
     (let cap = f64_as_i64 (f64_floor (f64_mul (f64_of_int (zf_current i)) ZERO_FLOW_DOWNSHIFT_RATIO));
          supported = positive_or_zero (zf_supported i)
      in if is_usable supported then min cap (f64_as_i64 supported) else cap)"

definition soft_floor :: "zero_flow_inputs \<Rightarrow> int" where
  "soft_floor i =
     (let flr = max (zf_min_fee i) 0; anchor = positive_or_zero (zf_anchor i)
      in if is_usable anchor
         then max flr (min (zf_current i) (f64_as_i64 (f64_mul anchor ZERO_FLOW_ANCHOR_FLOOR_FRAC)))
         else flr)"

definition decay_step :: "zero_flow_inputs \<Rightarrow> int \<times> string option" where
  "decay_step i =
     (let guarded = max (soft_floor i) (min (zf_target i) (downshift_cap i))
      in (guarded, Some (if zf_current i < guarded then ''zero_flow_floor_override''
            else if guarded = zf_current i then ''zero_flow_ratchet_guard'' else ''zero_flow_downshift'')))"

definition apply_zero_flow_ratchet_guard :: "zero_flow_inputs \<Rightarrow> (unit, int \<times> string option) result" where
  "apply_zero_flow_ratchet_guard i =
     (let streak = max (zf_streak i) 0;
          dead = (zf_meaningful i = Some False \<and> f64_lt (f64_of_int 0) (zf_rate i));
          rate = (if dead then f64_of_int 0 else zf_rate i);
          forwards = (if dead then 0 else max (zf_forwards i) 0);
          guard = threshold_or ZERO_FLOW_GUARD_STREAK (zf_guard i);
          downshift = threshold_or ZERO_FLOW_DOWNSHIFT_STREAK (zf_downshift i)
      in if \<not> f64_eq rate (f64_of_int 0) \<or> forwards \<noteq> 0 \<or> streak < guard then Inr (zf_target i, None)
         else if downshift \<le> streak then
           bindE (chk_i64 (streak - downshift)) (\<lambda>d.
           Inr (if d mod ZERO_FLOW_DOWNSHIFT_INTERVAL_CYCLES = 0 then decay_step i else hold_step i))
         else Inr (hold_step i))"

definition is_unroutable_zero_window :: "f64 \<Rightarrow> f64 \<Rightarrow> bool" where
  "is_unroutable_zero_window revenue_rate spendable \<longleftrightarrow>
     f64_le revenue_rate (f64_of_int 0) \<and> f64_lt spendable (f64_of_int UNROUTABLE_SPENDABLE_SATS)"

definition kalman_demand_factor :: "f64 \<Rightarrow> f64" where
  "kalman_demand_factor demand =
     f64_max (f64_min (f64_div demand (f64_lit False 5 1)) KALMAN_DEMAND_FACTOR_MAX) KALMAN_DEMAND_FACTOR_MIN"

definition exploration_std_threshold :: "int \<Rightarrow> f64" where
  "exploration_std_threshold current_fee =
     f64_max UNDERCUT_EXPLORATION_STD_THRESHOLD (f64_mul REL_MIN_STD_FRAC (f64_of_int (max current_fee 0)))"

section \<open>Ratios\<close>

definition unit_ratio :: "f64 \<Rightarrow> bool" where
  "unit_ratio r \<longleftrightarrow> f64_is_finite r \<and> f64_wf r \<and> 0 < fval r \<and> fval r \<le> 1"

lemma unit_ratio_lit:
  assumes "0 < m" "m \<le> 10 ^ d" "10 ^ d \<le> (2::nat) ^ 10"
  shows "unit_ratio (f64_lit False m d)"
proof -
  have "real m * 2 powi 0 \<le> real (10 ^ d) * 2 powi 0" using assms(2) by simp
  then have hi: "real (sticky m (10 ^ d)) * 2 powi (0 - 121) \<le> 2 powi 0"
    using sticky_le_pow [of "10 ^ d" 0 0 m] assms(2) by simp
  have "real (10 ^ d) * 2 powi (- 10) \<le> real m * 2 powi 0"
  proof -
    have "real (10 ^ d) \<le> real (2 ^ 10)" using assms(3) by (simp only: of_nat_le_iff)
    moreover have "1 \<le> real m" using assms(1) by simp
    ultimately show ?thesis by (simp add: power_int_minus)
  qed
  then have lo: "2 powi (- 10) \<le> real (sticky m (10 ^ d)) * 2 powi (0 - 121)"
    using sticky_ge_pow [of "10 ^ d" 0 "- 10" m] by simp
  have "f64_is_finite (f64_round False (sticky m (10 ^ d)) (0 - 121)) \<and>
      fval (Fin False 1 (- 10)) \<le> fval (f64_round False (sticky m (10 ^ d)) (0 - 121)) \<and>
      fval (f64_round False (sticky m (10 ^ d)) (0 - 121)) \<le> fval (Fin False 1 0)"
    by (rule round_between) (use lo hi in \<open>simp_all add: fval.simps(1) sval_def\<close>)
  moreover have "0 < fval (Fin False 1 (- 10))" by (simp add: fval.simps(1))
  ultimately show ?thesis
    by (auto simp: unit_ratio_def f64_lit_def f64_quot_sticky fval.simps(1))
qed

lemma unit_ratio_min [simp]: "unit_ratio a \<Longrightarrow> unit_ratio b \<Longrightarrow> unit_ratio (f64_min a b)"
  by (auto simp: f64_min_def)

text \<open>A share of an integer lies between zero and the integer.\<close>

lemma share_between:
  assumes "unit_ratio r" "0 \<le> i" "i < 2 ^ 53"
  shows "exact_range (f64_mul (f64_of_int i) r)" "0 \<le> fval (f64_mul (f64_of_int i) r)"
    "fval (f64_mul (f64_of_int i) r) \<le> real_of_int i"
proof -
  have b: "\<bar>i\<bar> < 2 ^ 53" using assms by simp
  note v = f64_of_int_fval [OF b]
  have r: "f64_is_finite r" "0 < fval r" "fval r \<le> 1" using assms(1) by (auto simp: unit_ratio_def)
  note between = f64_mul_between [OF v(1) r(1) _ _ v(1), of "Fin False 0 0"]
  have lo: "0 \<le> real_of_int i * fval r" using assms(2) r by simp
  have hi: "real_of_int i * fval r \<le> real_of_int i" using assms(2) r by (simp add: mult_left_le)
  show "0 \<le> fval (f64_mul (f64_of_int i) r)"
    using between(2) lo hi v(2) by (simp add: fval.simps(1))
  show "fval (f64_mul (f64_of_int i) r) \<le> real_of_int i"
    using between(3) lo hi v(2) by (simp add: fval.simps(1))
  moreover have "f64_is_finite (f64_mul (f64_of_int i) r)"
    using between(1) lo hi v(2) by (simp add: fval.simps(1))
  moreover have "real_of_int i < 2 ^ 53" using assms(3) by (metis of_int_less_numeral_power_cancel_iff)
  ultimately show "exact_range (f64_mul (f64_of_int i) r)"
    using \<open>0 \<le> fval (f64_mul (f64_of_int i) r)\<close> by (simp add: exact_range_def)
qed

lemma share_between_neg:
  assumes "unit_ratio r" "i \<le> 0" "- (2 ^ 53) < i"
  shows "exact_range (f64_mul (f64_of_int i) r)" "fval (f64_mul (f64_of_int i) r) \<le> 0"
    "real_of_int i \<le> fval (f64_mul (f64_of_int i) r)"
proof -
  have b: "\<bar>i\<bar> < 2 ^ 53" using assms by simp
  note v = f64_of_int_fval [OF b]
  have r: "f64_is_finite r" "0 < fval r" "fval r \<le> 1" using assms(1) by (auto simp: unit_ratio_def)
  note between = f64_mul_between [OF v(1) r(1) v(1) _ _, of "Fin False 0 0"]
  have hi: "real_of_int i * fval r \<le> 0" using assms(2) r by (simp add: mult_nonpos_nonneg)
  have lo: "real_of_int i \<le> real_of_int i * fval r"
    using mult_left_mono_neg [of "fval r" 1 "real_of_int i"] r assms(2) by simp
  show "fval (f64_mul (f64_of_int i) r) \<le> 0"
    using between(3) lo hi v(2) by (simp add: fval.simps(1))
  show "real_of_int i \<le> fval (f64_mul (f64_of_int i) r)"
    using between(2) lo hi v(2) by (simp add: fval.simps(1))
  moreover have "f64_is_finite (f64_mul (f64_of_int i) r)"
    using between(1) lo hi v(2) by (simp add: fval.simps(1))
  moreover have "- (2 ^ 53) < real_of_int i"
    using assms(3) by (metis of_int_less_iff of_int_minus of_int_numeral of_int_power)
  ultimately show "exact_range (f64_mul (f64_of_int i) r)"
    using \<open>fval (f64_mul (f64_of_int i) r) \<le> 0\<close> by (simp add: exact_range_def)
qed

text \<open>What both profiles promise.\<close>

definition sound_profile :: "fee_profile_settings \<Rightarrow> bool" where
  "sound_profile p \<longleftrightarrow> unit_ratio (normal_target_blend_ratio p) \<and> unit_ratio (wake_target_blend_ratio p)
     \<and> unit_ratio (sparse_target_blend_ratio p) \<and> 10 \<le> normal_cycle_min_delta_ppm p
     \<and> 10 \<le> wake_cycle_min_delta_ppm p"

lemma sound_profiles [simp]: "sound_profile (snd (fee_profile name))"
  by (simp add: fee_profile_def sound_profile_def ACTIVE_PROFILE_def CONSERVATIVE_PROFILE_def unit_ratio_lit)

lemma blend_ratio_unit: "sound_profile p \<Longrightarrow> unit_ratio (target_blend_ratio woke sparse std name p)"
  by (simp add: target_blend_ratio_def Let_def sound_profile_def unit_ratio_lit)

section \<open>Damping\<close>

text \<open>Fees whose differences cannot leave the machine range.\<close>

abbreviation fee_range :: "int \<Rightarrow> bool" where
  "fee_range f \<equiv> \<bar>f\<bar> < 2 ^ 52"

lemma fee_step_cap_ge: "sound_profile p \<Longrightarrow> 10 \<le> fee_step_cap c woke p"
  by (auto simp: fee_step_cap_def sound_profile_def Let_def le_max_iff_disj)

lemma fee_step_cap_i64: "fee_step_cap c woke p \<le> i64_max \<or> fee_step_cap c woke p = (if woke then wake_cycle_min_delta_ppm p else normal_cycle_min_delta_ppm p)"
  using f64_as_i64_range [of "f64_ceil (f64_mul (f64_of_int (max c 1))
    (if woke then wake_cycle_max_delta_ratio p else normal_cycle_max_delta_ratio p))"]
  by (auto simp: fee_step_cap_def Let_def in_i64_def max_def)

lemma chk_ok: "in_i64 v \<Longrightarrow> chk_i64 v = Inr v"
  by (simp add: chk_i64_def)

lemma fee_diff [simp]:
  "fee_range a \<Longrightarrow> fee_range b \<Longrightarrow> chk_i64 (b - a) = Inr (b - a)"
  "fee_range a \<Longrightarrow> fee_range b \<Longrightarrow> chk_i64 \<bar>b - a\<bar> = Inr \<bar>b - a\<bar>"
  by (auto simp: chk_i64_def in_i64_def i64_bounds)

text \<open>One damped cycle: the fee moves towards the target by at most the cap and never past it.\<close>

definition damped_move :: "int \<Rightarrow> int \<Rightarrow> int \<Rightarrow> int" where
  "damped_move cap current_fee target = current_fee + max (- cap) (min cap (target - current_fee))"

lemma damped_result:
  assumes "sound_profile p" "fee_range c" "fee_range t"
  shows "\<exists>d. apply_damped_fee_target c t woke p = Inr (damped_move (fee_step_cap c woke p) c t, d)
    \<and> max_delta_ppm d = fee_step_cap c woke p \<and> (cap_applied d \<longleftrightarrow> damped_move (fee_step_cap c woke p) c t \<noteq> t)"
proof -
  define cap where "cap = fee_step_cap c woke p"
  have cap: "10 \<le> cap" using fee_step_cap_ge [OF assms(1)] by (simp add: cap_def)
  show ?thesis
  proof (cases "cap < \<bar>t - c\<bar>")
    case False
    then have "damped_move cap c t = t" using cap by (simp add: damped_move_def)
    then show ?thesis using False assms(2,3) by (simp add: apply_damped_fee_target_def cap_def [symmetric])
  next
    case True
    then have m: "damped_move cap c t = (if 0 < t - c then c + cap else c - cap)" "damped_move cap c t \<noteq> t"
      using cap by (auto simp: damped_move_def)
    have "in_i64 cap" "in_i64 (- cap)" "in_i64 (c + cap)" "in_i64 (c - cap)"
      using True assms(2,3) cap by (auto simp: in_i64_def i64_bounds)
    then show ?thesis
      using True assms(2,3) m by (auto simp: apply_damped_fee_target_def cap_def [symmetric] chk_ok)
  qed
qed

fun damped_cycles :: "fee_profile_settings \<Rightarrow> int \<Rightarrow> bool list \<Rightarrow> int \<Rightarrow> (unit, int) result" where
  "damped_cycles p target [] c = Inr c"
| "damped_cycles p target (woke # ws) c =
     bindE (apply_damped_fee_target c target woke p) (\<lambda>(fee, d). damped_cycles p target ws fee)"

lemma damped_move_closer:
  assumes "10 \<le> cap" "fee_range c" "fee_range t"
  shows "fee_range (damped_move cap c t)" "min c t \<le> damped_move cap c t" "damped_move cap c t \<le> max c t"
    "\<bar>t - damped_move cap c t\<bar> \<le> max 0 (\<bar>t - c\<bar> - 10)"
  using assms by (auto simp: damped_move_def min_def max_def)

lemma damped_cycles_reach:
  assumes "sound_profile p" "fee_range c" "fee_range t" "\<bar>t - c\<bar> \<le> 10 * int (length ws)"
  shows "damped_cycles p t ws c = Inr t"
  using assms(2-)
proof (induction ws arbitrary: c)
  case (Cons woke ws)
  have cap: "10 \<le> fee_step_cap c woke p" by (rule fee_step_cap_ge [OF assms(1)])
  note closer = damped_move_closer [OF cap Cons.prems(1,2)]
  obtain d where "apply_damped_fee_target c t woke p = Inr (damped_move (fee_step_cap c woke p) c t, d)"
    using damped_result [OF assms(1) Cons.prems(1,2)] by blast
  moreover have "\<bar>t - damped_move (fee_step_cap c woke p) c t\<bar> \<le> 10 * int (length ws)"
    using closer(4) Cons.prems(3) by simp
  ultimately show ?case using Cons.IH [OF closer(1) Cons.prems(2)] by simp
qed simp

section \<open>Blending\<close>

lemma blend_result:
  assumes "sound_profile p" "fee_range c" "fee_range t"
  shows "\<exists>fee d. blend_fee_target c t woke sparse std name p = Inr (fee, d)
    \<and> (c < t \<longrightarrow> c < fee \<and> fee \<le> t) \<and> (t < c \<longrightarrow> t \<le> fee \<and> fee < c) \<and> (t = c \<longrightarrow> fee = c)"
proof -
  define r where "r = target_blend_ratio woke sparse std name p"
  define b where "b = f64_as_i64 (f64_round_ties_even (f64_mul (f64_of_int (t - c)) r))"
  define delta where "delta = (if t - c \<noteq> 0 \<and> b = 0 then (if 0 < t - c then 1 else - 1) else b)"
  have r: "unit_ratio r" unfolding r_def by (rule blend_ratio_unit [OF assms(1)])
  have up: "0 \<le> b \<and> b \<le> t - c" if "c \<le> t"
    using share_between [OF r, of "t - c"] f64_ties_between [of _ 0 "t - c"] that assms(2,3) unfolding b_def by auto
  have down: "t - c \<le> b \<and> b \<le> 0" if "t \<le> c"
    using share_between_neg [OF r, of "t - c"] f64_ties_between [of _ "t - c" 0] that assms(2,3) unfolding b_def by auto
  have "in_i64 (c + delta)" using up down assms(2,3) by (auto simp: delta_def in_i64_def i64_bounds)
  then have "blend_fee_target c t woke sparse std name p =
      Inr (c + delta, \<lparr>blend_ratio = r, blended_delta_ppm = delta, sparse_data_conservative = sparse\<rparr>)"
    unfolding blend_fee_target_def Let_def r_def [symmetric] fee_diff(1) [OF assms(2,3)] bindE_simps
      b_def [symmetric] delta_def [symmetric] by (simp only: chk_ok bindE_simps)
  moreover have "(c < t \<longrightarrow> c < c + delta \<and> c + delta \<le> t) \<and> (t < c \<longrightarrow> t \<le> c + delta \<and> c + delta < c)
      \<and> (t = c \<longrightarrow> c + delta = c)"
    using up down by (auto simp: delta_def)
  ultimately show ?thesis by blast
qed

section \<open>Silence\<close>

definition silent :: "zero_flow_inputs \<Rightarrow> bool" where
  "silent i \<longleftrightarrow> threshold_or ZERO_FLOW_GUARD_STREAK (zf_guard i) \<le> max (zf_streak i) 0 \<and>
     (zf_meaningful i = Some False \<and> f64_lt (f64_of_int 0) (zf_rate i) \<or>
      f64_eq (zf_rate i) (f64_of_int 0) \<and> zf_forwards i \<le> 0)"

definition honest_tag :: "int \<Rightarrow> int \<Rightarrow> string option \<Rightarrow> bool" where
  "honest_tag current_fee fee tag \<longleftrightarrow>
     (tag = Some ''zero_flow_floor_override'' \<longleftrightarrow> current_fee < fee) \<and>
     (tag = Some ''zero_flow_downshift'' \<longrightarrow> fee < current_fee) \<and> tag \<noteq> None"

lemma hold_step_bounds:
  assumes "hold_step i = (fee, tag)"
  shows "max (zf_min_fee i) 0 \<le> fee" "fee \<le> max (zf_current i) (max (zf_min_fee i) 0)"
    "honest_tag (zf_current i) fee tag"
  using assms by (auto simp: hold_step_def Let_def honest_tag_def split: if_splits)

lemma soft_floor_bounds:
  "max (zf_min_fee i) 0 \<le> soft_floor i" "soft_floor i \<le> max (zf_current i) (max (zf_min_fee i) 0)"
  by (auto simp: soft_floor_def Let_def le_max_iff_disj min_le_iff_disj)

lemma ratio85: "unit_ratio ZERO_FLOW_DOWNSHIFT_RATIO"
  by (simp add: ZERO_FLOW_DOWNSHIFT_RATIO_def unit_ratio_lit)

lemma downshift_cap_le:
  assumes "0 \<le> zf_current i" "fee_range (zf_current i)"
  shows "downshift_cap i \<le> zf_current i"
proof -
  have "f64_as_i64 (f64_floor (f64_mul (f64_of_int (zf_current i)) ZERO_FLOW_DOWNSHIFT_RATIO)) \<le> zf_current i"
    using share_between [OF ratio85, of "zf_current i"] f64_floor_as_i64 assms by (simp add: floor_le_iff)
  then show ?thesis by (simp add: downshift_cap_def Let_def min_le_iff_disj)
qed

lemma decay_step_bounds:
  assumes "decay_step i = (fee, tag)"
  shows "soft_floor i \<le> fee" "honest_tag (zf_current i) fee tag"
    "0 \<le> zf_current i \<Longrightarrow> fee_range (zf_current i) \<Longrightarrow> fee \<le> max (zf_current i) (max (zf_min_fee i) 0)"
  using assms soft_floor_bounds [of i] downshift_cap_le [of i]
  by (auto simp: decay_step_def Let_def honest_tag_def split: if_splits)

lemma silent_result:
  assumes "silent i" "\<bar>zf_streak i\<bar> < 2 ^ 62" "\<bar>threshold_or ZERO_FLOW_DOWNSHIFT_STREAK (zf_downshift i)\<bar> < 2 ^ 62"
  shows "apply_zero_flow_ratchet_guard i =
    Inr (let streak = max (zf_streak i) 0; d = threshold_or ZERO_FLOW_DOWNSHIFT_STREAK (zf_downshift i)
         in if d \<le> streak \<and> (streak - d) mod ZERO_FLOW_DOWNSHIFT_INTERVAL_CYCLES = 0 then decay_step i else hold_step i)"
proof -
  define st where "st = max (zf_streak i) 0"
  define dn where "dn = threshold_or ZERO_FLOW_DOWNSHIFT_STREAK (zf_downshift i)"
  have c: "(chk_i64 (st - dn) :: (unit, int) result) = Inr (st - dn)" unfolding st_def dn_def
    using assms(2,3) by (intro chk_ok) (auto simp: in_i64_def i64_bounds)
  have z: "f64_eq (f64_of_int 0) (f64_of_int 0)" by (simp add: f64_of_int_def f64_round_def)
  show ?thesis
    using assms(1) c z unfolding apply_zero_flow_ratchet_guard_def silent_def Let_def st_def [symmetric] dn_def [symmetric]
    by (cases "dn \<le> st") auto
qed

lemma silent_bounds:
  assumes "silent i" "\<bar>zf_streak i\<bar> < 2 ^ 62" "\<bar>threshold_or ZERO_FLOW_DOWNSHIFT_STREAK (zf_downshift i)\<bar> < 2 ^ 62"
    and "0 \<le> zf_current i" "fee_range (zf_current i)"
  shows "\<exists>fee tag. apply_zero_flow_ratchet_guard i = Inr (fee, tag) \<and> max (zf_min_fee i) 0 \<le> fee
    \<and> fee \<le> max (zf_current i) (max (zf_min_fee i) 0) \<and> honest_tag (zf_current i) fee tag"
proof -
  have "\<exists>r. apply_zero_flow_ratchet_guard i = Inr r \<and> (decay_step i = r \<or> hold_step i = r)"
    using silent_result [OF assms(1-3)] by (auto simp: Let_def)
  then obtain fee tag where r: "apply_zero_flow_ratchet_guard i = Inr (fee, tag)"
    and s: "decay_step i = (fee, tag) \<or> hold_step i = (fee, tag)" by (metis surj_pair)
  from s have "max (zf_min_fee i) 0 \<le> fee \<and> fee \<le> max (zf_current i) (max (zf_min_fee i) 0)
      \<and> honest_tag (zf_current i) fee tag"
  proof
    assume d: "decay_step i = (fee, tag)"
    then show ?thesis
      using decay_step_bounds [OF d] order_trans [OF soft_floor_bounds(1)] assms(4,5) by blast
  qed (blast dest: hold_step_bounds)
  with r show ?thesis by blast
qed

section \<open>Exploration\<close>

lemma exploration_within:
  assumes "exploration_fee_target c flr cfg sparse eff = Inr fee" "0 \<le> c" "fee_range c"
  shows "max flr (case eff of None \<Rightarrow> cfg | Some m \<Rightarrow> m) \<le> fee"
    "fee \<le> max c (max flr (case eff of None \<Rightarrow> cfg | Some m \<Rightarrow> m))"
proof -
  define d where "d = (if sparse then f64_mul EXPLORATION_MAX_DISCOUNT_RATIO (f64_lit False 5 1) else EXPLORATION_MAX_DISCOUNT_RATIO)"
  have "unit_ratio (f64_sub (f64_of_int 1) d)"
    by (simp add: d_def EXPLORATION_MAX_DISCOUNT_RATIO_def unit_ratio_def f64_of_int_def f64_round_def f64_sub_def
        f64_lit_def f64_quot_def Let_def round_bits_def signed_mant_def fval.simps(1) power_int_minus)
  moreover define top where "top = f64_as_i64 (f64_round_ties_even (f64_mul (f64_of_int c) (f64_sub (f64_of_int 1) d)))"
  ultimately have top: "top \<le> c"
    using share_between [of "f64_sub (f64_of_int 1) d" c] f64_ties_between [of _ 0 c] assms(2,3) by auto
  define f where "f = max flr (case eff of None \<Rightarrow> cfg | Some m \<Rightarrow> m)"
  have "fee = f \<or> (\<exists>x. fee = max f (min x top))"
    using assms(1) unfolding exploration_fee_target_def Let_def d_def [symmetric] f_def [symmetric] top_def [symmetric]
    by (auto simp: result_simps split: if_splits)
  then have "f \<le> fee \<and> fee \<le> max c f" using top by (auto simp: le_max_iff_disj min_le_iff_disj)
  then show "max flr (case eff of None \<Rightarrow> cfg | Some m \<Rightarrow> m) \<le> fee"
    "fee \<le> max c (max flr (case eff of None \<Rightarrow> cfg | Some m \<Rightarrow> m))" by (simp_all add: f_def)
qed

section \<open>Curves\<close>

lemma kalman_factor_bounds:
  assumes "f64_wf d"
  shows "f64_le (f64_of_int 1) (kalman_demand_factor d)" "f64_le (kalman_demand_factor d) (f64_of_int 2)"
proof -
  define q where "q = f64_div d (f64_lit False 5 1)"
  have w: "f64_wf q" by (simp add: q_def)
  note v = f64_of_int_fval [of 1] f64_of_int_fval [of 2]
  have k: "fkey (f64_of_int 1) = 1" "fkey (f64_of_int 2) = 2" "f64_of_int 1 \<noteq> NaN" "f64_of_int 2 \<noteq> NaN"
    using v by (simp_all add: fkey_fin) (use v in force)+
  show "f64_le (f64_of_int 1) (kalman_demand_factor d)" "f64_le (kalman_demand_factor d) (f64_of_int 2)"
    using w k
    by (auto simp: kalman_demand_factor_def q_def [symmetric] KALMAN_DEMAND_FACTOR_MAX_def KALMAN_DEMAND_FACTOR_MIN_def
        f64_max_def f64_min_def fkey_le fkey_lt)
qed

lemma streak_thresholds_order:
  "zero_flow_streak_thresholds gap cycle = (guard, downshift) \<Longrightarrow>
     ZERO_FLOW_GUARD_STREAK \<le> guard \<and> ZERO_FLOW_DOWNSHIFT_STREAK \<le> downshift \<and> guard \<le> downshift"
  by (auto simp: zero_flow_streak_thresholds_def Let_def ZERO_FLOW_GUARD_STREAK_def ZERO_FLOW_DOWNSHIFT_STREAK_def
      split: if_splits)

section \<open>Properties\<close>

text \<open>C24. Under either profile, repeating the damped move brings the fee to a target in range after
  one cycle for every ten parts per million of distance, whichever cycles are wake-ups, and on the
  way no fee lies outside the span from the starting fee to the target.\<close>

theorem damping_reaches_target:
  assumes "fee_range c" "fee_range t" "\<bar>t - c\<bar> \<le> 10 * int (length wakes)"
  shows "damped_cycles (snd (fee_profile name)) t wakes c = Inr t \<and>
    (\<forall>n. \<exists>fee. damped_cycles (snd (fee_profile name)) t (take n wakes) c = Inr fee \<and> min c t \<le> fee \<and> fee \<le> max c t)"
proof -
  have "\<exists>fee. damped_cycles (snd (fee_profile name)) t ws c = Inr fee \<and> min c t \<le> fee \<and> fee \<le> max c t" for ws
    using assms(1,2)
  proof (induction ws arbitrary: c)
    case (Cons woke ws)
    define cap where "cap = fee_step_cap c woke (snd (fee_profile name))"
    have cap: "10 \<le> cap" unfolding cap_def by (rule fee_step_cap_ge) simp
    note closer = damped_move_closer [OF cap Cons.prems]
    obtain d where "apply_damped_fee_target c t woke (snd (fee_profile name)) = Inr (damped_move cap c t, d)"
      using damped_result [OF sound_profiles Cons.prems] unfolding cap_def by blast
    then show ?case using Cons.IH [OF closer(1) Cons.prems(2)] closer(2,3) by (auto simp: min_def max_def split: if_splits)
  qed simp
  then show ?thesis using damped_cycles_reach [OF sound_profiles assms] by blast
qed

theorem damping_reaches_target_witness:
  "damped_cycles (snd (fee_profile ''active'')) 1100 (replicate 10 True) 1000 = Inr 1100"
  using damping_reaches_target [of 1000 1100 "replicate 10 True" "''active''"] by simp

text \<open>Under either profile one damped move never exceeds the step cap of the cycle and never passes
  the target, and the diagnostic says that the cap was applied exactly if the target was not reached.\<close>

theorem damped_move_within_cap:
  assumes "fee_range c" "fee_range t"
  shows "\<exists>fee d. apply_damped_fee_target c t woke (snd (fee_profile name)) = Inr (fee, d) \<and>
    \<bar>fee - c\<bar> \<le> fee_step_cap c woke (snd (fee_profile name)) \<and> min c t \<le> fee \<and> fee \<le> max c t \<and>
    (cap_applied d \<longleftrightarrow> fee \<noteq> t)"
proof -
  have cap: "10 \<le> fee_step_cap c woke (snd (fee_profile name))" by (rule fee_step_cap_ge) simp
  define k where "k = fee_step_cap c woke (snd (fee_profile name))"
  obtain d where "apply_damped_fee_target c t woke (snd (fee_profile name)) = Inr (damped_move k c t, d)"
    "cap_applied d \<longleftrightarrow> damped_move k c t \<noteq> t"
    using damped_result [OF sound_profiles assms] unfolding k_def by blast
  moreover have "\<bar>damped_move k c t - c\<bar> \<le> k" using cap by (simp add: damped_move_def k_def [symmetric])
  ultimately show ?thesis
    using damped_move_closer(2,3) [OF cap assms] unfolding k_def [symmetric] by blast
qed

theorem damped_move_within_cap_witness:
  "\<exists>fee d. apply_damped_fee_target 1000 (- 50) False (snd (fee_profile ''x'')) = Inr (fee, d) \<and> - 50 \<le> fee \<and> fee \<le> 1000"
  using damped_move_within_cap [of 1000 "- 50" False "''x''"] by auto

text \<open>Blending moves a fee that is not at its target strictly towards it and never past it, whatever
  the profile, the posterior deviation and the wake flag, and leaves a fee at its target alone.\<close>

theorem blend_moves_towards_target:
  assumes "fee_range c" "fee_range t"
  shows "\<exists>fee d. blend_fee_target c t woke sparse std pname (snd (fee_profile name)) = Inr (fee, d) \<and>
    (c < t \<longrightarrow> c < fee \<and> fee \<le> t) \<and> (t < c \<longrightarrow> t \<le> fee \<and> fee < c) \<and> (t = c \<longrightarrow> fee = c)"
  by (rule blend_result [OF sound_profiles assms])

theorem blend_moves_towards_target_witness:
  "\<exists>fee d. blend_fee_target 100 103 True False NaN ''active'' (snd (fee_profile ''active'')) = Inr (fee, d) \<and>
     100 < fee \<and> fee \<le> 103"
  using blend_moves_towards_target [of 100 103 True False NaN "''active''" "''active''"] by auto

text \<open>C25. While a channel is silent and the guard's streak is reached, the guard never raises a fee: the
  result is at most the current fee, except that the hard floor wins, and the tag says so. A fee tagged
  as a downshift is lower than before.\<close>

theorem silence_never_raises_fee:
  assumes "silent i" "0 \<le> zf_current i" "fee_range (zf_current i)" "\<bar>zf_streak i\<bar> < 2 ^ 62"
    and "\<bar>threshold_or ZERO_FLOW_DOWNSHIFT_STREAK (zf_downshift i)\<bar> < 2 ^ 62"
  shows "\<exists>fee tag. apply_zero_flow_ratchet_guard i = Inr (fee, tag) \<and> max (zf_min_fee i) 0 \<le> fee
    \<and> fee \<le> max (zf_current i) (max (zf_min_fee i) 0) \<and> honest_tag (zf_current i) fee tag"
  by (rule silent_bounds [OF assms(1,4,5,2,3)])

definition sample_silence :: zero_flow_inputs where
  "sample_silence = \<lparr>zf_current = 300, zf_target = 900, zf_min_fee = 10, zf_streak = 9, zf_forwards = 0,
     zf_rate = f64_of_int 0, zf_supported = None, zf_anchor = None, zf_guard = None, zf_downshift = None,
     zf_meaningful = None\<rparr>"

theorem silence_never_raises_fee_witness:
  "\<exists>fee tag. apply_zero_flow_ratchet_guard sample_silence = Inr (fee, tag) \<and> 10 \<le> fee \<and> fee \<le> 300"
  using silence_never_raises_fee [of sample_silence]
  by (auto simp: sample_silence_def silent_def threshold_or_def ZERO_FLOW_GUARD_STREAK_def ZERO_FLOW_DOWNSHIFT_STREAK_def
      f64_of_int_def f64_round_def)

end
