(* ===== verification/FeeRunway.thy ===== *)
theory FeeRunway
  imports Sqlite
begin

text \<open>
  The tables of the Rust-owned store that the live fee path and the rebalance owner rest on
  (\<open>revops-db/src/fee_runway.rs\<close>): broadcast attempts with their outcomes, the execution
  quarantine, burned cutover nonces, the binding of the seed to its cycle, and the rebalance
  attempts with their reservations. The statements run on the connection of theory
  \<open>Sqlite\<close>; an error is its text with the context the code adds.
\<close>

section \<open>Tables\<close>

datatype broadcast_outcome = AttemptSuccess | AttemptRejected | AttemptCleanFailure | AttemptAmbiguous

fun outcome_str :: "broadcast_outcome \<Rightarrow> string" where
  "outcome_str AttemptSuccess = ''success''"
| "outcome_str AttemptRejected = ''rejected''"
| "outcome_str AttemptCleanFailure = ''clean_failure''"
| "outcome_str AttemptAmbiguous = ''ambiguous''"

record quarantine_entry =
  qe_reason :: string
  qe_cycle :: "string option"
  qe_channel :: "string option"
  qe_request :: "string option"
  qe_entered :: int

record quarantine_row =
  q_id :: int
  q_reason :: string
  q_cycle :: "string option"
  q_channel :: "string option"
  q_request :: "string option"
  q_entered :: int
  q_cleared :: "int option"

record attempt_intent =
  ai_cycle :: "string option"
  ai_channel :: string
  ai_request :: string
  ai_method :: string
  ai_params :: string
  ai_submitted :: int

record attempt_row =
  a_id :: int
  a_cycle :: "string option"
  a_channel :: string
  a_request :: string
  a_method :: string
  a_params :: string
  a_submitted :: int
  a_outcome :: "broadcast_outcome option"
  a_detail :: "string option"
  a_completed :: "int option"

record nonce_row =
  n_nonce :: string
  n_consumed_at :: int
  n_commit :: string
  n_binary :: string
  n_expires :: int

record seed_row =
  sd_id :: int
  sd_outcome :: string
  sd_cycle :: "string option"
  sd_generation :: "int option"

record rb_attempt_intent =
  ri_request :: string
  ri_source :: string
  ri_dest :: string
  ri_amount :: int
  ri_max_fee :: int
  ri_trigger :: string
  ri_submitted :: int

record rb_attempt_row =
  r_id :: int
  r_request :: string
  r_source :: string
  r_dest :: string
  r_amount :: int
  r_max_fee :: int
  r_hash :: "string option"
  r_trigger :: string
  r_submitted :: int
  r_outcome :: "string option"
  r_detail :: "string option"
  r_fee :: "int option"
  r_completed :: "int option"

record rb_reservation_row =
  v_id :: int
  v_request :: string
  v_sats :: int
  v_at :: int
  v_status :: string
  v_fee :: "int option"
  v_resolved :: "int option"

record rb_settle =
  st_request :: string
  st_outcome :: string
  st_detail :: "string option"
  st_fee :: "int option"
  st_hash :: "string option"
  st_reservation :: string
  st_resolved_at :: int

text \<open>The cycles with their generations stand for \<open>rust_fee_cycles\<close>, which the quarantine refers to.\<close>

record runway =
  fee_cycles :: "(string \<times> int) list"
  state_generation :: "int option"
  seed_events :: "seed_row list"
  quarantine :: "quarantine_row list"
  broadcasts :: "attempt_row list"
  consumed_nonces :: "nonce_row list"
  rb_attempts :: "rb_attempt_row list"
  rb_reservations :: "rb_reservation_row list"

type_synonym 'a store_action = "(runway conn, string, 'a) action"

text \<open>An error with its context, and the number a new row gets: one above the highest.\<close>

definition ctx :: "string \<Rightarrow> (runway conn, sql_error, 'a) action \<Rightarrow> 'a store_action" where
  "ctx what = map_errA (\<lambda>e. what @ '': '' @ sql_text e)"

definition fresh_id :: "int list \<Rightarrow> int" where
  "fresh_id ids = foldr max ids 0 + 1"

section \<open>Transactions\<close>

definition fee_tx :: "string \<Rightarrow> string \<Rightarrow> 'a store_action \<Rightarrow> 'a store_action" where
  "fee_tx opening closing body =
     bindA (ctx opening begin_immediate) (\<lambda>_.
     handleA (bindA body (\<lambda>a. bindA (ctx closing commit) (\<lambda>_. returnA a))) (\<lambda>r.
       case r of Inr a \<Rightarrow> returnA a
       | Inl e \<Rightarrow> handleA rollback (\<lambda>_. liftA (Inl e))))"

section \<open>Execution quarantine\<close>

definition quarantine_row_of :: "int \<Rightarrow> quarantine_entry \<Rightarrow> quarantine_row" where
  "quarantine_row_of i e = \<lparr>q_id = i, q_reason = qe_reason e, q_cycle = qe_cycle e, q_channel = qe_channel e,
     q_request = qe_request e, q_entered = qe_entered e, q_cleared = None\<rparr>"

definition insert_quarantine :: "quarantine_entry \<Rightarrow> int store_action" where
  "insert_quarantine e = ctx ''insert execution quarantine row'' (exec (\<lambda>db.
     let i = fresh_id (map q_id (quarantine db))
     in if (case qe_cycle e of None \<Rightarrow> True | Some c \<Rightarrow> c \<in> fst ` set (fee_cycles db))
        then Inr (i, db\<lparr>quarantine := quarantine db @ [quarantine_row_of i e]\<rparr>)
        else Inl (sql_plain ''FOREIGN KEY constraint failed'')))"

text \<open>The newest row that was not cleared.\<close>

definition newer_row :: "quarantine_row \<Rightarrow> quarantine_row \<Rightarrow> quarantine_row" where
  "newer_row a b = (if q_entered a < q_entered b \<or> q_entered a = q_entered b \<and> q_id a < q_id b then b else a)"

definition uncleared :: "runway \<Rightarrow> quarantine_row list" where
  "uncleared db = filter (\<lambda>q. q_cleared q = None) (quarantine db)"

fun newest_row :: "quarantine_row list \<Rightarrow> quarantine_row option" where
  "newest_row [] = None"
| "newest_row (q # qs) = Some (foldl newer_row q qs)"

definition active_quarantine :: "quarantine_row option store_action" where
  "active_quarantine = ctx ''read active execution quarantine'' (query (\<lambda>db. Inr (newest_row (uncleared db))))"

section \<open>Broadcast attempts\<close>

definition attempt_row_of :: "int \<Rightarrow> attempt_intent \<Rightarrow> attempt_row" where
  "attempt_row_of i a = \<lparr>a_id = i, a_cycle = ai_cycle a, a_channel = ai_channel a, a_request = ai_request a,
     a_method = ai_method a, a_params = ai_params a, a_submitted = ai_submitted a,
     a_outcome = None, a_detail = None, a_completed = None\<rparr>"

definition insert_broadcast_attempt :: "attempt_intent \<Rightarrow> int store_action" where
  "insert_broadcast_attempt a = ctx ''insert broadcast attempt intent'' (exec (\<lambda>db.
     let i = fresh_id (map a_id (broadcasts db))
     in if ai_request a \<in> a_request ` set (broadcasts db)
        then Inl (sql_plain ''UNIQUE constraint failed: rust_broadcast_attempts.request_id'')
        else Inr (i, db\<lparr>broadcasts := broadcasts db @ [attempt_row_of i a]\<rparr>)))"

definition complete_attempt :: "broadcast_outcome \<Rightarrow> string option \<Rightarrow> int \<Rightarrow> attempt_row \<Rightarrow> attempt_row" where
  "complete_attempt out detail at_time r =
     r\<lparr>a_outcome := Some out, a_detail := detail, a_completed := Some at_time\<rparr>"

definition record_broadcast_attempt_result ::
  "int \<Rightarrow> broadcast_outcome \<Rightarrow> string option \<Rightarrow> int \<Rightarrow> unit store_action" where
  "record_broadcast_attempt_result i out detail at_time =
     bindA (ctx ''record broadcast attempt result'' (exec (\<lambda>db.
       let (n, rows) = update_rows (\<lambda>r. a_id r = i) (complete_attempt out detail at_time) (broadcasts db)
       in Inr (n, db\<lparr>broadcasts := rows\<rparr>)))) (\<lambda>n.
     if n = 0 then failA (''no rust_broadcast_attempts row with id '' @ dec_int i
       @ '' (intent was never persisted?)'')
     else returnA ())"

definition unresolved :: "runway \<Rightarrow> attempt_row list" where
  "unresolved db = filter (\<lambda>r. a_outcome r = None) (broadcasts db)"

definition unresolved_broadcast_attempts :: "attempt_row list store_action" where
  "unresolved_broadcast_attempts =
     ctx ''run unresolved broadcast attempts query'' (query (\<lambda>db. Inr (sort_key a_id (unresolved db))))"

section \<open>Reconciliation at startup\<close>

fun forS :: "('a \<Rightarrow> unit store_action) \<Rightarrow> 'a list \<Rightarrow> unit store_action" where
  "forS f [] = returnA ()"
| "forS f (x # xs) = bindA (f x) (\<lambda>_. forS f xs)"

definition orphan_note :: string where
  "orphan_note = ''resolved via restart reconciliation: no result was recorded before the prior process exited''"

definition restart_entry :: "int \<Rightarrow> attempt_row list \<Rightarrow> quarantine_entry" where
  "restart_entry now orphaned =
     \<lparr>qe_reason = ''restart reconciliation: '' @ dec_nat (length orphaned)
        @ '' broadcast attempt(s) had no recorded result at startup'',
      qe_cycle = None, qe_channel = Some (a_channel (last orphaned)),
      qe_request = Some (a_request (last orphaned)), qe_entered = now\<rparr>"

definition reconcile_locked :: "int \<Rightarrow> nat store_action" where
  "reconcile_locked now =
     bindA unresolved_broadcast_attempts (\<lambda>orphaned.
     if orphaned = [] then returnA 0
     else
       bindA (forS (\<lambda>r. record_broadcast_attempt_result (a_id r) AttemptAmbiguous
         (Some orphan_note)
         now) orphaned) (\<lambda>_.
       bindA active_quarantine (\<lambda>active.
       case active of
         Some q \<Rightarrow> returnA (length orphaned)
       | None \<Rightarrow>
           bindA (insert_quarantine
             (restart_entry now orphaned)) (\<lambda>_.
           returnA (length orphaned)))))"

definition reconcile_quarantine_on_restart :: "int \<Rightarrow> nat store_action" where
  "reconcile_quarantine_on_restart now =
     fee_tx ''begin quarantine reconciliation transaction'' ''commit quarantine reconciliation transaction''
       (reconcile_locked now)"

section \<open>Generation, nonces and the seed\<close>

definition generation_of :: "runway \<Rightarrow> int" where
  "generation_of db = max (case state_generation db of None \<Rightarrow> 0 | Some g \<Rightarrow> g) 0"

definition current_state_generation :: "int store_action" where
  "current_state_generation = ctx ''read fee state generation'' (query (\<lambda>db. Inr (generation_of db)))"

definition insert_consumed_nonce :: "string \<Rightarrow> int \<Rightarrow> string \<Rightarrow> string \<Rightarrow> int \<Rightarrow> bool store_action" where
  "insert_consumed_nonce nonce at_time commit_id binary expires =
     ctx ''insert consumed cutover-arm nonce'' (exec (\<lambda>db.
       if nonce \<in> n_nonce ` set (consumed_nonces db) then Inr (False, db)
       else Inr (True, db\<lparr>consumed_nonces := consumed_nonces db @
         [\<lparr>n_nonce = nonce, n_consumed_at = at_time, n_commit = commit_id, n_binary = binary,
           n_expires = expires\<rparr>]\<rparr>)))"

datatype seed_binding = VirginStore | VerifiedBound string | InvalidBinding string

definition seeded_rows :: "runway \<Rightarrow> seed_row list" where
  "seeded_rows db = sort_key sd_id (filter (\<lambda>s. sd_outcome s = ''seeded'') (seed_events db))"

definition refusals_after :: "int \<Rightarrow> runway \<Rightarrow> nat" where
  "refusals_after i db = length (filter (\<lambda>s. sd_outcome s = ''seed_refused'' \<and> i < sd_id s) (seed_events db))"

definition cycle_generation :: "string \<Rightarrow> runway \<Rightarrow> int option" where
  "cycle_generation c db = map_of (fee_cycles db) c"

fun bound_cycle :: "string option \<Rightarrow> int option \<Rightarrow> runway \<Rightarrow> seed_binding" where
  "bound_cycle (Some c) (Some g) db =
     (if g \<noteq> 1 then InvalidBinding (''successful seed row binds generation '' @ dec_int g @ '', not 1'')
      else case cycle_generation c db of
        Some n \<Rightarrow> if n = 1 then VerifiedBound c
          else InvalidBinding (''seed-bound cycle '' @ c @ '' exists at generation '' @ dec_int n @ '', not 1'')
      | None \<Rightarrow> InvalidBinding (''seed-bound cycle '' @ c @ '' does not exist''))"
| "bound_cycle _ _ db = InvalidBinding ''successful seed row is UNBOUND (legacy standalone row; requires explicit verified reconciliation, never silent acceptance)''"

text \<open>The reasons are diagnostic; a reason that counts rows begins with the count.\<close>

definition binding_of :: "runway \<Rightarrow> seed_binding" where
  "binding_of db =
     (if generation_of db = 0 then
        (if seeded_rows db = [] then VirginStore
         else InvalidBinding ''successful seed row exists on a generation-0 store'')
      else case seeded_rows db of
        [] \<Rightarrow> InvalidBinding (''generation '' @ dec_int (generation_of db) @ '' store has NO successful seed row (an out-of-cycle-first or corrupt store; never authority-eligible)'')
      | [s] \<Rightarrow>
          if 0 < refusals_after (sd_id s) db
          then InvalidBinding (dec_nat (refusals_after (sd_id s) db) @ '' refusal row(s) recorded AFTER the successful bound seed'')
          else bound_cycle (sd_cycle s) (sd_generation s) db
      | rows \<Rightarrow> InvalidBinding (dec_nat (length rows) @ '' successful seed rows exist; SeedOnce permits exactly one''))"

definition verified_seed_binding :: "seed_binding store_action" where
  "verified_seed_binding =
     bindA current_state_generation (\<lambda>_. ctx ''read successful-seed rows'' (query (\<lambda>db. Inr (binding_of db))))"

section \<open>Rebalance attempts\<close>

definition TRIGGERS :: "string list" where "TRIGGERS = [''cycle'', ''manual'', ''manual_force'']"
definition RB_OUTCOMES :: "string list" where
  "RB_OUTCOMES = [''success'', ''rejected'', ''clean_failure_before_write'', ''outcome_unknown'']"
definition RB_STATUSES :: "string list" where
  "RB_STATUSES = [''active'', ''settled'', ''released'', ''quarantined'']"

definition rb_row_of :: "int \<Rightarrow> rb_attempt_intent \<Rightarrow> rb_attempt_row" where
  "rb_row_of i a = \<lparr>r_id = i, r_request = ri_request a, r_source = ri_source a, r_dest = ri_dest a,
     r_amount = ri_amount a, r_max_fee = ri_max_fee a, r_hash = None, r_trigger = ri_trigger a,
     r_submitted = ri_submitted a, r_outcome = None, r_detail = None, r_fee = None, r_completed = None\<rparr>"

definition insert_rebalance_attempt :: "rb_attempt_intent \<Rightarrow> int store_action" where
  "insert_rebalance_attempt a =
     fee_tx ''begin rebalance intent txn'' ''commit rebalance intent txn''
       (bindA (ctx ''insert rebalance attempt intent (UNIQUE request_id)'' (exec (\<lambda>db.
          let i = fresh_id (map r_id (rb_attempts db))
          in if ri_request a \<in> r_request ` set (rb_attempts db)
             then Inl (sql_plain ''UNIQUE constraint failed: rust_rebalance_attempts.request_id'')
             else if ri_trigger a \<notin> set TRIGGERS then Inl (sql_plain ''CHECK constraint failed: trigger'')
             else Inr (i, db\<lparr>rb_attempts := rb_attempts db @ [rb_row_of i a]\<rparr>)))) (\<lambda>i.
        bindA (ctx ''insert active rebalance reservation'' (exec (\<lambda>db.
          Inr ((), db\<lparr>rb_reservations := rb_reservations db @
            [\<lparr>v_id = fresh_id (map v_id (rb_reservations db)), v_request = ri_request a, v_sats = ri_amount a,
              v_at = ri_submitted a, v_status = ''active'', v_fee = None, v_resolved = None\<rparr>]\<rparr>)))) (\<lambda>_.
        returnA i)))"

definition settle_attempt_row :: "rb_settle \<Rightarrow> rb_attempt_row \<Rightarrow> rb_attempt_row" where
  "settle_attempt_row s r = r\<lparr>r_outcome := Some (st_outcome s), r_detail := st_detail s, r_fee := st_fee s,
     r_hash := (case st_hash s of None \<Rightarrow> r_hash r | Some h \<Rightarrow> Some h), r_completed := Some (st_resolved_at s)\<rparr>"

definition flip_row :: "rb_settle \<Rightarrow> rb_reservation_row \<Rightarrow> rb_reservation_row" where
  "flip_row s v = v\<lparr>v_status := st_reservation s, v_fee := st_fee s, v_resolved := Some (st_resolved_at s)\<rparr>"

definition settle_rebalance_attempt :: "rb_settle \<Rightarrow> unit store_action" where
  "settle_rebalance_attempt s =
     fee_tx ''begin rebalance settle txn'' ''commit rebalance settle txn''
       (bindA (ctx ''settle rebalance attempt outcome'' (exec (\<lambda>db.
          let (n, rows) = update_rows (\<lambda>r. r_request r = st_request s \<and> r_outcome r = None) (settle_attempt_row s) (rb_attempts db)
          in if 0 < n \<and> st_outcome s \<notin> set RB_OUTCOMES then Inl (sql_plain ''CHECK constraint failed: outcome'')
             else Inr (n, db\<lparr>rb_attempts := rows\<rparr>)))) (\<lambda>n.
        if n = 0 then failA (''rebalance attempt '' @ st_request s @ '' is already terminal (or unknown); refusing a second              terminal write'')
        else
        bindA (ctx ''flip rebalance reservation'' (exec (\<lambda>db.
          let (n, rows) = update_rows (\<lambda>v. v_request v = st_request s \<and> v_status v = ''active'') (flip_row s) (rb_reservations db)
          in if 0 < n \<and> st_reservation s \<notin> set RB_STATUSES then Inl (sql_plain ''CHECK constraint failed: status'')
             else Inr ((), db\<lparr>rb_reservations := rows\<rparr>)))) (\<lambda>_.
        returnA ())))"

definition unresolved_rebalance_attempts :: "rb_attempt_row list store_action" where
  "unresolved_rebalance_attempts =
     ctx ''query unresolved rebalance attempts''
       (query (\<lambda>db. Inr (sort_key r_id (filter (\<lambda>r. r_outcome r = None) (rb_attempts db)))))"

definition holds_budget :: "int \<Rightarrow> rb_reservation_row \<Rightarrow> bool" where
  "holds_budget since v \<longleftrightarrow> v_status v \<in> {''active'', ''quarantined''} \<and> since \<le> v_at v"

definition active_rebalance_reserved_sats :: "int \<Rightarrow> int store_action" where
  "active_rebalance_reserved_sats since =
     ctx ''sum active rebalance reservations''
       (query (\<lambda>db. sql_sum 0 (map v_sats (filter (holds_budget since) (rb_reservations db)))))"

section \<open>Laws\<close>

lemma ctx_Inr: "ctx w m c = (Inr a, c') \<longleftrightarrow> m c = (Inr a, c')"
  by (simp add: ctx_def action_simps)

lemma ctx_snd: "snd (ctx w m c) = snd (m c)"
  by (simp add: ctx_def)

lemma ctx_Inl: "ctx w m c = (Inl x, c') \<Longrightarrow> \<exists>y. m c = (Inl y, c')"
  unfolding ctx_def by (auto elim: map_errA_cases)

lemma exec_current: "exec f c = (Inr a, c') \<Longrightarrow> f (current c) = Inr (a, current c')"
  by (erule exec_Inr) simp

lemma query_current: "query f c = (Inr a, c') \<Longrightarrow> f (current c) = Inr a \<and> current c' = current c"
  using query_Inr [of f c a c'] by (cases "txn c") (simp_all add: current_def)

lemma ctx_exec: "ctx w (exec f) c = (Inr a, c') \<Longrightarrow> f (current c) = Inr (a, current c')"
  unfolding ctx_Inr by (rule exec_current)

lemma ctx_query: "ctx w (query f) c = (Inr a, c') \<Longrightarrow> f (current c) = Inr a \<and> current c' = current c"
  unfolding ctx_Inr by (rule query_current)

lemma confined_ctx [confined_intros]: "confined m \<Longrightarrow> confined (ctx w m)"
  unfolding ctx_def by (rule confined_map_err)

lemma stays_out_ctx [stays_out_intros]: "stays_out m \<Longrightarrow> stays_out (ctx w m)"
  unfolding ctx_def by (rule stays_out_map_err)

text \<open>A transaction is all or nothing.\<close>

lemma fee_tx_cases:
  assumes "fee_tx o1 o2 body c = (r, c')" "confined body"
  obtains e where "r = Inl e" "disk c' = disk c"
  | a c1 c2 where "r = Inr a" "current c1 = disk c" "txn c1 \<noteq> None" "body c1 = (Inr a, c2)"
      "disk c' = current c2" "txn c' = None"
proof -
  obtain rb c1 where b: "ctx o1 begin_immediate c = (rb, c1)" by fastforce
  show thesis
  proof (cases rb)
    case (Inl e)
    have "disk c1 = disk c"
      using ctx_Inl [OF b [unfolded Inl]] begin_Inl by blast
    with b assms(1) Inl show thesis by (intro that(1) [of e]) (auto simp: fee_tx_def bindA_def)
  next
    case (Inr u)
    note t = begin_Inr [OF b [unfolded Inr ctx_Inr]]
    have open1: "txn c1 \<noteq> None" "current c1 = disk c" using t by (simp_all add: current_def)
    define rest where "rest = bindA body (\<lambda>a. bindA (ctx o2 commit) (\<lambda>_. returnA a))"
    obtain ry c2 where y: "rest c1 = (ry, c2)" by fastforce
    have r: "(r, c') = (case ry of Inr a \<Rightarrow> returnA a c2 | Inl e \<Rightarrow> handleA rollback (\<lambda>_. liftA (Inl e)) c2)"
      using assms(1) b y Inr
      by (auto simp: fee_tx_def bindA_def [of "ctx o1 begin_immediate"] handleA_def rest_def [symmetric] split: sum.splits)
    obtain rbody c15 where bd: "body c1 = (rbody, c15)" by fastforce
    have d15: "disk c15 = disk c" using confinedD(1) [OF assms(2) open1(1) bd] t(3) by simp
    show thesis
    proof (cases ry)
      case (Inr a)
      then have "bindA body (\<lambda>a. bindA (ctx o2 commit) (\<lambda>_. returnA a)) c1 = (Inr a, c2)"
        using y by (simp add: rest_def)
      then obtain c3 u2 where "body c1 = (Inr a, c3)" "commit c3 = (Inr u2, c2)"
        by (auto simp: bindA_eq_Inr ctx_Inr)
      with commit_Inr [of c3 u2 c2] r Inr open1 show thesis
        by (intro that(2) [of a c1 c3]) (auto simp: current_def)
    next
      case (Inl e)
      have "disk c2 = disk c"
      proof (cases rbody)
        case (Inl x)
        then show ?thesis using y bd d15 by (auto simp: rest_def bindA_def)
      next
        case (Inr a)
        obtain rc c25 where cm: "ctx o2 commit c15 = (rc, c25)" by fastforce
        have "c2 = c25" using y bd cm Inr \<open>ry = Inl e\<close> by (auto simp: rest_def bindA_def split: sum.splits)
        moreover have "disk c25 = disk c15"
        proof (cases rc)
          case (Inl x)
          obtain x' where "commit c15 = (Inl x', c25)" using ctx_Inl [OF cm [unfolded Inl]] by blast
          then show ?thesis by (rule commit_Inl)
        next
          case (Inr u)
          then show ?thesis using y bd cm \<open>rbody = Inr a\<close> \<open>ry = Inl e\<close> by (auto simp: rest_def bindA_def)
        qed
        ultimately show ?thesis using d15 by simp
      qed
      moreover obtain rr c4 where "rollback c2 = (rr, c4)" by fastforce
      ultimately show thesis
        using r Inl rollback_disk [of c2 rr c4] by (intro that(1) [of e]) (auto simp: handleA_def)
    qed
  qed
qed

text \<open>The identities of rows are unique.\<close>

definition runway_ok :: "runway \<Rightarrow> bool" where
  "runway_ok db \<longleftrightarrow> distinct (map a_id (broadcasts db)) \<and> distinct (map a_request (broadcasts db))
     \<and> distinct (map r_request (rb_attempts db)) \<and> distinct (map n_nonce (consumed_nonces db))"

lemma fresh_id_new: "i \<in> set ids \<Longrightarrow> i < fresh_id ids"
  unfolding fresh_id_def by (induction ids) auto

lemma newest_row_None: "newest_row qs = None \<longleftrightarrow> qs = []"
  by (cases qs) simp_all

lemma active_quarantine_Inr:
  "active_quarantine c = (Inr a, c') \<Longrightarrow> a = newest_row (uncleared (current c)) \<and> current c' = current c"
  unfolding active_quarantine_def using ctx_query by fastforce

lemma insert_quarantine_Inr:
  "insert_quarantine e c = (Inr i, c') \<Longrightarrow>
     current c' = (current c)\<lparr>quarantine := quarantine (current c) @ [quarantine_row_of i e]\<rparr>
     \<and> i = fresh_id (map q_id (quarantine (current c)))"
  unfolding insert_quarantine_def
  by (drule ctx_exec) (auto simp: Let_def split: if_splits)

lemma insert_attempt_Inr:
  "insert_broadcast_attempt a c = (Inr i, c') \<Longrightarrow>
     current c' = (current c)\<lparr>broadcasts := broadcasts (current c) @ [attempt_row_of i a]\<rparr>
     \<and> i = fresh_id (map a_id (broadcasts (current c))) \<and> ai_request a \<notin> a_request ` set (broadcasts (current c))"
  unfolding insert_broadcast_attempt_def
  by (drule ctx_exec) (auto simp: Let_def split: if_splits)

lemma record_result_Inr:
  assumes "record_broadcast_attempt_result i out detail t c = (Inr u, c')"
  shows "current c' = (current c)\<lparr>broadcasts :=
      map (\<lambda>r. if a_id r = i then complete_attempt out detail t r else r) (broadcasts (current c))\<rparr>"
proof -
  obtain n c1 where e: "ctx ''record broadcast attempt result'' (exec (\<lambda>db.
       let (n, rows) = update_rows (\<lambda>r. a_id r = i) (complete_attempt out detail t) (broadcasts db)
       in Inr (n, db\<lparr>broadcasts := rows\<rparr>))) c = (Inr n, c1)" "c' = c1"
    using assms unfolding record_broadcast_attempt_result_def by (auto simp: bindA_eq_Inr split: if_splits)
  from ctx_exec [OF e(1)] e(2) show ?thesis by (auto simp: update_rows_def)
qed

section \<open>Reconciliation refines its specification\<close>

text \<open>
  What a restart does to the store: every attempt without an outcome becomes ambiguous, and
  if there was one, the store is quarantined.
\<close>

definition orphans :: "runway \<Rightarrow> attempt_row list" where
  "orphans db = sort_key a_id (unresolved db)"

definition reconciled :: "int \<Rightarrow> runway \<Rightarrow> runway" where
  "reconciled now db =
     (if unresolved db = [] then db
      else
        let db' = db\<lparr>broadcasts := map (\<lambda>r. if a_outcome r = None
              then complete_attempt AttemptAmbiguous (Some orphan_note) now r else r) (broadcasts db)\<rparr>
        in if uncleared db \<noteq> [] then db'
           else db'\<lparr>quarantine := quarantine db @
             [quarantine_row_of (fresh_id (map q_id (quarantine db))) (restart_entry now (orphans db))]\<rparr>)"

lemma forS_record:
  assumes "forS (\<lambda>r. record_broadcast_attempt_result (a_id r) out detail t) rows c = (Inr u, c')"
  shows "current c' = (current c)\<lparr>broadcasts :=
      map (\<lambda>r. if a_id r \<in> a_id ` set rows then complete_attempt out detail t r else r) (broadcasts (current c))\<rparr>"
  using assms
proof (induction rows arbitrary: c)
  case (Cons x rows)
  from Cons.prems obtain v c1 where s: "record_broadcast_attempt_result (a_id x) out detail t c = (Inr v, c1)"
    "forS (\<lambda>r. record_broadcast_attempt_result (a_id r) out detail t) rows c1 = (Inr u, c')"
    by (auto simp: bindA_eq_Inr)
  show ?case
    unfolding Cons.IH [OF s(2)] record_result_Inr [OF s(1)]
    by (simp add: complete_attempt_def)
qed simp

lemma confined_record [confined_intros]: "confined (record_broadcast_attempt_result i out d t)"
  unfolding record_broadcast_attempt_result_def by (auto intro!: confined_intros)

lemma confined_forS [confined_intros]: "(\<And>x. confined (f x)) \<Longrightarrow> confined (forS f xs)"
  by (induction xs) (auto intro!: confined_intros)

lemma confined_reconcile: "confined (reconcile_locked now)"
  unfolding reconcile_locked_def unresolved_broadcast_attempts_def active_quarantine_def insert_quarantine_def
  by (auto intro!: confined_intros split: option.splits)

lemma unresolved_ids:
  assumes "distinct (map a_id (broadcasts db))" "r \<in> set (broadcasts db)"
  shows "a_id r \<in> a_id ` set (unresolved db) \<longleftrightarrow> a_outcome r = None"
  using assms by (auto simp: unresolved_def distinct_map inj_on_def)

lemma reconcile_locked_Inr:
  assumes "reconcile_locked now c = (Inr n, c')" "runway_ok (current c)"
  shows "current c' = reconciled now (current c)" "n = length (unresolved (current c))"
proof -
  from assms(1) obtain orphaned c1 where o: "unresolved_broadcast_attempts c = (Inr orphaned, c1)"
    and rest: "(if orphaned = [] then returnA 0
     else
       bindA (forS (\<lambda>r. record_broadcast_attempt_result (a_id r) AttemptAmbiguous (Some orphan_note) now) orphaned) (\<lambda>_.
       bindA active_quarantine (\<lambda>active.
       case active of
         Some q \<Rightarrow> returnA (length orphaned)
       | None \<Rightarrow>
           bindA (insert_quarantine
             (restart_entry now orphaned)) (\<lambda>_.
           returnA (length orphaned))))) c1 = (Inr n, c')"
    unfolding reconcile_locked_def bindA_eq_Inr [of unresolved_broadcast_attempts] by blast
  have orphaned: "orphaned = orphans (current c)" "current c1 = current c"
    using ctx_query [OF o [unfolded unresolved_broadcast_attempts_def]] by (simp_all add: orphans_def)
  have empty: "orphaned = [] \<longleftrightarrow> unresolved (current c) = []"
    by (metis length_0_conv length_sort orphaned(1) orphans_def)
  have len: "length orphaned = length (unresolved (current c))" by (simp add: orphaned(1) orphans_def)
  have "current c' = reconciled now (current c) \<and> n = length (unresolved (current c))"
  proof (cases "orphaned = []")
    case True
    then show ?thesis using rest empty orphaned(2) by (simp add: reconciled_def)
  next
    case False
    with rest obtain v c2 a c3 where
      f: "forS (\<lambda>r. record_broadcast_attempt_result (a_id r) AttemptAmbiguous (Some orphan_note) now) orphaned c1 = (Inr v, c2)"
      and q: "active_quarantine c2 = (Inr a, c3)"
      and last_step: "(case a of
         Some q \<Rightarrow> returnA (length orphaned)
       | None \<Rightarrow>
           bindA (insert_quarantine
             (restart_entry now orphaned)) (\<lambda>_.
           returnA (length orphaned))) c3 = (Inr n, c')"
      by (auto simp: bindA_eq_Inr)
    define marked where "marked = (current c)\<lparr>broadcasts := map (\<lambda>r. if a_outcome r = None
        then complete_attempt AttemptAmbiguous (Some orphan_note) now r else r) (broadcasts (current c))\<rparr>"
    have "a_id ` set orphaned = a_id ` set (unresolved (current c))" by (simp add: orphaned(1) orphans_def)
    then have m: "current c2 = marked"
      using forS_record [OF f] assms(2) unresolved_ids [of "current c"]
      by (simp add: orphaned(2) marked_def runway_ok_def cong: map_cong)
    have a: "a = newest_row (uncleared (current c))" "current c3 = marked"
      using active_quarantine_Inr [OF q] by (simp_all add: m marked_def uncleared_def)
    show ?thesis
    proof (cases a)
      case (Some x)
      then have "uncleared (current c) \<noteq> []" using a(1) by auto
      then show ?thesis using last_step Some False empty a(2) len by (simp add: reconciled_def Let_def marked_def)
    next
      case None
      then have u: "uncleared (current c) = []" using a(1) newest_row_None by metis
      from last_step None obtain i where iq: "insert_quarantine
             (restart_entry now orphaned) c3 = (Inr i, c')" "n = length orphaned"
        by (auto simp: bindA_eq_Inr)
      have "i = fresh_id (map q_id (quarantine (current c3)))"
        using insert_quarantine_Inr [OF iq(1)] by blast
      then show ?thesis
        using insert_quarantine_Inr [OF iq(1)] iq(2) False empty u a(2) len
        by (simp add: reconciled_def Let_def marked_def orphaned(1))
    qed
  qed
  then show "current c' = reconciled now (current c)" "n = length (unresolved (current c))" by simp_all
qed

lemma reconcile_result:
  assumes "reconcile_quarantine_on_restart now c = (r, c')" "runway_ok (disk c)"
  shows "(\<exists>e. r = Inl e \<and> disk c' = disk c)
    \<or> r = Inr (length (unresolved (disk c))) \<and> disk c' = reconciled now (disk c) \<and> txn c' = None"
  using assms(1) unfolding reconcile_quarantine_on_restart_def
proof (rule fee_tx_cases [OF _ confined_reconcile])
  fix a c1 c2
  assume c: "current c1 = disk c" "reconcile_locked now c1 = (Inr a, c2)" "r = Inr a" "disk c' = current c2" "txn c' = None"
  have ok: "runway_ok (current c1)" using assms(2) by (simp add: c(1))
  show ?thesis using reconcile_locked_Inr [OF c(2) ok] c by simp
qed blast

lemma reconciled_quiet: "unresolved (reconciled now db) = []"
  by (auto simp: reconciled_def Let_def unresolved_def complete_attempt_def filter_empty_conv)

lemma reconciled_quarantined: "unresolved db \<noteq> [] \<or> uncleared db \<noteq> [] \<Longrightarrow> uncleared (reconciled now db) \<noteq> []"
  by (auto simp: reconciled_def Let_def uncleared_def quarantine_row_of_def)

end
