(* ===== verification/FeeAuthority.thy ===== *)
theory FeeAuthority
  imports FeeRunway Json
begin

text \<open>
  Who may move fees: the reading of the Python controller's authority status
  (\<open>python_authority.rs\<close>), the one-time cutover arm (\<open>cutover_arm.rs\<close>) and the matrix of
  operating modes (\<open>fee_mode.rs\<close>). These parts are pure; the parts that read a file, the
  store or a socket follow in theory \<open>FeeLive\<close>.
\<close>

section \<open>The status of the Python authority\<close>

record python_off =
  po_generation :: int
  po_transitioned :: int
  po_observed :: int

datatype python_deny =
    PyTransport string | PyTimeout nat | PyMethodNotFound | PyMalformed string | PyMissingField string
  | PyWrongType string | PyNegative string | PyStillEnabled | PyStaleObservation int int
  | PyUnstableEpoch "int \<times> int" "int \<times> int" | PyNonAdvancing int int | PyStaleBracket int int

datatype rpc_proxy_error = ProxyTimeout nat | ProxyRpc string

definition classify_rpc_proxy_error :: "rpc_proxy_error \<Rightarrow> python_deny" where
  "classify_rpc_proxy_error err = (case err of
     ProxyTimeout secs \<Rightarrow> PyTimeout secs
   | ProxyRpc message \<Rightarrow>
       if contains_str ''-32601'' message \<or> contains_str ''unknown command'' (to_lowercase message)
       then PyMethodNotFound else PyTransport message)"

text \<open>A field is present and has the exact type.\<close>

definition field :: "(string \<times> json) list \<Rightarrow> string \<Rightarrow> (json \<Rightarrow> 'a option) \<Rightarrow> (python_deny, 'a) result" where
  "field obj k as = (case map_of obj k of
     None \<Rightarrow> Inl (Fail (PyMissingField k))
   | Some v \<Rightarrow> (case as v of None \<Rightarrow> Inl (Fail (PyWrongType k)) | Some a \<Rightarrow> Inr a))"

definition validate_status :: "json \<Rightarrow> int \<Rightarrow> int \<Rightarrow> (python_deny, python_off) result" where
  "validate_status raw now max_age =
     (case as_object raw of
        None \<Rightarrow> Inl (Fail (PyMalformed ''response is not a JSON object''))
      | Some obj \<Rightarrow>
          bindE (field obj ''enabled'' as_bool) (\<lambda>enabled.
          bindE (field obj ''generation'' as_int64) (\<lambda>generation.
          bindE (field obj ''transitioned_at'' as_int64) (\<lambda>transitioned.
          bindE (field obj ''observed_at'' as_int64) (\<lambda>observed.
          if generation < 0 then Inl (Fail (PyNegative ''generation''))
          else if transitioned < 0 then Inl (Fail (PyNegative ''transitioned_at''))
          else if observed < 0 then Inl (Fail (PyNegative ''observed_at''))
          else if enabled then Inl (Fail PyStillEnabled)
          else bindE (chk_i64 (now - observed)) (\<lambda>age.
            if age < 0 \<or> max_age < age then Inl (Fail (PyStaleObservation age max_age))
            else Inr \<lparr>po_generation = generation, po_transitioned = transitioned, po_observed = observed\<rparr>))))))"

definition validate_stable_epoch :: "python_off \<Rightarrow> python_off \<Rightarrow> (python_deny, unit) result" where
  "validate_stable_epoch first second =
     (if po_generation first \<noteq> po_generation second \<or> po_transitioned first \<noteq> po_transitioned second
      then Inl (Fail (PyUnstableEpoch (po_generation first, po_transitioned first)
        (po_generation second, po_transitioned second)))
      else if po_observed second \<le> po_observed first
      then Inl (Fail (PyNonAdvancing (po_observed first) (po_observed second)))
      else Inr ())"

section \<open>The cutover arm\<close>

definition CUTOVER_ARM_SCHEMA :: string where "CUTOVER_ARM_SCHEMA = ''revops_fee_cutover_arm/v1''"
definition CUTOVER_SUBSYSTEM_FEES :: string where "CUTOVER_SUBSYSTEM_FEES = ''fees''"
definition REQUIRED_MODE :: nat where "REQUIRED_MODE = 384"

record cutover_arm =
  arm_schema :: string
  arm_node :: string
  arm_subsystem :: string
  arm_commit :: string
  arm_binary :: string
  arm_not_before :: int
  arm_expires :: int
  arm_nonce :: string

record running_identity =
  id_node :: string
  id_subsystem :: string
  id_commit :: string
  id_binary :: string
  id_owner :: nat
  id_now :: int

datatype arm_deny =
    ArmNotFound | ArmNotRegularFile | ArmSymlink | ArmWrongMode nat | ArmNotOwned | ArmReadFailed string
  | ArmMalformed string | ArmWrongSchema string | ArmWrongNode string | ArmWrongSubsystem string
  | ArmWrongCommit string | ArmWrongBinary string | ArmNotYetValid | ArmExpired | ArmEmptyNonce
  | ArmInvalidNonce string | ArmReusedNonce | ArmConsumeFailed string

definition nonce_char :: "char \<Rightarrow> bool" where
  "nonce_char c \<longleftrightarrow> (CHR ''0'' \<le> c \<and> c \<le> CHR ''9'') \<or> (CHR ''a'' \<le> c \<and> c \<le> CHR ''z'')
     \<or> (CHR ''A'' \<le> c \<and> c \<le> CHR ''Z'') \<or> c = CHR ''_'' \<or> c = CHR ''-''"

definition is_safe_nonce :: "string \<Rightarrow> bool" where
  "is_safe_nonce nonce \<longleftrightarrow> nonce \<noteq> [] \<and> length nonce \<le> 64 \<and> list_all nonce_char nonce"

definition validate_fields :: "cutover_arm \<Rightarrow> running_identity \<Rightarrow> (arm_deny, unit) result" where
  "validate_fields arm ident =
     (if arm_schema arm \<noteq> CUTOVER_ARM_SCHEMA then Inl (Fail (ArmWrongSchema (arm_schema arm)))
      else if arm_node arm \<noteq> id_node ident then Inl (Fail (ArmWrongNode (arm_node arm)))
      else if arm_subsystem arm \<noteq> id_subsystem ident then Inl (Fail (ArmWrongSubsystem (arm_subsystem arm)))
      else if arm_commit arm \<noteq> id_commit ident then Inl (Fail (ArmWrongCommit (arm_commit arm)))
      else if arm_binary arm \<noteq> id_binary ident then Inl (Fail (ArmWrongBinary (arm_binary arm)))
      else if arm_nonce arm = [] then Inl (Fail ArmEmptyNonce)
      else if \<not> is_safe_nonce (arm_nonce arm) then Inl (Fail (ArmInvalidNonce (arm_nonce arm)))
      else if id_now ident < arm_not_before arm then Inl (Fail ArmNotYetValid)
      else if arm_expires arm \<le> id_now ident then Inl (Fail ArmExpired)
      else Inr ())"

text \<open>
  What the file system answers while the arm is read: the type of the path itself, the opening
  without following links, the attributes of the open file, its text and the arm the text
  decodes to.
\<close>

datatype link_kind = LinkMissing | LinkError string | LinkSymlink | LinkFile | LinkOther
datatype open_reply = OpenLoop | OpenMissing | OpenError string | OpenOk

record file_probe =
  fp_link :: link_kind
  fp_open :: open_reply
  fp_regular :: bool
  fp_mode :: nat
  fp_uid :: nat
  fp_stat_error :: "string option"
  fp_text :: "string + string"
  fp_decoded :: "string + cutover_arm"

definition read_and_validate_fields :: "file_probe \<Rightarrow> running_identity \<Rightarrow> (arm_deny, cutover_arm) result" where
  "read_and_validate_fields fp ident =
     (case fp_link fp of
        LinkMissing \<Rightarrow> Inl (Fail ArmNotFound)
      | LinkError e \<Rightarrow> Inl (Fail (ArmReadFailed e))
      | LinkSymlink \<Rightarrow> Inl (Fail ArmSymlink)
      | LinkOther \<Rightarrow> Inl (Fail ArmNotRegularFile)
      | LinkFile \<Rightarrow>
          (case fp_open fp of
             OpenLoop \<Rightarrow> Inl (Fail ArmSymlink)
           | OpenMissing \<Rightarrow> Inl (Fail ArmNotFound)
           | OpenError e \<Rightarrow> Inl (Fail (ArmReadFailed e))
           | OpenOk \<Rightarrow>
               (case fp_stat_error fp of
                  Some e \<Rightarrow> Inl (Fail (ArmReadFailed e))
                | None \<Rightarrow>
                    if \<not> fp_regular fp then Inl (Fail ArmNotRegularFile)
                    else if fp_mode fp mod 4096 \<noteq> REQUIRED_MODE then Inl (Fail (ArmWrongMode (fp_mode fp mod 4096)))
                    else if fp_uid fp \<noteq> id_owner ident then Inl (Fail ArmNotOwned)
                    else case fp_text fp of
                      Inl e \<Rightarrow> Inl (Fail (ArmReadFailed e))
                    | Inr text \<Rightarrow>
                        (case fp_decoded fp of
                           Inl e \<Rightarrow> Inl (Fail (ArmMalformed e))
                         | Inr arm \<Rightarrow> bindE (validate_fields arm ident) (\<lambda>_. Inr arm)))))"

record live_session_arm =
  la_node :: string
  la_subsystem :: string
  la_commit :: string
  la_binary :: string
  la_nonce :: string

definition session_of :: "cutover_arm \<Rightarrow> live_session_arm" where
  "session_of arm = \<lparr>la_node = arm_node arm, la_subsystem = arm_subsystem arm, la_commit = arm_commit arm,
     la_binary = arm_binary arm, la_nonce = arm_nonce arm\<rparr>"

section \<open>Operating modes\<close>

record mode_flags =
  mf_observer :: bool
  mf_dryrun :: bool
  mf_broadcast :: bool
  mf_shadow :: bool

datatype seed_status = PendingFirstCycle | AlreadySeeded
datatype validated_mode = PassiveObserver | AutonomousShadow seed_status | LiveAuthority live_session_arm

datatype mode_deny =
    InvalidCombination mode_flags | ArmPresentInNonLiveMode | LiveModeRequiresArm | NeverSeeded
  | LiveModeRequiresSeededState | SeedProvenanceInvalid string

text \<open>The generation and the number of state rows are what the validator reads of the state
  snapshot. A diagnostic names the variant of a binding only, not its fields.\<close>

definition store_is_virgin :: "int \<Rightarrow> nat \<Rightarrow> bool" where
  "store_is_virgin generation rows \<longleftrightarrow> generation = 0 \<and> rows = 0"

definition binding_debug :: "seed_binding \<Rightarrow> string" where
  "binding_debug b = (case b of VirginStore \<Rightarrow> ''VirginStore''
     | VerifiedBound c \<Rightarrow> ''VerifiedBound'' | InvalidBinding r \<Rightarrow> ''Invalid'')"

definition shadow_seed :: "int \<Rightarrow> nat \<Rightarrow> seed_binding \<Rightarrow> (mode_deny, seed_status) result" where
  "shadow_seed generation rows binding =
     (if store_is_virgin generation rows then
        (case binding of
           VirginStore \<Rightarrow> Inr PendingFirstCycle
         | _ \<Rightarrow> Inl (Fail (SeedProvenanceInvalid (''virgin state rows but non-virgin seed binding: '' @ binding_debug binding))))
      else
        (case binding of
           VerifiedBound _ \<Rightarrow> Inr AlreadySeeded
         | VirginStore \<Rightarrow> Inl (Fail NeverSeeded)
         | InvalidBinding reason \<Rightarrow> Inl (Fail (SeedProvenanceInvalid reason))))"

definition validate_fee_mode ::
  "mode_flags \<Rightarrow> live_session_arm option \<Rightarrow> int \<Rightarrow> nat \<Rightarrow> seed_binding \<Rightarrow> (mode_deny, validated_mode) result" where
  "validate_fee_mode flags arm generation rows binding =
     (case (mf_observer flags, mf_dryrun flags, mf_broadcast flags, mf_shadow flags) of
        (True, False, False, False) \<Rightarrow>
          if arm \<noteq> None then Inl (Fail ArmPresentInNonLiveMode) else Inr PassiveObserver
      | (True, True, False, True) \<Rightarrow>
          if arm \<noteq> None then Inl (Fail ArmPresentInNonLiveMode)
          else bindE (shadow_seed generation rows binding) (\<lambda>s. Inr (AutonomousShadow s))
      | (False, False, True, False) \<Rightarrow>
          (case arm of
             None \<Rightarrow> Inl (Fail LiveModeRequiresArm)
           | Some a \<Rightarrow>
               if generation = 0 then Inl (Fail LiveModeRequiresSeededState)
               else case binding of
                 VerifiedBound _ \<Rightarrow> Inr (LiveAuthority a)
               | VirginStore \<Rightarrow> Inl (Fail LiveModeRequiresSeededState)
               | InvalidBinding reason \<Rightarrow> Inl (Fail (SeedProvenanceInvalid reason)))
      | _ \<Rightarrow> Inl (Fail (InvalidCombination flags)))"

end
