(* ===== verification/FeeLive.thy ===== *)
theory FeeLive
  imports FeeAuthority Wp
begin

text \<open>
  The live fee path: startup with the consumption of the cutover arm (\<open>main.rs\<close>,
  \<open>cutover_arm.rs\<close>), the closing of the authority bracket (\<open>python_authority.rs\<close>), the
  authorization of a batch and its broadcast (\<open>fee_execution.rs\<close>).

  The store is an actor: a command is executed at once and answered, is not admitted, or is
  answered too late, in which case it may or may not have been executed. The process may die
  between any two effects; \<open>life\<close> is the number of effects it still lives to see, and the
  end of a process is reported as \<open>Panic\<close>, which no handler of the code sees. Every answer
  of the store, the node, the file system and the clocks comes from a script the theorems
  quantify over.
\<close>

section \<open>The world of a process\<close>

datatype store_fate = Prompt | NotAdmitted string | Late bool

datatype wire = ConnectTimeout | ConnectFailed string | NoAnswer | Answer json | ErrorReply "int option" string

datatype send_outcome = SendSuccess json | SendRejected string | SendClean string | SendAmbiguous string

datatype status_reply = StatusFailed rpc_proxy_error | StatusValue json

datatype wire_event = Sent string json | Heard string send_outcome

record fee_world =
  wstore :: "runway conn"
  fates :: "store_fate list"
  wires :: "wire list"
  statuses :: "status_reply list"
  clocks :: "int list"
  fs_errors :: "string option list"
  consumed_files :: "string list"
  wire_log :: "wire_event list"
  poisoned :: bool
  life :: nat

type_synonym ('e, 'a) fee = "(fee_world, 'e, 'a) action"

definition effect :: "('e, unit) fee" where
  "effect w = (case life w of 0 \<Rightarrow> (Inl Panic, w) | Suc n \<Rightarrow> (Inr (), w\<lparr>life := n\<rparr>))"

definition now_unix :: "('e, int) fee" where
  "now_unix w = (case clocks w of [] \<Rightarrow> (Inr 0, w) | t # ts \<Rightarrow> (Inr t, w\<lparr>clocks := ts\<rparr>))"

definition next_fate :: "fee_world \<Rightarrow> store_fate \<times> fee_world" where
  "next_fate w = (case fates w of [] \<Rightarrow> (Prompt, w) | f # fs \<Rightarrow> (f, w\<lparr>fates := fs\<rparr>))"

definition next_wire :: "fee_world \<Rightarrow> wire \<times> fee_world" where
  "next_wire w = (case wires w of [] \<Rightarrow> (NoAnswer, w) | x # xs \<Rightarrow> (x, w\<lparr>wires := xs\<rparr>))"

definition next_status :: "fee_world \<Rightarrow> status_reply \<times> fee_world" where
  "next_status w = (case statuses w of [] \<Rightarrow> (StatusFailed (ProxyRpc ''no reply''), w)
     | x # xs \<Rightarrow> (x, w\<lparr>statuses := xs\<rparr>))"

definition next_fs_error :: "fee_world \<Rightarrow> string option \<times> fee_world" where
  "next_fs_error w = (case fs_errors w of [] \<Rightarrow> (None, w) | x # xs \<Rightarrow> (x, w\<lparr>fs_errors := xs\<rparr>))"

text \<open>A command runs on the connection of the actor; an actor that panics does not answer.\<close>

definition on_store :: "'a store_action \<Rightarrow> fee_world \<Rightarrow> (string + 'a) \<times> fee_world" where
  "on_store m w = (case m (wstore w) of
     (Inr a, c) \<Rightarrow> (Inr a, w\<lparr>wstore := c\<rparr>)
   | (Inl (Fail e), c) \<Rightarrow> (Inl e, w\<lparr>wstore := c\<rparr>)
   | (Inl Panic, c) \<Rightarrow> (Inl ''observer actor dropped reply'', w\<lparr>wstore := c\<rparr>))"

section \<open>Calls with a budget\<close>

definition STORE_BUDGET_FLOOR :: nat where "STORE_BUDGET_FLOOR = 7"

definition store_budget :: "nat \<Rightarrow> nat" where
  "store_budget timeout = max timeout STORE_BUDGET_FLOOR"

definition over_budget :: "nat \<Rightarrow> string \<Rightarrow> string" where
  "over_budget secs what = what @ '' exceeded its '' @ dec_nat secs @ ''s Rust-owned-store budget: the single-owner actor did not answer, so this call fails closed rather than hanging its caller''"

definition budgeted :: "nat \<Rightarrow> string \<Rightarrow> 'a store_action \<Rightarrow> ('e, string + 'a) fee" where
  "budgeted secs what m = bindA effect (\<lambda>_. (\<lambda>w. case next_fate w of
     (Prompt, w) \<Rightarrow> (case on_store m w of (r, w) \<Rightarrow> (Inr r, w))
   | (NotAdmitted e, w) \<Rightarrow> (Inr (Inl e), w)
   | (Late landed, w) \<Rightarrow> (Inr (Inl (over_budget secs what)), if landed then snd (on_store m w) else w)))"

datatype receipt = Refused string | Replied "string + int" | OutcomeUnknown

definition submit_intent :: "attempt_intent \<Rightarrow> ('e, receipt) fee" where
  "submit_intent a = bindA effect (\<lambda>_. (\<lambda>w. case next_fate w of
     (Prompt, w) \<Rightarrow> (case on_store (insert_broadcast_attempt a) w of (r, w) \<Rightarrow> (Inr (Replied r), w))
   | (NotAdmitted e, w) \<Rightarrow> (Inr (Refused e), w)
   | (Late landed, w) \<Rightarrow> (Inr OutcomeUnknown,
       if landed then snd (on_store (insert_broadcast_attempt a) w) else w)))"

definition poison :: "('e, unit) fee" where
  "poison w = (Inr (), w\<lparr>poisoned := True\<rparr>)"

section \<open>The setchannel request\<close>

record setchannel_request =
  sc_id :: string
  sc_feebase :: int
  sc_feeppm :: int
  sc_htlcmin :: "int option"
  sc_htlcmax :: "int option"

definition to_params :: "setchannel_request \<Rightarrow> json" where
  "to_params r = json_object
     ([(''id'', JStr (sc_id r)), (''feebase'', JInt (sc_feebase r)), (''feeppm'', JInt (sc_feeppm r))]
      @ (case sc_htlcmin r of None \<Rightarrow> [] | Some v \<Rightarrow> [(''htlcmin'', JInt v)])
      @ (case sc_htlcmax r of None \<Rightarrow> [] | Some v \<Rightarrow> [(''htlcmax'', JInt v)]))"

definition SETCHANNEL_METHOD :: string where "SETCHANNEL_METHOD = ''setchannel''"

record persisted_request =
  pr_cycle :: "string option"
  pr_channel :: string
  pr_request :: string
  pr_params :: setchannel_request

text \<open>Bytes leave the process only once the connection stands; the answer is heard afterwards.\<close>

definition say_sent :: "persisted_request \<Rightarrow> ('e, unit) fee" where
  "say_sent r w = (Inr (), w\<lparr>wire_log := wire_log w @ [Sent (pr_request r) (to_params (pr_params r))]\<rparr>)"

definition say_heard :: "persisted_request \<Rightarrow> send_outcome \<Rightarrow> ('e, unit) fee" where
  "say_heard r out w = (Inr (), w\<lparr>wire_log := wire_log w @ [Heard (pr_request r) out]\<rparr>)"

fun classify_wire :: "wire \<Rightarrow> send_outcome" where
  "classify_wire (Answer v) = SendSuccess v"
| "classify_wire (ErrorReply (Some code) msg) = SendRejected msg"
| "classify_wire (ErrorReply None msg) = SendAmbiguous msg"
| "classify_wire NoAnswer = SendAmbiguous ''no response within the timeout budget after the request was sent''"
| "classify_wire ConnectTimeout = SendClean ''connect to lightning-rpc timed out before any write was attempted''"
| "classify_wire (ConnectFailed e) = SendClean (''connect failed: '' @ e)"

fun connects :: "wire \<Rightarrow> bool" where
  "connects ConnectTimeout = False"
| "connects (ConnectFailed e) = False"
| "connects _ = True"

definition attempt_send :: "persisted_request \<Rightarrow> ('e, send_outcome) fee" where
  "attempt_send r = bindA effect (\<lambda>_. bindA (\<lambda>w. case next_wire w of (x, w) \<Rightarrow> (Inr x, w)) (\<lambda>x.
     if connects x then
       bindA (say_sent r) (\<lambda>_. bindA effect (\<lambda>_.
       bindA (say_heard r (classify_wire x)) (\<lambda>_. returnA (classify_wire x))))
     else returnA (classify_wire x)))"

section \<open>The broadcaster\<close>

datatype broadcast_error =
    BcQuarantined | BcPoisoned | BcRejected string string | BcCleanFailure string string
  | BcAmbiguous string string | BcAuthorizationStale nat nat | BcPersistence string
  | BcResultUnknown string string string

record batch_outcome =
  bo_request :: string
  bo_channel :: string
  bo_response :: json

definition record_result :: "nat \<Rightarrow> int \<Rightarrow> broadcast_outcome \<Rightarrow> string option \<Rightarrow> ('e, string + unit) fee" where
  "record_result timeout i out detail = bindA now_unix (\<lambda>t.
     budgeted (store_budget timeout) ''the broadcast-attempt result write''
       (record_broadcast_attempt_result i out detail t))"

definition quarantine_for :: "nat \<Rightarrow> persisted_request \<Rightarrow> string \<Rightarrow> ('e, string + int) fee" where
  "quarantine_for timeout r detail = bindA now_unix (\<lambda>t.
     budgeted (store_budget timeout) ''the execution-quarantine write''
       (insert_quarantine \<lparr>qe_reason = ''ambiguous post-submission transport outcome: '' @ detail,
          qe_cycle = None, qe_channel = Some (pr_channel r), qe_request = Some (pr_request r), qe_entered = t\<rparr>))"

definition result_persistence_unknown ::
  "nat \<Rightarrow> persisted_request \<Rightarrow> string \<Rightarrow> string \<Rightarrow> (broadcast_error, 'a) fee" where
  "result_persistence_unknown timeout r rpc_outcome detail =
     bindA poison (\<lambda>_.
     bindA (quarantine_for timeout r (''unrecordable terminal result (`'' @ rpc_outcome @ ''`): '' @ detail)) (\<lambda>_.
     failA (BcResultUnknown (pr_request r) rpc_outcome detail)))"

definition settle_terminal ::
  "nat \<Rightarrow> persisted_request \<Rightarrow> int \<Rightarrow> broadcast_outcome \<Rightarrow> string option \<Rightarrow> (broadcast_error, unit) fee" where
  "settle_terminal timeout r i out detail =
     bindA (record_result timeout i out detail) (\<lambda>res. case res of
       Inl e \<Rightarrow> result_persistence_unknown timeout r (outcome_str out) e
     | Inr u \<Rightarrow> returnA ())"

text \<open>The quarantine goes first; without it the intent stays unresolved and the process is poisoned.\<close>

definition after_quarantine ::
  "nat \<Rightarrow> persisted_request \<Rightarrow> int \<Rightarrow> string \<Rightarrow> string + int \<Rightarrow> (broadcast_error, 'a) fee" where
  "after_quarantine timeout r i detail q = (case q of
       Inl e \<Rightarrow> bindA poison (\<lambda>_. failA (BcAmbiguous (pr_request r)
         (detail @ '' (quarantine insert ALSO failed: '' @ e @ ''; this process is now poisoned)'')))
     | Inr _ \<Rightarrow>
         bindA (record_result timeout i AttemptAmbiguous (Some detail)) (\<lambda>res. case res of
           Inl e \<Rightarrow> bindA poison (\<lambda>_. failA (BcResultUnknown (pr_request r) ''ambiguous'' e))
         | Inr _ \<Rightarrow> failA (BcAmbiguous (pr_request r) detail)))"

definition settle_ambiguous :: "nat \<Rightarrow> persisted_request \<Rightarrow> int \<Rightarrow> string \<Rightarrow> (broadcast_error, 'a) fee" where
  "settle_ambiguous timeout r i detail =
     bindA (quarantine_for timeout r detail) (after_quarantine timeout r i detail)"

definition intent_unknown :: "persisted_request \<Rightarrow> string" where
  "intent_unknown r = ''store_intent_outcome_unknown: the intent write for request '' @ pr_request r
     @ '' was admitted but produced no reply within the store budget; the write may still land (restart reconciliation quarantines the orphan) and this process is now poisoned''"

definition after_send :: "nat \<Rightarrow> persisted_request \<Rightarrow> int \<Rightarrow> send_outcome \<Rightarrow> (broadcast_error, batch_outcome) fee" where
  "after_send timeout r i out = (case out of
       SendSuccess v \<Rightarrow> bindA (settle_terminal timeout r i AttemptSuccess None) (\<lambda>_.
         returnA \<lparr>bo_request = pr_request r, bo_channel = pr_channel r, bo_response = v\<rparr>)
     | SendRejected d \<Rightarrow> bindA (settle_terminal timeout r i AttemptRejected (Some d)) (\<lambda>_.
         failA (BcRejected (pr_request r) d))
     | SendClean d \<Rightarrow> bindA (settle_terminal timeout r i AttemptCleanFailure (Some d)) (\<lambda>_.
         failA (BcCleanFailure (pr_request r) d))
     | SendAmbiguous d \<Rightarrow> settle_ambiguous timeout r i d)"

definition after_intent :: "nat \<Rightarrow> persisted_request \<Rightarrow> receipt \<Rightarrow> (broadcast_error, batch_outcome) fee" where
  "after_intent timeout r rc = (case rc of
       Refused e \<Rightarrow> failA (BcPersistence (''store_admission_refused: '' @ e
         @ '' -- a clean non-write; the batch was denied before anything could be enqueued''))
     | Replied (Inl e) \<Rightarrow> failA (BcPersistence (''the broadcast-attempt intent write failed: '' @ e))
     | OutcomeUnknown \<Rightarrow>
         bindA poison (\<lambda>_. bindA (quarantine_for timeout r (intent_unknown r)) (\<lambda>_.
         failA (BcPersistence (intent_unknown r))))
     | Replied (Inr i) \<Rightarrow> bindA (attempt_send r) (after_send timeout r i))"

definition intent_of :: "persisted_request \<Rightarrow> int \<Rightarrow> attempt_intent" where
  "intent_of r t = \<lparr>ai_cycle = pr_cycle r, ai_channel = pr_channel r, ai_request = pr_request r,
     ai_method = SETCHANNEL_METHOD, ai_params = render (to_params (pr_params r)), ai_submitted = t\<rparr>"

definition send_one :: "nat \<Rightarrow> persisted_request \<Rightarrow> (broadcast_error, batch_outcome) fee" where
  "send_one timeout r =
     bindA now_unix (\<lambda>t. bindA (submit_intent (intent_of r t)) (after_intent timeout r))"

fun send_all :: "nat \<Rightarrow> persisted_request list \<Rightarrow> batch_outcome list \<Rightarrow> (broadcast_error, batch_outcome list) fee" where
  "send_all timeout [] outcomes = returnA outcomes"
| "send_all timeout (r # rs) outcomes = bindA (send_one timeout r) (\<lambda>o1. send_all timeout rs (outcomes @ [o1]))"

text \<open>The age of the authorization is the monotonic time since it was minted, in nanoseconds.\<close>

definition NANOS :: nat where "NANOS = 1000000000"
definition AUTHORIZATION_DISPATCH_FRESHNESS :: nat where "AUTHORIZATION_DISPATCH_FRESHNESS = 30 * NANOS"

definition broadcast_batch ::
  "nat \<Rightarrow> nat \<Rightarrow> persisted_request list \<Rightarrow> (broadcast_error, batch_outcome list) fee" where
  "broadcast_batch timeout age requests = bindA (\<lambda>w. (Inr (poisoned w), w)) (\<lambda>p.
     if p then failA BcPoisoned
     else if AUTHORIZATION_DISPATCH_FRESHNESS < age
     then failA (BcAuthorizationStale (age div NANOS) (AUTHORIZATION_DISPATCH_FRESHNESS div NANOS))
     else bindA (budgeted (store_budget timeout) ''the send-path active-quarantine read'' active_quarantine) (\<lambda>q.
       case q of
         Inl e \<Rightarrow> failA (BcPersistence e)
       | Inr (Some _) \<Rightarrow> failA BcQuarantined
       | Inr None \<Rightarrow> send_all timeout requests []))"

section \<open>Authorizing a batch\<close>

datatype live_deny =
    QuarantineCheckFailed string | QuarantineActive string int | GenerationCheckFailed string
  | GenerationStale int int | PythonDenied python_deny | GovernorDenied string | ReservationMissing

record live_authorization =
  au_candidate :: string
  au_generation :: int
  au_python_generation :: int
  au_governor_code :: string
  au_reservation :: string

text \<open>An open bracket holds the first reading and the bound it was checked against.\<close>

record open_bracket =
  ob_first :: python_off
  ob_max_age :: int

definition OPEN_BRACKET_MAX_LIFETIME :: nat where "OPEN_BRACKET_MAX_LIFETIME = 30 * NANOS"

definition fetch_validated_status :: "int \<Rightarrow> int \<Rightarrow> (python_deny, python_off) fee" where
  "fetch_validated_status now max_age = bindA effect (\<lambda>_. (\<lambda>w. case next_status w of
     (StatusFailed e, w) \<Rightarrow> (Inl (Fail (classify_rpc_proxy_error e)), w)
   | (StatusValue v, w) \<Rightarrow> (validate_status v now max_age, w)))"

definition open_authority_bracket :: "int \<Rightarrow> int \<Rightarrow> (python_deny, open_bracket) fee" where
  "open_authority_bracket now max_age = bindA (fetch_validated_status now max_age) (\<lambda>first.
     returnA \<lparr>ob_first = first, ob_max_age = max_age\<rparr>)"

definition close_bracket :: "nat \<Rightarrow> open_bracket \<Rightarrow> int \<Rightarrow> (python_deny, python_off) fee" where
  "close_bracket age b now =
     (if OPEN_BRACKET_MAX_LIFETIME < age
      then failA (PyStaleBracket (int (age div NANOS)) (int (OPEN_BRACKET_MAX_LIFETIME div NANOS)))
      else bindA (liftA (chk_i64 (now - po_observed (ob_first b)))) (\<lambda>first_age.
        if first_age < 0 \<or> ob_max_age b < first_age then failA (PyStaleBracket first_age (ob_max_age b))
        else bindA (fetch_validated_status now (ob_max_age b)) (\<lambda>second.
          bindA (liftA (validate_stable_epoch (ob_first b) second)) (\<lambda>_. returnA second))))"

definition AUTHORIZE_STORE_BUDGET :: nat where "AUTHORIZE_STORE_BUDGET = 7"

definition authorize_batch ::
  "string \<Rightarrow> int \<Rightarrow> nat \<Rightarrow> open_bracket \<Rightarrow> int \<Rightarrow> bool \<Rightarrow> string \<Rightarrow> string \<Rightarrow> (live_deny, live_authorization) fee" where
  "authorize_batch candidate generation age bracket now governor_ok governor_code reservation =
     bindA (budgeted AUTHORIZE_STORE_BUDGET ''the active-quarantine read'' active_quarantine) (\<lambda>q. case q of
       Inl e \<Rightarrow> failA (QuarantineCheckFailed e)
     | Inr (Some row) \<Rightarrow> failA (QuarantineActive (q_reason row) (q_entered row))
     | Inr None \<Rightarrow>
         bindA (budgeted AUTHORIZE_STORE_BUDGET ''the state-generation read'' current_state_generation) (\<lambda>g. case g of
           Inl e \<Rightarrow> failA (GenerationCheckFailed e)
         | Inr current_generation \<Rightarrow>
             if generation \<noteq> current_generation then failA (GenerationStale generation current_generation)
             else if \<not> governor_ok then failA (GovernorDenied governor_code)
             else if reservation = [] then failA ReservationMissing
             else bindA (map_errA PythonDenied (close_bracket age bracket now)) (\<lambda>second.
               returnA \<lparr>au_candidate = candidate, au_generation = current_generation,
                 au_python_generation = po_generation second, au_governor_code = governor_code,
                 au_reservation = reservation\<rparr>)))"

section \<open>Startup\<close>

datatype startup_deny = MissingRustState string | ArmInvalid arm_deny | ModeDenied mode_deny | AlreadyResolved

text \<open>
  The consuming rename fails if the name is taken; the directory is made before and synced
  after, and an arm whose rename succeeded stays consumed when the sync fails.
\<close>

definition fs_step :: "string \<Rightarrow> (arm_deny, unit) fee" where
  "fs_step what = bindA effect (\<lambda>_. (\<lambda>w. case next_fs_error w of
     (None, w) \<Rightarrow> (Inr (), w) | (Some e, w) \<Rightarrow> (Inl (Fail (ArmConsumeFailed (what @ e))), w)))"

definition rename_arm :: "string \<Rightarrow> (arm_deny, unit) fee" where
  "rename_arm nonce = bindA effect (\<lambda>_. (\<lambda>w. case next_fs_error w of
     (Some e, w) \<Rightarrow> (Inl (Fail (ArmConsumeFailed e)), w)
   | (None, w) \<Rightarrow>
       if nonce \<in> set (consumed_files w) then (Inl (Fail ArmReusedNonce), w)
       else (Inr (), w\<lparr>consumed_files := consumed_files w @ [nonce]\<rparr>)))"

definition consume_validated :: "cutover_arm \<Rightarrow> (arm_deny, live_session_arm) fee" where
  "consume_validated arm =
     bindA (fs_step ''consumed dir: '') (\<lambda>_.
     bindA (rename_arm (arm_nonce arm)) (\<lambda>_.
     bindA (fs_step ''consumed dir reopen for fsync: '') (\<lambda>_.
     bindA (fs_step ''consumed dir fsync: '') (\<lambda>_.
     returnA (session_of arm)))))"

record startup_inputs =
  si_flags :: mode_flags
  si_arm :: "(file_probe \<times> running_identity) option"
  si_generation :: int
  si_rows :: nat
  si_binding :: seed_binding
  si_store_configured :: bool
  si_ledger :: bool
  si_now :: int

text \<open>The nonce is burned in the durable ledger before the file is renamed.\<close>

definition burn_nonce :: "cutover_arm \<Rightarrow> int \<Rightarrow> ('e, string + bool) fee" where
  "burn_nonce arm now = bindA effect (\<lambda>_. (\<lambda>w. case next_fate w of
     (Prompt, w) \<Rightarrow> (case on_store (insert_consumed_nonce (arm_nonce arm) now (arm_commit arm)
        (arm_binary arm) (arm_expires arm)) w of (r, w) \<Rightarrow> (Inr r, w))
   | (NotAdmitted e, w) \<Rightarrow> (Inr (Inl e), w)
   | (Late landed, w) \<Rightarrow> (Inr (Inl ''observer actor dropped reply''),
       if landed then snd (on_store (insert_consumed_nonce (arm_nonce arm) now (arm_commit arm)
         (arm_binary arm) (arm_expires arm)) w) else w)))"

definition consume_arm :: "startup_inputs \<Rightarrow> file_probe \<Rightarrow> running_identity \<Rightarrow> (startup_deny, live_session_arm) fee" where
  "consume_arm inp fp ident =
     bindA (map_errA ArmInvalid (liftA (read_and_validate_fields fp ident))) (\<lambda>arm.
     if \<not> si_ledger inp then failA (ArmInvalid (ArmConsumeFailed ''no durable nonce ledger (observer db) available to burn the arm nonce in; the arm file is untouched''))
     else bindA (burn_nonce arm (si_now inp)) (\<lambda>res. case res of
       Inl e \<Rightarrow> failA (ArmInvalid (ArmConsumeFailed (''durable nonce-ledger insert failed ('' @ e
         @ ''); the arm file is untouched and may be retried by the operator'')))
     | Inr False \<Rightarrow> failA (ArmInvalid ArmReusedNonce)
     | Inr True \<Rightarrow> map_errA ArmInvalid (consume_validated arm)))"

definition resolve_startup_mode_kernel :: "startup_inputs \<Rightarrow> (startup_deny, validated_mode) fee" where
  "resolve_startup_mode_kernel inp =
     (if (mf_shadow (si_flags inp) \<or> mf_broadcast (si_flags inp)) \<and> \<not> si_store_configured inp
      then failA (MissingRustState (if mf_broadcast (si_flags inp) then ''live fee authority mode''
        else ''autonomous fee shadow mode''))
      else bindA (case si_arm inp of None \<Rightarrow> returnA None
          | Some (fp, ident) \<Rightarrow> bindA (consume_arm inp fp ident) (\<lambda>a. returnA (Some a))) (\<lambda>arm.
        map_errA ModeDenied (liftA (validate_fee_mode (si_flags inp) arm (si_generation inp) (si_rows inp)
          (si_binding inp)))))"

text \<open>The broadcaster of a live process exists only after a successful reconciliation.\<close>

definition new_broadcaster :: "live_session_arm \<Rightarrow> (string, live_session_arm) fee" where
  "new_broadcaster arm = bindA now_unix (\<lambda>t. bindA effect (\<lambda>_. (\<lambda>w. case next_fate w of
     (Prompt, w) \<Rightarrow> (case on_store (reconcile_quarantine_on_restart t) w of
        (Inr n, w) \<Rightarrow> (Inr arm, w\<lparr>poisoned := False\<rparr>) | (Inl e, w) \<Rightarrow> (Inl (Fail e), w))
   | (NotAdmitted e, w) \<Rightarrow> (Inl (Fail e), w)
   | (Late landed, w) \<Rightarrow> (Inl (Fail ''observer actor dropped reply''),
       if landed then snd (on_store (reconcile_quarantine_on_restart t) w) else w))))"

end
