(* ===== verification/FeeSafety.thy ===== *)
theory FeeSafety
  imports FeeLive
begin

text \<open>
  What the live fee path guarantees over every history of processes, whichever way the store
  and the node answer and wherever a process dies: a \<open>setchannel\<close> whose outcome is not known
  is the last one that is ever sent.
\<close>

section \<open>Histories\<close>

text \<open>A batch is authorized and then broadcast; the process goes on after a refusal.\<close>

record batch_plan =
  bp_candidate :: string
  bp_generation :: int
  bp_open_now :: int
  bp_max_age :: int
  bp_bracket_age :: nat
  bp_now :: int
  bp_governor_ok :: bool
  bp_governor_code :: string
  bp_reservation :: string
  bp_dispatch_age :: nat
  bp_requests :: "persisted_request list"

definition run_batch :: "nat \<Rightarrow> batch_plan \<Rightarrow> (string, batch_outcome list) fee" where
  "run_batch timeout b =
     bindA (map_errA (\<lambda>_. ''bracket'') (open_authority_bracket (bp_open_now b) (bp_max_age b))) (\<lambda>bracket.
     bindA (map_errA (\<lambda>_. ''authorization'') (authorize_batch (bp_candidate b) (bp_generation b)
       (bp_bracket_age b) bracket (bp_now b) (bp_governor_ok b) (bp_governor_code b) (bp_reservation b))) (\<lambda>_.
     map_errA (\<lambda>_. ''broadcast'') (broadcast_batch timeout (bp_dispatch_age b) (bp_requests b))))"

fun run_batches :: "nat \<Rightarrow> batch_plan list \<Rightarrow> (string, unit) fee" where
  "run_batches timeout [] = returnA ()"
| "run_batches timeout (b # bs) = handleA (run_batch timeout b) (\<lambda>r. case r of
     Inl Panic \<Rightarrow> liftA (Inl Panic) | _ \<Rightarrow> run_batches timeout bs)"

record process_plan =
  pp_script :: "sql_error option list"
  pp_fates :: "store_fate list"
  pp_wires :: "wire list"
  pp_statuses :: "status_reply list"
  pp_clocks :: "int list"
  pp_fs_errors :: "string option list"
  pp_life :: nat
  pp_startup :: startup_inputs
  pp_timeout :: nat
  pp_batches :: "batch_plan list"

text \<open>A new process finds the data on the disk, the consumed arms and nothing else.\<close>

definition boot :: "process_plan \<Rightarrow> fee_world \<Rightarrow> fee_world" where
  "boot p w = w\<lparr>wstore := \<lparr>disk = disk (wstore w), txn = None, script = pp_script p\<rparr>,
     fates := pp_fates p, wires := pp_wires p, statuses := pp_statuses p, clocks := pp_clocks p,
     fs_errors := pp_fs_errors p, poisoned := False, life := pp_life p\<rparr>"

definition fee_process :: "process_plan \<Rightarrow> (string, unit) fee" where
  "fee_process p =
     bindA (map_errA (\<lambda>_. ''startup'') (resolve_startup_mode_kernel (pp_startup p))) (\<lambda>mode. case mode of
       LiveAuthority arm \<Rightarrow>
         bindA (new_broadcaster arm) (\<lambda>_. run_batches (pp_timeout p) (pp_batches p))
     | _ \<Rightarrow> returnA ())"

definition run_process :: "process_plan \<Rightarrow> fee_world \<Rightarrow> fee_world" where
  "run_process p w = snd (fee_process p (boot p w))"

definition history :: "process_plan list \<Rightarrow> fee_world \<Rightarrow> fee_world" where
  "history ps w = foldl (\<lambda>w p. run_process p w) w ps"

definition first_world :: "runway \<Rightarrow> string list \<Rightarrow> fee_world" where
  "first_world db consumed = \<lparr>wstore = \<lparr>disk = db, txn = None, script = []\<rparr>, fates = [], wires = [],
     statuses = [], clocks = [], fs_errors = [], consumed_files = consumed, wire_log = [],
     poisoned = False, life = 0\<rparr>"

section \<open>Orderly logs\<close>

fun definite :: "send_outcome \<Rightarrow> bool" where
  "definite (SendSuccess v) = True"
| "definite (SendRejected d) = True"
| "definite _ = False"

fun is_sent :: "wire_event \<Rightarrow> bool" where
  "is_sent (Sent r v) = True"
| "is_sent _ = False"

text \<open>Every request sent was answered at once and definitely; or every one but the last.\<close>

definition answered :: "string \<Rightarrow> wire_event list \<Rightarrow> bool" where
  "answered r post \<longleftrightarrow> (case post of Heard s out # rest \<Rightarrow> r = s \<and> definite out | _ \<Rightarrow> False)"

definition settled_log :: "wire_event list \<Rightarrow> bool" where
  "settled_log es \<longleftrightarrow> (\<forall>pre r v post. es = pre @ Sent r v # post \<longrightarrow> answered r post)"

definition orderly :: "wire_event list \<Rightarrow> bool" where
  "orderly es \<longleftrightarrow> (\<forall>pre r v post. es = pre @ Sent r v # post \<longrightarrow> list_ex is_sent post \<longrightarrow> answered r post)"

lemma snoc_split:
  "es @ [x] = pre @ y # post \<longleftrightarrow> post = [] \<and> es = pre \<and> x = y \<or> (\<exists>post'. post = post' @ [x] \<and> es = pre @ y # post')"
  by (cases post rule: rev_cases) auto

lemma settled_orderly: "settled_log es \<Longrightarrow> orderly es"
  by (auto simp: settled_log_def orderly_def)

lemma settled_Nil [simp]: "settled_log []"
  by (simp add: settled_log_def)

lemma answered_append: "answered r post \<Longrightarrow> answered r (post @ later)"
  by (cases post) (auto simp: answered_def split: wire_event.splits)

lemma settled_before:
  assumes "settled_log es" "es @ [Sent r v] = pre @ Sent r' v' # post" "post \<noteq> []"
  shows "answered r' post"
  using assms by (auto simp: snoc_split settled_log_def intro: answered_append)

lemma orderly_sent: "settled_log es \<Longrightarrow> orderly (es @ [Sent r v])"
  unfolding orderly_def using settled_before [of es] by fastforce

lemma orderly_heard:
  assumes "settled_log es"
  shows "orderly ((es @ [Sent r v]) @ [Heard r out])"
  unfolding orderly_def
proof (intro allI impI)
  fix pre r' v' post
  assume e: "(es @ [Sent r v]) @ [Heard r out] = pre @ Sent r' v' # post" "list_ex is_sent post"
  from e(1) obtain post' where p: "post = post' @ [Heard r out]" "es @ [Sent r v] = pre @ Sent r' v' # post'"
    by (subst (asm) snoc_split) auto
  then have "post' \<noteq> []" using e(2) by auto
  with p settled_before [OF assms] show "answered r' post" by (simp add: answered_append)
qed

lemma settled_heard:
  assumes "settled_log es" "definite out"
  shows "settled_log ((es @ [Sent r v]) @ [Heard r out])"
  unfolding settled_log_def
proof (intro allI impI)
  fix pre r' v' post
  assume "(es @ [Sent r v]) @ [Heard r out] = pre @ Sent r' v' # post"
  then obtain post' where p: "post = post' @ [Heard r out]" "es @ [Sent r v] = pre @ Sent r' v' # post'"
    by (subst (asm) snoc_split) auto
  show "answered r' post"
  proof (cases "post' = []")
    case True
    then show ?thesis using p assms(2) by (auto simp: answered_def snoc_split)
  next
    case False
    then show ?thesis using p settled_before [OF assms(1)] by (simp add: answered_append)
  qed
qed

section \<open>The data on the disk\<close>

definition lawful :: "('a \<Rightarrow> runway \<Rightarrow> runway \<Rightarrow> bool) \<Rightarrow> 'a store_action \<Rightarrow> bool" where
  "lawful P m \<longleftrightarrow> (\<forall>c r c'. txn c = None \<longrightarrow> m c = (r, c') \<longrightarrow>
     txn c' = None \<and> (case r of Inr a \<Rightarrow> P a (disk c) (disk c') | Inl _ \<Rightarrow> disk c' = disk c))"

lemma current_idle: "txn c = None \<Longrightarrow> current c = disk c"
  by (simp add: current_def)

lemma lawful_mono:
  assumes "lawful P m" "\<And>a d d'. P a d d' \<Longrightarrow> Q a d d'"
  shows "lawful Q m"
  unfolding lawful_def
proof (intro allI impI)
  fix c r c' assume "txn c = None" "m c = (r, c')"
  with assms(1) have "txn c' = None" "case r of Inr a \<Rightarrow> P a (disk c) (disk c') | Inl _ \<Rightarrow> disk c' = disk c"
    unfolding lawful_def by blast+
  then show "txn c' = None \<and> (case r of Inr a \<Rightarrow> Q a (disk c) (disk c') | Inl _ \<Rightarrow> disk c' = disk c)"
    using assms(2) by (cases r) auto
qed

lemma lawful_exec:
  assumes "\<And>d a d'. f d = Inr (a, d') \<Longrightarrow> P a d d'"
  shows "lawful P (ctx w (exec f))"
  unfolding lawful_def
proof (intro allI impI)
  fix c r c' assume t: "txn c = None" and e: "ctx w (exec f) c = (r, c')"
  have t': "txn c' = None"
    using stays_outD [OF stays_out_ctx [OF stays_out_exec] t e] .
  have "case r of Inr a \<Rightarrow> P a (disk c) (disk c') | Inl _ \<Rightarrow> disk c' = disk c"
  proof (cases r)
    case (Inr a)
    then show ?thesis using ctx_exec [OF e [unfolded Inr]] t t' assms by (simp add: current_idle)
  next
    case (Inl x)
    then obtain y where "exec f c = (Inl y, c')" using ctx_Inl e by blast
    then have "disk c' = disk c"
      using pop_fields [of c] by (auto simp: exec_def engine_fails_def split: prod.splits option.splits sum.splits if_splits)
    then show ?thesis by (simp add: Inl)
  qed
  with t' show "txn c' = None \<and> (case r of Inr a \<Rightarrow> P a (disk c) (disk c') | Inl _ \<Rightarrow> disk c' = disk c)"
    by (cases r) auto
qed

lemma lawful_query:
  assumes "\<And>d a. f d = Inr a \<Longrightarrow> P a d d"
  shows "lawful P (ctx w (query f))"
  unfolding lawful_def
proof (intro allI impI)
  fix c r c' assume t: "txn c = None" and e: "ctx w (query f) c = (r, c')"
  have t': "txn c' = None"
    using stays_outD [OF stays_out_ctx [OF stays_out_query] t e] .
  have d: "disk c' = disk c" using e ctx_snd [of w "query f" c] query_disk [of f c] by (metis prod.collapse snd_conv)
  show "txn c' = None \<and> (case r of Inr a \<Rightarrow> P a (disk c) (disk c') | Inl _ \<Rightarrow> disk c' = disk c)"
  proof (cases r)
    case (Inr a)
    then show ?thesis using ctx_query [OF e [unfolded Inr]] t t' d assms by (simp add: current_idle)
  qed (use t' d in simp)
qed

lemma lawful_bind_check:
  assumes "lawful P m" "\<And>a. f a = (if bad a then failA (msg a) else returnA ())"
    and "\<And>a d d'. P a d d' \<Longrightarrow> bad a \<Longrightarrow> d' = d"
  shows "lawful (\<lambda>u d d'. \<exists>a. P a d d' \<and> \<not> bad a) (bindA m f)"
  unfolding lawful_def
proof (intro allI impI)
  fix c r c' assume t: "txn c = None" and e: "bindA m f c = (r, c')"
  obtain q c1 where m: "m c = (q, c1)" by fastforce
  have l: "txn c1 = None" "case q of Inr a \<Rightarrow> P a (disk c) (disk c1) | Inl _ \<Rightarrow> disk c1 = disk c"
    using assms(1) t m unfolding lawful_def by blast+
  show "txn c' = None \<and> (case r of Inr u \<Rightarrow> \<exists>a. P a (disk c) (disk c') \<and> \<not> bad a | Inl _ \<Rightarrow> disk c' = disk c)"
    using e m l assms(2,3) by (cases q) (auto simp: bindA_def split: if_splits)
qed

lemma lawful_active: "lawful (\<lambda>a d d'. a = newest_row (uncleared d) \<and> d' = d) active_quarantine"
  unfolding active_quarantine_def by (rule lawful_query) simp

lemma lawful_generation: "lawful (\<lambda>a d d'. a = generation_of d \<and> d' = d) current_state_generation"
  unfolding current_state_generation_def by (rule lawful_query) simp

lemma lawful_quarantine:
  "lawful (\<lambda>i d d'. d' = d\<lparr>quarantine := quarantine d @ [quarantine_row_of i e]\<rparr>) (insert_quarantine e)"
  unfolding insert_quarantine_def by (rule lawful_exec) (auto simp: Let_def split: if_splits)

lemma lawful_intent:
  "lawful (\<lambda>i d d'. d' = d\<lparr>broadcasts := broadcasts d @ [attempt_row_of i a]\<rparr>
     \<and> i = fresh_id (map a_id (broadcasts d)) \<and> ai_request a \<notin> a_request ` set (broadcasts d))
     (insert_broadcast_attempt a)"
  unfolding insert_broadcast_attempt_def by (rule lawful_exec) (auto simp: Let_def split: if_splits)

lemma lawful_nonce:
  "lawful (\<lambda>b d d'. b = (nonce \<notin> n_nonce ` set (consumed_nonces d)) \<and>
      d' = (if b then d\<lparr>consumed_nonces := consumed_nonces d @
        [\<lparr>n_nonce = nonce, n_consumed_at = t, n_commit = cm, n_binary = bn, n_expires = ex\<rparr>]\<rparr> else d))
     (insert_consumed_nonce nonce t cm bn ex)"
  unfolding insert_consumed_nonce_def by (rule lawful_exec) (simp split: if_splits)

lemma lawful_record:
  "lawful (\<lambda>u d d'. d' = d\<lparr>broadcasts :=
      map (\<lambda>r. if a_id r = i then complete_attempt out detail t r else r) (broadcasts d)\<rparr>)
     (record_broadcast_attempt_result i out detail t)"
proof -
  have "lawful (\<lambda>u d d'. \<exists>n. (n = length (filter (\<lambda>r. a_id r = i) (broadcasts d)) \<and> d' = d\<lparr>broadcasts :=
      map (\<lambda>r. if a_id r = i then complete_attempt out detail t r else r) (broadcasts d)\<rparr>) \<and> \<not> n = 0)
     (record_broadcast_attempt_result i out detail t)"
    unfolding record_broadcast_attempt_result_def
  proof (rule lawful_bind_check)
    show "lawful (\<lambda>n d d'. n = length (filter (\<lambda>r. a_id r = i) (broadcasts d)) \<and> d' = d\<lparr>broadcasts :=
        map (\<lambda>r. if a_id r = i then complete_attempt out detail t r else r) (broadcasts d)\<rparr>)
      (ctx ''record broadcast attempt result'' (exec (\<lambda>db.
       let (n, rows) = update_rows (\<lambda>r. a_id r = i) (complete_attempt out detail t) (broadcasts db)
       in Inr (n, db\<lparr>broadcasts := rows\<rparr>))))"
      by (rule lawful_exec) (auto simp: update_rows_def)
    fix n :: nat and d d' :: runway
    assume "n = length (filter (\<lambda>r. a_id r = i) (broadcasts d)) \<and> d' = d\<lparr>broadcasts :=
        map (\<lambda>r. if a_id r = i then complete_attempt out detail t r else r) (broadcasts d)\<rparr>" "n = 0"
    moreover from this have "map (\<lambda>r. if a_id r = i then complete_attempt out detail t r else r) (broadcasts d) = broadcasts d"
      by (intro map_idI) (auto simp: filter_empty_conv)
    ultimately show "d' = d" by simp
  qed simp
  then show ?thesis by (rule lawful_mono) blast
qed

section \<open>Steps of a process\<close>

text \<open>What a call to the store leaves alone.\<close>

definition db :: "fee_world \<Rightarrow> runway" where
  "db w = disk (wstore w)"

definition idle :: "fee_world \<Rightarrow> bool" where
  "idle w \<longleftrightarrow> txn (wstore w) = None"

definition same :: "fee_world \<Rightarrow> fee_world \<Rightarrow> bool" where
  "same w w' \<longleftrightarrow> idle w' \<and> wire_log w' = wire_log w \<and> poisoned w' = poisoned w \<and> consumed_files w' = consumed_files w"

lemma same_then: "same a b \<Longrightarrow> same b c \<Longrightarrow> same a c"
  by (simp add: same_def)

lemma same_self: "idle w \<Longrightarrow> same w w"
  by (simp add: same_def)

lemma wp_effect:
  assumes "Q (Inl Panic) w" "\<And>n. life w = Suc n \<Longrightarrow> Q (Inr ()) (w\<lparr>life := n\<rparr>)"
  shows "wp effect Q w"
  using assms by (auto simp: wp_def effect_def split: nat.splits)

lemma on_store_lawful:
  assumes "lawful P m" "idle w" "on_store m w = (r, w')"
  shows "same w w' \<and> (case r of Inr a \<Rightarrow> P a (db w) (db w') | Inl _ \<Rightarrow> db w' = db w)"
proof -
  obtain q c where m: "m (wstore w) = (q, c)" by fastforce
  have l: "txn c = None" "case q of Inr a \<Rightarrow> P a (disk (wstore w)) (disk c) | Inl _ \<Rightarrow> disk c = disk (wstore w)"
    using assms(1,2) m unfolding lawful_def idle_def by blast+
  show ?thesis
    using assms(2,3) m l by (cases q) (auto simp: on_store_def same_def idle_def db_def split: fault.splits)
qed

text \<open>The outcomes of a call with a budget: an error leaves the data alone or hides a success.\<close>

lemma next_fate_same: "idle w \<Longrightarrow> next_fate w = (f, w') \<Longrightarrow> same w w' \<and> db w' = db w \<and> idle w'"
  by (auto simp: next_fate_def same_def idle_def db_def split: list.splits)

lemma life_same: "idle w \<Longrightarrow> same w (w\<lparr>life := n\<rparr>) \<and> db (w\<lparr>life := n\<rparr>) = db w"
  by (simp add: same_def idle_def db_def)

definition fell_short :: "('a \<Rightarrow> runway \<Rightarrow> runway \<Rightarrow> bool) \<Rightarrow> runway \<Rightarrow> runway \<Rightarrow> bool" where
  "fell_short P d d' \<longleftrightarrow> d' = d \<or> (\<exists>a. P a d d')"

lemma wp_budgeted:
  assumes "lawful P m" "idle w" "Q (Inl Panic) w"
    and "\<And>e w'. same w w' \<Longrightarrow> fell_short P (db w) (db w') \<Longrightarrow> Q (Inr (Inl e)) w'"
    and "\<And>a w'. same w w' \<Longrightarrow> P a (db w) (db w') \<Longrightarrow> Q (Inr (Inr a)) w'"
  shows "wp (budgeted secs what m) Q w"
  unfolding budgeted_def wp_bind
proof (rule wp_effect)
  fix n assume "life w = Suc n"
  obtain f w1 where f: "next_fate (w\<lparr>life := n\<rparr>) = (f, w1)" by fastforce
  have i: "idle (w\<lparr>life := n\<rparr>)" using assms(2) by (simp add: idle_def)
  have s: "same w w1" "db w1 = db w" "idle w1"
    using next_fate_same [OF i f] life_same [OF assms(2), of n] same_then by auto
  obtain r w2 where o: "on_store m w1 = (r, w2)" by fastforce
  note l = on_store_lawful [OF assms(1) s(3) o]
  have s2: "same w w2" using l s(1) same_then by blast
  have short: "fell_short P (db w) (db w2)" using l s(2) by (cases r) (auto simp: fell_short_def)
  have stay: "fell_short P (db w) (db w1)" using s(2) by (simp add: fell_short_def)
  show "case Inr () of Inl e \<Rightarrow> Q (Inl e) (w\<lparr>life := n\<rparr>) | Inr a \<Rightarrow> wp (\<lambda>w. case next_fate w of
     (Prompt, w) \<Rightarrow> (case on_store m w of (r, w) \<Rightarrow> (Inr r, w))
   | (NotAdmitted e, w) \<Rightarrow> (Inr (Inl e), w)
   | (Late landed, w) \<Rightarrow> (Inr (Inl (over_budget secs what)), if landed then snd (on_store m w) else w)) Q (w\<lparr>life := n\<rparr>)"
  proof (cases f)
    case Prompt
    then show ?thesis using f o s2 l s(2) assms(4,5) short by (cases r) (auto simp: wp_def)
  next
    case (NotAdmitted e)
    then show ?thesis using f s stay assms(4) by (auto simp: wp_def)
  next
    case (Late landed)
    then show ?thesis using f o s s2 short stay assms(4) by (auto simp: wp_def)
  qed
qed (use assms(3) in simp)

lemma wp_submit_intent:
  assumes "idle w" "Q (Inl Panic) w"
    and "\<And>e w'. same w w' \<Longrightarrow> db w' = db w \<Longrightarrow> Q (Inr (Refused e)) w' \<and> Q (Inr (Replied (Inl e))) w'"
    and "\<And>i w'. same w w' \<Longrightarrow> db w' = (db w)\<lparr>broadcasts := broadcasts (db w) @ [attempt_row_of i a]\<rparr> \<Longrightarrow>
      i = fresh_id (map a_id (broadcasts (db w))) \<Longrightarrow> ai_request a \<notin> a_request ` set (broadcasts (db w)) \<Longrightarrow>
      Q (Inr (Replied (Inr i))) w' \<and> Q (Inr OutcomeUnknown) w'"
    and "\<And>w'. same w w' \<Longrightarrow> db w' = db w \<Longrightarrow> Q (Inr OutcomeUnknown) w'"
  shows "wp (submit_intent a) Q w"
  unfolding submit_intent_def wp_bind
proof (rule wp_effect)
  fix n assume "life w = Suc n"
  obtain f w1 where f: "next_fate (w\<lparr>life := n\<rparr>) = (f, w1)" by fastforce
  have i: "idle (w\<lparr>life := n\<rparr>)" using assms(1) by (simp add: idle_def)
  have s: "same w w1" "db w1 = db w" "idle w1"
    using next_fate_same [OF i f] life_same [OF assms(1), of n] same_then by auto
  obtain r w2 where o: "on_store (insert_broadcast_attempt a) w1 = (r, w2)" by fastforce
  note l = on_store_lawful [OF lawful_intent s(3) o]
  have s2: "same w w2" using l s(1) same_then by blast
  show "case Inr () of Inl e \<Rightarrow> Q (Inl e) (w\<lparr>life := n\<rparr>) | Inr u \<Rightarrow> wp (\<lambda>w. case next_fate w of
     (Prompt, w) \<Rightarrow> (case on_store (insert_broadcast_attempt a) w of (r, w) \<Rightarrow> (Inr (Replied r), w))
   | (NotAdmitted e, w) \<Rightarrow> (Inr (Refused e), w)
   | (Late landed, w) \<Rightarrow> (Inr OutcomeUnknown,
       if landed then snd (on_store (insert_broadcast_attempt a) w) else w)) Q (w\<lparr>life := n\<rparr>)"
  proof (cases f)
    case Prompt
    then show ?thesis using f o s2 l s(2) assms(3,4) by (cases r) (auto simp: wp_def)
  next
    case (NotAdmitted e)
    then show ?thesis using f s assms(3) by (auto simp: wp_def)
  next
    case (Late landed)
    then show ?thesis using f o s s2 l assms(4,5) by (cases r) (auto simp: wp_def)
  qed
qed (use assms(2) in simp)

section \<open>How the data grows\<close>

definition kept_row :: "attempt_row \<Rightarrow> attempt_row \<Rightarrow> bool" where
  "kept_row a b \<longleftrightarrow> a_id a = a_id b \<and> a_request a = a_request b \<and> a_params a = a_params b \<and> a_method a = a_method b"

definition grows :: "runway \<Rightarrow> runway \<Rightarrow> bool" where
  "grows d d' \<longleftrightarrow> (runway_ok d \<longrightarrow> runway_ok d') \<and> (uncleared d \<noteq> [] \<longrightarrow> uncleared d' \<noteq> []) \<and>
     (\<forall>a \<in> set (broadcasts d). \<exists>b \<in> set (broadcasts d'). kept_row a b) \<and>
     set (map n_nonce (consumed_nonces d)) \<subseteq> set (map n_nonce (consumed_nonces d'))"

lemma grows_refl: "grows d d"
  by (auto simp: grows_def kept_row_def)

lemma kept_trans: "kept_row a b \<Longrightarrow> kept_row b c \<Longrightarrow> kept_row a c"
  by (simp add: kept_row_def)

lemma grows_trans: "grows a b \<Longrightarrow> grows b c \<Longrightarrow> grows a c"
  unfolding grows_def using kept_trans by (meson order_trans)

lemma grows_quarantine: "grows d (d\<lparr>quarantine := quarantine d @ [quarantine_row_of i e]\<rparr>)"
  by (auto simp: grows_def runway_ok_def uncleared_def quarantine_row_of_def kept_row_def)

lemma grows_intent:
  assumes "i = fresh_id (map a_id (broadcasts d))" "ai_request a \<notin> a_request ` set (broadcasts d)"
  shows "grows d (d\<lparr>broadcasts := broadcasts d @ [attempt_row_of i a]\<rparr>)"
  using assms fresh_id_new [of _ "map a_id (broadcasts d)"]
  by (force simp: grows_def runway_ok_def uncleared_def kept_row_def attempt_row_of_def)

lemma grows_update:
  assumes "\<And>r. kept_row r (f r)"
  shows "grows d (d\<lparr>broadcasts := map f (broadcasts d)\<rparr>)"
proof -
  have "map a_id (map f (broadcasts d)) = map a_id (broadcasts d)"
    "map a_request (map f (broadcasts d)) = map a_request (broadcasts d)"
    using assms by (simp_all add: kept_row_def)
  then show ?thesis using assms by (auto simp: grows_def runway_ok_def uncleared_def simp del: map_map)
qed

lemma kept_complete: "kept_row r (complete_attempt out detail t r)" "kept_row r r"
  by (simp_all add: kept_row_def complete_attempt_def)

lemma grows_record:
  "grows d (d\<lparr>broadcasts := map (\<lambda>r. if a_id r = i then complete_attempt out detail t r else r) (broadcasts d)\<rparr>)"
  by (rule grows_update) (simp add: kept_complete)

lemma grows_nonce:
  "nonce \<notin> n_nonce ` set (consumed_nonces d) \<Longrightarrow> n_nonce row = nonce \<Longrightarrow>
    grows d (d\<lparr>consumed_nonces := consumed_nonces d @ [row]\<rparr>)"
  by (auto simp: grows_def runway_ok_def uncleared_def kept_row_def)

lemma grows_reconciled: "grows d (reconciled t d)"
proof -
  have "grows d (d\<lparr>broadcasts := map (\<lambda>r. if a_outcome r = None
      then complete_attempt AttemptAmbiguous (Some orphan_note) t r else r) (broadcasts d)\<rparr>)" (is "grows d ?m")
    by (rule grows_update) (simp add: kept_complete)
  moreover have "grows ?m (?m\<lparr>quarantine := quarantine ?m @ [quarantine_row_of i e]\<rparr>)" for i e
    by (rule grows_quarantine)
  ultimately show ?thesis
    using grows_trans grows_refl by (force simp: reconciled_def Let_def)
qed

text \<open>The calls that read, and those that let the data grow.\<close>

definition keeps :: "fee_world \<Rightarrow> fee_world \<Rightarrow> bool" where
  "keeps w w' \<longleftrightarrow> (idle w \<longrightarrow> idle w' \<and> wire_log w' = wire_log w \<and> grows (db w) (db w') \<and> (poisoned w \<longrightarrow> poisoned w'))"

interpretation kp: step_relation keeps
  by unfold_locales (auto simp: keeps_def grows_refl intro: grows_trans)

lemma same_keeps: "same w w' \<Longrightarrow> grows (db w) (db w') \<Longrightarrow> keeps w w'"
  by (simp add: keeps_def same_def)

lemma keeps_quiet: "\<not> idle w \<Longrightarrow> keeps w w'"
  by (simp add: keeps_def)

lemma steps_budgeted:
  assumes "lawful P m" "\<And>a d d'. P a d d' \<Longrightarrow> grows d d'"
  shows "steps keeps (budgeted secs what m)"
  unfolding steps_def
proof
  fix w
  show "keeps w (snd (budgeted secs what m w))"
  proof (cases "idle w")
    case True
    have "wp (budgeted secs what m) (\<lambda>r w'. keeps w w') w"
      by (rule wp_budgeted [OF assms(1) True])
        (auto simp: fell_short_def grows_refl kp.refl intro!: same_keeps intro: assms(2))
    then show ?thesis by (metis prod.collapse wpD)
  qed (rule keeps_quiet)
qed

lemma steps_simple:
  assumes "\<And>w. wstore (snd (m w)) = wstore w \<and> wire_log (snd (m w)) = wire_log w \<and> (poisoned w \<longrightarrow> poisoned (snd (m w)))"
  shows "steps keeps m"
  unfolding steps_def keeps_def idle_def db_def using assms by (simp add: grows_refl)

lemma steps_effect: "steps keeps effect"
  by (rule steps_simple) (simp add: effect_def split: nat.splits)

lemma steps_now: "steps keeps now_unix"
  by (rule steps_simple) (simp add: now_unix_def split: list.splits)

lemma steps_poison: "steps keeps poison"
  by (rule steps_simple) (simp add: poison_def)

lemma steps_map_err: "steps keeps m \<Longrightarrow> steps keeps (map_errA g m)"
  by (simp add: steps_def)

lemma steps_let: "steps keeps (\<lambda>w. (Inr (f w), w))"
  by (rule steps_simple) simp

lemmas keeps_rules = kp.steps_return kp.steps_bind kp.steps_handle steps_effect steps_now steps_poison steps_map_err steps_let

lemma steps_quarantine: "steps keeps (quarantine_for timeout r detail)"
  unfolding quarantine_for_def
  by (rule kp.steps_bind [OF steps_now], rule steps_budgeted [OF lawful_quarantine]) (simp add: grows_quarantine)

lemma steps_record: "steps keeps (record_result timeout i out detail)"
  unfolding record_result_def
  by (rule kp.steps_bind [OF steps_now], rule steps_budgeted [OF lawful_record]) (simp add: grows_record)

lemma steps_terminal: "steps keeps (settle_terminal timeout r i out detail)"
  unfolding settle_terminal_def result_persistence_unknown_def
  by (intro kp.steps_bind steps_record) (auto split: sum.splits intro!: keeps_rules steps_quarantine)

section \<open>The invariant\<close>

fun sent_id :: "wire_event \<Rightarrow> string option" where
  "sent_id (Sent r v) = Some r"
| "sent_id (Heard r out) = None"

definition sent_ids :: "wire_event list \<Rightarrow> string list" where
  "sent_ids es = List.map_filter sent_id es"

lemma sent_ids_append:
  "sent_ids (es @ [Sent r v]) = sent_ids es @ [r]"
  "sent_ids (es @ [Sent r v, Heard r out]) = sent_ids es @ [r]"
  by (simp_all add: sent_ids_def List.map_filter_def)

lemma sent_ids_Cons: "sent_ids (Sent r v # es) = r # sent_ids es" "sent_ids (Heard r out # es) = sent_ids es"
  by (simp_all add: sent_ids_def List.map_filter_def)

lemma set_sent_ids: "r \<in> set (sent_ids es) \<longleftrightarrow> (\<exists>v. Sent r v \<in> set es)"
proof (induction es)
  case Nil
  show ?case by (simp add: sent_ids_def List.map_filter_def)
next
  case (Cons e es)
  then show ?case by (cases e) (auto simp: sent_ids_Cons)
qed

definition has_intents :: "fee_world \<Rightarrow> bool" where
  "has_intents w \<longleftrightarrow> distinct (sent_ids (wire_log w)) \<and> (\<forall>r v. Sent r v \<in> set (wire_log w) \<longrightarrow>
     (\<exists>a \<in> set (broadcasts (db w)). a_request a = r \<and> a_params a = render v \<and> a_method a = SETCHANNEL_METHOD))"

definition quarantined :: "fee_world \<Rightarrow> bool" where
  "quarantined w \<longleftrightarrow> uncleared (db w) \<noteq> []"

definition orphaned :: "fee_world \<Rightarrow> bool" where
  "orphaned w \<longleftrightarrow> unresolved (db w) \<noteq> []"

text \<open>The nonces burned so far stay burned.\<close>

definition base_ok :: "string set \<Rightarrow> runway \<Rightarrow> bool" where
  "base_ok N d \<longleftrightarrow> runway_ok d \<and> N \<subseteq> n_nonce ` set (consumed_nonces d)"

lemma base_grows: "base_ok N d \<Longrightarrow> grows d d' \<Longrightarrow> base_ok N d'"
  unfolding base_ok_def grows_def set_map by blast

text \<open>At every moment; and between the batches of a living process.\<close>

definition durable_inv :: "string set \<Rightarrow> fee_world \<Rightarrow> bool" where
  "durable_inv N w \<longleftrightarrow> base_ok N (db w) \<and> has_intents w \<and> orderly (wire_log w) \<and>
     (settled_log (wire_log w) \<or> quarantined w \<or> orphaned w)"

definition alive_inv :: "string set \<Rightarrow> fee_world \<Rightarrow> bool" where
  "alive_inv N w \<longleftrightarrow> durable_inv N w \<and> idle w \<and> (settled_log (wire_log w) \<or> quarantined w \<or> poisoned w)"

definition calm :: "string set \<Rightarrow> fee_world \<Rightarrow> bool" where
  "calm N w \<longleftrightarrow> idle w \<and> base_ok N (db w) \<and> has_intents w \<and> settled_log (wire_log w)"

definition halted :: "string set \<Rightarrow> fee_world \<Rightarrow> bool" where
  "halted N w \<longleftrightarrow> idle w \<and> base_ok N (db w) \<and> has_intents w \<and> orderly (wire_log w) \<and> quarantined w"

lemma calm_alive: "calm N w \<Longrightarrow> alive_inv N w"
  by (simp add: calm_def alive_inv_def durable_inv_def settled_orderly)

lemma halted_alive: "halted N w \<Longrightarrow> alive_inv N w"
  by (simp add: halted_def alive_inv_def durable_inv_def)

lemma has_intents_keeps:
  assumes "has_intents w" "keeps w w'" "idle w"
  shows "has_intents w'"
proof -
  have k: "wire_log w' = wire_log w" "grows (db w) (db w')" using assms(2,3) by (simp_all add: keeps_def)
  show ?thesis
    unfolding has_intents_def k(1)
  proof (intro conjI allI impI)
    show "distinct (sent_ids (wire_log w))" using assms(1) by (simp add: has_intents_def)
    fix r v assume "Sent r v \<in> set (wire_log w)"
    with assms(1) obtain a where a: "a \<in> set (broadcasts (db w))" "a_request a = r" "a_params a = render v"
      "a_method a = SETCHANNEL_METHOD"
      unfolding has_intents_def by blast
    with k(2) obtain b where "b \<in> set (broadcasts (db w'))" "kept_row a b" unfolding grows_def by blast
    with a show "\<exists>a \<in> set (broadcasts (db w')). a_request a = r \<and> a_params a = render v \<and> a_method a = SETCHANNEL_METHOD"
      by (auto simp: kept_row_def)
  qed
qed

lemma calm_keeps: "calm N w \<Longrightarrow> keeps w w' \<Longrightarrow> calm N w'"
  unfolding calm_def using has_intents_keeps [of w w'] base_grows by (auto simp: keeps_def)

lemma halted_keeps: "halted N w \<Longrightarrow> keeps w w' \<Longrightarrow> halted N w'"
  unfolding halted_def using has_intents_keeps [of w w'] base_grows by (auto simp: keeps_def quarantined_def grows_def)

lemma wp_keeps: "steps keeps m \<Longrightarrow> (\<And>r w'. keeps w w' \<Longrightarrow> Q r w') \<Longrightarrow> wp m Q w"
  by (rule wp_mono [OF steps_wp])

text \<open>What a call of the broadcaster leaves behind.\<close>

definition safe_end :: "string set \<Rightarrow> (broadcast_error, 'a) result \<Rightarrow> fee_world \<Rightarrow> bool" where
  "safe_end N r w \<longleftrightarrow> durable_inv N w \<and> (r \<noteq> Inl Panic \<longrightarrow> alive_inv N w) \<and> (\<forall>a. r = Inr a \<longrightarrow> calm N w)"

lemma safe_calm: "calm N w \<Longrightarrow> safe_end N r w"
  using calm_alive by (auto simp: safe_end_def alive_inv_def)

lemma safe_halted: "halted N w \<Longrightarrow> safe_end N (Inl e) w"
  using halted_alive by (auto simp: safe_end_def alive_inv_def)

lemma wp_calm: "steps keeps m \<Longrightarrow> calm N w \<Longrightarrow> wp m (safe_end N) w"
  by (rule wp_keeps) (auto intro: safe_calm calm_keeps)

text \<open>Pending: the last request was sent, its intent is unresolved.\<close>

definition pending :: "string set \<Rightarrow> fee_world \<Rightarrow> bool" where
  "pending N w \<longleftrightarrow> idle w \<and> base_ok N (db w) \<and> has_intents w \<and> orderly (wire_log w) \<and> orphaned w"

lemma pending_durable: "pending N w \<Longrightarrow> durable_inv N w"
  by (simp add: pending_def durable_inv_def)

lemma wp_now:
  assumes "\<And>t w'. same w w' \<Longrightarrow> db w' = db w \<Longrightarrow> Q (Inr t) w'" "idle w"
  shows "wp now_unix Q w"
  using assms by (auto simp: wp_def now_unix_def same_def idle_def db_def split: list.splits)

lemma pending_same:
  assumes "pending N w" "same w w'" "grows (db w) (db w')" "unresolved (db w') = unresolved (db w)"
  shows "pending N w'"
  using assms has_intents_keeps [OF _ same_keeps [OF assms(2,3)]] base_grows [OF _ assms(3)]
  by (auto simp: pending_def same_def orphaned_def)

lemma wp_quarantine_pending:
  assumes "pending N w" "\<And>w'. pending N w' \<Longrightarrow> Q (Inl Panic) w'" "\<And>e w'. pending N w' \<Longrightarrow> Q (Inr (Inl e)) w'"
    and "\<And>i w'. halted N w' \<Longrightarrow> Q (Inr (Inr i)) w'"
  shows "wp (quarantine_for timeout r detail) Q w"
  unfolding quarantine_for_def wp_bind
proof (rule wp_now)
  fix t w1 assume s: "same w w1" "db w1 = db w"
  have p: "pending N w1" by (rule pending_same [OF assms(1) s(1)]) (simp_all add: s grows_refl)
  let ?e = "\<lparr>qe_reason = ''ambiguous post-submission transport outcome: '' @ detail,
          qe_cycle = None, qe_channel = Some (pr_channel r), qe_request = Some (pr_request r), qe_entered = t\<rparr>"
  have "wp (budgeted (store_budget timeout) ''the execution-quarantine write'' (insert_quarantine ?e)) Q w1"
  proof (rule wp_budgeted [OF lawful_quarantine])
    show "idle w1" using p by (simp add: pending_def)
    show "Q (Inl Panic) w1" by (rule assms(2) [OF p])
  next
    fix e w2 assume c: "same w1 w2"
      "fell_short (\<lambda>i d d'. d' = d\<lparr>quarantine := quarantine d @ [quarantine_row_of i ?e]\<rparr>) (db w1) (db w2)"
    have "grows (db w1) (db w2)" "unresolved (db w2) = unresolved (db w1)"
      using c(2) grows_refl grows_quarantine by (auto simp: fell_short_def unresolved_def)
    then show "Q (Inr (Inl e)) w2" using assms(3) pending_same [OF p c(1)] by blast
  next
    fix i w2 assume c: "same w1 w2" "db w2 = db w1\<lparr>quarantine := quarantine (db w1) @ [quarantine_row_of i ?e]\<rparr>"
    have g: "grows (db w1) (db w2)" "unresolved (db w2) = unresolved (db w1)"
      using c(2) grows_quarantine by (auto simp: unresolved_def)
    have "quarantined w2" by (simp add: quarantined_def c(2) uncleared_def quarantine_row_of_def)
    with pending_same [OF p c(1) g] have "halted N w2" by (simp add: pending_def halted_def)
    then show "Q (Inr (Inr i)) w2" by (rule assms(4))
  qed
  then show "case Inr t of Inl e \<Rightarrow> Q (Inl e) w1
      | Inr t \<Rightarrow> wp (budgeted (store_budget timeout) ''the execution-quarantine write''
         (insert_quarantine \<lparr>qe_reason = ''ambiguous post-submission transport outcome: '' @ detail,
          qe_cycle = None, qe_channel = Some (pr_channel r), qe_request = Some (pr_request r), qe_entered = t\<rparr>)) Q w1"
    by simp
qed (use assms(1) in \<open>simp add: pending_def\<close>)

lemma pending_poisoned: "pending N w \<Longrightarrow> safe_end N (Inl e) (w\<lparr>poisoned := True\<rparr>)"
  by (auto simp: safe_end_def pending_def durable_inv_def alive_inv_def idle_def db_def has_intents_def
      quarantined_def orphaned_def)

lemma after_quarantine_fails: "after_quarantine timeout r i detail q w = (x, w') \<Longrightarrow> \<exists>e. x = Inl e"
  by (cases x) (auto simp: after_quarantine_def bindA_eq_Inr split: sum.splits, metis old.sum.exhaust old.unit.exhaust)

lemma wp_after_quarantine:
  assumes "case q of Inl e \<Rightarrow> pending N w | Inr i \<Rightarrow> halted N w"
  shows "wp (after_quarantine timeout r i detail q) (safe_end N) w"
proof (cases q)
  case (Inl e)
  then show ?thesis using assms by (simp add: after_quarantine_def wp_bind wp_fail) (simp add: wp_def poison_def pending_poisoned)
next
  case (Inr j)
  have st: "steps keeps (after_quarantine timeout r i detail (Inr j))"
    by (auto simp: after_quarantine_def intro!: keeps_rules steps_record split: sum.splits)
  have "halted N w" using assms Inr by simp
  then show ?thesis
    unfolding Inr by (intro wpI) (metis after_quarantine_fails halted_keeps safe_halted st stepsD)
qed

lemma wp_settle_ambiguous: "pending N w \<Longrightarrow> wp (settle_ambiguous timeout r i detail) (safe_end N) w"
  unfolding settle_ambiguous_def wp_bind
  by (rule wp_quarantine_pending)
    (auto intro: wp_after_quarantine simp: safe_end_def pending_durable)

section \<open>Sending\<close>

lemma wp_attempt_send:
  assumes "idle w" "Q (Inl Panic) w"
    and "\<And>w' d. same w w' \<Longrightarrow> db w' = db w \<Longrightarrow> Q (Inr (SendClean d)) w'"
    and "\<And>w'. idle w' \<Longrightarrow> db w' = db w \<Longrightarrow> poisoned w' = poisoned w \<Longrightarrow>
      wire_log w' = wire_log w @ [Sent (pr_request r) (to_params (pr_params r))] \<Longrightarrow> Q (Inl Panic) w'"
    and "\<And>w' out. idle w' \<Longrightarrow> db w' = db w \<Longrightarrow> poisoned w' = poisoned w \<Longrightarrow>
      wire_log w' = (wire_log w @ [Sent (pr_request r) (to_params (pr_params r))]) @ [Heard (pr_request r) out] \<Longrightarrow>
      (\<And>d. out \<noteq> SendClean d) \<Longrightarrow> Q (Inr out) w'"
  shows "wp (attempt_send r) Q w"
  unfolding attempt_send_def wp_bind
proof (rule wp_effect)
  fix n assume "life w = Suc n"
  obtain x w1 where x: "next_wire (w\<lparr>life := n\<rparr>) = (x, w1)" by fastforce
  have s: "same w w1" "db w1 = db w"
    using x assms(1) by (auto simp: next_wire_def same_def idle_def db_def split: list.splits)
  show "case Inr () of Inl e \<Rightarrow> Q (Inl e) (w\<lparr>life := n\<rparr>) | Inr u \<Rightarrow>
      wp (\<lambda>w. case next_wire w of (x, w) \<Rightarrow> (Inr x, w)) (\<lambda>r' t. case r' of Inl e \<Rightarrow> Q (Inl e) t
       | Inr x \<Rightarrow> wp (if connects x then
       bindA (say_sent r) (\<lambda>_. bindA effect (\<lambda>_. bindA (say_heard r (classify_wire x)) (\<lambda>_. returnA (classify_wire x))))
       else returnA (classify_wire x)) Q t) (w\<lparr>life := n\<rparr>)"
  proof (cases "connects x")
    case False
    then have "\<exists>d. classify_wire x = SendClean d" by (cases x) auto
    then show ?thesis using x False s assms(3) by (auto simp: wp_def)
  next
    case True
    then have c: "classify_wire x \<noteq> SendClean d" for d by (cases x rule: classify_wire.cases) auto
    define w2 where "w2 = w1\<lparr>wire_log := wire_log w1 @ [Sent (pr_request r) (to_params (pr_params r))]\<rparr>"
    have w2: "idle w2" "db w2 = db w" "poisoned w2 = poisoned w"
      "wire_log w2 = wire_log w @ [Sent (pr_request r) (to_params (pr_params r))]"
      using s by (simp_all add: w2_def idle_def db_def same_def)
    have "wp effect (\<lambda>r' t. case r' of Inl e \<Rightarrow> Q (Inl e) t
       | Inr u \<Rightarrow> wp (bindA (say_heard r (classify_wire x)) (\<lambda>_. returnA (classify_wire x))) Q t) w2"
      by (rule wp_effect)
        (use assms(4) [OF w2] assms(5) c w2 in \<open>auto simp: wp_def bindA_def say_heard_def idle_def db_def\<close>)
    then show ?thesis using x True by (simp add: wp_def [of "\<lambda>w. case next_wire w of (x, w) \<Rightarrow> (Inr x, w)"] wp_bind)
        (simp add: wp_def [of "say_sent r"] say_sent_def w2_def wp_bind)
  qed
qed (use assms(2) in simp)

lemma say_pending:
  assumes "calm N w0" "idle w" "grows (db w0) (db w)" "orphaned w"
    and "a \<in> set (broadcasts (db w))" "a_request a = r" "a_params a = render v" "a_method a = SETCHANNEL_METHOD"
    and "wire_log w = wire_log w0 @ [Sent r v] \<or> (\<exists>out. wire_log w = (wire_log w0 @ [Sent r v]) @ [Heard r out])"
    and "r \<notin> a_request ` set (broadcasts (db w0))"
  shows "pending N w"
proof -
  have c: "base_ok N (db w0)" "has_intents w0" "settled_log (wire_log w0)" using assms(1) by (auto simp: calm_def)
  have "has_intents w"
    unfolding has_intents_def
  proof (intro conjI allI impI)
    have "r \<notin> set (sent_ids (wire_log w0))"
      using c(2) assms(10) unfolding has_intents_def set_sent_ids by blast
    then show "distinct (sent_ids (wire_log w))"
      using c(2) assms(9) by (auto simp: has_intents_def sent_ids_append)
    fix r' v' assume "Sent r' v' \<in> set (wire_log w)"
    then consider "Sent r' v' \<in> set (wire_log w0)" | "r' = r" "v' = v" using assms(9) by auto
    then show "\<exists>a \<in> set (broadcasts (db w)). a_request a = r' \<and> a_params a = render v' \<and> a_method a = SETCHANNEL_METHOD"
    proof cases
      case 1
      with c(2) obtain b where "b \<in> set (broadcasts (db w0))" "a_request b = r'" "a_params b = render v'" "a_method b = SETCHANNEL_METHOD"
        unfolding has_intents_def by blast
      then show ?thesis using assms(3) unfolding grows_def kept_row_def by metis
    qed (use assms(5-8) in auto)
  qed
  moreover have "orderly (wire_log w)" using assms(9) orderly_sent [OF c(3)] orderly_heard [OF c(3)] by auto
  ultimately show ?thesis using assms(2-4) base_grows [OF c(1) assms(3)] by (simp add: pending_def)
qed

lemma steps_after_definite:
  assumes "\<And>d. out \<noteq> SendAmbiguous d"
  shows "steps keeps (after_send timeout r i out)"
  using assms by (cases out) (auto simp: after_send_def intro!: keeps_rules steps_terminal)

lemma wp_after_intent:
  assumes "calm N w0" "same w0 w" "i = fresh_id (map a_id (broadcasts (db w0)))"
    and "db w = (db w0)\<lparr>broadcasts := broadcasts (db w0) @ [attempt_row_of i (intent_of r t)]\<rparr>"
    and "pr_request r \<notin> a_request ` set (broadcasts (db w0))"
  shows "wp (bindA (attempt_send r) (after_send timeout r i)) (safe_end N) w"
proof -
  define row where "row = attempt_row_of i (intent_of r t)"
  have g: "grows (db w0) (db w)"
    unfolding assms(4) by (rule grows_intent) (use assms(3,5) in \<open>simp_all add: intent_of_def\<close>)
  have calm: "calm N w" by (rule calm_keeps [OF assms(1) same_keeps [OF assms(2) g]])
  have row: "row \<in> set (broadcasts (db w))" "a_request row = pr_request r"
    "a_params row = render (to_params (pr_params r))" "a_method row = SETCHANNEL_METHOD" "row \<in> set (unresolved (db w))"
    by (simp_all add: row_def assms(4) attempt_row_of_def intent_of_def unresolved_def)
  have idle: "idle w" and log: "wire_log w = wire_log w0" using assms(2) by (simp_all add: same_def)
  have pend: "pending N w'" if "idle w'" "db w' = db w"
    "wire_log w' = wire_log w @ [Sent (pr_request r) (to_params (pr_params r))] \<or>
     (\<exists>out. wire_log w' = (wire_log w @ [Sent (pr_request r) (to_params (pr_params r))]) @ [Heard (pr_request r) out])" for w'
  proof (rule say_pending [OF assms(1) that(1) _ _ _ row(2-4)])
    show "orphaned w'" using row(5) by (auto simp: orphaned_def that(2))
  qed (use that g row log assms(5) in auto)
  show ?thesis
    unfolding wp_bind
  proof (rule wp_attempt_send [OF idle])
    show "case Inl Panic of Inl e \<Rightarrow> safe_end N (Inl e) w | Inr a \<Rightarrow> wp (after_send timeout r i a) (safe_end N) w"
      using safe_calm [OF calm] by simp
  next
    fix w' d assume "same w w'" "db w' = db w"
    then have "calm N w'" using calm calm_keeps same_keeps grows_refl by metis
    then show "case Inr (SendClean d) of Inl e \<Rightarrow> safe_end N (Inl e) w' | Inr a \<Rightarrow> wp (after_send timeout r i a) (safe_end N) w'"
      using wp_calm [OF steps_after_definite] by simp
  next
    fix w' assume "idle w'" "db w' = db w" "wire_log w' = wire_log w @ [Sent (pr_request r) (to_params (pr_params r))]"
    then show "case Inl Panic of Inl e \<Rightarrow> safe_end N (Inl e) w' | Inr a \<Rightarrow> wp (after_send timeout r i a) (safe_end N) w'"
      using pending_durable [OF pend [of w']] by (simp add: safe_end_def)
  next
    fix w' out
    assume a: "idle w'" "db w' = db w" "\<And>d. out \<noteq> SendClean d"
      "wire_log w' = (wire_log w @ [Sent (pr_request r) (to_params (pr_params r))]) @ [Heard (pr_request r) out]"
    have p: "pending N w'" by (rule pend) (use a in auto)
    show "case Inr out of Inl e \<Rightarrow> safe_end N (Inl e) w' | Inr x \<Rightarrow> wp (after_send timeout r i x) (safe_end N) w'"
    proof (cases "\<exists>d. out = SendAmbiguous d")
      case True
      then show ?thesis using wp_settle_ambiguous [OF p] by (auto simp: after_send_def)
    next
      case False
      then have "definite out" using a(3) by (cases out) auto
      then have "settled_log (wire_log w')"
        unfolding a(4) by (rule settled_heard [rotated]) (use calm in \<open>simp add: calm_def\<close>)
      then have "calm N w'" using p by (simp add: calm_def pending_def)
      then show ?thesis using False wp_calm [OF steps_after_definite] by simp
    qed
  qed
qed

lemma wp_send_one:
  assumes "calm N w"
  shows "wp (send_one timeout r) (safe_end N) w"
  unfolding send_one_def wp_bind
proof (rule wp_now)
  fix t w1 assume s: "same w w1" "db w1 = db w"
  have c: "calm N w1" by (rule calm_keeps [OF assms same_keeps [OF s(1)]]) (simp add: s(2) grows_refl)
  then have "idle w1" by (simp add: calm_def)
  have "wp (submit_intent (intent_of r t)) (\<lambda>rc w2. case rc of Inl e \<Rightarrow> safe_end N (Inl e) w2
      | Inr rc \<Rightarrow> wp (after_intent timeout r rc) (safe_end N) w2) w1"
  proof (rule wp_submit_intent [OF \<open>idle w1\<close>])
    show "case Inl Panic of Inl e \<Rightarrow> safe_end N (Inl e) w1 | Inr rc \<Rightarrow> wp (after_intent timeout r rc) (safe_end N) w1"
      using safe_calm [OF c] by simp
  next
    fix e w2 assume "same w1 w2" "db w2 = db w1"
    then have "calm N w2" using c calm_keeps same_keeps grows_refl by metis
    then show "(case Inr (Refused e) of Inl e \<Rightarrow> safe_end N (Inl e) w2 | Inr rc \<Rightarrow> wp (after_intent timeout r rc) (safe_end N) w2) \<and>
        (case Inr (Replied (Inl e)) of Inl e \<Rightarrow> safe_end N (Inl e) w2 | Inr rc \<Rightarrow> wp (after_intent timeout r rc) (safe_end N) w2)"
      by (auto simp: after_intent_def wp_fail intro: safe_calm)
  next
    fix i w2
    assume a: "same w1 w2" "db w2 = (db w1)\<lparr>broadcasts := broadcasts (db w1) @ [attempt_row_of i (intent_of r t)]\<rparr>"
      "i = fresh_id (map a_id (broadcasts (db w1)))" "ai_request (intent_of r t) \<notin> a_request ` set (broadcasts (db w1))"
    have "pr_request r \<notin> a_request ` set (broadcasts (db w1))" using a(4) by (simp add: intent_of_def)
    note sent = wp_after_intent [OF c a(1,3,2) this]
    have "keeps w1 w2" by (rule same_keeps [OF a(1)]) (use a in \<open>simp add: grows_intent\<close>)
    then have "calm N w2" by (rule calm_keeps [OF c])
    moreover have "steps keeps (after_intent timeout r OutcomeUnknown)"
      by (auto simp: after_intent_def intro!: keeps_rules steps_quarantine)
    ultimately show "(case Inr (Replied (Inr i)) of Inl e \<Rightarrow> safe_end N (Inl e) w2 | Inr rc \<Rightarrow> wp (after_intent timeout r rc) (safe_end N) w2) \<and>
        (case Inr OutcomeUnknown of Inl e \<Rightarrow> safe_end N (Inl e) w2 | Inr rc \<Rightarrow> wp (after_intent timeout r rc) (safe_end N) w2)"
      using sent wp_calm by (simp add: after_intent_def)
  next
    fix w2 assume "same w1 w2" "db w2 = db w1"
    then have "calm N w2" using c calm_keeps same_keeps grows_refl by metis
    moreover have "steps keeps (after_intent timeout r OutcomeUnknown)"
      by (auto simp: after_intent_def intro!: keeps_rules steps_quarantine)
    ultimately show "case Inr OutcomeUnknown of Inl e \<Rightarrow> safe_end N (Inl e) w2 | Inr rc \<Rightarrow> wp (after_intent timeout r rc) (safe_end N) w2"
      using wp_calm by simp
  qed
  then show "case Inr t of Inl e \<Rightarrow> safe_end N (Inl e) w1 | Inr t \<Rightarrow> wp (submit_intent (intent_of r t)) (\<lambda>rc w2. case rc of Inl e \<Rightarrow> safe_end N (Inl e) w2
      | Inr rc \<Rightarrow> wp (after_intent timeout r rc) (safe_end N) w2) w1" by simp
qed (use assms in \<open>simp add: calm_def\<close>)

lemma safe_endD: "safe_end N (Inr a) w \<Longrightarrow> calm N w"
  by (simp add: safe_end_def)

lemma safe_end_err: "safe_end N (Inl e :: (broadcast_error, 'a) result) w \<Longrightarrow> safe_end N (Inl e :: (broadcast_error, 'b) result) w"
  by (simp add: safe_end_def)

lemma wp_send_all: "calm N w \<Longrightarrow> wp (send_all timeout rs outs) (safe_end N) w"
proof (induction rs arbitrary: outs w)
  case Nil
  then show ?case by (simp add: wp_Pair safe_calm)
next
  case (Cons r rs)
  show ?case
    unfolding send_all.simps
    by (rule wp_seq [OF wp_send_one [OF Cons.prems]]) (blast intro: Cons.IH safe_end_err dest: safe_endD)+
qed

section \<open>Reading\<close>

text \<open>What only reads leaves the data, the log and the flag alone.\<close>

definition reads :: "fee_world \<Rightarrow> fee_world \<Rightarrow> bool" where
  "reads w w' \<longleftrightarrow> (idle w \<longrightarrow> idle w' \<and> wire_log w' = wire_log w \<and> poisoned w' = poisoned w \<and>
     grows (db w) (db w') \<and> broadcasts (db w') = broadcasts (db w) \<and> quarantine (db w') = quarantine (db w))"

interpretation rd: step_relation reads
  by unfold_locales (auto simp: reads_def grows_refl intro: grows_trans)

lemma reads_simple:
  assumes "\<And>w. wstore (snd (m w)) = wstore w \<and> wire_log (snd (m w)) = wire_log w \<and> poisoned (snd (m w)) = poisoned w"
  shows "steps reads m"
  unfolding steps_def reads_def idle_def db_def using assms by (simp add: grows_refl)

lemma reads_same: "same w w' \<Longrightarrow> grows (db w) (db w') \<Longrightarrow> broadcasts (db w') = broadcasts (db w) \<Longrightarrow>
    quarantine (db w') = quarantine (db w) \<Longrightarrow> reads w w'"
  by (simp add: reads_def same_def)

lemma reads_budgeted:
  assumes "lawful P m" "\<And>a d d'. P a d d' \<Longrightarrow> d' = d"
  shows "steps reads (budgeted secs what m)"
  unfolding steps_def
proof
  fix w
  show "reads w (snd (budgeted secs what m w))"
  proof (cases "idle w")
    case True
    have "wp (budgeted secs what m) (\<lambda>r w'. reads w w') w"
      by (rule wp_budgeted [OF assms(1) True])
        (auto simp: fell_short_def rd.refl grows_refl intro!: reads_same dest: assms(2))
    then show ?thesis by (metis prod.collapse wpD)
  qed (simp add: reads_def)
qed

lemma reads_effect: "steps reads effect"
  by (rule reads_simple) (simp add: effect_def split: nat.splits)

lemma reads_map_err: "steps reads m \<Longrightarrow> steps reads (map_errA g m)"
  by (simp add: steps_def)

lemma reads_active: "steps reads (budgeted secs what active_quarantine)"
  by (rule reads_budgeted [OF lawful_active]) simp

lemma reads_generation: "steps reads (budgeted secs what current_state_generation)"
  by (rule reads_budgeted [OF lawful_generation]) simp

lemma reads_status: "steps reads (fetch_validated_status now max_age)"
  unfolding fetch_validated_status_def
  by (rule rd.steps_bind [OF reads_effect], rule reads_simple)
    (simp add: next_status_def split: list.splits status_reply.splits prod.splits)

lemmas reads_rules = rd.steps_return rd.steps_bind rd.steps_handle reads_map_err reads_active reads_generation reads_status

lemma reads_authorize: "steps reads (authorize_batch c g age b now ok code res)"
  unfolding authorize_batch_def close_bracket_def
  by (auto intro!: reads_rules split: sum.splits option.splits)

lemma reads_open: "steps reads (open_authority_bracket now max_age)"
  unfolding open_authority_bracket_def by (auto intro!: reads_rules)

lemma reads_fs: "steps reads (fs_step what)"
  unfolding fs_step_def
  by (rule rd.steps_bind [OF reads_effect], rule reads_simple)
    (simp add: next_fs_error_def split: list.splits option.splits prod.splits)

lemma reads_rename: "steps reads (rename_arm nonce)"
  unfolding rename_arm_def
  by (rule rd.steps_bind [OF reads_effect], rule reads_simple)
    (auto simp: next_fs_error_def split: list.splits option.splits prod.splits)

lemma reads_consume: "steps reads (consume_validated arm)"
  unfolding consume_validated_def by (intro reads_rules reads_fs reads_rename)

lemma reads_on_store:
  assumes "lawful P m" "\<And>a d d'. P a d d' \<Longrightarrow> grows d d' \<and> broadcasts d' = broadcasts d \<and> quarantine d' = quarantine d" "on_store m w = (r, w')"
  shows "reads w w'"
proof (cases "idle w")
  case True
  from on_store_lawful [OF assms(1) True assms(3)] assms(2) show ?thesis
    by (cases r) (auto intro!: reads_same simp: grows_refl)
qed (simp add: reads_def)

lemma reads_burn: "steps reads (burn_nonce arm now)"
  unfolding burn_nonce_def
proof (rule rd.steps_bind [OF reads_effect])
  let ?m = "insert_consumed_nonce (arm_nonce arm) now (arm_commit arm) (arm_binary arm) (arm_expires arm)"
  show "steps reads (\<lambda>w. case next_fate w of
     (Prompt, w) \<Rightarrow> (case on_store ?m w of (r, w) \<Rightarrow> (Inr r, w))
   | (NotAdmitted e, w) \<Rightarrow> (Inr (Inl e), w)
   | (Late landed, w) \<Rightarrow> (Inr (Inl ''observer actor dropped reply''), if landed then snd (on_store ?m w) else w))"
    unfolding steps_def
  proof
    fix w
    obtain f w1 where f: "next_fate w = (f, w1)" by fastforce
    have k1: "reads w w1"
      using f by (auto simp: next_fate_def reads_def idle_def db_def grows_refl split: list.splits)
    obtain r w2 where o: "on_store ?m w1 = (r, w2)" by fastforce
    have "reads w1 w2"
      by (rule reads_on_store [OF lawful_nonce _ o]) (auto simp: grows_refl grows_nonce split: if_splits)
    then have k2: "reads w w2" using k1 rd.trans by blast
    show "reads w (snd (case next_fate w of
     (Prompt, w) \<Rightarrow> (case on_store ?m w of (r, w) \<Rightarrow> (Inr r, w))
   | (NotAdmitted e, w) \<Rightarrow> (Inr (Inl e), w)
   | (Late landed, w) \<Rightarrow> (Inr (Inl ''observer actor dropped reply''), if landed then snd (on_store ?m w) else w)))"
      using f o k1 k2 by (cases f) auto
  qed
qed

lemma reads_startup: "steps reads (resolve_startup_mode_kernel inp)"
  unfolding resolve_startup_mode_kernel_def consume_arm_def
  by (auto intro!: reads_rules reads_burn reads_consume split: option.splits sum.splits prod.splits bool.splits)

lemma has_intents_cong: "wire_log w' = wire_log w \<Longrightarrow> db w' = db w \<Longrightarrow> has_intents w' = has_intents w"
  by (simp add: has_intents_def)

lemma has_intents_reads: "wire_log w' = wire_log w \<Longrightarrow> broadcasts (db w') = broadcasts (db w) \<Longrightarrow> has_intents w' = has_intents w"
  by (simp add: has_intents_def)

lemma durable_reads: "durable_inv N w \<Longrightarrow> idle w \<Longrightarrow> reads w w' \<Longrightarrow> durable_inv N w' \<and> idle w'"
  using has_intents_reads [of w' w] base_grows [of N "db w" "db w'"]
  by (auto simp: durable_inv_def reads_def quarantined_def orphaned_def uncleared_def unresolved_def)

lemma alive_reads:
  assumes "alive_inv N w" "reads w w'"
  shows "alive_inv N w'"
proof -
  have i: "idle w" "durable_inv N w" using assms(1) by (simp_all add: alive_inv_def)
  have "wire_log w' = wire_log w" "poisoned w' = poisoned w" "quarantined w' = quarantined w"
    using assms(2) i(1) by (simp_all add: reads_def quarantined_def uncleared_def)
  then show ?thesis using assms(1) durable_reads [OF i(2,1) assms(2)] by (simp add: alive_inv_def)
qed

section \<open>Batches and processes\<close>

definition alive_end :: "string set \<Rightarrow> ('e, 'a) result \<Rightarrow> fee_world \<Rightarrow> bool" where
  "alive_end N r w \<longleftrightarrow> durable_inv N w \<and> (r \<noteq> Inl Panic \<longrightarrow> alive_inv N w)"

lemma alive_endI: "alive_inv N w \<Longrightarrow> alive_end N r w"
  by (simp add: alive_end_def alive_inv_def)

lemma safe_alive_end: "safe_end N r w \<Longrightarrow> alive_end N r w"
  by (simp add: alive_end_def safe_end_def)

lemma wp_broadcast:
  assumes "alive_inv N w"
  shows "wp (broadcast_batch timeout age rs) (alive_end N) w"
proof (cases "poisoned w \<or> AUTHORIZATION_DISPATCH_FRESHNESS < age")
  case True
  then show ?thesis using alive_endI [OF assms] by (auto simp: broadcast_batch_def wp_def bindA_def)
next
  case False
  have i: "idle w" using assms by (simp add: alive_inv_def)
  have "wp (budgeted (store_budget timeout) ''the send-path active-quarantine read'' active_quarantine)
    (\<lambda>r w'. case r of Inl e \<Rightarrow> alive_end N (Inl e) w' | Inr q \<Rightarrow> wp (case q of Inl e \<Rightarrow> failA (BcPersistence e)
       | Inr (Some _) \<Rightarrow> failA BcQuarantined | Inr None \<Rightarrow> send_all timeout rs []) (alive_end N) w') w"
  proof (rule wp_budgeted [OF lawful_active i])
    show "case Inl Panic of Inl e \<Rightarrow> alive_end N (Inl e) w | Inr q \<Rightarrow> wp (case q of Inl e \<Rightarrow> failA (BcPersistence e)
       | Inr (Some _) \<Rightarrow> failA BcQuarantined | Inr None \<Rightarrow> send_all timeout rs []) (alive_end N) w"
      using alive_endI [OF assms] by simp
  next
    fix e w' assume "same w w'" "fell_short (\<lambda>a d d'. a = newest_row (uncleared d) \<and> d' = d) (db w) (db w')"
    then have "alive_inv N w'" using assms alive_reads [of N w w'] reads_same [of w w'] by (auto simp: fell_short_def grows_refl)
    then show "case Inr (Inl e) of Inl e \<Rightarrow> alive_end N (Inl e) w' | Inr q \<Rightarrow> wp (case q of Inl e \<Rightarrow> failA (BcPersistence e)
       | Inr (Some _) \<Rightarrow> failA BcQuarantined | Inr None \<Rightarrow> send_all timeout rs []) (alive_end N) w'"
      by (simp add: wp_Pair wp_def alive_endI)
  next
    fix a w' assume c: "same w w'" "a = newest_row (uncleared (db w)) \<and> db w' = db w"
    then have alive: "alive_inv N w'" using assms alive_reads [of N w w'] reads_same [of w w'] by (simp add: grows_refl)
    show "case Inr (Inr a) of Inl e \<Rightarrow> alive_end N (Inl e) w' | Inr q \<Rightarrow> wp (case q of Inl e \<Rightarrow> failA (BcPersistence e)
       | Inr (Some _) \<Rightarrow> failA BcQuarantined | Inr None \<Rightarrow> send_all timeout rs []) (alive_end N) w'"
    proof (cases a)
      case (Some q)
      then show ?thesis using alive by (simp add: wp_def alive_endI)
    next
      case None
      then have "uncleared (db w') = []" using c(2) newest_row_None by metis
      then have "\<not> quarantined w'" "\<not> poisoned w'" using c(1) False by (simp_all add: quarantined_def same_def)
      then have "calm N w'" using alive by (auto simp: alive_inv_def durable_inv_def calm_def)
      then show ?thesis using None wp_mono [OF wp_send_all safe_alive_end] by simp
    qed
  qed
  then have "wp (bindA (budgeted (store_budget timeout) ''the send-path active-quarantine read'' active_quarantine) (\<lambda>q.
      case q of Inl e \<Rightarrow> failA (BcPersistence e) | Inr (Some _) \<Rightarrow> failA BcQuarantined
      | Inr None \<Rightarrow> send_all timeout rs [])) (alive_end N) w"
    unfolding wp_bind .
  moreover have "broadcast_batch timeout age rs w = bindA (budgeted (store_budget timeout)
      ''the send-path active-quarantine read'' active_quarantine) (\<lambda>q.
      case q of Inl e \<Rightarrow> failA (BcPersistence e) | Inr (Some _) \<Rightarrow> failA BcQuarantined
      | Inr None \<Rightarrow> send_all timeout rs []) w"
    using False unfolding broadcast_batch_def
    by (subst bindA_run(1) [of _ _ "poisoned w" w]) simp_all
  ultimately show ?thesis by (simp only: wp_def)
qed

lemma wp_map_err: "wp m (alive_end N) w \<Longrightarrow> wp (map_errA g m) (alive_end N) w"
  unfolding wp_iff by (auto simp: alive_end_def elim!: map_errA_cases)

lemma wp_run_batch:
  assumes "alive_inv N w"
  shows "wp (run_batch timeout b) (alive_end N) w"
  unfolding run_batch_def
proof (rule wp_seq [OF steps_wp [OF reads_map_err [OF reads_open]]])
  fix bracket w1 assume "reads w w1"
  then have a1: "alive_inv N w1" by (rule alive_reads [OF assms])
  show "wp (bindA (map_errA (\<lambda>_. ''authorization'') (authorize_batch (bp_candidate b) (bp_generation b)
       (bp_bracket_age b) bracket (bp_now b) (bp_governor_ok b) (bp_governor_code b) (bp_reservation b))) (\<lambda>_.
     map_errA (\<lambda>_. ''broadcast'') (broadcast_batch timeout (bp_dispatch_age b) (bp_requests b)))) (alive_end N) w1"
    by (rule wp_seq [OF steps_wp [OF reads_map_err [OF reads_authorize]]])
      (blast intro: alive_endI alive_reads [OF a1] wp_map_err wp_broadcast)+
qed (blast intro: alive_endI alive_reads [OF assms])

lemma wp_run_batches: "alive_inv N w \<Longrightarrow> wp (run_batches timeout bs) (alive_end N) w"
proof (induction bs arbitrary: w)
  case Nil
  then show ?case by (simp add: wp_Pair alive_endI)
next
  case (Cons b bs)
  show ?case
    unfolding run_batches.simps wp_handle
    by (rule wp_mono [OF wp_run_batch [OF Cons.prems]])
      (auto simp: alive_end_def wp_lift intro: Cons.IH split: sum.splits fault.splits)
qed

lemma reconciled_inv:
  assumes "durable_inv N w" "wire_log w' = wire_log w" "db w' = reconciled t (db w)"
  shows "durable_inv N w'" "settled_log (wire_log w') \<or> quarantined w'"
proof -
  have g: "grows (db w) (db w')" unfolding assms(3) by (rule grows_reconciled)
  define v where "v = w\<lparr>wstore := (wstore w)\<lparr>txn := None\<rparr>\<rparr>"
  define v' where "v' = w'\<lparr>wstore := (wstore w')\<lparr>txn := None\<rparr>, poisoned := poisoned w\<rparr>"
  have "keeps v v'" using g assms(2) by (simp add: keeps_def v_def v'_def idle_def db_def)
  moreover have "has_intents v" "idle v" using assms(1) by (simp_all add: durable_inv_def v_def has_intents_def db_def idle_def)
  ultimately have "has_intents v'" using has_intents_keeps by blast
  then have h: "has_intents w'" by (simp add: v'_def has_intents_def db_def)
  show q: "settled_log (wire_log w') \<or> quarantined w'"
    using assms reconciled_quarantined by (auto simp: durable_inv_def quarantined_def orphaned_def base_ok_def)
  show "durable_inv N w'" using h q base_grows [OF _ g] assms(1,2) by (auto simp: durable_inv_def)
qed

lemma durable_cong: "durable_inv N w \<Longrightarrow> wire_log w' = wire_log w \<Longrightarrow> db w' = db w \<Longrightarrow> durable_inv N w'"
  using has_intents_cong [of w' w] by (simp add: durable_inv_def quarantined_def orphaned_def)

lemma on_store_reconcile:
  assumes "durable_inv N w" "on_store (reconcile_quarantine_on_restart t) w = (r, w')"
  shows "durable_inv N w'" "\<And>n. r = Inr n \<Longrightarrow> idle w' \<and> (settled_log (wire_log w') \<or> quarantined w')"
proof -
  obtain q c where m: "reconcile_quarantine_on_restart t (wstore w) = (q, c)" by fastforce
  have ok: "runway_ok (disk (wstore w))" using assms(1) by (simp add: durable_inv_def base_ok_def db_def)
  have w': "wire_log w' = wire_log w" "wstore w' = c"
    using assms(2) m by (auto simp: on_store_def split: sum.splits fault.splits)
  have "durable_inv N w' \<and> (\<forall>n. r = Inr n \<longrightarrow> idle w' \<and> (settled_log (wire_log w') \<or> quarantined w'))"
    using reconcile_result [OF m ok]
  proof
    assume "\<exists>e. q = Inl e \<and> disk c = disk (wstore w)"
    then obtain e where e: "q = Inl e" "disk c = disk (wstore w)" by blast
    have "\<And>n. r \<noteq> Inr n" using assms(2) m e(1) by (auto simp: on_store_def split: fault.splits)
    moreover have "durable_inv N w'" by (rule durable_cong [OF assms(1) w'(1)]) (simp add: db_def w'(2) e(2))
    ultimately show ?thesis by blast
  next
    assume q: "q = Inr (length (unresolved (disk (wstore w)))) \<and> disk c = reconciled t (disk (wstore w)) \<and> txn c = None"
    then have "db w' = reconciled t (db w)" by (simp add: db_def w'(2))
    from reconciled_inv [OF assms(1) w'(1) this] q show ?thesis by (auto simp: idle_def w'(2))
  qed
  then show "durable_inv N w'" "\<And>n. r = Inr n \<Longrightarrow> idle w' \<and> (settled_log (wire_log w') \<or> quarantined w')" by blast+
qed

lemma wp_new_broadcaster:
  assumes "durable_inv N w" "idle w"
  shows "wp (new_broadcaster arm) (\<lambda>r w'. durable_inv N w' \<and> (\<forall>a. r = Inr a \<longrightarrow> alive_inv N w')) w"
  unfolding new_broadcaster_def wp_bind
proof (rule wp_now [OF _ assms(2)], simp only: sum.case, rule wp_effect)
  fix t w1 assume s: "same w w1" "db w1 = db w"
  have d1: "durable_inv N w1" by (rule durable_cong [OF assms(1)]) (use s in \<open>simp_all add: same_def\<close>)
  show "case Inl Panic of Inl e \<Rightarrow> durable_inv N w1 \<and> (\<forall>a. Inl e = Inr a \<longrightarrow> alive_inv N w1)
    | Inr u \<Rightarrow> wp (\<lambda>w. case next_fate w of
     (Prompt, w) \<Rightarrow> (case on_store (reconcile_quarantine_on_restart t) w of
        (Inr n, w) \<Rightarrow> (Inr arm, w\<lparr>poisoned := False\<rparr>) | (Inl e, w) \<Rightarrow> (Inl (Fail e), w))
   | (NotAdmitted e, w) \<Rightarrow> (Inl (Fail e), w)
   | (Late landed, w) \<Rightarrow> (Inl (Fail ''observer actor dropped reply''),
       if landed then snd (on_store (reconcile_quarantine_on_restart t) w) else w))
     (\<lambda>r w'. durable_inv N w' \<and> (\<forall>a. r = Inr a \<longrightarrow> alive_inv N w')) w1"
    using d1 by simp
  fix n
  obtain f w2 where f: "next_fate (w1\<lparr>life := n\<rparr>) = (f, w2)" by fastforce
  have d2: "durable_inv N w2"
    by (rule durable_cong [OF d1]) (use f in \<open>auto simp: next_fate_def db_def split: list.splits\<close>)
  obtain r w3 where o: "on_store (reconcile_quarantine_on_restart t) w2 = (r, w3)" by fastforce
  note o3 = on_store_reconcile [OF d2 o]
  have alive: "durable_inv N (w3\<lparr>poisoned := False\<rparr>) \<and> (\<forall>m. r = Inr m \<longrightarrow> alive_inv N (w3\<lparr>poisoned := False\<rparr>))"
    using o3 by (auto simp: alive_inv_def durable_inv_def idle_def has_intents_def db_def quarantined_def orphaned_def)
  show "case Inr () of Inl e \<Rightarrow> durable_inv N (w1\<lparr>life := n\<rparr>) \<and> (\<forall>a. Inl e = Inr a \<longrightarrow> alive_inv N (w1\<lparr>life := n\<rparr>))
    | Inr u \<Rightarrow> wp (\<lambda>w. case next_fate w of
     (Prompt, w) \<Rightarrow> (case on_store (reconcile_quarantine_on_restart t) w of
        (Inr n, w) \<Rightarrow> (Inr arm, w\<lparr>poisoned := False\<rparr>) | (Inl e, w) \<Rightarrow> (Inl (Fail e), w))
   | (NotAdmitted e, w) \<Rightarrow> (Inl (Fail e), w)
   | (Late landed, w) \<Rightarrow> (Inl (Fail ''observer actor dropped reply''),
       if landed then snd (on_store (reconcile_quarantine_on_restart t) w) else w))
     (\<lambda>r w'. durable_inv N w' \<and> (\<forall>a. r = Inr a \<longrightarrow> alive_inv N w')) (w1\<lparr>life := n\<rparr>)"
    using f o d2 o3 alive by (cases f; cases r) (auto simp: wp_def)
qed

lemma wp_live:
  assumes "durable_inv N w" "idle w"
  shows "wp (case mode of LiveAuthority arm \<Rightarrow> bindA (new_broadcaster arm) (\<lambda>_. run_batches (pp_timeout p) (pp_batches p))
     | _ \<Rightarrow> returnA ()) (\<lambda>r w'. durable_inv N w') w"
proof (cases mode)
  case (LiveAuthority arm)
  have "wp (bindA (new_broadcaster arm) (\<lambda>_. run_batches (pp_timeout p) (pp_batches p))) (\<lambda>r w'. durable_inv N w') w"
  proof (rule wp_seq [OF wp_new_broadcaster [OF assms]])
    fix a w2 assume "durable_inv N w2 \<and> (\<forall>b. Inr a = Inr b \<longrightarrow> alive_inv N w2)"
    then have "alive_inv N w2" by simp
    then show "wp (run_batches (pp_timeout p) (pp_batches p)) (\<lambda>r w'. durable_inv N w') w2"
      by (rule wp_mono [OF wp_run_batches]) (simp add: alive_end_def)
  qed simp
  then show ?thesis by (simp add: LiveAuthority)
qed (use assms in \<open>simp_all add: wp_return del: returnA_def action_basic\<close>)

lemma wp_fee_process:
  assumes "durable_inv N w" "idle w"
  shows "wp (fee_process p) (\<lambda>r w'. durable_inv N w') w"
  unfolding fee_process_def
  by (rule wp_seq [OF steps_wp [OF reads_map_err [OF reads_startup]]])
    (use durable_reads [OF assms] wp_live in blast)+

lemma run_process_inv: "durable_inv N w \<Longrightarrow> durable_inv N (run_process p w)"
proof -
  assume d: "durable_inv N w"
  have b: "durable_inv N (boot p w)" by (rule durable_cong [OF d]) (simp_all add: boot_def db_def)
  have "idle (boot p w)" by (simp add: boot_def idle_def)
  from wp_fee_process [OF b this, of p] show ?thesis
    unfolding run_process_def by (metis prod.collapse wpD)
qed

lemma history_inv: "durable_inv N w \<Longrightarrow> durable_inv N (history ps w)"
  unfolding history_def by (induction ps arbitrary: w) (auto intro: run_process_inv)

lemma first_inv:
  assumes "runway_ok d"
  shows "durable_inv (n_nonce ` set (consumed_nonces d)) (first_world d consumed)"
  using assms by (simp add: durable_inv_def base_ok_def first_world_def db_def has_intents_def sent_ids_def
      map_filter_def settled_orderly)

end
