(* ===== verification/FeeTheorems.thy ===== *)
theory FeeTheorems
  imports FeeSafety
begin

text \<open>
  The theorems of the live fee path, each with a concrete history: a store with one committed
  cycle, a valid arm, an authority that is off, and a node that answers the first request and
  is silent on the second.
\<close>

section \<open>Live sessions\<close>

text \<open>The session a process would have, were it started now.\<close>

definition session_at :: "process_plan \<Rightarrow> fee_world \<Rightarrow> live_session_arm option" where
  "session_at p w = (case fst (resolve_startup_mode_kernel (pp_startup p) (boot p w)) of
     Inr (LiveAuthority a) \<Rightarrow> Some a | _ \<Rightarrow> None)"

definition burned :: "fee_world \<Rightarrow> string set" where
  "burned w = n_nonce ` set (consumed_nonces (db w))"

lemma validated_live:
  "validate_fee_mode flags arm g n b = Inr (LiveAuthority a) \<longleftrightarrow>
     flags = \<lparr>mf_observer = False, mf_dryrun = False, mf_broadcast = True, mf_shadow = False\<rparr> \<and>
     arm = Some a \<and> g \<noteq> 0 \<and> (\<exists>c. b = VerifiedBound c)"
  by (cases flags) (auto simp: validate_fee_mode_def bindE_def split: bool.splits option.splits seed_binding.splits sum.splits)

lemma burned_reads: "idle w \<Longrightarrow> reads w w' \<Longrightarrow> burned w \<subseteq> burned w' \<and> idle w'"
  unfolding reads_def grows_def burned_def set_map by blast

lemma wp_burn:
  assumes "idle w" "\<And>w'. Q (Inl Panic) w'" "\<And>e w'. Q (Inr (Inl e)) w'" "\<And>w'. Q (Inr (Inr False)) w'"
    and "\<And>w'. idle w' \<Longrightarrow> arm_nonce arm \<notin> burned w \<Longrightarrow> arm_nonce arm \<in> burned w' \<Longrightarrow> burned w \<subseteq> burned w' \<Longrightarrow>
      consumed_files w' = consumed_files w \<Longrightarrow> Q (Inr (Inr True)) w'"
  shows "wp (burn_nonce arm now) Q w"
  unfolding burn_nonce_def wp_bind
proof (rule wp_effect)
  fix n assume "life w = Suc n"
  obtain f w1 where f: "next_fate (w\<lparr>life := n\<rparr>) = (f, w1)" by fastforce
  have i: "idle (w\<lparr>life := n\<rparr>)" using assms(1) by (simp add: idle_def)
  have s: "same w w1" "db w1 = db w" "idle w1"
    using next_fate_same [OF i f] life_same [OF assms(1), of n] same_then by auto
  let ?m = "insert_consumed_nonce (arm_nonce arm) now (arm_commit arm) (arm_binary arm) (arm_expires arm)"
  obtain r w2 where o: "on_store ?m w1 = (r, w2)" by fastforce
  note l = on_store_lawful [OF lawful_nonce s(3) o]
  have q: "Q (Inr r) w2"
  proof (cases r)
    case (Inr b)
    show ?thesis
    proof (cases b)
      case True
      with l Inr s(1,2) have "idle w2" "arm_nonce arm \<notin> burned w" "arm_nonce arm \<in> burned w2" "burned w \<subseteq> burned w2"
        "consumed_files w2 = consumed_files w"
        by (auto simp: burned_def same_def)
      then have "Q (Inr (Inr True)) w2" by (rule assms(5))
      then show ?thesis using Inr True by simp
    qed (use Inr assms(4) in simp)
  qed (use assms(3) in simp)
  show "case Inr () of Inl e \<Rightarrow> Q (Inl e) (w\<lparr>life := n\<rparr>) | Inr u \<Rightarrow> wp (\<lambda>w. case next_fate w of
     (Prompt, w) \<Rightarrow> (case on_store ?m w of (r, w) \<Rightarrow> (Inr r, w))
   | (NotAdmitted e, w) \<Rightarrow> (Inr (Inl e), w)
   | (Late landed, w) \<Rightarrow> (Inr (Inl ''observer actor dropped reply''), if landed then snd (on_store ?m w) else w)) Q (w\<lparr>life := n\<rparr>)"
    using f o q assms(3) by (cases f) (auto simp: wp_def)
qed (use assms(2) in simp)

lemma wp_fs:
  assumes "idle w" "\<And>e w'. Q (Inl e) w'" "\<And>w'. same w w' \<Longrightarrow> db w' = db w \<Longrightarrow> Q (Inr ()) w'"
  shows "wp (fs_step what) Q w"
  unfolding fs_step_def wp_bind
  by (rule wp_effect) (use assms in \<open>auto simp: wp_def next_fs_error_def same_def idle_def db_def split: list.splits option.splits\<close>)

lemma wp_rename:
  assumes "idle w" "\<And>e w'. Q (Inl e) w'"
    and "\<And>w'. idle w' \<Longrightarrow> db w' = db w \<Longrightarrow> nonce \<notin> set (consumed_files w) \<Longrightarrow>
      consumed_files w' = consumed_files w @ [nonce] \<Longrightarrow> Q (Inr ()) w'"
  shows "wp (rename_arm nonce) Q w"
  unfolding rename_arm_def wp_bind
  by (rule wp_effect) (use assms in \<open>auto simp: wp_def next_fs_error_def idle_def db_def split: list.splits option.splits\<close>)

text \<open>A live session starts from a valid arm whose nonce was neither burned nor consumed before.\<close>

definition freshly_armed :: "startup_inputs \<Rightarrow> fee_world \<Rightarrow> live_session_arm \<Rightarrow> fee_world \<Rightarrow> bool" where
  "freshly_armed inp w a w' \<longleftrightarrow> (\<exists>fp ident arm. si_arm inp = Some (fp, ident) \<and>
     read_and_validate_fields fp ident = Inr arm \<and> a = session_of arm \<and>
     la_nonce a \<notin> burned w \<and> la_nonce a \<in> burned w' \<and>
     la_nonce a \<notin> set (consumed_files w) \<and> la_nonce a \<in> set (consumed_files w'))"

lemma wp_consume_validated:
  assumes "idle w"
  shows "wp (consume_validated arm) (\<lambda>r w'. \<forall>a. r = Inr a \<longrightarrow> a = session_of arm \<and> idle w' \<and> db w' = db w \<and>
    arm_nonce arm \<notin> set (consumed_files w) \<and> arm_nonce arm \<in> set (consumed_files w')) w"
proof -
  let ?P = "\<lambda>w' :: fee_world. idle w' \<and> db w' = db w \<and> consumed_files w' = consumed_files w"
  let ?R = "\<lambda>w' :: fee_world. idle w' \<and> db w' = db w \<and> arm_nonce arm \<notin> set (consumed_files w) \<and>
    arm_nonce arm \<in> set (consumed_files w')"
  have a: "wp (fs_step what) (\<lambda>r w'. \<forall>a. r = Inr a \<longrightarrow> ?P w') w" for what
    by (rule wp_fs) (use assms in \<open>simp_all add: same_def\<close>)
  have b: "wp (rename_arm (arm_nonce arm)) (\<lambda>r w'. \<forall>a. r = Inr a \<longrightarrow> ?R w') w1" if "?P w1" for w1
    by (rule wp_rename) (use that in simp_all)
  have c: "wp (fs_step what) (\<lambda>r w'. \<forall>a. r = Inr a \<longrightarrow> ?R w') w1" if "?R w1" for what w1
    by (rule wp_fs) (use that in \<open>simp_all add: same_def\<close>)
  show ?thesis
    unfolding consume_validated_def
    by (rule wp_seq [OF a], simp, rule wp_seq [OF b], simp, simp, rule wp_seq [OF c], simp, simp, rule wp_seq [OF c])
      (simp_all add: wp_def)
qed

lemma consume_arm_fresh:
  assumes "consume_arm inp fp ident w = (Inr a, w')" "idle w"
  shows "\<exists>arm. read_and_validate_fields fp ident = Inr arm \<and> a = session_of arm \<and> arm_nonce arm \<notin> burned w \<and>
    arm_nonce arm \<in> burned w' \<and> arm_nonce arm \<notin> set (consumed_files w) \<and> arm_nonce arm \<in> set (consumed_files w')"
proof -
  obtain arm w1 where r: "read_and_validate_fields fp ident = Inr arm" "w1 = w"
    and rest: "(if \<not> si_ledger inp then failA (ArmInvalid (ArmConsumeFailed ''no durable nonce ledger (observer db) available to burn the arm nonce in; the arm file is untouched''))
     else bindA (burn_nonce arm (si_now inp)) (\<lambda>res. case res of
       Inl e \<Rightarrow> failA (ArmInvalid (ArmConsumeFailed (''durable nonce-ledger insert failed ('' @ e
         @ ''); the arm file is untouched and may be retried by the operator'')))
     | Inr False \<Rightarrow> failA (ArmInvalid ArmReusedNonce)
     | Inr True \<Rightarrow> map_errA ArmInvalid (consume_validated arm))) w = (Inr a, w')"
    using assms(1) by (auto simp: consume_arm_def bindA_eq_Inr map_errA_Inr)
  then have "bindA (burn_nonce arm (si_now inp)) (\<lambda>res. case res of
       Inl e \<Rightarrow> failA (ArmInvalid (ArmConsumeFailed (''durable nonce-ledger insert failed ('' @ e
         @ ''); the arm file is untouched and may be retried by the operator'')))
     | Inr False \<Rightarrow> failA (ArmInvalid ArmReusedNonce)
     | Inr True \<Rightarrow> map_errA ArmInvalid (consume_validated arm)) w = (Inr a, w')"
    by (simp split: if_splits)
  then obtain res w2 where b: "(burn_nonce arm (si_now inp) :: (startup_deny, string + bool) fee) w = (Inr res, w2)"
    and k: "(case res of Inl e \<Rightarrow> failA (ArmInvalid (ArmConsumeFailed (''durable nonce-ledger insert failed ('' @ e
         @ ''); the arm file is untouched and may be retried by the operator'')))
     | Inr False \<Rightarrow> failA (ArmInvalid ArmReusedNonce)
     | Inr True \<Rightarrow> map_errA ArmInvalid (consume_validated arm)) w2 = (Inr a, w')"
    unfolding bindA_eq_Inr by blast
  have res: "res = Inr True" and c: "consume_validated arm w2 = (Inr a, w')"
    using k by (auto simp: map_errA_Inr split: sum.splits bool.splits)
  have "wp (burn_nonce arm (si_now inp) :: (startup_deny, string + bool) fee) (\<lambda>r w'. r = Inr (Inr True) \<longrightarrow> idle w' \<and> arm_nonce arm \<notin> burned w \<and>
      arm_nonce arm \<in> burned w' \<and> consumed_files w' = consumed_files w) w"
    by (rule wp_burn [OF assms(2)]) simp_all
  from wpD [OF this b] res have 2: "idle w2 \<and> arm_nonce arm \<notin> burned w \<and> arm_nonce arm \<in> burned w2 \<and> consumed_files w2 = consumed_files w"
    by blast
  then have "a = session_of arm \<and> idle w' \<and> db w' = db w2 \<and>
    arm_nonce arm \<notin> set (consumed_files w2) \<and> arm_nonce arm \<in> set (consumed_files w')"
    using wpD [OF wp_consume_validated c] 2 by blast
  with 2 r(1) show ?thesis by (auto simp: burned_def)
qed

lemma startup_fresh:
  assumes "resolve_startup_mode_kernel inp w = (Inr (LiveAuthority a), w')" "idle w"
  shows "freshly_armed inp w a w'"
proof -
  obtain arm w1 where a: "(case si_arm inp of None \<Rightarrow> returnA None
          | Some (fp, ident) \<Rightarrow> bindA (consume_arm inp fp ident) (\<lambda>a. returnA (Some a))) w = (Inr arm, w1)"
    and v: "map_errA ModeDenied (liftA (validate_fee_mode (si_flags inp) arm (si_generation inp) (si_rows inp)
          (si_binding inp))) w1 = (Inr (LiveAuthority a), w')"
    using assms(1) unfolding resolve_startup_mode_kernel_def by (auto simp: bindA_eq_Inr split: if_splits)
  have "arm = Some a" "w1 = w'" using v by (auto simp: map_errA_Inr validated_live)
  then obtain fp ident where i: "si_arm inp = Some (fp, ident)" and c: "consume_arm inp fp ident w = (Inr a, w')"
    using a by (auto simp: bindA_eq_Inr split: option.splits prod.splits)
  obtain ar where "read_and_validate_fields fp ident = Inr ar" "a = session_of ar" "arm_nonce ar \<notin> burned w"
    "arm_nonce ar \<in> burned w'" "arm_nonce ar \<notin> set (consumed_files w)" "arm_nonce ar \<in> set (consumed_files w')"
    using consume_arm_fresh [OF c assms(2)] by blast
  then show ?thesis using i unfolding freshly_armed_def by (simp add: session_of_def)
qed


lemma durable_has_intents: "durable_inv N w \<Longrightarrow> has_intents w"
  by (simp add: durable_inv_def)

lemma durable_burned: "durable_inv N w \<Longrightarrow> N \<subseteq> burned w"
  by (simp add: durable_inv_def base_ok_def burned_def)

lemma durable_base: "durable_inv N w \<longleftrightarrow> durable_inv {} w \<and> N \<subseteq> burned w"
  by (auto simp: durable_inv_def base_ok_def burned_def)

lemma boot_inv: "durable_inv N w \<Longrightarrow> durable_inv N (boot p w) \<and> idle (boot p w)"
  using durable_cong [of N w "boot p w"] by (simp add: boot_def db_def idle_def)

lemma session_burned:
  assumes "durable_inv N w" "session_at p w = Some a"
  shows "la_nonce a \<notin> burned w" "durable_inv (insert (la_nonce a) N) (run_process p w)"
proof -
  note b = boot_inv [OF assms(1), of p]
  obtain r w1 where s: "resolve_startup_mode_kernel (pp_startup p) (boot p w) = (r, w1)" by fastforce
  then have r: "r = Inr (LiveAuthority a)"
    using assms(2) by (simp add: session_at_def split: sum.splits validated_mode.splits)
  have f: "freshly_armed (pp_startup p) (boot p w) a w1"
    by (rule startup_fresh) (use s r b in simp_all)
  then have "la_nonce a \<notin> burned (boot p w)" unfolding freshly_armed_def by blast
  then show "la_nonce a \<notin> burned w" by (simp add: burned_def boot_def db_def)
  have "reads (boot p w) w1" by (rule stepsD [OF reads_startup s])
  with b have d1: "durable_inv N w1" "idle w1" using durable_reads by blast+
  have "la_nonce a \<in> burned w1" using f by (auto simp: freshly_armed_def)
  with d1(1) have "durable_inv (insert (la_nonce a) N) w1" unfolding durable_base [of "insert (la_nonce a) N"] durable_base [of N] by simp
  from wp_live [OF this d1(2), where mode = "LiveAuthority a" and p = p] show "durable_inv (insert (la_nonce a) N) (run_process p w)"
    unfolding wp_def run_process_def fee_process_def
    by (simp add: bindA_def map_errA_def s r split: prod.splits)
qed

section \<open>Authorizations\<close>

lemma statuses_fate: "next_fate w = (f, w') \<Longrightarrow> statuses w' = statuses w"
  by (auto simp: next_fate_def split: list.splits)

lemma statuses_store: "statuses (snd (on_store m w)) = statuses w"
  by (simp add: on_store_def split: prod.splits sum.splits fault.splits)

lemma budgeted_statuses: "statuses (snd (budgeted secs what m w)) = statuses w"
proof (cases "life w")
  case (Suc n)
  obtain f w1 where f: "next_fate (w\<lparr>life := n\<rparr>) = (f, w1)" by fastforce
  have "statuses w1 = statuses w" using statuses_fate [OF f] by simp
  then show ?thesis
    using statuses_store [of m w1] Suc f
    by (cases f) (auto simp: budgeted_def bindA_def effect_def split: prod.splits)
qed (simp add: budgeted_def bindA_def effect_def)

lemma budgeted_read:
  assumes "budgeted secs what m w = (Inr (Inr a), w')" "idle w" "lawful P m"
  shows "idle w'" "statuses w' = statuses w" "P a (db w) (db w')"
proof -
  have "wp (budgeted secs what m) (\<lambda>r w'. \<forall>a. r = Inr (Inr a) \<longrightarrow> idle w' \<and> P a (db w) (db w')) w"
    by (rule wp_budgeted [OF assms(3,2)]) (simp_all add: same_def)
  from wpD [OF this assms(1)] show "idle w'" "P a (db w) (db w')" by blast+
  show "statuses w' = statuses w" using arg_cong [OF assms(1), of "\<lambda>x. statuses (snd x)"] by (simp add: budgeted_statuses)
qed

text \<open>The status says that the authority is off, and says so freshly.\<close>

definition says_off :: "json \<Rightarrow> int \<Rightarrow> int \<Rightarrow> python_off \<Rightarrow> bool" where
  "says_off v now max_age off \<longleftrightarrow> (\<exists>obj. v = JObj obj \<and> map_of obj ''enabled'' = Some (JBool False) \<and>
     map_of obj ''generation'' = Some (JInt (po_generation off)) \<and> 0 \<le> po_generation off \<and>
     map_of obj ''transitioned_at'' = Some (JInt (po_transitioned off)) \<and> 0 \<le> po_transitioned off \<and>
     map_of obj ''observed_at'' = Some (JInt (po_observed off)) \<and> 0 \<le> po_observed off \<and>
     po_observed off \<le> now \<and> now - po_observed off \<le> max_age)"

lemma as_json_Some:
  "as_object v = Some obj \<longleftrightarrow> v = JObj obj" "as_bool v = Some b \<longleftrightarrow> v = JBool b"
  "as_int64 v = Some i \<longleftrightarrow> v = JInt i \<and> in_i64 i"
  by (cases v; auto)+

lemma field_Inr: "field obj k as = Inr a \<longleftrightarrow> (\<exists>v. map_of obj k = Some v \<and> as v = Some a)"
  by (auto simp: field_def split: option.splits)

lemma bindE_Inr: "bindE r f = Inr b \<longleftrightarrow> (\<exists>a. r = Inr a \<and> f a = Inr b)"
  by (cases r) (auto simp: bindE_def)

lemma validate_status_off: "validate_status v now max_age = Inr off \<Longrightarrow> says_off v now max_age off"
  by (auto simp: validate_status_def says_off_def bindE_Inr field_Inr as_json_Some chk_i64_def
      split: option.splits if_splits)

lemma fetch_Inr:
  "fetch_validated_status now max_age w = (Inr off, w') \<Longrightarrow>
    \<exists>v rest. statuses w = StatusValue v # rest \<and> says_off v now max_age off"
  by (auto simp: fetch_validated_status_def bindA_eq_Inr effect_def next_status_def
      split: nat.splits list.splits status_reply.splits intro: validate_status_off)

lemma close_Inr:
  assumes "close_bracket age b now w = (Inr second, w')"
  shows "age \<le> OPEN_BRACKET_MAX_LIFETIME \<and> po_generation second = po_generation (ob_first b) \<and>
    po_transitioned second = po_transitioned (ob_first b) \<and> po_observed (ob_first b) < po_observed second \<and>
    now - po_observed (ob_first b) \<le> ob_max_age b \<and>
    (\<exists>v rest. statuses w = StatusValue v # rest \<and> says_off v now (ob_max_age b) second)"
  using assms fetch_Inr
  by (auto simp: close_bracket_def bindA_eq_Inr chk_i64_def validate_stable_epoch_def split: if_splits)

lemma open_Inr:
  assumes "open_authority_bracket now max_age w = (Inr b, w')"
  shows "ob_max_age b = max_age \<and> (\<exists>v rest. statuses w = StatusValue v # rest \<and> says_off v now max_age (ob_first b))"
  using assms fetch_Inr by (auto simp: open_authority_bracket_def bindA_eq_Inr)

lemma answered_call:
  assumes "bindA m (\<lambda>q. case q of Inl e \<Rightarrow> failA (x e) | Inr a \<Rightarrow> f a) w = (Inr b, w')"
  obtains a w1 where "m w = (Inr (Inr a), w1)" "f a w1 = (Inr b, w')"
proof -
  from assms obtain q t where "m w = (Inr q, t)" "(case q of Inl e \<Rightarrow> failA (x e) | Inr a \<Rightarrow> f a) t = (Inr b, w')"
    unfolding bindA_eq_Inr by blast
  then show thesis by (cases q) (simp_all add: that)
qed

section \<open>A concrete history\<close>

definition demo_store :: runway where
  "demo_store = \<lparr>fee_cycles = [(''c1'', 1)], state_generation = Some 1, seed_events = [], quarantine = [],
     broadcasts = [], consumed_nonces = [\<lparr>n_nonce = ''n0'', n_consumed_at = 1, n_commit = ''abc'',
       n_binary = ''def'', n_expires = 2\<rparr>], rb_attempts = [], rb_reservations = []\<rparr>"

definition demo_arm :: "string \<Rightarrow> cutover_arm" where
  "demo_arm nonce = \<lparr>arm_schema = CUTOVER_ARM_SCHEMA, arm_node = ''02aa'', arm_subsystem = CUTOVER_SUBSYSTEM_FEES,
     arm_commit = ''abc'', arm_binary = ''def'', arm_not_before = 0, arm_expires = 1000, arm_nonce = nonce\<rparr>"

definition demo_startup :: "string \<Rightarrow> startup_inputs" where
  "demo_startup nonce = \<lparr>si_flags = \<lparr>mf_observer = False, mf_dryrun = False, mf_broadcast = True, mf_shadow = False\<rparr>,
     si_arm = Some (\<lparr>fp_link = LinkFile, fp_open = OpenOk, fp_regular = True, fp_mode = 33152, fp_uid = 7,
         fp_stat_error = None, fp_text = Inr ''{}'', fp_decoded = Inr (demo_arm nonce)\<rparr>,
       \<lparr>id_node = ''02aa'', id_subsystem = CUTOVER_SUBSYSTEM_FEES, id_commit = ''abc'', id_binary = ''def'',
         id_owner = 7, id_now = 100\<rparr>),
     si_generation = 1, si_rows = 1, si_binding = VerifiedBound ''c1'', si_store_configured = True,
     si_ledger = True, si_now = 100\<rparr>"

definition demo_status :: "int \<Rightarrow> json" where
  "demo_status t = JObj [(''enabled'', JBool False), (''generation'', JInt 3), (''transitioned_at'', JInt 50),
     (''observed_at'', JInt t)]"

definition demo_request :: "string \<Rightarrow> int \<Rightarrow> persisted_request" where
  "demo_request i ppm = \<lparr>pr_cycle = Some ''c1'', pr_channel = ''1x1x1'', pr_request = i,
     pr_params = \<lparr>sc_id = ''1x1x1'', sc_feebase = 0, sc_feeppm = ppm, sc_htlcmin = None, sc_htlcmax = None\<rparr>\<rparr>"

definition demo_batch :: batch_plan where
  "demo_batch = \<lparr>bp_candidate = ''c1'', bp_generation = 1, bp_open_now = 100, bp_max_age = 60, bp_bracket_age = 0,
     bp_now = 101, bp_governor_ok = True, bp_governor_code = ''ok'', bp_reservation = ''res'', bp_dispatch_age = 0,
     bp_requests = [demo_request ''q1'' 100, demo_request ''q2'' 200]\<rparr>"

definition demo_process :: "string \<Rightarrow> process_plan" where
  "demo_process nonce = \<lparr>pp_script = [], pp_fates = [], pp_wires = [Answer JNull, NoAnswer],
     pp_statuses = [StatusValue (demo_status 99), StatusValue (demo_status 100)],
     pp_clocks = [100, 101, 102, 103, 104, 105, 106, 107], pp_fs_errors = [], pp_life = 100,
     pp_startup = demo_startup nonce, pp_timeout = 5, pp_batches = [demo_batch]\<rparr>"

lemmas startup_eval = resolve_startup_mode_kernel_def boot_def bindA_def map_errA_def consume_arm_def
  read_and_validate_fields_def validate_fields_def REQUIRED_MODE_def is_safe_nonce_def nonce_char_def bindE_def
  burn_nonce_def effect_def next_fate_def on_store_def insert_consumed_nonce_def exec_def ctx_def
  consume_validated_def fs_step_def rename_arm_def next_fs_error_def session_of_def validate_fee_mode_def current_def
  CUTOVER_ARM_SCHEMA_def CUTOVER_SUBSYSTEM_FEES_def

lemmas demo_eval = demo_process_def demo_startup_def demo_arm_def demo_store_def first_world_def

lemmas run_eval = new_broadcaster_def now_unix_def reconcile_quarantine_on_restart_def fee_tx_def reconcile_locked_def
  run_batch_def open_authority_bracket_def fetch_validated_status_def next_status_def validate_status_def field_def
  in_i64_alt chk_i64_def authorize_batch_def budgeted_def active_quarantine_def query_def uncleared_def
  current_state_generation_def generation_of_def close_bracket_def OPEN_BRACKET_MAX_LIFETIME_def NANOS_def
  validate_stable_epoch_def broadcast_batch_def AUTHORIZATION_DISPATCH_FRESHNESS_def send_one_def submit_intent_def
  insert_broadcast_attempt_def after_intent_def attempt_send_def next_wire_def say_sent_def say_heard_def
  after_send_def settle_terminal_def record_result_def record_broadcast_attempt_result_def update_rows_def
  settle_ambiguous_def quarantine_for_def insert_quarantine_def after_quarantine_def handleA_def
  Sqlite.store_def intent_of_def fresh_id_def attempt_row_of_def demo_status_def demo_batch_def demo_request_def
  unresolved_broadcast_attempts_def begin_immediate_def commit_def pop_def unresolved_def complete_attempt_def quarantine_row_of_def

definition demo_unanswered :: "wire_event list" where
  "demo_unanswered = [Heard ''q1'' (SendSuccess JNull), Sent ''q2'' (to_params (pr_params (demo_request ''q2'' 200))),
     Heard ''q2'' (classify_wire NoAnswer)]"

lemma demo_history:
  "history [p] w = run_process p w" "history [] w = w"
  by (simp_all add: history_def)

lemma demo_log:
  "wire_log (run_process (demo_process ''n1'') (first_world demo_store [])) =
     [] @ Sent ''q1'' (to_params (pr_params (demo_request ''q1'' 100))) # demo_unanswered"
  by (simp add: run_process_def fee_process_def startup_eval demo_eval run_eval demo_unanswered_def)

lemma demo_sessions:
  "session_at (demo_process ''n1'') (first_world demo_store []) = Some (session_of (demo_arm ''n1''))"
  "session_at (demo_process ''n2'') (run_process (demo_process ''n1'') (first_world demo_store [])) =
     Some (session_of (demo_arm ''n2''))"
  by (simp_all add: session_at_def run_process_def fee_process_def startup_eval demo_eval run_eval)

lemma demo_ok: "runway_ok demo_store"
  by (simp add: runway_ok_def demo_store_def)

section \<open>The theorems\<close>

text \<open>C16. Over every history of processes of the live fee controller - whichever way the store
  answers or fails to answer, whichever way the node answers, and wherever each process dies - a
  setchannel request that was sent while another request is sent later was answered at once, and
  definitely: a request whose outcome is unknown is the last one that is ever sent.\<close>

theorem undecided_send_is_last:
  assumes "runway_ok d"
    and "wire_log (history ps (first_world d consumed)) = pre @ Sent r v # post"
    and "list_ex is_sent post"
  shows "\<exists>out rest. post = Heard r out # rest \<and> definite out"
proof -
  have "orderly (wire_log (history ps (first_world d consumed)))"
    using history_inv [OF first_inv [OF assms(1)]] by (simp add: durable_inv_def)
  with assms(2,3) have "answered r post" unfolding orderly_def by blast
  then show ?thesis by (cases post) (auto simp: answered_def split: wire_event.splits)
qed

theorem undecided_send_is_last_witness:
  "\<exists>out rest. demo_unanswered = Heard ''q1'' out # rest \<and> definite out"
  using undecided_send_is_last [of demo_store "[demo_process ''n1'']" "[]" "[]" "''q1''"
    "to_params (pr_params (demo_request ''q1'' 100))" demo_unanswered] demo_ok demo_log
  by (simp add: demo_history demo_unanswered_def)

text \<open>C17. Over every history, no request is sent twice, and every request that was sent has a
  durable intent on the disk with the method and the exact parameters that went out, written
  before them.\<close>

theorem sends_have_intents:
  assumes "runway_ok d" and "w = history ps (first_world d consumed)"
  shows "distinct (sent_ids (wire_log w)) \<and>
    (\<forall>r v. Sent r v \<in> set (wire_log w) \<longrightarrow> (\<exists>a \<in> set (broadcasts (disk (wstore w))).
       a_request a = r \<and> a_params a = render v \<and> a_method a = SETCHANNEL_METHOD))"
proof -
  have "has_intents w"
    unfolding assms(2) by (rule durable_has_intents [OF history_inv [OF first_inv [OF assms(1)]]])
  then show ?thesis unfolding has_intents_def db_def .
qed

theorem sends_have_intents_witness:
  "distinct (sent_ids (wire_log (run_process (demo_process ''n1'') (first_world demo_store [])))) \<and>
    (\<exists>a \<in> set (broadcasts (disk (wstore (run_process (demo_process ''n1'') (first_world demo_store []))))).
       a_request a = ''q1'' \<and> a_params a = render (to_params (pr_params (demo_request ''q1'' 100))))"
  using sends_have_intents [OF demo_ok refl, of "[demo_process ''n1'']" "[]"] demo_log
  unfolding demo_history by auto

text \<open>C18. A cutover arm gives one live session: a process of a history that goes live does so
  with a nonce that no earlier session and no earlier ledger of the store holds.\<close>

theorem one_session_per_nonce:
  assumes "runway_ok d" and "session_at p (history ps (first_world d consumed)) = Some a"
    and "session_at q (history qs (run_process p (history ps (first_world d consumed)))) = Some b"
  shows "la_nonce a \<notin> n_nonce ` set (consumed_nonces d) \<and> la_nonce b \<noteq> la_nonce a"
proof -
  let ?w = "history ps (first_world d consumed)"
  have w: "durable_inv (n_nonce ` set (consumed_nonces d)) ?w"
    by (rule history_inv [OF first_inv [OF assms(1)]])
  note a = session_burned [OF w assms(2)]
  note later = history_inv [OF a(2), of qs]
  have "la_nonce b \<noteq> la_nonce a"
    using session_burned(1) [OF later assms(3)] durable_burned [OF later] by auto
  then show ?thesis using a(1) durable_burned [OF w] by auto
qed

theorem one_session_per_nonce_witness:
  "la_nonce (session_of (demo_arm ''n1'')) \<notin> n_nonce ` set (consumed_nonces demo_store) \<and>
    la_nonce (session_of (demo_arm ''n2'')) \<noteq> la_nonce (session_of (demo_arm ''n1''))"
  using one_session_per_nonce [OF demo_ok, of "demo_process ''n1''" "[]" "[]" _ "demo_process ''n2''" "[]"]
    demo_sessions unfolding demo_history by blast

section \<open>Any use of the store\<close>

text \<open>The statements that write to the store, in any order and with any arguments: the fee path, the
  quarantine and the rebalance attempts share one connection, so their statements mix. A session
  opens the store with whatever replies the engine has for it and ends after any statement.\<close>

datatype store_call =
    BeginAttempt attempt_intent
  | EndAttempt int broadcast_outcome "string option" int
  | BurnNonce string int string string int
  | Quarantine quarantine_entry
  | Restart int
  | BeginRebalance rb_attempt_intent
  | EndRebalance rb_settle

fun store_step :: "store_call \<Rightarrow> runway conn \<Rightarrow> runway conn" where
  "store_step (BeginAttempt a) c = snd (insert_broadcast_attempt a c)"
| "store_step (EndAttempt i out detail t) c = snd (record_broadcast_attempt_result i out detail t c)"
| "store_step (BurnNonce n t commit_id binary expires) c = snd (insert_consumed_nonce n t commit_id binary expires c)"
| "store_step (Quarantine e) c = snd (insert_quarantine e c)"
| "store_step (Restart t) c = snd (reconcile_quarantine_on_restart t c)"
| "store_step (BeginRebalance a) c = snd (insert_rebalance_attempt a c)"
| "store_step (EndRebalance s) c = snd (settle_rebalance_attempt s c)"

definition store_session :: "runway \<Rightarrow> sql_error option list \<times> store_call list \<Rightarrow> runway" where
  "store_session d s = disk (fold store_step (snd s) \<lparr>disk = d, txn = None, script = fst s\<rparr>)"

definition store_sessions :: "(sql_error option list \<times> store_call list) list \<Rightarrow> runway \<Rightarrow> runway" where
  "store_sessions ss d = foldl store_session d ss"

text \<open>No rebalance request is forgotten, and one with an outcome stays as it is.\<close>

definition rebalances_kept :: "runway \<Rightarrow> runway \<Rightarrow> bool" where
  "rebalances_kept d d' \<longleftrightarrow> (\<forall>r \<in> set (rb_attempts d). \<exists>r' \<in> set (rb_attempts d').
     r_request r' = r_request r \<and> (r_outcome r \<noteq> None \<longrightarrow> r' = r))"

lemma rebalances_kept_refl: "rb_attempts d' = rb_attempts d \<Longrightarrow> rebalances_kept d d'"
  by (auto simp: rebalances_kept_def)

lemma rebalances_kept_trans: "rebalances_kept d d' \<Longrightarrow> rebalances_kept d' d'' \<Longrightarrow> rebalances_kept d d''"
  unfolding rebalances_kept_def by metis

definition store_good :: "runway \<Rightarrow> runway conn \<Rightarrow> bool" where
  "store_good d c \<longleftrightarrow> (\<forall>e \<in> insert (disk c) (set_option (txn c)). runway_ok e \<and> rebalances_kept d e)"

definition good_kept :: "runway conn \<Rightarrow> runway conn \<Rightarrow> bool" where
  "good_kept c c' \<longleftrightarrow> (\<forall>d. store_good d c \<longrightarrow> store_good d c')"

interpretation gk: step_relation good_kept
  by unfold_locales (auto simp: good_kept_def)

text \<open>A statement that fails changes at most the open transaction, which it may undo.\<close>

lemma good_lost: "store_good d c \<Longrightarrow> disk c' = disk c \<Longrightarrow> txn c' = txn c \<or> txn c' = None \<Longrightarrow> store_good d c'"
  by (auto simp: store_good_def)

lemma good_fails: "store_good d c \<Longrightarrow> store_good d (snd (engine_fails e c))"
  by (cases "rolls_back e") (auto simp: engine_fails_def elim: good_lost)

lemma good_pop: "store_good d c \<Longrightarrow> store_good d (snd (pop c))"
  by (cases "script c") (auto simp: pop_def elim: good_lost)

lemma good_stored:
  "store_good d c \<Longrightarrow> (runway_ok (current c) \<Longrightarrow> runway_ok e \<and> rebalances_kept (current c) e) \<Longrightarrow>
     store_good d (Sqlite.store e c)"
  using rebalances_kept_trans
  by (cases "txn c") (auto simp: store_good_def Sqlite.store_def current_def)

lemma good_exec:
  assumes "\<And>d a d'. f d = Inr (a, d') \<Longrightarrow> runway_ok d \<Longrightarrow> runway_ok d' \<and> rebalances_kept d d'"
  shows "steps good_kept (exec f)"
  unfolding steps_def good_kept_def
proof (intro allI impI)
  fix c d assume "store_good d c"
  obtain r c1 where p: "pop c = (r, c1)" by force
  with good_pop [OF \<open>store_good d c\<close>] have g: "store_good d c1" by simp
  show "store_good d (snd (exec f c))"
  proof (cases r)
    case None
    show ?thesis
    proof (cases "f (current c1)")
      case (Inl e)
      then show ?thesis by (simp add: exec_def p None good_fails [OF g])
    next
      case (Inr y)
      obtain a e where y: "y = (a, e)" by force
      have "store_good d (Sqlite.store e c1)"
        by (rule good_stored [OF g]) (rule assms [OF Inr [unfolded y]])
      then show ?thesis by (simp add: exec_def p None Inr y)
    qed
  qed (simp add: exec_def p good_fails [OF g])
qed

lemma good_basic: "steps good_kept begin_immediate" "steps good_kept commit" "steps good_kept rollback"
  "steps good_kept (query q)"
proof -
  have "store_good d (snd (begin_immediate c)) \<and> store_good d (snd (commit c)) \<and>
      store_good d (snd (rollback c)) \<and> store_good d (snd (query q c))" if "store_good d c" for d c
  proof -
    obtain r c1 where p: "pop c = (r, c1)" by force
    with good_pop [OF that] have g: "store_good d c1" by simp
    show ?thesis
    proof (cases r)
      case None
      have "store_good d (c1\<lparr>txn := Some (disk c1)\<rparr>)" "store_good d (c1\<lparr>txn := None\<rparr>)"
        "txn c1 = Some e \<Longrightarrow> store_good d (c1\<lparr>disk := e, txn := None\<rparr>)" for e
        using g by (simp_all add: store_good_def)
      then show ?thesis
        using g
        by (cases "txn c1"; cases "q (current c1)")
          (simp_all add: begin_immediate_def commit_def rollback_def query_def p None good_fails)
    qed (simp add: begin_immediate_def commit_def rollback_def query_def p good_fails [OF g])
  qed
  then show "steps good_kept begin_immediate" "steps good_kept commit" "steps good_kept rollback"
    "steps good_kept (query q)"
    by (simp_all add: steps_def good_kept_def)
qed

lemma good_ctx: "steps good_kept m \<Longrightarrow> steps good_kept (ctx w m)"
  by (simp add: steps_def ctx_snd)

lemma good_tx: "steps good_kept body \<Longrightarrow> steps good_kept (fee_tx o1 o2 body)"
  unfolding fee_tx_def
  by (intro gk.steps_bind gk.steps_handle good_ctx good_basic gk.steps_return)
    (auto intro!: gk.steps_return gk.steps_handle good_basic split: sum.splits simp del: returnA_def)

lemmas good_intros = gk.steps_bind gk.steps_return good_ctx good_tx good_basic good_exec

lemma map_key_kept: "(\<And>r. k (f r) = k r) \<Longrightarrow> map (k \<circ> (\<lambda>r. if P r then f r else r)) rs = map k rs"
  by simp

lemma good_attempts:
  "steps good_kept (insert_broadcast_attempt a)" "steps good_kept (record_broadcast_attempt_result i out detail t)"
  "steps good_kept (insert_consumed_nonce n t c b e)" "steps good_kept (insert_quarantine q)"
proof -
  have fresh: "fresh_id (map a_id rows) \<noteq> a_id x" if "x \<in> set rows" for rows x
    using fresh_id_new [of "a_id x" "map a_id rows"] that by auto
  show "steps good_kept (insert_broadcast_attempt a)"
    unfolding insert_broadcast_attempt_def
    by (intro good_intros)
      (auto simp: Let_def runway_ok_def attempt_row_of_def image_iff
        dest: fresh intro: rebalances_kept_refl split: if_splits)
  show "steps good_kept (record_broadcast_attempt_result i out detail t)"
    unfolding record_broadcast_attempt_result_def
  proof (intro good_intros, goal_cases)
    case (1 d n d')
    then show ?case
      by (auto simp: update_rows_def runway_ok_def complete_attempt_def map_key_kept intro: rebalances_kept_refl)
  qed (simp add: gk.steps_return del: returnA_def)
  show "steps good_kept (insert_consumed_nonce n t c b e)"
    unfolding insert_consumed_nonce_def
    by (intro good_intros) (auto simp: runway_ok_def intro: rebalances_kept_refl split: if_splits)
  show "steps good_kept (insert_quarantine q)"
    unfolding insert_quarantine_def
    by (intro good_intros) (auto simp: Let_def runway_ok_def intro: rebalances_kept_refl split: if_splits)
qed

lemma good_each: "(\<And>x. steps good_kept (f x)) \<Longrightarrow> steps good_kept (forS f xs)"
  by (induction xs) (auto intro!: good_intros simp del: returnA_def)

lemma good_restart: "steps good_kept (reconcile_quarantine_on_restart now)"
  unfolding reconcile_quarantine_on_restart_def reconcile_locked_def unresolved_broadcast_attempts_def active_quarantine_def
  by (auto intro!: good_intros good_attempts good_each split: option.splits simp del: returnA_def)

lemma settled_kept:
  "rebalances_kept d (d\<lparr>rb_attempts := map (\<lambda>r. if r_request r = st_request s \<and> r_outcome r = None
     then settle_attempt_row s r else r) (rb_attempts d)\<rparr>)"
  unfolding rebalances_kept_def
proof
  fix r assume "r \<in> set (rb_attempts d)"
  then show "\<exists>r' \<in> set (rb_attempts (d\<lparr>rb_attempts := map (\<lambda>r. if r_request r = st_request s \<and> r_outcome r = None
      then settle_attempt_row s r else r) (rb_attempts d)\<rparr>)). r_request r' = r_request r \<and> (r_outcome r \<noteq> None \<longrightarrow> r' = r)"
    by (intro bexI [of _ "if r_request r = st_request s \<and> r_outcome r = None then settle_attempt_row s r else r"])
      (auto simp: settle_attempt_row_def)
qed

lemma good_rebalance:
  "steps good_kept (insert_rebalance_attempt a)" "steps good_kept (settle_rebalance_attempt s)"
proof -
  show "steps good_kept (insert_rebalance_attempt a)"
    unfolding insert_rebalance_attempt_def
    by (intro good_intros)
      (auto simp: Let_def runway_ok_def rb_row_of_def rebalances_kept_def split: if_splits)
  show "steps good_kept (settle_rebalance_attempt s)"
    unfolding settle_rebalance_attempt_def
  proof (intro good_intros, goal_cases)
    case (1 d n d')
    then show ?case
      using settled_kept [of d s]
      by (auto simp: update_rows_def runway_ok_def settle_attempt_row_def map_key_kept Let_def split: if_splits)
  next
    case (2 n)
    show ?case
      by (auto intro!: good_intros rebalances_kept_refl simp: update_rows_def Let_def runway_ok_def
          simp del: returnA_def split: if_splits)
  qed
qed

lemma good_store_step: "good_kept c (store_step s c)"
  using good_attempts good_restart good_rebalance by (cases s) (auto simp: steps_def)

lemma good_session:
  assumes "runway_ok d"
  shows "runway_ok (store_session d s) \<and> rebalances_kept d (store_session d s)"
proof -
  have "store_good d (fold store_step cs c)" if "store_good d c" for cs c
    using that by (induction cs arbitrary: c) (use good_store_step in \<open>auto simp: good_kept_def\<close>)
  from this [of "\<lparr>disk = d, txn = None, script = fst s\<rparr>" "snd s"] assms show ?thesis
    by (simp add: store_session_def store_good_def rebalances_kept_refl)
qed

lemma good_sessions: "runway_ok d \<Longrightarrow> runway_ok (store_sessions ss d) \<and> rebalances_kept d (store_sessions ss d)"
proof (induction ss arbitrary: d)
  case (Cons s ss)
  then show ?case
    using good_session [of d s] by (auto simp: store_sessions_def intro: rebalances_kept_trans)
qed (simp add: store_sessions_def rebalances_kept_refl)

definition demo_rebalance :: "string \<Rightarrow> rb_attempt_intent" where
  "demo_rebalance request = \<lparr>ri_request = request, ri_source = ''1x1x1'', ri_dest = ''2x2x2'', ri_amount = 1000,
     ri_max_fee = 10, ri_trigger = ''cycle'', ri_submitted = 5\<rparr>"

definition demo_settle :: "string \<Rightarrow> rb_settle" where
  "demo_settle outcome = \<lparr>st_request = ''r1'', st_outcome = outcome, st_detail = None, st_fee = Some 7,
     st_hash = None, st_reservation = ''settled'', st_resolved_at = 9\<rparr>"

definition demo_calls :: "(sql_error option list \<times> store_call list) list" where
  "demo_calls =
     [([], [BeginRebalance (demo_rebalance ''r1''), BeginRebalance (demo_rebalance ''r1''),
        EndRebalance (demo_settle ''success'')]),
      ([], [BeginRebalance (demo_rebalance ''r1''), EndRebalance (demo_settle ''rejected'')])]"

lemma demo_calls_result:
  "map (\<lambda>r. (r_request r, r_outcome r)) (rb_attempts (store_sessions demo_calls demo_store)) = [(''r1'', Some ''success'')]"
  by (simp add: demo_calls_def store_sessions_def store_session_def insert_rebalance_attempt_def
     settle_rebalance_attempt_def fee_tx_def bindA_def handleA_def ctx_def map_errA_def begin_immediate_def commit_def
     rollback_def exec_def pop_def current_def Sqlite.store_def engine_fails_def demo_rebalance_def demo_settle_def
     demo_store_def Let_def update_rows_def settle_attempt_row_def flip_row_def rb_row_of_def TRIGGERS_def
     RB_OUTCOMES_def RB_STATUSES_def)

section \<open>Properties of the store and of the authorization\<close>

text \<open>C21. The identities of the rows of the store - broadcast attempts, their requests, rebalance
  requests and burned nonces - stay unique over every history of live processes and, from there,
  over every sequence of store sessions: the statements of the fee path, of the quarantine and
  of the rebalance attempts in any order, with any arguments and any replies of the engine. And
  in those sessions no rebalance request is forgotten, and once one has its outcome its row
  never changes again.\<close>

theorem store_stays_well_formed:
  assumes "runway_ok d"
  shows "let before = disk (wstore (history ps (first_world d consumed)));
             after = store_sessions sessions before
    in runway_ok before \<and> runway_ok after \<and> rebalances_kept before after"
proof -
  have "runway_ok (disk (wstore (history ps (first_world d consumed))))"
    using history_inv [OF first_inv [OF assms]] by (simp add: durable_inv_def base_ok_def db_def)
  then show ?thesis using good_sessions by (simp add: Let_def)
qed

theorem store_stays_well_formed_witness:
  "runway_ok (disk (wstore (history [demo_process ''n1'', demo_process ''n2''] (first_world demo_store [])))) \<and>
   runway_ok (store_sessions demo_calls demo_store) \<and>
   map (\<lambda>r. (r_request r, r_outcome r)) (rb_attempts (store_sessions demo_calls demo_store)) = [(''r1'', Some ''success'')]"
  using store_stays_well_formed [OF demo_ok, of "[demo_process ''n1'', demo_process ''n2'']" "[]" "[]"]
    store_stays_well_formed [OF demo_ok, of "[]" "[]" demo_calls] demo_calls_result
  by (simp add: Let_def demo_history first_world_def)

text \<open>C19. A batch is authorized only if the store is not quarantined, the generation the batch
  was computed for is the current one, the governor allowed it, a reservation is named, the
  bracket is young, and the Python controller has said twice that it is off: once when the
  bracket was opened, in a status that was fresh then and is still young enough now, and once
  more now, in a fresh status that was observed later and shows the same epoch. Whatever
  happened between the two is arbitrary.\<close>

theorem authorization_needs_every_gate:
  assumes "open_authority_bracket now1 max_age u = (Inr b, u')"
    and "authorize_batch candidate generation age b now ok code res w = (Inr au, w')"
    and "txn (wstore w) = None"
  shows "uncleared (disk (wstore w)) = [] \<and> generation = generation_of (disk (wstore w)) \<and> ok \<and> res \<noteq> [] \<and>
    age \<le> OPEN_BRACKET_MAX_LIFETIME \<and>
    (\<exists>v1 rest1 first v2 rest2 second.
       statuses u = StatusValue v1 # rest1 \<and> says_off v1 now1 max_age first \<and>
       statuses w = StatusValue v2 # rest2 \<and> says_off v2 now max_age second \<and>
       now - po_observed first \<le> max_age \<and> po_observed first < po_observed second \<and>
       po_generation second = po_generation first \<and> po_transitioned second = po_transitioned first \<and>
       au = \<lparr>au_candidate = candidate, au_generation = generation, au_python_generation = po_generation second,
         au_governor_code = code, au_reservation = res\<rparr>)"
proof -
  have i: "idle w" using assms(3) by (simp add: idle_def)
  obtain q w1 where q: "budgeted AUTHORIZE_STORE_BUDGET ''the active-quarantine read'' active_quarantine w = ((Inr (Inr q), w1)
      :: (live_deny, string + quarantine_row option) result \<times> fee_world)"
    and k: "(case q of Some row \<Rightarrow> failA (QuarantineActive (q_reason row) (q_entered row)) | None \<Rightarrow>
      bindA (budgeted AUTHORIZE_STORE_BUDGET ''the state-generation read'' current_state_generation) (\<lambda>g. case g of
           Inl e \<Rightarrow> failA (GenerationCheckFailed e)
         | Inr current_generation \<Rightarrow>
             if generation \<noteq> current_generation then failA (GenerationStale generation current_generation)
             else if \<not> ok then failA (GovernorDenied code)
             else if res = [] then failA ReservationMissing
             else bindA (map_errA PythonDenied (close_bracket age b now)) (\<lambda>second.
               returnA \<lparr>au_candidate = candidate, au_generation = current_generation,
                 au_python_generation = po_generation second, au_governor_code = code,
                 au_reservation = res\<rparr>))) w1 = (Inr au, w')"
    by (rule answered_call [OF assms(2) [unfolded authorize_batch_def]]) blast
  have none: "q = None" using k by (simp split: option.splits)
  note r1 = budgeted_read [OF q i lawful_active]
  obtain g w2 where g: "budgeted AUTHORIZE_STORE_BUDGET ''the state-generation read'' current_state_generation w1 =
      ((Inr (Inr g), w2) :: (live_deny, string + int) result \<times> fee_world)"
    and k2: "(if generation \<noteq> g then failA (GenerationStale generation g)
             else if \<not> ok then failA (GovernorDenied code)
             else if res = [] then failA ReservationMissing
             else bindA (map_errA PythonDenied (close_bracket age b now)) (\<lambda>second.
               returnA \<lparr>au_candidate = candidate, au_generation = g,
                 au_python_generation = po_generation second, au_governor_code = code,
                 au_reservation = res\<rparr>)) w2 = (Inr au, w')"
    by (rule answered_call [OF k [unfolded none option.case]])
  then have gates: "generation = g" "ok" "res \<noteq> []" by (simp_all split: if_splits)
  note r2 = budgeted_read [OF g r1(1) lawful_generation]
  obtain second where c: "close_bracket age b now w2 = (Inr second, w')"
    and au: "au = \<lparr>au_candidate = candidate, au_generation = g, au_python_generation = po_generation second,
      au_governor_code = code, au_reservation = res\<rparr>"
    using k2 gates by (auto simp: bindA_eq_Inr map_errA_Inr)
  have "uncleared (db w) = []" "g = generation_of (db w)" "statuses w2 = statuses w"
    using r1 r2 none newest_row_None [of "uncleared (db w)"] by simp_all
  moreover from open_Inr [OF assms(1)] obtain v1 rest1 where
    "statuses u = StatusValue v1 # rest1" "says_off v1 now1 max_age (ob_first b)" and m: "ob_max_age b = max_age"
    by blast
  moreover from close_Inr [OF c] obtain v rest where
    "statuses w2 = StatusValue v # rest" "says_off v now max_age second" unfolding m by blast
  ultimately have "statuses u = StatusValue v1 # rest1 \<and> says_off v1 now1 max_age (ob_first b) \<and>
       statuses w = StatusValue v # rest \<and> says_off v now max_age second \<and>
       now - po_observed (ob_first b) \<le> max_age \<and> po_observed (ob_first b) < po_observed second \<and>
       po_generation second = po_generation (ob_first b) \<and> po_transitioned second = po_transitioned (ob_first b) \<and>
       au = \<lparr>au_candidate = candidate, au_generation = generation, au_python_generation = po_generation second,
         au_governor_code = code, au_reservation = res\<rparr>"
    using close_Inr [OF c] gates au m by simp
  moreover have "uncleared (disk (wstore w)) = []" "generation = generation_of (disk (wstore w))"
    using \<open>uncleared (db w) = []\<close> \<open>g = generation_of (db w)\<close> gates(1) by (simp_all add: db_def)
  moreover have "age \<le> OPEN_BRACKET_MAX_LIFETIME" using close_Inr [OF c] by simp
  ultimately show ?thesis using gates(2,3) by blast
qed

theorem authorization_needs_every_gate_witness:
  "uncleared demo_store = [] \<and> (1 :: int) = generation_of demo_store \<and>
   (\<exists>first. says_off (demo_status 99) 100 60 first)"
proof -
  let ?u = "(first_world demo_store [])\<lparr>life := 9, statuses := [StatusValue (demo_status 99)]\<rparr>"
  let ?w = "(first_world demo_store [])\<lparr>life := 9, statuses := [StatusValue (demo_status 100)]\<rparr>"
  let ?b = "\<lparr>ob_first = \<lparr>po_generation = 3, po_transitioned = 50, po_observed = 99\<rparr>, ob_max_age = 60\<rparr>"
  obtain u' where o: "open_authority_bracket 100 60 ?u = (Inr ?b, u')"
    by (simp add: startup_eval demo_eval run_eval)
  obtain au w' where "authorize_batch ''c1'' 1 0 ?b 101 True ''ok'' ''res'' ?w = (Inr au, w')"
    by (simp add: startup_eval demo_eval run_eval)
  from authorization_needs_every_gate [OF o this] show ?thesis by (auto simp: first_world_def)
qed

text \<open>C20. A restart either fails and leaves the data alone, or does at once what it should: every
  attempt without an outcome becomes ambiguous and, if there was one, the store is quarantined
  afterwards; nothing else changes.\<close>

theorem restart_quarantines_orphans:
  assumes "reconcile_quarantine_on_restart now c = (r, c')" and "runway_ok (disk c)"
  shows "(\<exists>e. r = Inl e \<and> disk c' = disk c) \<or>
    r = Inr (length (unresolved (disk c))) \<and> disk c' = reconciled now (disk c) \<and>
    unresolved (disk c') = [] \<and> (unresolved (disk c) \<noteq> [] \<longrightarrow> uncleared (disk c') \<noteq> [])"
  using reconcile_result [OF assms] reconciled_quiet reconciled_quarantined by auto

definition demo_orphan :: runway where
  "demo_orphan = demo_store\<lparr>broadcasts := [attempt_row_of 1 (intent_of (demo_request ''q3'' 100) 5)]\<rparr>"

theorem restart_quarantines_orphans_witness:
  "let (r, c) = reconcile_quarantine_on_restart 9 \<lparr>disk = demo_orphan, txn = None, script = []\<rparr>
   in r = Inr 1 \<and> unresolved (disk c) = [] \<and> uncleared (disk c) \<noteq> []"
proof -
  let ?c = "\<lparr>disk = demo_orphan, txn = None, script = []\<rparr>"
  obtain r c where run: "reconcile_quarantine_on_restart 9 ?c = (r, c)" by fastforce
  have ok: "runway_ok (disk ?c)"
    by (simp add: runway_ok_def demo_orphan_def demo_store_def attempt_row_of_def)
  have un: "length (unresolved demo_orphan) = 1"
    by (simp add: unresolved_def demo_orphan_def attempt_row_of_def)
  have "fst (reconcile_quarantine_on_restart 9 ?c) = Inr 1"
    by (simp add: startup_eval demo_eval run_eval demo_orphan_def handleA_def restart_entry_def orphan_note_def)
  then have "r = Inr 1" by (simp add: run)
  with restart_quarantines_orphans [OF run ok] un show ?thesis by (auto simp: run)
qed

end
