(* ===== verification/FeeExecution.thy ===== *)
theory FeeExecution
  imports Governor FeeLive
begin

text \<open>
  The decision on one fee change (\<open>revops-fees/src/execution.rs\<close>): the clamps and the policy,
  the parameters of the \<open>setchannel\<close> call, the recording executor, and the authorization of a
  fee broadcast through the governor. Of the configuration and the policy the records hold what
  the decision reads.
\<close>

section \<open>The decision\<close>

definition ABS_MIN_FEE_PPM :: int where "ABS_MIN_FEE_PPM = 0"
definition ABS_MAX_FEE_PPM :: int where "ABS_MAX_FEE_PPM = 100000"

record set_fee_request =
  sf_channel :: string
  sf_fee_ppm :: int
  sf_enforce :: bool
  sf_effective_min :: "int option"
  sf_htlcmin :: "int option"
  sf_htlcmax :: "int option"
  sf_base_fee :: int

record set_fee_decision =
  dc_success :: bool
  dc_fee_ppm :: int
  dc_message :: string
  dc_clamp_log :: "string option"

datatype fee_strategy = Dynamic | Static | Passive

record fee_policy =
  fpo_strategy :: fee_strategy
  fpo_target :: "int option"

record fee_limits =
  lim_min_fee :: int
  lim_max_fee :: int

text \<open>A pinned fee replaces the request before the clamps.\<close>

definition requested_fee :: "set_fee_request \<Rightarrow> fee_policy option \<Rightarrow> int" where
  "requested_fee req policy = (case policy of
     None \<Rightarrow> sf_fee_ppm req
   | Some p \<Rightarrow> if fpo_strategy p = Static then (case fpo_target p of None \<Rightarrow> sf_fee_ppm req | Some t \<Rightarrow> t)
       else sf_fee_ppm req)"

definition econ_min_fee :: "set_fee_request \<Rightarrow> fee_limits \<Rightarrow> int" where
  "econ_min_fee req cfg = (case sf_effective_min req of
     None \<Rightarrow> lim_min_fee cfg
   | Some eff \<Rightarrow> max ABS_MIN_FEE_PPM (min eff (lim_min_fee cfg)))"

definition clamped_fee :: "set_fee_request \<Rightarrow> fee_limits \<Rightarrow> int \<Rightarrow> int" where
  "clamped_fee req cfg requested =
     (let fee = min ABS_MAX_FEE_PPM (max ABS_MIN_FEE_PPM requested)
      in if sf_enforce req then max (econ_min_fee req cfg) (min (lim_max_fee cfg) fee) else fee)"

definition clamp_line :: "set_fee_request \<Rightarrow> fee_limits \<Rightarrow> int \<Rightarrow> int \<Rightarrow> string" where
  "clamp_line req cfg original fee =
     ''FEE_LIMIT: Clamped fee for '' @ take 16 (sf_channel req) @ ''... from '' @ dec_int original @ '' to ''
     @ dec_int fee @ '' ''
     @ (if sf_enforce req
        then ''(limits: '' @ dec_int (econ_min_fee req cfg) @ ''-'' @ dec_int (lim_max_fee cfg) @ '' PPM)''
        else ''(absolute: '' @ dec_int ABS_MIN_FEE_PPM @ ''-'' @ dec_int ABS_MAX_FEE_PPM
          @ '' PPM; economic limits bypassed)'')"

definition decide_set_channel_fee ::
  "set_fee_request \<Rightarrow> fee_limits \<Rightarrow> fee_policy option \<Rightarrow> set_fee_decision" where
  "decide_set_channel_fee req cfg policy =
     (if (\<exists>p. policy = Some p \<and> fpo_strategy p = Passive) then
        \<lparr>dc_success = False, dc_fee_ppm = sf_fee_ppm req,
         dc_message = ''policy_passive: fee change skipped'', dc_clamp_log = None\<rparr>
      else
        let original = requested_fee req policy; fee = clamped_fee req cfg original
        in \<lparr>dc_success = True, dc_fee_ppm = fee, dc_message = ''Fee set to '' @ dec_int fee @ '' PPM'',
            dc_clamp_log = (if fee \<noteq> original then Some (clamp_line req cfg original fee) else None)\<rparr>)"

section \<open>The request\<close>

text \<open>The captured wire request is carried along and not read; it is left out.\<close>

record fee_execution_request =
  fx_decision :: set_fee_request
  fx_authorized :: bool
  fx_old_fee :: int
  fx_expected_base :: int

definition wire_u64 :: "int \<Rightarrow> string \<Rightarrow> (string, int) result" where
  "wire_u64 value fld =
     (if 0 \<le> value then Inr value
      else Inl (Fail (''setchannel '' @ fld @ '' must be a nonnegative integer, got '' @ dec_int value)))"

definition wire_u32 :: "int \<Rightarrow> (string, int) result" where
  "wire_u32 value =
     (if 0 \<le> value \<and> value < 2 ^ 32 then Inr value
      else Inl (Fail (''setchannel feeppm must fit u32, got '' @ dec_int value)))"

fun wire_opt :: "int option \<Rightarrow> string \<Rightarrow> (string, int option) result" where
  "wire_opt None fld = Inr None"
| "wire_opt (Some v) fld = bindE (wire_u64 v fld) (\<lambda>u. Inr (Some u))"

definition try_from_execution_fee :: "fee_execution_request \<Rightarrow> int \<Rightarrow> (string, setchannel_request) result" where
  "try_from_execution_fee r fee =
     (if sf_channel (fx_decision r) = [] then Inl (Fail ''setchannel id must not be empty'')
      else bindE (wire_u64 (fx_expected_base r) ''feebase'') (\<lambda>base.
           bindE (wire_u32 fee) (\<lambda>ppm.
           bindE (wire_opt (sf_htlcmin (fx_decision r)) ''htlcmin'') (\<lambda>lo.
           bindE (wire_opt (sf_htlcmax (fx_decision r)) ''htlcmax'') (\<lambda>hi.
           Inr \<lparr>sc_id = sf_channel (fx_decision r), sc_feebase = base, sc_feeppm = ppm,
             sc_htlcmin = lo, sc_htlcmax = hi\<rparr>)))))"

definition try_from_execution :: "fee_execution_request \<Rightarrow> (string, setchannel_request) result" where
  "try_from_execution r = try_from_execution_fee r (sf_fee_ppm (fx_decision r))"

record prepared_fee_action =
  pa_request :: setchannel_request
  pa_decision :: set_fee_decision
  pa_old_fee :: int
  pa_expected_base :: int

definition pure_execute :: "fee_execution_request \<Rightarrow> fee_limits \<Rightarrow> fee_policy option \<Rightarrow> (string, set_fee_decision) result" where
  "pure_execute r cfg policy = Inr (decide_set_channel_fee (fx_decision r) cfg policy)"

text \<open>The recording executor appends an action to its list.\<close>

definition recording_execute ::
  "fee_execution_request \<Rightarrow> fee_limits \<Rightarrow> fee_policy option \<Rightarrow>
    (prepared_fee_action list, string, set_fee_decision) action" where
  "recording_execute r cfg policy =
     bindA (liftA (pure_execute r cfg policy)) (\<lambda>d.
     if fx_authorized r \<and> dc_success d then
       bindA (liftA (try_from_execution_fee r (dc_fee_ppm d))) (\<lambda>q.
       bindA (\<lambda>acts. (Inr (), acts @ [\<lparr>pa_request = q, pa_decision = d, pa_old_fee = fx_old_fee r,
           pa_expected_base = fx_expected_base r\<rparr>])) (\<lambda>_.
       returnA d))
     else returnA d)"

section \<open>The governed authorization\<close>

text \<open>\<open>py_repr\<close>, the text of a float, is a parameter: no component of a fee intent is one.\<close>

fun render_component :: "(f64 \<Rightarrow> string) \<Rightarrow> json \<Rightarrow> string" where
  "render_component py_repr (JStr s) = s"
| "render_component py_repr (JInt i) = dec_int i"
| "render_component py_repr (JFloat x) = py_repr x"
| "render_component py_repr (JBool b) = (if b then ''True'' else ''False'')"
| "render_component py_repr JNull = ''None''"
| "render_component py_repr v = render v"

fun join_parts :: "string list \<Rightarrow> string" where
  "join_parts [] = []"
| "join_parts [p] = p"
| "join_parts (p # ps) = p @ '', '' @ join_parts ps"

definition render_explanation :: "(f64 \<Rightarrow> string) \<Rightarrow> explanation \<Rightarrow> string" where
  "render_explanation py_repr e = exp_kind e @ '': ''
     @ join_parts (map (\<lambda>(name, v). name @ ''='' @ render_component py_repr v) (components e))"

record governed_deps =
  gd_ledger :: bool
  gd_registry :: "provider option"
  gd_paused :: bool
  gd_level :: "string option"

record governed_trace =
  gt_authorized :: bool
  gt_reason :: string
  gt_intent :: string
  gt_key :: string

definition fee_fields ::
  "string \<Rightarrow> int \<Rightarrow> int option \<Rightarrow> string \<Rightarrow> string option \<Rightarrow> int \<Rightarrow> intent_fields econ_result" where
  "fee_fields channel fee old reason rcode now =
     bindE (time_new now) (\<lambda>created.
     bindE (chk_i64 (now + 600)) (\<lambda>later.
     bindE (time_new later) (\<lambda>expires.
     bindE (msat_new 0) (\<lambda>zero.
     bindE (micro_new 0) (\<lambda>conf.
     Inr \<lparr>intent_type = ''SET_FEE'', snapshot_id = ''fee-broadcast-'' @ dec_int now, created_at = created,
       expires_at = expires, target = channel, amount_msat = None, expected_benefit_msat = SignedMsat 0,
       max_cost_msat = zero, capital_committed_msat = zero, confidence_micro = conf, reason_codes = [],
       explanation = \<lparr>exp_kind = ''fee_broadcast'', components =
         [(''old_fee_ppm'', JInt (case old of None \<Rightarrow> 0 | Some v \<Rightarrow> v)), (''new_fee_ppm'', JInt fee),
          (''reason'', JStr reason),
          (''controller_reason_code'', JStr (case rcode of None \<Rightarrow> [] | Some c \<Rightarrow> c))]\<rparr>,
       preconditions = [], priority = 50, budget_bucket = ''fees'',
       origin_policy = ''fee_controller_governed'', reversible = True\<rparr>)))))"

definition fee_facade :: "governed_deps \<Rightarrow> 's facade" where
  "fee_facade d = \<lparr>f_reserve = (\<lambda>rid sats cat. returnA True), f_release = (\<lambda>rid. returnA True),
     f_paused = gd_paused d, f_authority = Some (Inr (authority_allows (gd_level d) ''fees'')),
     f_ledger = gd_ledger d, f_registry = gd_registry d\<rparr>"

definition proposed_details :: "(f64 \<Rightarrow> string) \<Rightarrow> intent_envelope \<Rightarrow> json" where
  "proposed_details py_repr env = json_object [(''target'', JStr (target env)), (''governed'', JBool True),
     (''explanation'', JStr (render_explanation py_repr (explanation env)))]"

text \<open>The trail is best effort: an error of the append is dropped.\<close>

definition propose :: "(f64 \<Rightarrow> string) \<Rightarrow> governed_deps \<Rightarrow> intent_envelope \<Rightarrow> int \<Rightarrow> ('s, unit) governed" where
  "propose py_repr d env now =
     (if gd_ledger d
      then handleA (on_ledger (append_event ''intent_proposed'' (intent_id_str (intent_id env))
             (idempotency_key env) (snapshot_id env) now [] (proposed_details py_repr env)))
             (\<lambda>r. case r of Inl Panic \<Rightarrow> liftA (Inl Panic) | _ \<Rightarrow> returnA ())
      else returnA ())"

definition governed_authorize_inner ::
  "(string \<Rightarrow> string) \<Rightarrow> (f64 \<Rightarrow> string) \<Rightarrow> governed_deps \<Rightarrow> string \<Rightarrow> int \<Rightarrow> int option \<Rightarrow> string \<Rightarrow> string option \<Rightarrow> int \<Rightarrow>
    ('s, bool \<times> string \<times> governed_trace) governed" where
  "governed_authorize_inner sha py_repr d channel fee old reason rcode now =
     bindA (liftA (bindE (fee_fields channel fee old reason rcode now) (make_intent sha))) (\<lambda>env.
     bindA (propose py_repr d env now) (\<lambda>_.
     bindA (authorize (fee_facade d) env now None) (\<lambda>dec.
     returnA (authorized dec, governor_decision.reason_code dec,
       \<lparr>gt_authorized = authorized dec, gt_reason = governor_decision.reason_code dec,
        gt_intent = intent_id_str (intent_id env), gt_key = idempotency_key env\<rparr>))))"

fun fail_closed :: "econ_error \<Rightarrow> bool \<times> string \<times> governed_trace option" where
  "fail_closed (EconError msg) = (False, ''internal_error ('' @ msg @ '')'', None)"

definition governed_authorize_fee_broadcast ::
  "(string \<Rightarrow> string) \<Rightarrow> (f64 \<Rightarrow> string) \<Rightarrow> governed_deps \<Rightarrow> string \<Rightarrow> int \<Rightarrow> int option \<Rightarrow> string \<Rightarrow> string option \<Rightarrow> int \<Rightarrow>
    ('s, bool \<times> string \<times> governed_trace option) governed" where
  "governed_authorize_fee_broadcast sha py_repr d channel fee old reason rcode now =
     handleA (governed_authorize_inner sha py_repr d channel fee old reason rcode now) (\<lambda>r. case r of
       Inr (ok, c, t) \<Rightarrow> returnA (ok, c, Some t)
     | Inl (Fail e) \<Rightarrow> returnA (fail_closed e)
     | Inl Panic \<Rightarrow> liftA (Inl Panic))"

section \<open>Limits\<close>

lemma effective_min_lowers: "0 \<le> lim_min_fee cfg \<Longrightarrow> 0 \<le> econ_min_fee req cfg \<and> econ_min_fee req cfg \<le> lim_min_fee cfg"
  by (auto simp: econ_min_fee_def ABS_MIN_FEE_PPM_def split: option.splits)

lemma clamped_within:
  assumes "0 \<le> lim_min_fee cfg" "lim_min_fee cfg \<le> lim_max_fee cfg" "lim_min_fee cfg \<le> ABS_MAX_FEE_PPM"
  shows "ABS_MIN_FEE_PPM \<le> clamped_fee req cfg v" "clamped_fee req cfg v \<le> ABS_MAX_FEE_PPM"
    and "sf_enforce req \<Longrightarrow> econ_min_fee req cfg \<le> clamped_fee req cfg v \<and> clamped_fee req cfg v \<le> lim_max_fee cfg"
    and "0 \<le> v \<Longrightarrow> v \<le> ABS_MAX_FEE_PPM \<Longrightarrow> lim_min_fee cfg \<le> v \<Longrightarrow> v \<le> lim_max_fee cfg \<Longrightarrow> clamped_fee req cfg v = v"
  using assms effective_min_lowers [OF assms(1), of req]
  by (auto simp: clamped_fee_def Let_def ABS_MIN_FEE_PPM_def ABS_MAX_FEE_PPM_def)

text \<open>C23. A fee that is decided lies within the absolute limits, and within the economic ones
  unless they are bypassed; the class floor of a request can only lower the minimum; a request
  within all limits is taken as it is and without a log line; a passive peer gets no fee at all.\<close>

theorem decided_fee_within_limits:
  assumes "0 \<le> lim_min_fee cfg" "lim_min_fee cfg \<le> lim_max_fee cfg" "lim_min_fee cfg \<le> ABS_MAX_FEE_PPM"
    and "d = decide_set_channel_fee req cfg policy"
  shows "(dc_success d \<longleftrightarrow> \<not> (\<exists>p. policy = Some p \<and> fpo_strategy p = Passive)) \<and>
    (dc_success d \<longrightarrow>
      ABS_MIN_FEE_PPM \<le> dc_fee_ppm d \<and> dc_fee_ppm d \<le> ABS_MAX_FEE_PPM \<and>
      (sf_enforce req \<longrightarrow> econ_min_fee req cfg \<le> dc_fee_ppm d \<and> dc_fee_ppm d \<le> lim_max_fee cfg) \<and>
      econ_min_fee req cfg \<le> lim_min_fee cfg \<and>
      (dc_clamp_log d = None \<longleftrightarrow> dc_fee_ppm d = requested_fee req policy) \<and>
      (0 \<le> requested_fee req policy \<and> requested_fee req policy \<le> ABS_MAX_FEE_PPM \<and>
       lim_min_fee cfg \<le> requested_fee req policy \<and> requested_fee req policy \<le> lim_max_fee cfg \<longrightarrow>
         dc_fee_ppm d = requested_fee req policy))"
proof (cases "\<exists>p. policy = Some p \<and> fpo_strategy p = Passive")
  case True
  then show ?thesis unfolding assms(4) by (simp add: decide_set_channel_fee_def)
next
  case False
  then have d: "dc_success d" "dc_fee_ppm d = clamped_fee req cfg (requested_fee req policy)"
    "dc_clamp_log d = None \<longleftrightarrow> dc_fee_ppm d = requested_fee req policy"
    unfolding assms(4) by (auto simp: decide_set_channel_fee_def Let_def)
  show ?thesis
    using False d clamped_within [OF assms(1-3), where req = req and v = "requested_fee req policy"]
      effective_min_lowers [OF assms(1), of req] by simp
qed

definition sample_limits :: fee_limits where
  "sample_limits = \<lparr>lim_min_fee = 5, lim_max_fee = 5000\<rparr>"

definition sample_set_fee :: set_fee_request where
  "sample_set_fee = \<lparr>sf_channel = ''1x1x1'', sf_fee_ppm = 9000, sf_enforce = True, sf_effective_min = Some 2,
     sf_htlcmin = None, sf_htlcmax = None, sf_base_fee = 0\<rparr>"

theorem decided_fee_within_limits_witness:
  "dc_fee_ppm (decide_set_channel_fee sample_set_fee sample_limits None) = 5000"
proof -
  have "dc_fee_ppm (decide_set_channel_fee sample_set_fee sample_limits None) \<le> lim_max_fee sample_limits"
    using decided_fee_within_limits [of sample_limits _ sample_set_fee None, OF _ _ _ refl]
    by (simp add: sample_limits_def ABS_MAX_FEE_PPM_def sample_set_fee_def)
  then show ?thesis
    by (simp add: decide_set_channel_fee_def Let_def clamped_fee_def sample_limits_def sample_set_fee_def
        requested_fee_def econ_min_fee_def ABS_MIN_FEE_PPM_def ABS_MAX_FEE_PPM_def)
qed

text \<open>Without the bound on the configured minimum the absolute limit does not hold: the
  economic clamp comes after it.\<close>

lemma economic_clamp_comes_last:
  "ABS_MAX_FEE_PPM < dc_fee_ppm (decide_set_channel_fee (sample_set_fee\<lparr>sf_effective_min := None\<rparr>)
     \<lparr>lim_min_fee = 200000, lim_max_fee = 300000\<rparr> None)"
  by (simp add: decide_set_channel_fee_def Let_def clamped_fee_def sample_set_fee_def requested_fee_def
      econ_min_fee_def ABS_MIN_FEE_PPM_def ABS_MAX_FEE_PPM_def)

lemma wire_Inr:
  "wire_u64 v f = Inr u \<longleftrightarrow> u = v \<and> 0 \<le> v" "wire_u32 v = Inr u \<longleftrightarrow> u = v \<and> 0 \<le> v \<and> v < 2 ^ 32"
  by (auto simp: wire_u64_def wire_u32_def)

lemma try_from_Inr:
  "try_from_execution_fee r fee = Inr q \<Longrightarrow>
    sc_id q = sf_channel (fx_decision r) \<and> sc_id q \<noteq> [] \<and> sc_feeppm q = fee \<and> 0 \<le> fee \<and>
    sc_feebase q = fx_expected_base r \<and> 0 \<le> sc_feebase q"
  by (auto simp: try_from_execution_fee_def bindE_def wire_Inr split: sum.splits if_splits)

text \<open>The recording executor records at most one action per request, only for a request the
  governor authorized and the policy does not skip, and the recorded call names the channel and
  carries exactly the clamped fee; when it fails it records nothing.\<close>

theorem recorded_action_is_authorized:
  assumes "recording_execute r cfg policy acts = (res, acts')"
  shows "acts' = acts \<or>
    (\<exists>a. acts' = acts @ [a] \<and> fx_authorized r \<and> res = Inr (pa_decision a) \<and>
       pa_decision a = decide_set_channel_fee (fx_decision r) cfg policy \<and> dc_success (pa_decision a) \<and>
       sc_id (pa_request a) = sf_channel (fx_decision r) \<and> sc_id (pa_request a) \<noteq> [] \<and>
       sc_feeppm (pa_request a) = dc_fee_ppm (pa_decision a))"
proof (cases "fx_authorized r \<and> dc_success (decide_set_channel_fee (fx_decision r) cfg policy)")
  case False
  then show ?thesis using assms by (auto simp: recording_execute_def pure_execute_def bindA_def)
next
  case True
  show ?thesis
  proof (cases "try_from_execution_fee r (dc_fee_ppm (decide_set_channel_fee (fx_decision r) cfg policy))")
    case (Inl e)
    then show ?thesis using assms True by (auto simp: recording_execute_def pure_execute_def bindA_def)
  next
    case (Inr q)
    then show ?thesis using assms True try_from_Inr [OF Inr]
      by (auto simp: recording_execute_def pure_execute_def bindA_def)
  qed
qed

theorem recorded_action_is_authorized_witness:
  "let r = \<lparr>fx_decision = sample_set_fee, fx_authorized = True, fx_old_fee = 1, fx_expected_base = 0\<rparr>
   in \<exists>a. snd (recording_execute r sample_limits None []) = [a] \<and> sc_feeppm (pa_request a) = 5000"
proof -
  let ?r = "\<lparr>fx_decision = sample_set_fee, fx_authorized = True, fx_old_fee = 1, fx_expected_base = 0\<rparr>"
  obtain res acts where run: "recording_execute ?r sample_limits None [] = (res, acts)" by fastforce
  have "acts \<noteq> [] \<and> dc_fee_ppm (decide_set_channel_fee sample_set_fee sample_limits None) = 5000"
    using run by (auto simp: recording_execute_def pure_execute_def bindA_def try_from_execution_fee_def wire_u64_def
        wire_u32_def bindE_def decide_set_channel_fee_def Let_def clamped_fee_def sample_limits_def sample_set_fee_def
        requested_fee_def econ_min_fee_def ABS_MIN_FEE_PPM_def ABS_MAX_FEE_PPM_def)
  with recorded_action_is_authorized [OF run] show ?thesis by (auto simp: run)
qed

section \<open>The grant\<close>

lemma propose_frame: "propose py d env now w = (r, w') \<Longrightarrow> spend w' = spend w \<and> registry w' = registry w"
  by (erule log_onlyD [rotated])
    (auto simp: propose_def log_only_def [of "liftA _"] intro!: log_only_handle log_only_basic split: sum.splits fault.splits)

lemma fee_fields_free: "fee_fields ch fee old reason rc now = Inr f \<Longrightarrow> msat_value (max_cost_msat f) = 0"
  by (auto simp: fee_fields_def bindE_def msat_new_def msat_from_checked_def check_int_def in_i64_alt u63_max_def as_i64_id
      split: sum.splits if_splits)

lemma make_intent_cost: "make_intent sha f = Inr env \<Longrightarrow> max_cost_msat env = max_cost_msat f"
  by (auto simp: make_intent_def bindE_def Let_def intent_fields.defs split: sum.splits)

text \<open>No step of the gate writes to the budget.\<close>

interpretation sp: step_relation "\<lambda>w w' :: 's world. spend w' = spend w"
  by unfold_locales auto

lemma spend_frame:
  "steps (\<lambda>w w'. spend w' = spend w) (on_ledger m)"
  "steps (\<lambda>w w'. spend w' = spend w) (register_step f env now)"
  "steps (\<lambda>w w'. spend w' = spend w) (on_spend (returnA x))"
  by (auto simp: steps_def on_ledger_def register_step_def on_registry_def on_spend_def split: prod.splits option.splits)

lemma spend_frame_grant: "steps (\<lambda>w w'. spend w' = spend w) (record_grant f env now tok)"
  unfolding record_grant_def by (auto intro!: sp.steps_return sp.steps_bind spend_frame)

lemma spend_frame_reject: "steps (\<lambda>w w'. spend w' = spend w) (log_rejection f env now c)"
  unfolding log_rejection_def
  by (auto intro!: sp.steps_return sp.steps_handle spend_frame split: sum.splits fault.splits)

lemma spend_frame_authorize: "steps (\<lambda>w w'. spend w' = spend w) (authorize (fee_facade d) env now rid)"
proof -
  have "steps (\<lambda>w w'. spend w' = spend w) (authorize_spend (fee_facade d) env now rid)"
    unfolding authorize_spend_def Let_def
    by (auto intro!: sp.steps_return sp.steps_bind spend_frame spend_frame_grant simp: fee_facade_def)
  then show ?thesis
    unfolding authorize_def
    by (auto intro!: sp.steps_return sp.steps_bind spend_frame spend_frame_reject split: option.splits)
qed

lemma authorize_granted:
  assumes "authorize f env now rid w = (Inr dec, w')" "authorized dec"
  shows "\<not> f_paused f \<and> authority_ok f = Inr True \<and> verdict f env now w = None \<and>
    registry w' = registered f env now w \<and> governor_decision.reason_code dec = []"
  using assms(1)
proof (cases rule: authorize_Inr)
  case (5 w1)
  have v: "verdict f env now w = None" "w1 = w\<lparr>registry := registered f env now w\<rparr>"
    using 5(4) by (auto simp: register_step_Inr)
  note sp = authorize_spend_Inr [OF 5(5)]
  show ?thesis using sp(1) sp(2) [OF assms(2)] v 5(1,2) by simp
qed (use assms(2) in \<open>simp_all add: refused_def\<close>)

text \<open>The trail on the ledger.\<close>

interpretation si: step_relation "\<lambda>c c' :: ledger_db conn. txn c = None \<longrightarrow> txn c' = None"
  by unfold_locales auto

lemma stays_idle: "steps (\<lambda>c c'. txn c = None \<longrightarrow> txn c' = None) connect"
  "steps (\<lambda>c c'. txn c = None \<longrightarrow> txn c' = None) (map_errA sql_err (exec f))"
proof -
  show "steps (\<lambda>c c'. txn c = None \<longrightarrow> txn c' = None) connect"
    unfolding steps_def by (metis connect_disk(2) prod.collapse)
  have "txn (snd (exec f c)) = None" if "txn c = None" for c
    using that by (cases "script c") (auto simp: exec_def pop_def engine_fails_def Sqlite.store_def
      split: option.splits sum.splits)
  then show "steps (\<lambda>c c'. txn c = None \<longrightarrow> txn c' = None) (map_errA sql_err (exec f))"
    by (simp add: steps_def)
qed

lemma append_idle: "txn c = None \<Longrightarrow> append_event ty i k cy t am de c = (r, c') \<Longrightarrow> txn c' = None"
proof -
  have "steps (\<lambda>c c'. txn c = None \<longrightarrow> txn c' = None) (append_event ty i k cy t am de)"
    unfolding append_event_def by (auto intro!: si.steps_return si.steps_bind stays_idle)
  then show "txn c = None \<Longrightarrow> append_event ty i k cy t am de c = (r, c') \<Longrightarrow> txn c' = None"
    by (blast dest: stepsD)
qed

lemma append_on_ledger:
  assumes "on_ledger (append_event ty i k cy t am de) w = (r, w')" "txn (ledger w) = None"
  shows "txn (ledger w') = None \<and>
    (\<forall>e. r = Inl e \<longrightarrow> rows (disk (ledger w')) = rows (disk (ledger w))) \<and>
    (\<forall>a. r = Inr a \<longrightarrow> (\<exists>row. rows (disk (ledger w')) = rows (disk (ledger w)) @ [row] \<and> row_type row = ty \<and>
       row_intent row = i \<and> row_key row = k \<and> row_at row = t))"
proof -
  obtain l where l: "append_event ty i k cy t am de (ledger w) = (r, l)" "w' = w\<lparr>ledger := l\<rparr>"
    using assms(1) by (auto simp: on_ledger_def split: prod.splits)
  show ?thesis
    using append_idle [OF assms(2) l(1)] append_effect [OF l(1) assms(2)] l(2) by (cases r) auto
qed

lemma propose_trail:
  assumes "propose py d env now w = (r, w')" "txn (ledger w) = None"
  shows "txn (ledger w') = None \<and>
    (\<exists>trail. rows (disk (ledger w')) = rows (disk (ledger w)) @ trail \<and> set (map row_type trail) \<subseteq> {''intent_proposed''})"
proof (cases "gd_ledger d")
  case True
  obtain q w1 where q: "on_ledger (append_event ''intent_proposed'' (intent_id_str (intent_id env))
      (idempotency_key env) (snapshot_id env) now [] (proposed_details py env)) w = (q, w1)" by fastforce
  then have "w' = w1" using assms(1) True by (auto simp: propose_def handleA_def split: sum.splits fault.splits)
  with append_on_ledger [OF q assms(2)] show ?thesis
    by (cases q) (auto intro: exI [of _ "[]"])
qed (use assms in \<open>auto simp: propose_def\<close>)

definition granted_on_ledger :: "governed_deps \<Rightarrow> intent_envelope \<Rightarrow> int \<Rightarrow> 's world \<Rightarrow> 's world \<Rightarrow> bool" where
  "granted_on_ledger d env now w w' \<longleftrightarrow> (if gd_ledger d
     then \<exists>trail row. rows (disk (ledger w')) = rows (disk (ledger w)) @ trail @ [row] \<and>
       set (map row_type trail) \<subseteq> {''intent_proposed''} \<and> row_type row = ''intent_authorized'' \<and>
       row_intent row = intent_id_str (intent_id env) \<and> row_key row = idempotency_key env \<and> row_at row = now
     else ledger w' = ledger w)"

lemma record_grant_row:
  assumes "record_grant (fee_facade d) env now tok w = (Inr (), w')" "reserved_total tok \<le> 0" "txn (ledger w) = None"
  shows "if gd_ledger d then \<exists>row. rows (disk (ledger w')) = rows (disk (ledger w)) @ [row] \<and>
      row_type row = ''intent_authorized'' \<and> row_intent row = intent_id_str (intent_id env) \<and>
      row_key row = idempotency_key env \<and> row_at row = now else ledger w' = ledger w"
proof (cases "gd_ledger d")
  case True
  then obtain a where "on_ledger (append_event ''intent_authorized'' (intent_id_str (intent_id env))
      (idempotency_key env) (snapshot_id env) now [(''max_cost_msat'', msat_value (max_cost_msat env))] (JObj [])) w = (Inr a, w')"
    using assms(1,2) by (auto simp: record_grant_def fee_facade_def bindA_eq_Inr)
  from append_on_ledger [OF this assms(3)] True show ?thesis by simp
qed (use assms(1) in \<open>simp add: record_grant_def fee_facade_def\<close>)

lemma authorize_recorded:
  assumes "authorize f env now rid w = (Inr dec, w')" "authorized dec" "reserve_sats env = 0"
  shows "\<exists>tok w1. ledger w1 = ledger w \<and> reserved_total tok = 0 \<and> record_grant f env now tok w1 = (Inr (), w')"
  using assms(1)
proof (cases rule: authorize_Inr)
  case (5 w1)
  have "ledger w1 = ledger w" using 5(4) by (auto simp: register_step_Inr)
  moreover obtain w2 where "ledger w2 = ledger w1" "record_grant f env now (make_token env now rid 0) w2 = (Inr (), w')"
    using authorize_spend_Inr(2) [OF 5(5) assms(2)] assms(3) by auto
  ultimately show ?thesis by (intro exI [of _ "make_token env now rid 0"] exI [of _ w2]) (simp add: make_token_def)
qed (use assms(2) in \<open>simp_all add: refused_def\<close>)

lemma free_intent: "bindE (fee_fields ch fee old reason rc now) (make_intent sha) = Inr env \<Longrightarrow> reserve_sats env = 0"
proof -
  assume "bindE (fee_fields ch fee old reason rc now) (make_intent sha) = Inr env"
  then obtain f where "fee_fields ch fee old reason rc now = Inr f" "make_intent sha f = Inr env"
    by (auto simp: bindE_def split: sum.splits)
  then have "msat_value (max_cost_msat env) = 0" by (simp add: fee_fields_free make_intent_cost)
  then have "max_cost_msat env = Msat 0" by (cases "max_cost_msat env") simp
  then show ?thesis by (simp add: reserve_sats_def to_sats_ceil_def ceil_div_def as_i64_id in_i64_alt)
qed

lemma inner_granted:
  assumes "governed_authorize_inner sha py d ch fee old reason rc now w = (Inr (True, code, t), w')"
  obtains env where "bindE (fee_fields ch fee old reason rc now) (make_intent sha) = Inr env"
    "\<not> gd_paused d" "authority_allows (gd_level d) ''fees''" "verdict (fee_facade d) env now w = None"
    "registry w' = registered (fee_facade d) env now w" "txn (ledger w) = None \<Longrightarrow> granted_on_ledger d env now w w'"
    "t = \<lparr>gt_authorized = True, gt_reason = code, gt_intent = intent_id_str (intent_id env), gt_key = idempotency_key env\<rparr>"
proof -
  from assms obtain env w2 dec where env: "bindE (fee_fields ch fee old reason rc now) (make_intent sha) = Inr env"
    and p: "propose py d env now w = (Inr (), w2)" and a: "authorize (fee_facade d) env now None w2 = (Inr dec, w')"
    and dec: "authorized dec" and t: "t = \<lparr>gt_authorized = True, gt_reason = code,
      gt_intent = intent_id_str (intent_id env), gt_key = idempotency_key env\<rparr>"
    unfolding governed_authorize_inner_def by (auto simp: bindA_eq_Inr)
  have same: "verdict (fee_facade d) env now w2 = verdict (fee_facade d) env now w"
    "registered (fee_facade d) env now w2 = registered (fee_facade d) env now w"
    using propose_frame [OF p] by (simp_all add: verdict_def registered_def split: option.split)
  have "granted_on_ledger d env now w w'" if idle: "txn (ledger w) = None"
  proof -
    obtain tok w3 where g: "ledger w3 = ledger w2" "reserved_total tok = 0"
      "record_grant (fee_facade d) env now tok w3 = (Inr (), w')"
      using authorize_recorded [OF a dec free_intent [OF env]] by blast
    have "gd_ledger d \<or> ledger w2 = ledger w" using p by (auto simp: propose_def split: if_splits)
    then show ?thesis
      using record_grant_row [OF g(3) eq_refl [OF g(2)]] propose_trail [OF p idle] g(1)
      by (cases "gd_ledger d") (auto simp: granted_on_ledger_def)
  qed
  with authorize_granted [OF a dec] env same t show thesis
    by (intro that [of env]) (simp_all add: fee_facade_def authority_ok_def verdict_def registered_def)
qed

text \<open>C22. The governed gate of a fee broadcast never touches the budget and never fails with an
  error: whatever error the authorization meets - of the intent, of the clock or of the ledger -
  is a refusal that names it and carries no trace. It grants only if the node is not paused, the
  configured authority covers fees and the registry accepts the intent, which then holds its
  slot; the trace names that intent; and with a ledger the authorization of that intent is on
  the disk, so a grant that cannot be recorded is not given. At most the proposal of the intent
  stands before it, which is best effort.\<close>

theorem fee_grant_passes_governor:
  assumes "governed_authorize_fee_broadcast sha py d ch fee old reason rc now w = (r, w')"
  shows "spend w' = spend w \<and> (\<forall>e. r \<noteq> Inl (Fail e)) \<and>
    (\<forall>msg. fst (governed_authorize_inner sha py d ch fee old reason rc now w) = Inl (Fail (EconError msg)) \<longrightarrow>
       r = Inr (False, ''internal_error ('' @ msg @ '')'', None)) \<and>
    (\<forall>code tr. r = Inr (True, code, tr) \<longrightarrow>
       \<not> gd_paused d \<and> authority_allows (gd_level d) ''fees'' \<and>
       (\<exists>env. bindE (fee_fields ch fee old reason rc now) (make_intent sha) = Inr env \<and>
          verdict (fee_facade d) env now w = None \<and> registry w' = registered (fee_facade d) env now w \<and>
          (txn (ledger w) = None \<longrightarrow> granted_on_ledger d env now w w') \<and>
          tr = Some \<lparr>gt_authorized = True, gt_reason = code, gt_intent = intent_id_str (intent_id env),
            gt_key = idempotency_key env\<rparr>))"
proof -
  let ?inner = "governed_authorize_inner sha py d ch fee old reason rc now"
  obtain q w1 where run: "?inner w = (q, w1)" by fastforce
  have w': "w' = w1"
    using assms run unfolding governed_authorize_fee_broadcast_def handleA_def
    by (auto split: sum.splits fault.splits)
  have st: "steps (\<lambda>w w'. spend w' = spend w) ?inner"
    unfolding governed_authorize_inner_def propose_def
    by (auto intro!: sp.steps_return sp.steps_bind sp.steps_handle spend_frame spend_frame_authorize
        split: sum.splits fault.splits)
  have q: "\<exists>t. q = Inr (True, code, t) \<and> tr = Some t" if "r = Inr (True, code, tr)" for code tr
    using assms run that unfolding governed_authorize_fee_broadcast_def handleA_def
    by (auto elim!: fail_closed.elims split: sum.splits fault.splits)
  have granted: "\<not> gd_paused d \<and> authority_allows (gd_level d) ''fees'' \<and>
    (\<exists>env. bindE (fee_fields ch fee old reason rc now) (make_intent sha) = Inr env \<and>
       verdict (fee_facade d) env now w = None \<and> registry w' = registered (fee_facade d) env now w \<and>
       (txn (ledger w) = None \<longrightarrow> granted_on_ledger d env now w w') \<and>
       tr = Some \<lparr>gt_authorized = True, gt_reason = code, gt_intent = intent_id_str (intent_id env),
         gt_key = idempotency_key env\<rparr>)" if r: "r = Inr (True, code, tr)" for code tr
  proof -
    from q [OF r] obtain t where t: "q = Inr (True, code, t)" "tr = Some t" by blast
    from run show ?thesis unfolding t(1) by (rule inner_granted) (use t(2) w' in auto)
  qed
  have "\<forall>e. r \<noteq> Inl (Fail e)" "\<forall>msg. fst (?inner w) = Inl (Fail (EconError msg)) \<longrightarrow>
      r = Inr (False, ''internal_error ('' @ msg @ '')'', None)"
    using assms run unfolding governed_authorize_fee_broadcast_def handleA_def
    by (auto split: sum.splits fault.splits)
  then show ?thesis using stepsD [OF st run] w' granted by simp
qed

definition sample_deps :: governed_deps where
  "sample_deps = \<lparr>gd_ledger = True, gd_registry = Some None, gd_paused = False, gd_level = Some ''fees''\<rparr>"

definition sample_fee_fields :: intent_fields where
  "sample_fee_fields = \<lparr>intent_type = ''SET_FEE'', snapshot_id = ''fee-broadcast-'' @ dec_int 1000, created_at = UnixTime 1000,
       expires_at = UnixTime 1600, target = ''1x1x1'', amount_msat = None, expected_benefit_msat = SignedMsat 0,
       max_cost_msat = Msat 0, capital_committed_msat = Msat 0, confidence_micro = Micro 0, reason_codes = [],
       explanation = \<lparr>exp_kind = ''fee_broadcast'', components =
         [(''old_fee_ppm'', JInt 0), (''new_fee_ppm'', JInt 100), (''reason'', JStr ''up''),
          (''controller_reason_code'', JStr [])]\<rparr>,
       preconditions = [], priority = 50, budget_bucket = ''fees'',
       origin_policy = ''fee_controller_governed'', reversible = True\<rparr>"

lemma sample_fee_fields: "fee_fields ''1x1x1'' 100 None ''up'' None 1000 = Inr sample_fee_fields"
  by (simp add: fee_fields_def sample_fee_fields_def bindE_def time_new_def check_int_def chk_i64_def in_i64_alt
      u63_max_def i64_bounds as_i64_id msat_new_def msat_from_checked_def micro_new_def)

definition sample_fee_env :: intent_envelope where
  "sample_fee_env = derived_envelope const_sha sample_fee_fields"

lemma sample_fee_env:
  "expires_at sample_fee_env = UnixTime 1600" "max_cost_msat sample_fee_env = Msat 0"
  "intent_type sample_fee_env = ''SET_FEE''"
  by (simp_all add: sample_fee_env_def derived_envelope_def sample_fee_fields_def intent_fields.defs)

lemma sample_fee_intent: "make_intent const_sha sample_fee_fields = Inr sample_fee_env"
  unfolding make_intent_derived [OF const_sha_hex] sample_fee_env_def
  by (simp add: bindE_def validate_def derived_envelope_def sample_fee_fields_def intent_fields.defs INTENT_TYPES_def)

lemma fees_level: "trim ''fees'' = ''fees''" "to_lowercase ''fees'' = ''fees''"
  by (rule trim_printable; simp add: printable_def) (simp add: lower_eval)

text \<open>An append that goes through.\<close>

lemma append_runs:
  assumes "c = \<lparr>disk = \<lparr>rows = rs, last_id = n\<rparr>, txn = None, script = []\<rparr>" "n \<noteq> i64_max" "ty \<in> set EVENT_TYPES"
    and "i \<noteq> []" "k \<noteq> []" "cy \<noteq> []" "0 \<le> t"
    and "python_dumps json_float_error (JObj (map (\<lambda>(k, v). (k, JInt v)) am)) = Inr aj"
    and "python_dumps json_float_error de = Inr dj"
  obtains row where "append_event ty i k cy t am de c =
    (Inr (n + 1), \<lparr>disk = \<lparr>rows = rs @ [row], last_id = n + 1\<rparr>, txn = None, script = []\<rparr>)"
  using assms(3-) by (simp add: assms(1,2) append_event_def connect_def map_errA_def bindA_def query_def pop_def exec_def
    insert_row_def current_def Sqlite.store_def)

lemma sample_grant:
  "\<exists>tr w'. governed_authorize_fee_broadcast const_sha (\<lambda>x. []) sample_deps ''1x1x1'' 100 None
     ''up'' None 1000 sample_world = (Inr (True, [], tr), w')"
proof -
  let ?i = "intent_id_str (intent_id sample_fee_env)" and ?k = "idempotency_key sample_fee_env"
    and ?s = "snapshot_id sample_fee_env"
  have ids: "?i \<noteq> []" "?k \<noteq> []" "?s \<noteq> []"
    by (simp_all add: sample_fee_env_def derived_envelope_def sample_fee_fields_def intent_fields.defs intent_key_def const_sha_def)
  obtain dj where dj: "python_dumps json_float_error (proposed_details (\<lambda>x. []) sample_fee_env) = Inr dj"
    by (simp add: proposed_details_def json_object_def bindE_def)
  have kinds: "''intent_proposed'' \<in> set EVENT_TYPES" "''intent_authorized'' \<in> set EVENT_TYPES"
    by (simp_all add: EVENT_TYPES_def)
  have room: "0 \<noteq> i64_max" "1 \<noteq> i64_max" by (simp_all add: i64_bounds)
  obtain aj where aj: "python_dumps json_float_error (JObj (map (\<lambda>(k, v). (k, JInt v)) [])) = Inr aj"
    by (simp add: bindE_def)
  obtain aj2 where aj2: "python_dumps json_float_error (JObj (map (\<lambda>(k, v). (k, JInt v)) [(''max_cost_msat'', 0)])) = Inr aj2"
    by (simp add: bindE_def)
  obtain dj2 where dj2: "python_dumps json_float_error (JObj []) = Inr dj2"
    by (simp add: bindE_def)
  obtain row1 where r1: "append_event ''intent_proposed'' ?i ?k ?s 1000 [] (proposed_details (\<lambda>x. []) sample_fee_env) empty_ledger =
      (Inr (0 + 1), \<lparr>disk = \<lparr>rows = [] @ [row1], last_id = 0 + 1\<rparr>, txn = None, script = []\<rparr>)"
    by (rule append_runs [OF empty_ledger_def room(1) kinds(1) ids zero_le_numeral aj dj])
  obtain row2 where r2: "append_event ''intent_authorized'' ?i ?k ?s 1000 [(''max_cost_msat'', 0)] (JObj [])
      \<lparr>disk = \<lparr>rows = [row1], last_id = 1\<rparr>, txn = None, script = []\<rparr> =
      (Inr (1 + 1), \<lparr>disk = \<lparr>rows = [row1] @ [row2], last_id = 1 + 1\<rparr>, txn = None, script = []\<rparr>)"
    by (rule append_runs [OF refl room(2) kinds(2) ids zero_le_numeral aj2 dj2])
  let ?w = "sample_world\<lparr>ledger := \<lparr>disk = \<lparr>rows = [row1], last_id = 1\<rparr>, txn = None, script = []\<rparr>\<rparr>"
  have p: "propose (\<lambda>x. []) sample_deps sample_fee_env 1000 sample_world = (Inr (), ?w)"
    using r1 by (simp add: propose_def sample_deps_def sample_world_def on_ledger_def handleA_def)
  obtain tok w3 where a: "authorize (fee_facade sample_deps) sample_fee_env 1000 None ?w =
      (Inr \<lparr>authorized = True, token = Some tok, reason_code = []\<rparr>, w3)"
    using r2
    by (simp add: bindA_def sample_fee_env on_ledger_def
      sample_deps_def authorize_def fee_facade_def sample_world_def authority_ok_def time_new_def bindE_def
        check_int_def u63_max_def i64_bounds as_i64_id in_i64_alt is_expired_def register_step_def
        on_registry_def check_and_register_def prune_def conflict_code_def active_on_def
        authorize_spend_def on_spend_def reserve_sats_def to_sats_ceil_def ceil_div_def
        checked_op_def checked_i64_def record_grant_def Let_def
        authority_allows_def fees_level authority_level_of_def AUTHORITY_LEVELS_def make_token_def)
  show ?thesis
    by (simp add: governed_authorize_fee_broadcast_def governed_authorize_inner_def handleA_def bindA_def bindE_def
        sample_fee_fields sample_fee_intent p a)
qed

theorem fee_grant_passes_governor_witness:
  "\<exists>tr w'. governed_authorize_fee_broadcast const_sha (\<lambda>x. []) sample_deps ''1x1x1'' 100 None
     ''up'' None 1000 sample_world = (Inr (True, [], tr), w') \<and>
     authority_allows (gd_level sample_deps) ''fees'' \<and> \<not> gd_paused sample_deps \<and>
     granted_on_ledger sample_deps sample_fee_env 1000 sample_world w'"
proof -
  obtain tr w' where g: "governed_authorize_fee_broadcast const_sha (\<lambda>x. []) sample_deps ''1x1x1'' 100 None
     ''up'' None 1000 sample_world = (Inr (True, [], tr), w')"
    using sample_grant by blast
  have "bindE (fee_fields ''1x1x1'' 100 None ''up'' None 1000) (make_intent const_sha) = Inr sample_fee_env"
    by (simp add: sample_fee_fields sample_fee_intent bindE_def)
  with fee_grant_passes_governor [OF g] g show ?thesis by (auto simp: sample_world_def empty_ledger_def)
qed

end
