(* ===== verification/Spec2Isabelle.thy ===== *)
theory Spec2Isabelle
  imports Governor Reconcile Executor Cooldowns RebalanceEv Planner RouterLayers EngineRounds FeeRails FeeTheorems FeeExecution
begin

text \<open>
  A model of \<open>cl-revenue-ops-r\<close>, the revenue-operations plugin for Core Lightning, and
  proofs that its money-moving core keeps its promises. The paths below are relative to
  \<open>src/crates\<close>.

  \<^bold>\<open>The parts and how they work together.\<close> Controllers propose typed intents; the arbiter
  removes conflicting ones and the governor turns one into an authorization, after asking
  the authority ladder, the registry of active intents and the budget rail, and records
  what it did in the event ledger. The reconciler compares the ledger with the rail's
  rows and appends resolutions. The rebalance side plans pairs of channels, gates them on
  their expected value and on their failure history, and pays a circular route through
  the executor, which records what it learned about failed segments; the rebalance engine
  drives all of this: a cycle resolves pending payments, plans, prices and pays, and holds
  a budget reservation around every payment. The fee side computes a target within its
  rails; a process that was armed for it, after the Python controller has said that it is
  off, broadcasts the change, with an intent on disk before and a result after, and stops
  for good when the outcome of a request is unknown.

  \<^bold>\<open>Where what is.\<close>
  \<^item> \<open>Prelude\<close>: fallible results (\<open>Fail\<close> an error value, \<open>Panic\<close> an overflow or an explicit
    panic), \<open>i64\<close> as integers with their range checked where the code's operators would
    overflow, byte strings with the standard library's \<open>trim\<close>, \<open>split\<close> and \<open>parse\<close>.
  \<^item> \<open>OrdMap\<close>: \<open>BTreeMap\<close> as a sorted association list, with the locale \<open>ordered_map\<close>.
  \<^item> \<open>F64\<close>, \<open>F64Facts\<close>: binary64 values and bit-exact arithmetic, \<open>py_round\<close> of
    \<open>revops-econ/src/pyfloat.rs\<close>, and the monotonicity of rounding the bounds rest on.
  \<^item> \<open>Json\<close>, \<open>Pyjson\<close>: \<open>serde_json::Value\<close>, the canonical writer of
    \<open>revops-core/src/canonical.rs\<close>, Python's \<open>json.dumps\<close>, and the order-preserving tree of
    \<open>revops-fees/src/pyjson.rs\<close>.
  \<^item> \<open>EconTypes\<close>, \<open>Reason\<close>, \<open>Intents\<close>, \<open>Arbiter\<close>: \<open>revops-econ/src/types.rs\<close>, \<open>reason.rs\<close>,
    \<open>intents.rs\<close>, \<open>arbiter.rs\<close> and \<open>revops-core/src/scid.rs\<close>, \<open>msat.rs\<close>.
  \<^item> \<open>Sqlite\<close>: the connection the database code talks to, with transactions and a script of
    engine errors; \<open>Ledger\<close> (\<open>revops-econ/src/ledger.rs\<close>), \<open>Budget\<close>
    (\<open>revops-db/src/budget.rs\<close>) and \<open>Reconcile\<close> (\<open>revops-econ/src/reconcile.rs\<close>) run on it.
  \<^item> \<open>Governor\<close>: \<open>revops-econ/src/governor.rs\<close>, composed with the registry, the ledger and
    the rail.
  \<^item> \<open>RebalanceTypes\<close>, \<open>Segstore\<close>, \<open>Executor\<close>, \<open>Cooldowns\<close>, \<open>RebalanceEv\<close>, \<open>Planner\<close>:
    \<open>errors.rs\<close>, \<open>modes.rs\<close>, \<open>types.rs\<close>, \<open>segstore.rs\<close>, \<open>executor.rs\<close>, \<open>cooldowns.rs\<close>, \<open>ev.rs\<close>
    and \<open>planner.rs\<close> of \<open>revops-rebalance/src\<close>.
  \<^item> \<open>Wp\<close>: weakest preconditions of actions and the locale of step relations; \<open>Router\<close> and
    \<open>RouterLayers\<close>: \<open>router.rs\<close>, the pricing of a circular route and the life of the
    throwaway layers, read off the calls made as operations on an abstract askrene.
  \<^item> \<open>EngineBase\<close>, \<open>Engine\<close>, \<open>EngineCycle\<close>: \<open>engine.rs\<close> and \<open>route_policy.rs\<close>. Every call the
    engine makes across a seam (store, router, executor, policies, clock) is logged in the
    order it is made, and the replies may depend on the log. \<open>EngineDemo\<close> is a concrete
    node; \<open>EngineMoney\<close> (one execution), \<open>EngineSafety\<close> (the guard and the ladder of partial
    amounts), \<open>EngineSweep\<close> (pending payments) and \<open>EngineRounds\<close> (a cycle) hold the proofs, which read properties off the
    log by the rules of the locale \<open>call_log\<close>.
  \<^item> \<open>F64Round\<close>, \<open>FeeRails\<close>: the conversions of a float to an integer, and
    \<open>revops-fees/src/profiles.rs\<close> and \<open>rails.rs\<close>.
  \<^item> \<open>FeeRunway\<close>: the tables and statements of \<open>revops-db/src/fee_runway.rs\<close> the live fee path
    uses; \<open>FeeAuthority\<close>: \<open>python_authority.rs\<close>, \<open>cutover_arm.rs\<close> and \<open>fee_mode.rs\<close> of
    \<open>revops/src\<close>, the pure parts; \<open>FeeLive\<close>: \<open>fee_execution.rs\<close> and the startup kernel of
    \<open>main.rs\<close>, as effects that a process may not live to see; \<open>FeeSafety\<close> and
    \<open>FeeTheorems\<close>: histories of processes and what holds of them.
  \<^item> \<open>FeeExecution\<close>: \<open>revops-fees/src/execution.rs\<close>, the decision on one fee change, the
    parameters of its call and its authorization by the governor.

  \<^bold>\<open>How state and effects are modelled.\<close> An action takes a state and returns the result of
  the code with the state it leaves behind, also when it fails. The engine of the
  database, the node's RPC, the hash function and the reader and writer of third-party
  JSON are parameters over which the theorems quantify. A mutex of the code is the
  atomicity of one action. Loops are structural recursion on the list the code iterates
  over, so there is no fuel anywhere; the functions are total and a panic is a value.

  \<^bold>\<open>What the lemmas show.\<close> Executor: money moves only on a valid route, an unresolved
  payment is never cancelled, a failed one is cleaned up, a dry run is silent. Router: a
  priced route passes the executor's checks within its quoted price, a cycle leaks no
  layer, no query can pass through our own channels. Engine: never
  two payments that both may settle, every reservation settled once and never exceeded, no
  payment for a pair a policy blocks, the in-flight guard released however an execution
  ends; in a cycle every candidate is a planned pair priced by a logged answer of the router
  that the gate let pass, every worker pays from a reservation of its own, and a parked
  payment is closed once its outcome is known. Budget and
  governor: the rail never overspends, settled rows are final, a refusal leaves no trace,
  a grant is backed on disk and has passed every check. Ledger and reconciler: the ledger
  is append-only, replay conserves money and is local to a key, one sweep converges.
  Planner: pairs are sound, no better pair is left out, every channel is accounted for.
  Arbiter: survivors do not conflict, one grant per key. Codecs: round trips and
  injective preimages. Fees and cooldowns: rounding directions and bounds. Fee rails: a
  damped fee stays within its step and reaches its target, silence never raises a fee. Fee
  execution: a decided fee is within its limits, a recorded call carries it, a grant has
  passed the governor, costs nothing and is on the ledger. Live fees: over every history of
  processes that may die anywhere, a request of unknown outcome is the last one sent, every
  request sent has its intent on disk and is sent once, an arm gives one session, an
  authorization has passed every gate between two readings of the authority, a restart
  quarantines what it cannot account for, and no use of the store breaks the identities of
  its rows or changes a settled rebalance attempt.

  \<^bold>\<open>Not modelled.\<close> \<open>str::to_lowercase\<close> is exact on ASCII text only; a not-a-number has no
  sign or payload; the texts of formatted error values are kept where code branches on
  them or stores them and dropped elsewhere. The workers of a cycle run as whole actions
  one after the other; which results arrive before the deadline, and in which order, is a
  parameter; locks are never poisoned. Two batches of one
  broadcaster run one after the other. The controllers that compute fees (the Thompson
  sampler, market signals and the cycle that composes them), the commit of a fee cycle and
  the mempool tables, the analytics, the capital planner, the evidence readers and the
  plugin crate with its RPC surface, scheduling and wiring are outside the model.
\<close>

end
